(* ===== verification/Base.thy ===== *)
theory Base
  imports Main "HOL-Library.Multiset" "HOL-Library.AList" "HOL-Library.List_Lexorder" "HOL-Library.Char_ord"
begin

text \<open>
  The prelude of the development. It holds the exception classes of the program as one
  \<open>error\<close> datatype, the result type \<open>error + 'a\<close> with its sequencing operator, the
  parts of Python's \<open>str\<close> and \<open>dict\<close> that the sources use, and the text validation of
  \<^verbatim>\<open>src/src/study_agent/domain/_validation.py\<close>.

  A Python \<open>str\<close> is a \<^typ>\<open>string\<close>; its characters stand for the code points U+0000 to
  U+00FF, ordered by code point as Python orders them. A \<open>dict\<close> is an association list in
  insertion order with distinct keys: \<^const>\<open>AList.update\<close> overwrites in place or appends,
  as item assignment does. Exceptions keep their class; their messages are not modelled.
\<close>

section \<open>Automation collections\<close>

named_theorems res_simps "sequencing of results"
named_theorems dict_simps "association lists used as Python dictionaries"
named_theorems codec_simps "decoding of encoded values"

section \<open>Errors and results\<close>

datatype error =
    ValueError | TypeError | KeyError | LookupError | OverflowError | PermissionError
  | IntegrityError
  | EventBatchError
  | SequenceConflictError string int int
  | ProjectionConsistencyError
  | ProjectionSequenceError
  | ReducerRegistrationError
  | UnknownEventSchemaError
  | PayloadValidationError
  | CourseNotFoundError string
  | CourseCommandError
  | CourseConflictError
  | RetryableCourseConflictError
  | SchemaValidationError
  | SessionNotFoundError string string
  | AnswerNotFoundError string string
  | SessionCommandError
  | IdempotencyConflictError
  | RetryableSessionConflictError
  | StateWritePolicyError
  | StudyContextCommandError
  | StudyContextConflictError
  | RetryableStudyContextConflictError
  | StopIteration
  | RuntimeError

type_synonym 'a result = "error + 'a"

definition res_bind :: "'a result \<Rightarrow> ('a \<Rightarrow> 'b result) \<Rightarrow> 'b result" where
  "res_bind m f = (case m of Inl e \<Rightarrow> Inl e | Inr x \<Rightarrow> f x)"

lemma res_bind_Inl [simp]: "res_bind (Inl e) f = Inl e"
  by (simp add: res_bind_def)

lemma res_bind_Inr [simp]: "res_bind (Inr x) f = f x"
  by (simp add: res_bind_def)

lemma res_bind_eq_Inr [res_simps]:
  "res_bind m f = Inr y \<longleftrightarrow> (\<exists>x. m = Inr x \<and> f x = Inr y)"
  by (cases m) simp_all

lemma res_bind_eq_Inl [res_simps]:
  "res_bind m f = Inl e \<longleftrightarrow> m = Inl e \<or> (\<exists>x. m = Inr x \<and> f x = Inl e)"
  by (cases m) simp_all

lemma res_bind_map_sum: "res_bind (map_sum id h m) f = res_bind m (\<lambda>x. f (h x))"
  by (cases m) simp_all

lemma res_bind_assoc: "res_bind (res_bind m f) g = res_bind m (\<lambda>x. res_bind (f x) g)"
  by (cases m) simp_all

lemma res_bind_cong [fundef_cong]:
  "m = m' \<Longrightarrow> (\<And>x. m' = Inr x \<Longrightarrow> f x = f' x) \<Longrightarrow> res_bind m f = res_bind m' f'"
  by (cases m') simp_all

text \<open>\<open>map_res f xs\<close> is a comprehension \<^verbatim>\<open>tuple(f(x) for x in xs)\<close> whose body may raise: the
  first error ends it.\<close>

fun map_res :: "('a \<Rightarrow> 'b result) \<Rightarrow> 'a list \<Rightarrow> 'b list result" where
  "map_res f [] = Inr []"
| "map_res f (x # xs) = res_bind (f x) (\<lambda>y. res_bind (map_res f xs) (\<lambda>ys. Inr (y # ys)))"

lemma map_res_all_Inr [res_simps]:
  "(\<And>x. x \<in> set xs \<Longrightarrow> f x = Inr (g x)) \<Longrightarrow> map_res f xs = Inr (map g xs)"
  by (induction xs) simp_all

lemma map_res_Inr_iff: "map_res f xs = Inr ys \<longleftrightarrow> list_all2 (\<lambda>x y. f x = Inr y) xs ys"
  by (induction xs arbitrary: ys) (auto simp: res_simps list_all2_Cons1)

lemma map_res_map: "map_res f (map g xs) = map_res (f \<circ> g) xs"
  by (induction xs) simp_all

lemma map_res_cong [fundef_cong]:
  "xs = ys \<Longrightarrow> (\<And>x. x \<in> set ys \<Longrightarrow> f x = g x) \<Longrightarrow> map_res f xs = map_res g ys"
proof (induction ys arbitrary: xs)
  case Nil
  then show ?case by simp
next
  case (Cons y ys)
  then show ?case by auto
qed

text \<open>A reduction whose step may raise: \<^verbatim>\<open>for x in xs: acc = f(acc, x)\<close>.\<close>

fun fold_res :: "('a \<Rightarrow> 's \<Rightarrow> 's result) \<Rightarrow> 'a list \<Rightarrow> 's \<Rightarrow> 's result" where
  "fold_res f [] s = Inr s"
| "fold_res f (x # xs) s = res_bind (f x s) (\<lambda>s'. fold_res f xs s')"

lemma fold_res_append:
  "fold_res f (xs @ ys) s = res_bind (fold_res f xs s) (\<lambda>s'. fold_res f ys s')"
proof (induction xs arbitrary: s)
  case (Cons x xs)
  then show ?case by (cases "f x s") simp_all
qed simp

lemma fold_res_cong [fundef_cong]:
  "xs = ys \<Longrightarrow> s = t \<Longrightarrow> (\<And>x u. x \<in> set ys \<Longrightarrow> f x u = g x u) \<Longrightarrow>
   fold_res f xs s = fold_res g ys t"
proof (induction ys arbitrary: xs s t)
  case Nil
  then show ?case by simp
next
  case (Cons y ys)
  then show ?case by (auto intro!: res_bind_cong)
qed

text \<open>The error of an operation replaced: \<^verbatim>\<open>except Exception as error: raise E from error\<close>.\<close>

definition map_error :: "(error \<Rightarrow> error) \<Rightarrow> 'a result \<Rightarrow> 'a result" where
  "map_error h m = (case m of Inl e \<Rightarrow> Inl (h e) | Inr x \<Rightarrow> Inr x)"

lemma map_error_Inl [simp]: "map_error h (Inl e) = Inl (h e)"
  and map_error_Inr [simp]: "map_error h (Inr x) = Inr x"
  by (simp_all add: map_error_def)

lemma map_error_eq_Inr [res_simps]: "map_error h m = Inr x \<longleftrightarrow> m = Inr x"
  by (cases m) simp_all

section \<open>Text\<close>

text \<open>\<^verbatim>\<open>str.isspace\<close> and the set \<^verbatim>\<open>str.strip\<close> removes, for the code points below 256.\<close>

definition py_whitespace :: "char list" where
  "py_whitespace = [CHR '' '', CHR 0x09, CHR 0x0A, CHR 0x0B, CHR 0x0C, CHR 0x0D,
     CHR 0x1C, CHR 0x1D, CHR 0x1E, CHR 0x1F, CHR 0x85, CHR 0xA0]"

definition is_space :: "char \<Rightarrow> bool" where
  "is_space c = (c \<in> set py_whitespace)"

definition lstrip :: "string \<Rightarrow> string" where
  "lstrip s = dropWhile is_space s"

definition rstrip :: "string \<Rightarrow> string" where
  "rstrip s = rev (dropWhile is_space (rev s))"

definition strip :: "string \<Rightarrow> string" where
  "strip s = rstrip (lstrip s)"

text \<open>A text is trimmed when it is not empty and neither end is white space; that is the
  condition of \<^verbatim>\<open>value and value == value.strip()\<close>.\<close>

definition is_text :: "string \<Rightarrow> bool" where
  "is_text s = (s \<noteq> [] \<and> s = strip s)"

lemma dropWhile_eq_self: "dropWhile P xs = xs \<longleftrightarrow> (xs = [] \<or> \<not> P (hd xs))"
proof (cases xs)
  case (Cons y ys)
  have "length (dropWhile P ys) \<le> length ys" by (rule length_dropWhile_le)
  then have "dropWhile P ys \<noteq> y # ys" by auto
  with Cons show ?thesis by simp
qed simp

lemma length_strip_parts: "length (rstrip s) \<le> length s" "length (lstrip s) \<le> length s"
proof -
  show "length (rstrip s) \<le> length s"
    using length_dropWhile_le [of is_space "rev s"] by (simp add: rstrip_def)
  show "length (lstrip s) \<le> length s"
    by (simp add: lstrip_def length_dropWhile_le)
qed

lemma strip_eq_self_iff:
  "s = strip s \<longleftrightarrow> s = [] \<or> (\<not> is_space (hd s) \<and> \<not> is_space (last s))"
proof (cases "s = []")
  case True
  then show ?thesis by (simp add: strip_def lstrip_def rstrip_def)
next
  case False
  show ?thesis
  proof
    assume eq: "s = strip s"
    have "length s \<le> length (lstrip s)"
      using eq length_strip_parts(1) [of "lstrip s"] by (simp add: strip_def)
    then have l: "lstrip s = s"
      using takeWhile_dropWhile_id [of is_space s]
      by (metis append_self_conv2 lstrip_def length_append length_greater_0_conv
          less_add_same_cancel2 not_le)
    with eq have r: "rstrip s = s" by (simp add: strip_def)
    have "\<not> is_space (hd s)"
      using l False by (simp add: lstrip_def dropWhile_eq_self)
    moreover have "dropWhile is_space (rev s) = rev s"
      using r unfolding rstrip_def by (metis rev_rev_ident)
    then have "\<not> is_space (last s)"
      using False by (simp add: dropWhile_eq_self hd_rev)
    ultimately show "s = [] \<or> (\<not> is_space (hd s) \<and> \<not> is_space (last s))" by simp
  next
    assume "s = [] \<or> (\<not> is_space (hd s) \<and> \<not> is_space (last s))"
    with False have "dropWhile is_space s = s" "dropWhile is_space (rev s) = rev s"
      by (simp_all add: dropWhile_eq_self hd_rev)
    then show "s = strip s" by (simp add: strip_def lstrip_def rstrip_def)
  qed
qed

lemma is_text_iff:
  "is_text s \<longleftrightarrow> s \<noteq> [] \<and> \<not> is_space (hd s) \<and> \<not> is_space (last s)"
  using strip_eq_self_iff [of s] by (auto simp: is_text_def)

lemma is_text_Cons: "is_text (c # cs) \<longleftrightarrow> \<not> is_space c \<and> \<not> is_space (last (c # cs))"
  by (simp add: is_text_iff)

text \<open>Facts that evaluate the text conditions on literals.\<close>

lemmas text_eval = is_text_Cons is_space_def py_whitespace_def

lemma is_text_append: "a \<noteq> [] \<Longrightarrow> \<not> is_space (hd a) \<Longrightarrow> is_text b \<Longrightarrow> is_text (a @ b)"
  by (simp add: is_text_iff)

lemma strip_idem: "strip (strip s) = strip s"
proof -
  have "strip s = [] \<or> (\<not> is_space (hd (strip s)) \<and> \<not> is_space (last (strip s)))"
  proof (cases "strip s = []")
    case False
    let ?l = "lstrip s"
    obtain k where pre: "?l = strip s @ k"
      unfolding strip_def rstrip_def
      by (metis rev_append rev_rev_ident takeWhile_dropWhile_id)
    have "?l \<noteq> []" using False pre by auto
    then have "\<not> is_space (hd ?l)"
      unfolding lstrip_def by (simp add: hd_dropWhile dropWhile_eq_Nil_conv)
    then have "\<not> is_space (hd (strip s))" using pre False by (cases "strip s") auto
    moreover have "\<not> is_space (last (strip s))"
      using False unfolding strip_def rstrip_def
      by (simp add: last_rev hd_dropWhile dropWhile_eq_Nil_conv)
    ultimately show ?thesis by simp
  qed simp
  then show ?thesis using strip_eq_self_iff [of "strip s"] by simp
qed

definition require_text :: "string \<Rightarrow> unit result" where
  "require_text s = (if \<not> is_text s then Inl ValueError else Inr ())"

lemma require_text_Inr [res_simps]: "require_text s = Inr u \<longleftrightarrow> is_text s"
  by (auto simp: require_text_def)

lemma require_text_ok [simp]: "is_text s \<Longrightarrow> require_text s = Inr ()"
  by (simp add: require_text_def)

text \<open>Construction of an \<^verbatim>\<open>Identifier\<close>: the value, after \<^verbatim>\<open>require_text\<close>.\<close>

definition mk_identifier :: "string \<Rightarrow> string result" where
  "mk_identifier s = res_bind (require_text s) (\<lambda>_. Inr s)"

lemma mk_identifier_Inr [res_simps]: "mk_identifier s = Inr t \<longleftrightarrow> is_text s \<and> t = s"
  by (auto simp: mk_identifier_def res_simps)

lemma mk_identifier_ok [simp]: "is_text s \<Longrightarrow> mk_identifier s = Inr s"
  by (simp add: mk_identifier_def)

section \<open>Dictionaries\<close>

abbreviation keys_of :: "('k \<times> 'v) list \<Rightarrow> 'k list" where
  "keys_of kvs \<equiv> map fst kvs"

definition wf_dict :: "('k \<times> 'v) list \<Rightarrow> bool" where
  "wf_dict kvs = distinct (keys_of kvs)"

text \<open>\<^verbatim>\<open>frozenset(d) == keys\<close>: the key set of a dictionary is exactly the expected one.\<close>

definition has_keys :: "('k \<times> 'v) list \<Rightarrow> 'k list \<Rightarrow> bool" where
  "has_keys kvs ks = (set (keys_of kvs) = set ks)"

lemma has_keys_eval:
  "has_keys kvs ks \<longleftrightarrow> list_all (\<lambda>k. k \<in> set ks) (keys_of kvs) \<and> list_all (\<lambda>k. k \<in> set (keys_of kvs)) ks"
  by (auto simp: has_keys_def list_all_iff)

lemma wf_dict_Nil [simp]: "wf_dict []"
  by (simp add: wf_dict_def)

lemma wf_dict_update [simp]: "wf_dict kvs \<Longrightarrow> wf_dict (AList.update k v kvs)"
  by (simp add: wf_dict_def distinct_update)

lemma keys_update [simp]: "fst ` set (AList.update k v kvs) = insert k (fst ` set kvs)"
  by (induction kvs) auto

lemma map_of_sort_key: "wf_dict kvs \<Longrightarrow> map_of (sort_key fst kvs) = map_of kvs"
proof -
  assume wf: "wf_dict kvs"
  have "mset (keys_of (sort_key fst kvs)) = mset (keys_of kvs)" by simp
  then have "distinct (keys_of (sort_key fst kvs))"
    using wf by (metis wf_dict_def mset_eq_imp_distinct_iff)
  then show ?thesis
    using wf by (intro map_of_inject_set [THEN iffD2]) (simp_all add: wf_dict_def)
qed

section \<open>Checks and permutations\<close>

definition require :: "bool \<Rightarrow> unit result" where
  "require b = (if \<not> b then Inl ValueError else Inr ())"

definition is_ok :: "'a result \<Rightarrow> bool" where
  "is_ok m = (case m of Inl _ \<Rightarrow> False | Inr _ \<Rightarrow> True)"

lemma map_res_decide:
  assumes "\<And>x e. x \<in> set xs \<Longrightarrow> f x = Inl e \<Longrightarrow> e = err"
  shows "map_res f xs = (if \<forall>x \<in> set xs. is_ok (f x) then Inr (map (projr \<circ> f) xs) else Inl err)"
  using assms
proof (induction xs)
  case (Cons x xs)
  have IH: "map_res f xs = (if \<forall>x \<in> set xs. is_ok (f x) then Inr (map (projr \<circ> f) xs) else Inl err)"
    by (rule Cons.IH) (rule Cons.prems, simp_all)
  show ?case using IH Cons.prems(1) [of x] by (cases "f x") (auto simp: is_ok_def)
qed simp

lemma map_res_mset:
  assumes "\<And>x e. x \<in> set xs \<Longrightarrow> f x = Inl e \<Longrightarrow> e = err" and "\<And>x. x \<in> set xs \<Longrightarrow> f (h x) = f x"
    and "mset ys = image_mset h (mset xs)"
  shows "(\<exists>us vs. map_res f ys = Inr us \<and> map_res f xs = Inr vs \<and> mset us = mset vs) \<or>
    map_res f ys = Inl err \<and> map_res f xs = Inl err"
proof -
  have ys: "set ys = h ` set xs" using assms(3) by (metis set_image_mset set_mset_mset)
  have "map_res f ys = (if \<forall>x \<in> set ys. is_ok (f x) then Inr (map (projr \<circ> f) ys) else Inl err)"
    using assms ys by (intro map_res_decide) auto
  moreover have "map_res f xs = (if \<forall>x \<in> set xs. is_ok (f x) then Inr (map (projr \<circ> f) xs) else Inl err)"
    using assms by (intro map_res_decide) auto
  moreover have "mset (map (projr \<circ> f) ys) = mset (map (projr \<circ> f) xs)"
    using assms(2,3) by (auto simp: multiset.map_comp intro!: image_mset_cong)
  ultimately show ?thesis using ys assms(2) by auto
qed

lemma sort_mset: "mset xs = mset ys \<Longrightarrow> sort xs = sort (ys :: 'a :: linorder list)"
  by (metis mset_sort properties_for_sort sorted_sort)

lemma ifE_Inr:
  assumes "(if b then Inr x else m) = Inr y" and "b \<Longrightarrow> x = y \<Longrightarrow> P" and "m = Inr y \<Longrightarrow> P"
  shows P
  using assms by (cases b) simp_all

lemma is_ok_iff: "is_ok m \<longleftrightarrow> (\<exists>x. m = Inr x)"
  by (cases m) (simp_all add: is_ok_def)

text \<open>A record passes the checks of its constructor, which then returns it.\<close>

definition built :: "('a \<Rightarrow> 'a result) \<Rightarrow> 'a \<Rightarrow> bool" where
  "built mk x = (mk x = Inr x)"

lemma builtD: "built mk x \<Longrightarrow> mk x = Inr x"
  by (simp add: built_def)

text \<open>Operations whose only error is \<^verbatim>\<open>ValueError\<close>.\<close>

named_theorems value_error_intros "operations that raise ValueError only"

definition value_error :: "'a result \<Rightarrow> bool" where
  "value_error m = (\<forall>e. m = Inl e \<longrightarrow> e = ValueError)"

lemma value_error_base [value_error_intros]:
  "value_error (Inl ValueError)" "value_error (Inr x)" "value_error (require b)" "value_error (require_text s)"
  "value_error (mk_identifier s)" "value_error (map_error (\<lambda>_. ValueError) m)"
  by (auto simp: value_error_def require_def require_text_def mk_identifier_def res_bind_eq_Inl map_error_def split: sum.splits)

lemma value_error_bind [value_error_intros]:
  "value_error m \<Longrightarrow> (\<And>x. value_error (f x)) \<Longrightarrow> value_error (res_bind m f)"
  by (cases m) (auto simp: value_error_def)

lemma value_error_map_res [value_error_intros]: "(\<And>x. value_error (f x)) \<Longrightarrow> value_error (map_res f xs)"
  by (induction xs) (auto intro!: value_error_intros)

lemma value_error_if [value_error_intros]: "value_error m \<Longrightarrow> value_error n \<Longrightarrow> value_error (if b then m else n)"
  by simp

lemma value_error_option [value_error_intros]:
  "value_error m \<Longrightarrow> (\<And>x. value_error (f x)) \<Longrightarrow> value_error (case v of None \<Rightarrow> m | Some x \<Rightarrow> f x)"
  by (cases v) simp_all

end
