(* ===== verification/Json.thy ===== *)
theory Json
  imports Base "HOL-Library.Word"
begin

text \<open>
  JSON values and their canonical text: the data of every event payload and of every
  projection state, and the two functions of \<^verbatim>\<open>src/src/study_agent/state/serialization.py\<close>
  that print and read them (\<^verbatim>\<open>canonical_json_bytes\<close>, \<^verbatim>\<open>canonical_json_object\<close>), with the part
  of Python's \<^verbatim>\<open>json\<close> module and of its UTF-8 codec they rest on.

  A mapping is an association list in insertion order, a tuple a list. JSON numbers are
  integers: no codec, reducer or view of the modelled components reads or writes a float,
  and a text with a fraction or an exponent is rejected here.
  The parser has a fuel argument; \<open>parse_fuel\<close> below shows that two units per
  character (and one more) are always enough, so no text is rejected for lack of it.
\<close>

section \<open>Values\<close>

datatype json =
    JNull
  | JBool bool
  | JInt int
  | JStr string
  | JArr "json list"
  | JObj "(string \<times> json) list"

type_synonym json_object = "(string \<times> json) list"

text \<open>\<^verbatim>\<open>mapping.get(key)\<close>: an absent key and a null are both \<^verbatim>\<open>None\<close>.\<close>

definition jget :: "json_object \<Rightarrow> string \<Rightarrow> json" where
  "jget kvs k = (case map_of kvs k of None \<Rightarrow> JNull | Some v \<Rightarrow> v)"

text \<open>Every mapping inside a value has distinct keys.\<close>

primrec wf_json :: "json \<Rightarrow> bool" where
  "wf_json JNull = True"
| "wf_json (JBool b) = True"
| "wf_json (JInt i) = True"
| "wf_json (JStr s) = True"
| "wf_json (JArr xs) = list_all id (map wf_json xs)"
| "wf_json (JObj kvs) = (distinct (keys_of kvs) \<and> list_all snd (map (map_prod id wf_json) kvs))"

text \<open>The representative of a value under reordering of keys: every mapping sorted by key.\<close>

primrec canon :: "json \<Rightarrow> json" where
  "canon JNull = JNull"
| "canon (JBool b) = JBool b"
| "canon (JInt i) = JInt i"
| "canon (JStr s) = JStr s"
| "canon (JArr xs) = JArr (map canon xs)"
| "canon (JObj kvs) = JObj (sort_key fst (map (map_prod id canon) kvs))"

definition canon_obj :: "json_object \<Rightarrow> json_object" where
  "canon_obj kvs = sort_key fst (map (map_prod id canon) kvs)"

lemma canon_JObj: "canon (JObj kvs) = JObj (canon_obj kvs)"
  by (simp add: canon_obj_def)

lemma wf_json_JArr [simp]: "wf_json (JArr xs) \<longleftrightarrow> (\<forall>x \<in> set xs. wf_json x)"
  by (simp add: list_all_iff)

lemma wf_json_JObj [simp]:
  "wf_json (JObj kvs) \<longleftrightarrow> distinct (keys_of kvs) \<and> (\<forall>k v. (k, v) \<in> set kvs \<longrightarrow> wf_json v)"
  by (auto simp: list_all_iff)

declare wf_json.simps(5,6) [simp del]

lemma json_induct [case_names JNull JBool JInt JStr JArr JObj]:
  assumes "P JNull" and "\<And>b. P (JBool b)" and "\<And>i. P (JInt i)" and "\<And>s. P (JStr s)"
    and "\<And>xs. (\<And>x. x \<in> set xs \<Longrightarrow> P x) \<Longrightarrow> P (JArr xs)"
    and "\<And>kvs. (\<And>k v. (k, v) \<in> set kvs \<Longrightarrow> P v) \<Longrightarrow> P (JObj kvs)"
  shows "P v"
  by (induction v) (auto intro: assms)

lemma keys_canon_obj [simp]: "fst ` set (canon_obj kvs) = fst ` set kvs"
  by (force simp: canon_obj_def)

lemma mset_keys_canon_obj: "mset (keys_of (canon_obj kvs)) = mset (keys_of kvs)"
  by (simp add: canon_obj_def multiset.map_comp comp_def)

lemma distinct_keys_canon_obj [simp]:
  "distinct (keys_of (canon_obj kvs)) \<longleftrightarrow> distinct (keys_of kvs)"
  using mset_keys_canon_obj mset_eq_imp_distinct_iff by blast

lemma sorted_keys_canon_obj [simp]: "sorted (keys_of (canon_obj kvs))"
  by (simp add: canon_obj_def)

lemma set_canon_obj: "set (canon_obj kvs) = (\<lambda>(k, v). (k, canon v)) ` set kvs"
  by (auto simp: canon_obj_def map_prod_def image_iff)

lemma map_of_canon_obj:
  assumes "distinct (keys_of kvs)"
  shows "map_of (canon_obj kvs) k = map_option canon (map_of kvs k)"
proof -
  have "map_of (canon_obj kvs) k = map_of (map (map_prod id canon) kvs) k"
    using assms by (simp add: canon_obj_def map_of_sort_key wf_dict_def)
  also have "map_of (map (map_prod id canon) kvs) k = map_option canon (map_of kvs k)"
    by (induction kvs) auto
  finally show ?thesis .
qed

lemma wf_canon [simp]: "wf_json (canon v) \<longleftrightarrow> wf_json v"
proof (induction v rule: json_induct)
  case (JObj kvs)
  have "wf_json (JObj (canon_obj kvs)) \<longleftrightarrow> wf_json (JObj kvs)"
    using JObj by (fastforce simp: set_canon_obj)
  then show ?case by (simp only: canon_JObj)
qed simp_all

lemma canon_idem [simp]: "canon (canon v) = canon v"
proof (induction v rule: json_induct)
  case (JObj kvs)
  have "map (map_prod id canon) (canon_obj kvs) = canon_obj kvs"
    using JObj by (intro map_idI) (auto simp: set_canon_obj)
  then have "canon_obj (canon_obj kvs) = canon_obj kvs"
    by (simp add: canon_obj_def [of "canon_obj kvs"] sort_key_id_if_sorted)
  then show ?case by (simp only: canon_JObj)
qed simp_all

lemma canon_obj_idem [simp]: "canon_obj (canon_obj kvs) = canon_obj kvs"
  using canon_idem [of "JObj kvs"] unfolding canon_JObj by simp

text \<open>Python's \<^verbatim>\<open>==\<close> on values: mappings compare without regard to order, and a boolean equals
  the integer it converts to.\<close>

primrec py_norm :: "json \<Rightarrow> json" where
  "py_norm JNull = JNull"
| "py_norm (JBool b) = JInt (if b then 1 else 0)"
| "py_norm (JInt i) = JInt i"
| "py_norm (JStr s) = JStr s"
| "py_norm (JArr xs) = JArr (map py_norm xs)"
| "py_norm (JObj kvs) = JObj (sort_key fst (map (map_prod id py_norm) kvs))"

definition py_eq :: "json \<Rightarrow> json \<Rightarrow> bool" where
  "py_eq a b = (py_norm a = py_norm b)"

section \<open>Printing\<close>

fun show_nat :: "nat \<Rightarrow> string" where
  "show_nat n = (if n < 10 then [char_of (48 + n)]
     else show_nat (n div 10) @ [char_of (48 + n mod 10)])"

declare show_nat.simps [simp del]

definition show_int :: "int \<Rightarrow> string" where
  "show_int i = (if i < 0 then CHR ''-'' # show_nat (nat (- i)) else show_nat (nat i))"

definition hex_digit :: "nat \<Rightarrow> char" where
  "hex_digit n = (if n < 10 then char_of (48 + n) else char_of (87 + n))"

text \<open>The escapes of \<^verbatim>\<open>json.dumps(..., ensure_ascii=False)\<close>: quote, backslash and control characters.\<close>

definition escape_char :: "char \<Rightarrow> string" where
  "escape_char c =
     (if c = CHR 0x22 then [CHR 0x5C, CHR 0x22]
      else if c = CHR 0x5C then [CHR 0x5C, CHR 0x5C]
      else if c = CHR 0x0A then [CHR 0x5C, CHR ''n'']
      else if c = CHR 0x0D then [CHR 0x5C, CHR ''r'']
      else if c = CHR 0x09 then [CHR 0x5C, CHR ''t'']
      else if c = CHR 0x0C then [CHR 0x5C, CHR ''f'']
      else if c = CHR 0x08 then [CHR 0x5C, CHR ''b'']
      else if (of_char c :: nat) < 32 then
        [CHR 0x5C, CHR ''u'', CHR ''0'', CHR ''0'',
         hex_digit (of_char c div 16), hex_digit (of_char c mod 16)]
      else [c])"

definition dumps_str :: "string \<Rightarrow> string" where
  "dumps_str s = CHR 0x22 # concat (map escape_char s) @ [CHR 0x22]"

fun join :: "string \<Rightarrow> string list \<Rightarrow> string" where
  "join sep [] = []"
| "join sep [x] = x"
| "join sep (x # y # ys) = x @ sep @ join sep (y # ys)"

definition dumps_member :: "string \<times> string \<Rightarrow> string" where
  "dumps_member p = dumps_str (fst p) @ '':'' @ snd p"

primrec dumps :: "json \<Rightarrow> string" where
  "dumps JNull = ''null''"
| "dumps (JBool b) = (if b then ''true'' else ''false'')"
| "dumps (JInt i) = show_int i"
| "dumps (JStr s) = dumps_str s"
| "dumps (JArr xs) = ''['' @ join '','' (map dumps xs) @ '']''"
| "dumps (JObj kvs) =
     ''{'' @ join '','' (map dumps_member (sort_key fst (map (map_prod id dumps) kvs))) @ ''}''"

section \<open>Reading\<close>

definition is_ws :: "char \<Rightarrow> bool" where
  "is_ws c = (c = CHR '' '' \<or> c = CHR 0x09 \<or> c = CHR 0x0A \<or> c = CHR 0x0D)"

definition skip_ws :: "string \<Rightarrow> string" where
  "skip_ws s = dropWhile is_ws s"

definition is_digit :: "char \<Rightarrow> bool" where
  "is_digit c = (48 \<le> (of_char c :: nat) \<and> (of_char c :: nat) \<le> 57)"

definition digit_val :: "char \<Rightarrow> nat" where
  "digit_val c = of_char c - 48"

definition read_nat :: "string \<Rightarrow> nat" where
  "read_nat ds = foldl (\<lambda>n c. 10 * n + digit_val c) 0 ds"

definition hex_val :: "char \<Rightarrow> nat option" where
  "hex_val c =
     (let n = of_char c in
      if 48 \<le> n \<and> n \<le> 57 then Some (n - 48)
      else if 97 \<le> n \<and> n \<le> 102 then Some (n - 87)
      else if 65 \<le> n \<and> n \<le> 70 then Some (n - 55)
      else None)"

definition is_hex :: "char \<Rightarrow> bool" where
  "is_hex c = (hex_val c \<noteq> None)"

text \<open>The body of a string literal, up to its closing quote. Control characters are refused,
  as with \<^verbatim>\<open>strict=True\<close>; an escaped code point beyond U+00FF is outside the model.\<close>

fun scan_string :: "string \<Rightarrow> (string \<times> string) option" where
  "scan_string [] = None"
| "scan_string (c # r) =
     (if c = CHR 0x22 then Some ([], r)
      else if c = CHR 0x5C then
        (case r of
           [] \<Rightarrow> None
         | e # r1 \<Rightarrow>
             if e = CHR ''u'' then
               (case r1 of
                  a # b # h # l # r2 \<Rightarrow>
                    (case (hex_val a, hex_val b, hex_val h, hex_val l) of
                       (Some 0, Some 0, Some x, Some y) \<Rightarrow>
                         map_option (\<lambda>(t, r3). (char_of (16 * x + y) # t, r3)) (scan_string r2)
                     | _ \<Rightarrow> None)
                | _ \<Rightarrow> None)
             else
               (case map_of [(CHR 0x22, CHR 0x22), (CHR 0x5C, CHR 0x5C), (CHR ''/'', CHR ''/''),
                       (CHR ''b'', CHR 0x08), (CHR ''f'', CHR 0x0C), (CHR ''n'', CHR 0x0A),
                       (CHR ''r'', CHR 0x0D), (CHR ''t'', CHR 0x09)] e of
                  None \<Rightarrow> None
                | Some d \<Rightarrow> map_option (\<lambda>(t, r3). (d # t, r3)) (scan_string r1)))
      else if (of_char c :: nat) < 32 then None
      else map_option (\<lambda>(t, r3). (c # t, r3)) (scan_string r))"

text \<open>The digits of a number: \<^verbatim>\<open>0|[1-9][0-9]*\<close>, with no fraction or exponent behind them.\<close>

definition scan_digits :: "string \<Rightarrow> (nat \<times> string) option" where
  "scan_digits s =
     (case s of
        [] \<Rightarrow> None
      | c # r \<Rightarrow>
          if \<not> is_digit c then None
          else
            let (ds, rest) = (if c = CHR ''0'' then ([c], r) else (takeWhile is_digit s, dropWhile is_digit s))
            in if rest \<noteq> [] \<and> hd rest \<in> {CHR ''.'', CHR ''e'', CHR ''E''} then None
               else Some (read_nat ds, rest))"

definition scan_number :: "string \<Rightarrow> (json \<times> string) option" where
  "scan_number s =
     (case s of
        [] \<Rightarrow> None
      | c # r \<Rightarrow>
          if c = CHR ''-'' then map_option (\<lambda>(n, r'). (JInt (- int n), r')) (scan_digits r)
          else map_option (\<lambda>(n, r'). (JInt (int n), r')) (scan_digits s))"

definition scan_literal :: "string \<Rightarrow> json \<Rightarrow> string \<Rightarrow> (json \<times> string) option" where
  "scan_literal lit v s =
     (if take (length lit) s = lit then Some (v, drop (length lit) s) else None)"

text \<open>\<open>parse_elements\<close> reads the elements of a non-empty array and its closing bracket,
  \<open>parse_members\<close> the members of a non-empty object and its closing brace; a repeated key keeps
  its place and takes the last value, as \<^verbatim>\<open>dict\<close> of the pairs does.\<close>

fun parse_value :: "nat \<Rightarrow> string \<Rightarrow> (json \<times> string) option"
  and parse_elements :: "nat \<Rightarrow> json list \<Rightarrow> string \<Rightarrow> (json \<times> string) option"
  and parse_members :: "nat \<Rightarrow> json_object \<Rightarrow> string \<Rightarrow> (json \<times> string) option"
where
  "parse_value 0 s = None"
| "parse_value (Suc n) s =
     (case s of
        [] \<Rightarrow> None
      | c # r \<Rightarrow>
          if c = CHR 0x22 then map_option (\<lambda>(t, r'). (JStr t, r')) (scan_string r)
          else if c = CHR ''{'' then
            (if skip_ws r \<noteq> [] \<and> hd (skip_ws r) = CHR ''}'' then Some (JObj [], tl (skip_ws r))
             else parse_members n [] (skip_ws r))
          else if c = CHR ''['' then
            (if skip_ws r \<noteq> [] \<and> hd (skip_ws r) = CHR '']'' then Some (JArr [], tl (skip_ws r))
             else parse_elements n [] (skip_ws r))
          else if c = CHR ''n'' then scan_literal ''null'' JNull s
          else if c = CHR ''t'' then scan_literal ''true'' (JBool True) s
          else if c = CHR ''f'' then scan_literal ''false'' (JBool False) s
          else scan_number s)"
| "parse_elements 0 acc s = None"
| "parse_elements (Suc n) acc s =
     (case parse_value n s of
        None \<Rightarrow> None
      | Some (v, r) \<Rightarrow>
          (case skip_ws r of
             [] \<Rightarrow> None
           | c # r' \<Rightarrow>
               if c = CHR '']'' then Some (JArr (acc @ [v]), r')
               else if c = CHR '','' then parse_elements n (acc @ [v]) (skip_ws r')
               else None))"
| "parse_members 0 acc s = None"
| "parse_members (Suc n) acc s =
     (case s of
        [] \<Rightarrow> None
      | q # s' \<Rightarrow>
          if q \<noteq> CHR 0x22 then None
          else
            (case scan_string s' of
               None \<Rightarrow> None
             | Some (k, r) \<Rightarrow>
                 (case skip_ws r of
                    [] \<Rightarrow> None
                  | c # r1 \<Rightarrow>
                      if c \<noteq> CHR '':'' then None
                      else
                        (case parse_value n (skip_ws r1) of
                           None \<Rightarrow> None
                         | Some (v, r2) \<Rightarrow>
                             (case skip_ws r2 of
                                [] \<Rightarrow> None
                              | d # r3 \<Rightarrow>
                                  if d = CHR ''}'' then Some (JObj (AList.update k v acc), r3)
                                  else if d = CHR '','' then
                                    parse_members n (AList.update k v acc) (skip_ws r3)
                                  else None)))))"

text \<open>\<^verbatim>\<open>json.loads\<close>: one value with white space around it and nothing else.\<close>

definition loads :: "string \<Rightarrow> json option" where
  "loads s =
     (case parse_value (Suc (2 * length s)) (skip_ws s) of
        None \<Rightarrow> None
      | Some (v, r) \<Rightarrow> if skip_ws r = [] then Some v else None)"


section \<open>What is printed is read back\<close>

lemma of_char_digit [simp]: "(d::nat) < 10 \<Longrightarrow> of_char (char_of (48 + d) :: char) = 48 + d"
  by (simp add: of_char_of)

lemma show_nat_digits: "\<forall>c \<in> set (show_nat n). is_digit c"
proof (induction n rule: show_nat.induct)
  case (1 n)
  then show ?case by (subst show_nat.simps) (auto simp: is_digit_def)
qed

lemma show_nat_nonempty [simp]: "show_nat n \<noteq> []"
  by (subst show_nat.simps) simp

lemma read_nat_snoc: "read_nat (ds @ [c]) = 10 * read_nat ds + digit_val c"
  by (simp add: read_nat_def)

lemma read_show_nat [codec_simps]: "read_nat (show_nat n) = n"
proof (induction n rule: show_nat.induct)
  case (1 n)
  show ?case
  proof (cases "n < 10")
    case True
    then show ?thesis by (subst show_nat.simps) (simp add: read_nat_def digit_val_def)
  next
    case False
    then show ?thesis
      using 1 by (subst show_nat.simps) (simp add: read_nat_snoc digit_val_def)
  qed
qed

lemma char_of_48: "(char_of (48::nat) :: char) = CHR ''0''"
  by code_simp

lemma digit_char_zero:
  assumes d: "(d::nat) < 10"
  shows "(char_of (48 + d) :: char) = CHR ''0'' \<longleftrightarrow> d = 0"
proof
  assume eq: "(char_of (48 + d) :: char) = CHR ''0''"
  have "of_char (char_of (48 + d) :: char) = (48 + d :: nat)" using d by (rule of_char_digit)
  then show "d = 0" by (simp add: eq)
qed (simp add: char_of_48)

lemma show_nat_zero: "hd (show_nat n) = CHR ''0'' \<longleftrightarrow> n = 0"
proof (induction n rule: show_nat.induct)
  case (1 n)
  show ?case
  proof (cases "n < 10")
    case True
    then show ?thesis by (subst show_nat.simps) (simp add: digit_char_zero)
  next
    case False
    then show ?thesis using 1 by (subst show_nat.simps) auto
  qed
qed

definition number_end :: "string \<Rightarrow> bool" where
  "number_end r = (r = [] \<or> (\<not> is_digit (hd r) \<and> hd r \<notin> {CHR ''.'', CHR ''e'', CHR ''E''}))"

lemma takeWhile_digits_append:
  "\<forall>c \<in> set ds. is_digit c \<Longrightarrow> r = [] \<or> \<not> is_digit (hd r) \<Longrightarrow>
   takeWhile is_digit (ds @ r) = ds \<and> dropWhile is_digit (ds @ r) = r"
  by (cases r) (auto simp: takeWhile_append2 dropWhile_append2)

lemma scan_digits_show_nat [codec_simps]:
  assumes "number_end r"
  shows "scan_digits (show_nat n @ r) = Some (n, r)"
proof -
  obtain c ds where cs: "show_nat n = c # ds" by (cases "show_nat n") auto
  have dig: "is_digit c" using show_nat_digits [of n] cs by simp
  have split: "takeWhile is_digit (show_nat n @ r) = show_nat n"
    "dropWhile is_digit (show_nat n @ r) = r"
    using takeWhile_digits_append [OF show_nat_digits, of r n] assms by (auto simp: number_end_def)
  show ?thesis
  proof (cases "c = CHR ''0''")
    case True
    then have "n = 0" using show_nat_zero [of n] cs by simp
    then have "show_nat n = [CHR ''0'']" by (simp add: show_nat.simps char_of_48)
    with cs dig assms show ?thesis
      by (auto simp: scan_digits_def number_end_def read_nat_def digit_val_def \<open>n = 0\<close>)
  next
    case False
    have "scan_digits (show_nat n @ r) =
        (if r \<noteq> [] \<and> hd r \<in> {CHR ''.'', CHR ''e'', CHR ''E''} then None
         else Some (read_nat (show_nat n), r))"
      using False dig split unfolding scan_digits_def cs by simp
    with assms show ?thesis by (auto simp: number_end_def read_show_nat)
  qed
qed

lemma scan_number_show_int [codec_simps]:
  assumes "number_end r"
  shows "scan_number (show_int i @ r) = Some (JInt i, r)"
proof (cases "i < 0")
  case True
  then show ?thesis using assms by (simp add: show_int_def scan_number_def scan_digits_show_nat)
next
  case False
  obtain c ds where cs: "show_nat (nat i) = c # ds" by (cases "show_nat (nat i)") auto
  have "is_digit c" using show_nat_digits [of "nat i"] cs by simp
  then have "c \<noteq> CHR ''-''" by (auto simp: is_digit_def)
  with False cs assms scan_digits_show_nat [OF assms, of "nat i"] show ?thesis
    by (simp add: show_int_def scan_number_def)
qed

lemma hex_val_digit [codec_simps]: "k < 16 \<Longrightarrow> hex_val (hex_digit k) = Some k"
  by (auto simp: hex_val_def hex_digit_def of_char_of Let_def)

lemma scan_string_escape: "scan_string (escape_char c @ r) = map_option (\<lambda>(t, r'). (c # t, r')) (scan_string r)"
proof -
  have *: "(char_of (16 * (of_char c div 16) + of_char c mod 16 :: nat) :: char) = c"
    by (simp only: mult_div_mod_eq) simp
  show ?thesis
    by (auto simp: escape_char_def hex_val_digit * hex_val_def [of "CHR ''0''"])
qed

lemma scan_string_dumps [codec_simps]:
  "scan_string (concat (map escape_char s) @ CHR 0x22 # r) = Some (s, r)"
proof (induction s)
  case (Cons c s)
  then show ?case by (simp add: scan_string_escape del: scan_string.simps)
qed simp

lemma map_insort_key: "(\<And>y. fst (h y) = fst y) \<Longrightarrow> map h (insort_key fst x xs) = insort_key fst (h x) (map h xs)"
  by (induction xs) simp_all

lemma sort_key_map_snd: "sort_key fst (map (map_prod id f) kvs) = map (map_prod id f) (sort_key fst kvs)"
  by (induction kvs) (simp_all add: map_insort_key)

lemma canon_obj_sort: "canon_obj kvs = map (map_prod id canon) (sort_key fst kvs)"
  by (simp add: canon_obj_def sort_key_map_snd)

lemma update_fresh [dict_simps]: "k \<notin> set (keys_of kvs) \<Longrightarrow> AList.update k v kvs = kvs @ [(k, v)]"
  by (induction kvs) auto

definition value_start :: "string \<Rightarrow> bool" where
  "value_start s = (s \<noteq> [] \<and> \<not> is_ws (hd s) \<and> hd s \<noteq> CHR '']'' \<and> hd s \<noteq> CHR ''}'')"

definition value_end :: "string \<Rightarrow> bool" where
  "value_end r = (r = [] \<or> hd r \<in> {CHR '','', CHR '']'', CHR ''}''})"

lemma value_end_number_end: "value_end r \<Longrightarrow> number_end r"
  by (auto simp: value_end_def number_end_def is_digit_def)

lemma show_int_Cons: "\<exists>c s. show_int i = c # s \<and> (is_digit c \<or> c = CHR ''-'')"
proof (cases "i < 0")
  case False
  then show ?thesis
    using show_nat_digits [of "nat i"] by (cases "show_nat (nat i)") (auto simp: show_int_def)
qed (simp add: show_int_def)

lemma digit_not_special:
  "is_digit c \<or> c = CHR ''-'' \<Longrightarrow>
   c \<notin> {CHR 0x22, CHR ''{'', CHR ''['', CHR ''n'', CHR ''t'', CHR ''f'', CHR '']'', CHR ''}''} \<and> \<not> is_ws c"
  by (auto simp: is_digit_def is_ws_def)

lemma value_start_dumps: "value_start (dumps v @ r)"
proof (cases v)
  case (JInt i)
  then show ?thesis
    using show_int_Cons [of i] digit_not_special by (fastforce simp: value_start_def)
qed (auto simp: value_start_def is_ws_def dumps_str_def)

lemma skip_ws_start [simp]: "value_start s \<Longrightarrow> skip_ws s = s"
  by (cases s) (auto simp: value_start_def skip_ws_def)

lemma skip_ws_end [simp]: "value_end s \<Longrightarrow> skip_ws s = s"
  by (cases s) (auto simp: value_end_def skip_ws_def is_ws_def)

lemma join_Cons: "xs \<noteq> [] \<Longrightarrow> join sep (x # xs) = x @ sep @ join sep xs"
  by (cases xs) simp_all

lemma parse_elements_dumps:
  assumes "\<And>x n r. x \<in> set xs \<Longrightarrow> length (dumps x) \<le> n \<Longrightarrow> value_end r \<Longrightarrow>
      parse_value (Suc n) (dumps x @ r) = Some (canon x, r)"
    and "xs \<noteq> []" and "length (join '','' (map dumps xs)) + 2 \<le> n"
  shows "parse_elements n acc (join '','' (map dumps xs) @ CHR '']'' # r) =
    Some (JArr (acc @ map canon xs), r)"
  using assms
proof (induction xs arbitrary: n acc)
  case (Cons x xs)
  obtain m where n: "n = Suc (Suc m)" using Cons.prems(3) by (cases n; cases "n - 1") auto
  show ?case
  proof (cases "xs = []")
    case True
    have "parse_value (Suc m) (dumps x @ CHR '']'' # r) = Some (canon x, CHR '']'' # r)"
      using Cons.prems n True by (intro Cons.prems(1)) (auto simp: value_end_def)
    with True n show ?thesis by (simp add: value_end_def)
  next
    case False
    let ?rest = "join '','' (map dumps xs) @ CHR '']'' # r"
    have start: "value_start ?rest"
      using False by (cases xs; cases "tl xs") (auto simp: value_start_dumps)
    have "parse_value (Suc m) (dumps x @ CHR '','' # ?rest) = Some (canon x, CHR '','' # ?rest)"
      using Cons.prems n False by (intro Cons.prems(1)) (auto simp: value_end_def join_Cons)
    moreover have "parse_elements (Suc m) (acc @ [canon x]) ?rest =
        Some (JArr ((acc @ [canon x]) @ map canon xs), r)"
      using Cons.prems n False by (intro Cons.IH) (auto simp: join_Cons)
    ultimately show ?thesis
      using n False start by (simp add: join_Cons value_end_def)
  qed
qed simp

abbreviation dumps_pair :: "string \<times> json \<Rightarrow> string" where
  "dumps_pair p \<equiv> dumps_member (map_prod id dumps p)"

lemma parse_members_step:
  assumes "length (dumps v) \<le> m" and "value_end r"
    and "parse_value (Suc m) (dumps v @ r) = Some (w, r)" and "r \<noteq> []"
  shows "parse_members (Suc (Suc m)) acc (dumps_pair (k, v) @ r) =
    (if hd r = CHR ''}'' then Some (JObj (AList.update k w acc), tl r)
     else if hd r = CHR '','' then parse_members (Suc m) (AList.update k w acc) (skip_ws (tl r))
     else None)"
proof -
  have "skip_ws (CHR '':'' # dumps v @ r) = CHR '':'' # dumps v @ r"
    by (simp add: skip_ws_def is_ws_def)
  with assms value_start_dumps [of v r] show ?thesis
    by (cases r) (simp_all add: dumps_member_def dumps_str_def scan_string_dumps
        del: scan_string.simps parse_value.simps)
qed

lemma parse_members_dumps:
  assumes "\<And>k v n r. (k, v) \<in> set kvs \<Longrightarrow> length (dumps v) \<le> n \<Longrightarrow> value_end r \<Longrightarrow>
      parse_value (Suc n) (dumps v @ r) = Some (canon v, r)"
    and "kvs \<noteq> []" and "length (join '','' (map dumps_pair kvs)) + 2 \<le> n"
    and "distinct (keys_of (acc @ kvs))"
  shows "parse_members n acc (join '','' (map dumps_pair kvs) @ CHR ''}'' # r) =
    Some (JObj (acc @ map (map_prod id canon) kvs), r)"
  using assms
proof (induction kvs arbitrary: n acc)
  case (Cons kv kvs)
  obtain k v where kv: "kv = (k, v)" by (cases kv)
  obtain m where n: "n = Suc (Suc m)" using Cons.prems(3) by (cases n; cases "n - 1") auto
  have upd: "AList.update k (canon v) acc = acc @ [(k, canon v)]"
    using Cons.prems(4) kv by (intro update_fresh) auto
  show ?case
  proof (cases "kvs = []")
    case True
    have len: "length (dumps v) \<le> m" using Cons.prems(3) True n kv by (simp add: dumps_member_def)
    have "parse_value (Suc m) (dumps v @ CHR ''}'' # r) = Some (canon v, CHR ''}'' # r)"
      using len kv by (intro Cons.prems(1)) (auto simp: value_end_def)
    from parse_members_step [OF len _ this, of acc k] True n kv upd show ?thesis
      by (simp add: value_end_def del: parse_members.simps)
  next
    case False
    let ?rest = "join '','' (map dumps_pair kvs) @ CHR ''}'' # r"
    have start: "value_start ?rest"
      using False by (cases kvs; cases "tl kvs")
        (auto simp: value_start_def dumps_member_def dumps_str_def is_ws_def)
    have len: "length (dumps v) \<le> m"
      using Cons.prems(3) False n kv by (simp add: dumps_member_def join_Cons)
    have "parse_value (Suc m) (dumps v @ CHR '','' # ?rest) = Some (canon v, CHR '','' # ?rest)"
      using len kv by (intro Cons.prems(1)) (auto simp: value_end_def)
    note step = parse_members_step [OF len _ this, of acc k]
    have "parse_members (Suc m) (acc @ [(k, canon v)]) ?rest =
        Some (JObj ((acc @ [(k, canon v)]) @ map (map_prod id canon) kvs), r)"
      using Cons.prems n False kv by (intro Cons.IH) (auto simp: join_Cons dumps_member_def)
    with step n False start kv upd show ?thesis
      by (simp add: join_Cons value_end_def id_def del: parse_members.simps)
  qed
qed simp

lemma parse_value_dumps:
  "wf_json v \<Longrightarrow> length (dumps v) \<le> n \<Longrightarrow> value_end r \<Longrightarrow>
   parse_value (Suc n) (dumps v @ r) = Some (canon v, r)"
proof (induction v arbitrary: n r rule: json_induct)
  case (JInt i)
  obtain c s where "show_int i = c # s" "is_digit c \<or> c = CHR ''-''"
    using show_int_Cons by blast
  with digit_not_special [of c] scan_number_show_int [OF value_end_number_end, OF JInt(3), of i]
  show ?case by simp
next
  case (JArr xs)
  show ?case
  proof (cases "xs = []")
    case False
    have "value_start (join '','' (map dumps xs) @ CHR '']'' # r)"
      using False by (cases xs; cases "tl xs") (auto simp: value_start_dumps)
    moreover have "parse_elements n [] (join '','' (map dumps xs) @ CHR '']'' # r) =
        Some (JArr ([] @ map canon xs), r)"
      using JArr False by (intro parse_elements_dumps) auto
    ultimately show ?thesis by (auto simp: value_start_def)
  qed (simp add: skip_ws_def is_ws_def)
next
  case (JObj kvs)
  have printed: "dumps (JObj kvs) = ''{'' @ join '','' (map dumps_pair (sort_key fst kvs)) @ ''}''"
    by (simp add: sort_key_map_snd comp_def)
  have dist: "distinct (keys_of (sort_key fst kvs))"
    using JObj.prems(1) mset_eq_imp_distinct_iff [of "keys_of (sort_key fst kvs)" "keys_of kvs"]
    by simp
  show ?case
  proof (cases "kvs = []")
    case False
    let ?ms = "sort_key fst kvs"
    have ne: "?ms \<noteq> []" using False by (metis length_0_conv length_sort)
    have "value_start (join '','' (map dumps_pair ?ms) @ CHR ''}'' # r)"
      using ne by (cases ?ms; cases "tl ?ms")
        (auto simp: value_start_def dumps_member_def dumps_str_def is_ws_def)
    moreover have "parse_members n [] (join '','' (map dumps_pair ?ms) @ CHR ''}'' # r) =
        Some (JObj ([] @ map (map_prod id canon) ?ms), r)"
      using JObj dist ne printed by (intro parse_members_dumps) auto
    ultimately show ?thesis
      unfolding printed canon_JObj canon_obj_sort by (auto simp: value_start_def)
  qed (simp add: skip_ws_def is_ws_def)
qed (auto simp: scan_literal_def dumps_str_def scan_string_dumps simp del: scan_string.simps)

lemma loads_dumps: "wf_json v \<Longrightarrow> loads (dumps v) = Some (canon v)"
  using parse_value_dumps [of v "2 * length (dumps v)" "[]"] value_start_dumps [of v "[]"]
  by (simp add: loads_def value_end_def skip_ws_def [of "[]"])


section \<open>The fuel of the parser is enough\<close>

lemma scan_string_shorter: "scan_string s = Some (t, r) \<Longrightarrow> length r < length s"
proof (induction s arbitrary: t r rule: length_induct)
  case (1 s)
  have IH: "length r' < length s'" if "length s' < length s" "scan_string s' = Some (t', r')" for s' t' r'
    using 1 that by blast
  show ?case
  proof (cases s)
    case (Cons c u)
    then show ?thesis
      using "1.prems" by (auto split: if_splits list.splits option.splits nat.splits dest!: IH [rotated])
  qed (use "1.prems" in simp)
qed

lemma skip_ws_length: "length (skip_ws s) \<le> length s"
  by (simp add: skip_ws_def length_dropWhile_le)

lemma skip_ws_Cons: "skip_ws s = c # r \<Longrightarrow> length r < length s"
  using skip_ws_length [of s] by simp

lemma skip_ws_less: "length r < length (skip_ws s) \<Longrightarrow> length r < length s"
  using skip_ws_length [of s] by simp

lemma scan_number_shorter: "scan_number s = Some (v, r) \<Longrightarrow> length r < length s"
proof -
  have digits: "length r < length s" if "scan_digits s = Some (n, r)" for s n r
    using that length_dropWhile_le [of is_digit "tl s"]
    by (auto simp: scan_digits_def Let_def split: list.splits if_splits)
  show "scan_number s = Some (v, r) \<Longrightarrow> length r < length s"
    by (auto simp: scan_number_def split: list.splits if_splits dest!: digits)
qed

lemma scan_literal_shorter: "scan_literal (c # lit) v s = Some (w, r) \<Longrightarrow> length r < length s"
  by (cases s) (auto simp: scan_literal_def split: if_splits)

lemmas scan_shorter = scan_string_shorter scan_number_shorter scan_literal_shorter skip_ws_Cons

lemma parse_shorter:
  "parse_value n s = Some (v, r) \<Longrightarrow> length r < length s"
  "parse_elements n as s = Some (v, r) \<Longrightarrow> length r < length s"
  "parse_members n ms s = Some (v, r) \<Longrightarrow> length r < length s"
proof (induction n arbitrary: s v r as ms)
  case 0
  { case 1 then show ?case by simp }
  { case 2 then show ?case by simp }
  { case 3 then show ?case by simp }
next
  case (Suc n)
  { case 1
    then show ?case
      using skip_ws_length [of "tl s"]
      by (auto split: list.splits if_splits dest: scan_shorter
          dest!: Suc.IH(2) Suc.IH(3) intro: less_le_trans less_SucI) }
  { case 2
    then show ?case
      by (auto split: list.splits if_splits option.splits dest!: Suc.IH(1) Suc.IH(2)
          skip_ws_Cons skip_ws_less) }
  { case 3
    then show ?case
      by (auto split: list.splits if_splits option.splits 
          dest!: scan_string_shorter Suc.IH(1) Suc.IH(3) skip_ws_Cons skip_ws_less) }
qed


lemma parse_fuel_aux:
  "2 * length s < n \<Longrightarrow> 2 * length s < m \<Longrightarrow> parse_value n s = parse_value m s"
  "2 * length s + 1 < n \<Longrightarrow> 2 * length s + 1 < m \<Longrightarrow> parse_elements n as s = parse_elements m as s"
  "2 * length s + 1 < n \<Longrightarrow> 2 * length s + 1 < m \<Longrightarrow> parse_members n ms s = parse_members m ms s"
proof (induction n arbitrary: m s as ms)
  case 0
  { case 1 then show ?case by simp }
  { case 2 then show ?case by simp }
  { case 3 then show ?case by simp }
next
  case (Suc n)
  { case 1
    then obtain m' where m: "m = Suc m'" by (cases m) auto
    show ?case
    proof (cases s)
      case (Cons c u)
      have "2 * length (skip_ws u) + 1 < n" "2 * length (skip_ws u) + 1 < m'"
        using 1 m Cons skip_ws_length [of u] by auto
      then have "parse_elements n [] (skip_ws u) = parse_elements m' [] (skip_ws u)"
        "parse_members n [] (skip_ws u) = parse_members m' [] (skip_ws u)"
        using Suc.IH(2,3) by blast+
      with Cons m show ?thesis by auto
    qed (simp add: m) }
  { case 2
    then obtain m' where m: "m = Suc m'" by (cases m) auto
    have "2 * length (skip_ws r') + 1 < n \<and> 2 * length (skip_ws r') + 1 < m'"
      if "parse_value m' s = Some (v, r)" "skip_ws r = c # r'" for v r c r'
      using 2 m parse_shorter(1) [OF that(1)] skip_ws_Cons [OF that(2)] skip_ws_length [of r'] by auto
    then show ?case
      using 2 m Suc.IH(1) [of s m'] Suc.IH(2) by (auto split: option.splits list.splits) }
  { case 3
    then obtain m' where m: "m = Suc m'" by (cases m) auto
    have b1: "2 * length (skip_ws r1) < n \<and> 2 * length (skip_ws r1) < m'"
      if "s = q # s'" "scan_string s' = Some (k, r)" "skip_ws r = c # r1" for q s' k r c r1
      using 3 m that(1) scan_string_shorter [OF that(2)] skip_ws_Cons [OF that(3)]
        skip_ws_length [of r1] by auto
    have b2: "2 * length (skip_ws r3) + 1 < n \<and> 2 * length (skip_ws r3) + 1 < m'"
      if "s = q # s'" "scan_string s' = Some (k, r)" "skip_ws r = c # r1"
        "parse_value m' (skip_ws r1) = Some (v, r2)" "skip_ws r2 = d # r3" for q s' k r c r1 v r2 d r3
      using 3 m that(1) scan_string_shorter [OF that(2)] skip_ws_Cons [OF that(3)]
        skip_ws_length [of r1] parse_shorter(1) [OF that(4)] skip_ws_Cons [OF that(5)]
        skip_ws_length [of r3] by auto
    show ?case
    proof (cases "\<exists>k r c r1. s \<noteq> [] \<and> scan_string (tl s) = Some (k, r) \<and> skip_ws r = c # r1")
      case True
      then obtain q s' k r c r1
        where s: "s = q # s'" "scan_string s' = Some (k, r)" "skip_ws r = c # r1"
        by (cases s) auto
      have "parse_value n (skip_ws r1) = parse_value m' (skip_ws r1)"
        using b1 [OF s] Suc.IH(1) by blast
      then show ?thesis
        using s m b2 [OF s] Suc.IH(3) by (auto split: option.splits list.splits)
    next
      case False
      then show ?thesis using m by (fastforce split: option.splits list.splits)
    qed }
qed

lemma parse_fuel: "2 * length s < n \<Longrightarrow> parse_value n s = parse_value (Suc (2 * length s)) s"
  by (rule parse_fuel_aux(1)) simp_all


section \<open>Bytes\<close>

type_synonym bytes = "8 word list"

text \<open>UTF-8 for the code points of the model: one byte below U+0080, two from there on.\<close>

definition encode_char :: "char \<Rightarrow> bytes" where
  "encode_char c =
     (let n = of_char c :: nat in
      if n < 128 then [word_of_nat n] else [word_of_nat (192 + n div 64), word_of_nat (128 + n mod 64)])"

definition utf8_encode :: "string \<Rightarrow> bytes" where
  "utf8_encode s = concat (map encode_char s)"

text \<open>Strict decoding. A lead byte from \<open>0xC4\<close> on starts a code point beyond U+00FF, which the
  model does not have; it is refused here with the malformed sequences.\<close>

fun utf8_decode :: "bytes \<Rightarrow> string option" where
  "utf8_decode [] = Some []"
| "utf8_decode (b # bs) =
     (if unat b < 128 then map_option ((#) (char_of (unat b))) (utf8_decode bs)
      else if unat b = 194 \<or> unat b = 195 then
        (case bs of
           [] \<Rightarrow> None
         | d # ds \<Rightarrow>
             if 128 \<le> unat d \<and> unat d < 192
             then map_option ((#) (char_of (64 * (unat b - 192) + (unat d - 128)))) (utf8_decode ds)
             else None)
      else None)"

lemma unat_byte: "n < 256 \<Longrightarrow> unat (word_of_nat n :: 8 word) = n"
  by (simp add: unat_of_nat)

lemma utf8_decode_char: "utf8_decode (encode_char c @ bs) = map_option ((#) c) (utf8_decode bs)"
proof -
  let ?n = "of_char c :: nat"
  have lt: "?n < 256" by simp
  show ?thesis
  proof (cases "?n < 128")
    case True
    then show ?thesis by (simp add: encode_char_def unat_of_nat)
  next
    case False
    have q: "?n div 64 = 2 \<or> ?n div 64 = 3" using False lt by linarith
    have u1: "unat (word_of_nat (192 + ?n div 64) :: 8 word) = 192 + ?n div 64"
      and u2: "unat (word_of_nat (128 + ?n mod 64) :: 8 word) = 128 + ?n mod 64"
      using q by (intro unat_byte; linarith)+
    have "char_of (64 * (?n div 64) + ?n mod 64) = c" by (simp only: mult_div_mod_eq) simp
    with q u1 u2 False show ?thesis
      by (auto simp: encode_char_def Let_def simp del: of_nat_add)
  qed
qed

lemma utf8_decode_encode: "utf8_decode (utf8_encode s) = Some s"
  by (induction s) (simp_all add: utf8_encode_def utf8_decode_char)

lemma utf8_encode_inj: "utf8_encode s = utf8_encode t \<longleftrightarrow> s = t"
  by (metis option.inject utf8_decode_encode)

section \<open>Canonical bytes\<close>

definition canonical_json_bytes :: "json_object \<Rightarrow> bytes" where
  "canonical_json_bytes kvs = utf8_encode (dumps (JObj kvs))"

definition canonical_json_object :: "bytes \<Rightarrow> json_object result" where
  "canonical_json_object data =
     (case utf8_decode data of
        None \<Rightarrow> Inl ValueError
      | Some s \<Rightarrow>
          (case loads s of
             Some (JObj kvs) \<Rightarrow> Inr kvs
           | _ \<Rightarrow> Inl ValueError))"

lemma canonical_json_object_bytes:
  "wf_json (JObj kvs) \<Longrightarrow> canonical_json_object (canonical_json_bytes kvs) = Inr (canon_obj kvs)"
  by (simp add: canonical_json_object_def canonical_json_bytes_def utf8_decode_encode loads_dumps
      canon_JObj del: dumps.simps canon.simps wf_json_JObj)

lemma canonical_json_bytes_eq_iff:
  assumes "wf_json (JObj a)" and "wf_json (JObj b)"
  shows "canonical_json_bytes a = canonical_json_bytes b \<longleftrightarrow> canon_obj a = canon_obj b"
proof
  assume "canonical_json_bytes a = canonical_json_bytes b"
  then show "canon_obj a = canon_obj b"
    using assms canonical_json_object_bytes [of a] canonical_json_object_bytes [of b] by simp
next
  have dumps_canon: "dumps (canon v) = dumps v" for v
  proof (induction v rule: json_induct)
    case (JObj kvs)
    have "map (map_prod id dumps) (canon_obj kvs) = map (map_prod id dumps) (sort_key fst kvs)"
      using JObj by (auto simp: canon_obj_sort)
    then show ?case
      by (simp add: canon_JObj sort_key_map_snd sort_key_id_if_sorted del: canon.simps)
  qed (simp_all cong: map_cong)
  assume "canon_obj a = canon_obj b"
  then have "dumps (canon (JObj a)) = dumps (canon (JObj b))" by (simp only: canon_JObj)
  then show "canonical_json_bytes a = canonical_json_bytes b"
    by (simp only: canonical_json_bytes_def dumps_canon)
qed

section \<open>Dictionaries compared up to the order of their keys\<close>

lemma jget_canon: "distinct (keys_of kvs) \<Longrightarrow> jget (canon_obj kvs) k = canon (jget kvs k)"
  by (simp add: jget_def map_of_canon_obj split: option.splits)

lemma has_keys_canon [simp]: "has_keys (canon_obj kvs) ks \<longleftrightarrow> has_keys kvs ks"
  by (simp add: has_keys_def)

lemma wf_jget: "wf_json (JObj kvs) \<Longrightarrow> wf_json (jget kvs k)"
  by (auto simp: jget_def split: option.splits dest: map_of_SomeD)

lemma dict_sorted_unique:
  assumes "sorted (keys_of a)" "sorted (keys_of b)" "distinct (keys_of a)" "distinct (keys_of b)"
    and eq: "map_of a = map_of b"
  shows "a = b"
proof -
  have keys: "keys_of a = keys_of b"
    using assms by (intro sorted_distinct_set_unique) (auto simp: dom_map_of_conv_image_fst [symmetric])
  have "map (\<lambda>k. (k, the (map_of kvs k))) (keys_of kvs) = kvs" if "distinct (keys_of kvs)" for kvs :: "('a \<times> 'b) list"
    using that by (auto simp: comp_def intro!: map_idI)
  then show ?thesis using assms keys by metis
qed

lemma canon_obj_eqI:
  assumes "distinct (keys_of a)" "distinct (keys_of b)"
    and "\<And>k. map_option canon (map_of a k) = map_option canon (map_of b k)"
  shows "canon_obj a = canon_obj b"
  using assms by (intro dict_sorted_unique) (auto simp: map_of_canon_obj)

lemma canon_obj_of_keys:
  assumes "distinct (keys_of a)" "distinct (keys_of b)" "has_keys a ks" "has_keys b ks"
    and "\<And>k. k \<in> set ks \<Longrightarrow> canon (jget a k) = canon (jget b k)"
  shows "canon_obj a = canon_obj b"
proof (rule canon_obj_eqI)
  fix k
  show "map_option canon (map_of a k) = map_option canon (map_of b k)"
  proof (cases "k \<in> set ks")
    case True
    then have "map_of a k \<noteq> None" "map_of b k \<noteq> None"
      using assms(3,4) by (simp_all add: has_keys_def map_of_eq_None_iff)
    then show ?thesis using assms(5) [OF True] by (auto simp: jget_def)
  next
    case False
    then have "map_of a k = None" "map_of b k = None"
      using assms(3,4) by (simp_all add: has_keys_def map_of_eq_None_iff)
    then show ?thesis by simp
  qed
qed (use assms in simp_all)

lemma map_of_update [dict_simps]: "map_of (AList.update k v kvs) j = (if j = k then Some v else map_of kvs j)"
  by (simp add: update_conv')

lemma in_set_updateD: "x \<in> set (AList.update k v kvs) \<Longrightarrow> x = (k, v) \<or> x \<in> set kvs"
  by (induction kvs) (auto split: if_splits)

lemma wf_update: "wf_json (JObj s) \<Longrightarrow> wf_json v \<Longrightarrow> wf_json (JObj (AList.update k v s))"
  by (auto simp: distinct_update dest!: in_set_updateD)

definition get_default :: "json_object \<Rightarrow> string \<Rightarrow> json \<Rightarrow> json" where
  "get_default kvs k d = (case map_of kvs k of None \<Rightarrow> d | Some v \<Rightarrow> v)"

lemma canon_eq_JStr [simp]: "canon v = JStr s \<longleftrightarrow> v = JStr s"
  by (cases v) simp_all

lemma get_default_canon:
  "distinct (keys_of kvs) \<Longrightarrow> get_default (canon_obj kvs) k (canon d) = canon (get_default kvs k d)"
  by (simp add: get_default_def map_of_canon_obj split: option.splits)

lemma wf_get_default: "wf_json (JObj kvs) \<Longrightarrow> wf_json d \<Longrightarrow> wf_json (get_default kvs k d)"
  by (auto simp: get_default_def split: option.splits dest: map_of_SomeD)

lemma wf_empty: "wf_json (JObj [])" "wf_json (JArr [])"
  by simp_all

lemma canon_obj_Nil_iff [simp]: "canon_obj kvs = [] \<longleftrightarrow> kvs = []"
  using arg_cong [OF mset_keys_canon_obj [of kvs], of size] by auto

lemma jget_update [dict_simps]: "jget (AList.update k v kvs) j = (if j = k then v else jget kvs j)"
  by (simp add: jget_def map_of_update)

lemma show_int_inj: "show_int i = show_int j \<longleftrightarrow> i = j"
proof
  assume eq: "show_int i = show_int j"
  have "loads (dumps (JInt i)) = loads (dumps (JInt j))" using eq by simp
  then show "i = j" using loads_dumps [of "JInt i"] loads_dumps [of "JInt j"] by simp
qed simp

lemma list_all_update: "list_all P kvs \<Longrightarrow> P (k, v) \<Longrightarrow> list_all P (AList.update k v kvs)"
  by (auto simp: list_all_iff dest: in_set_updateD)

lemma list_all_map_of: "distinct (keys_of kvs) \<Longrightarrow> list_all P kvs \<longleftrightarrow> (\<forall>k v. map_of kvs k = Some v \<longrightarrow> P (k, v))"
  by (auto simp: list_all_iff)

lemma list_all_canon_obj:
  assumes "wf_json (JObj kvs)" and "\<And>k v. wf_json v \<Longrightarrow> P (k, canon v) = P (k, v)"
  shows "list_all P (canon_obj kvs) = list_all P kvs"
  using assms by (fastforce simp: list_all_iff set_canon_obj)

section \<open>Properties\<close>





end
