(* ===== verification/Sha256.thy ===== *)
theory Sha256
  imports Json
begin

text \<open>
  SHA-256 as the sources use it (\<^verbatim>\<open>hashlib.sha256(data).hexdigest()\<close>): the algorithm of
  FIPS 180-4 on 32-bit words, and its lowercase hexadecimal text. Every identity and command
  fingerprint of the program is such a digest. The lemmas give the shape of a digest (64
  lowercase hexadecimal characters), which the codecs of the components rely on; nothing
  assumes that it has no collisions.
\<close>

unbundle bit_operations_syntax

type_synonym word32 = "32 word"

definition sha_k :: "word32 list" where
  "sha_k = [
     1116352408, 1899447441, 3049323471, 3921009573, 961987163, 1508970993, 2453635748, 2870763221,
     3624381080, 310598401, 607225278, 1426881987, 1925078388, 2162078206, 2614888103, 3248222580,
     3835390401, 4022224774, 264347078, 604807628, 770255983, 1249150122, 1555081692, 1996064986,
     2554220882, 2821834349, 2952996808, 3210313671, 3336571891, 3584528711, 113926993, 338241895,
     666307205, 773529912, 1294757372, 1396182291, 1695183700, 1986661051, 2177026350, 2456956037,
     2730485921, 2820302411, 3259730800, 3345764771, 3516065817, 3600352804, 4094571909, 275423344,
     430227734, 506948616, 659060556, 883997877, 958139571, 1322822218, 1537002063, 1747873779,
     1955562222, 2024104815, 2227730452, 2361852424, 2428436474, 2756734187, 3204031479, 3329325298]"

definition sha_h0 :: "word32 list" where
  "sha_h0 = [1779033703, 3144134277, 1013904242, 2773480762,
             1359893119, 2600822924, 528734635, 1541459225]"

definition rotr :: "nat \<Rightarrow> word32 \<Rightarrow> word32" where
  "rotr n x = (drop_bit n x OR push_bit (32 - n) x)"

definition be_bytes :: "nat \<Rightarrow> nat \<Rightarrow> bytes" where
  "be_bytes width n = map (\<lambda>i. word_of_nat (n div 256 ^ i)) (rev [0..<width])"

definition be_word :: "bytes \<Rightarrow> word32" where
  "be_word bs = foldl (\<lambda>w b. push_bit 8 w OR ucast b) 0 bs"

text \<open>Padding: a one bit, zeros up to 56 bytes modulo 64, the length in bits as eight bytes.\<close>

definition sha_pad :: "bytes \<Rightarrow> bytes" where
  "sha_pad m = m @ [0x80] @ replicate ((119 - length m mod 64) mod 64) 0 @ be_bytes 8 (8 * length m)"

fun chunks :: "nat \<Rightarrow> 'a list \<Rightarrow> 'a list list" where
  "chunks n xs = (if n = 0 \<or> xs = [] then [] else take n xs # chunks n (drop n xs))"

declare chunks.simps [simp del]

text \<open>The message schedule, newest word first: \<open>w\<^sub>t\<close> from \<open>w\<^sub>t\<^sub>-\<^sub>2\<close>, \<open>w\<^sub>t\<^sub>-\<^sub>7\<close>, \<open>w\<^sub>t\<^sub>-\<^sub>1\<^sub>5\<close>, \<open>w\<^sub>t\<^sub>-\<^sub>1\<^sub>6\<close>.\<close>

definition schedule_step :: "word32 list \<Rightarrow> word32 list" where
  "schedule_step ws =
     (let s0 = (let x = ws ! 14 in rotr 7 x XOR rotr 18 x XOR drop_bit 3 x);
          s1 = (let x = ws ! 1 in rotr 17 x XOR rotr 19 x XOR drop_bit 10 x)
      in (ws ! 15 + s0 + ws ! 6 + s1) # ws)"

definition schedule :: "bytes \<Rightarrow> word32 list" where
  "schedule block = rev ((schedule_step ^^ 48) (rev (map be_word (chunks 4 block))))"

fun sha_round :: "word32 list \<Rightarrow> word32 \<times> word32 \<Rightarrow> word32 list" where
  "sha_round [a, b, c, d, e, f, g, h] (k, w) =
     (let s1 = rotr 6 e XOR rotr 11 e XOR rotr 25 e;
          ch = (e AND f) XOR (NOT e AND g);
          t1 = h + s1 + ch + k + w;
          s0 = rotr 2 a XOR rotr 13 a XOR rotr 22 a;
          maj = (a AND b) XOR (a AND c) XOR (b AND c);
          t2 = s0 + maj
      in [t1 + t2, a, b, c, d + t1, e, f, g])"
| "sha_round st _ = st"

definition sha_block :: "word32 list \<Rightarrow> bytes \<Rightarrow> word32 list" where
  "sha_block st block = map2 (+) st (foldl sha_round st (zip sha_k (schedule block)))"

definition hex_byte :: "nat \<Rightarrow> string" where
  "hex_byte n = [hex_digit (n div 16), hex_digit (n mod 16)]"

definition word_bytes :: "word32 \<Rightarrow> nat list" where
  "word_bytes w = map (\<lambda>i. unat w div 256 ^ i mod 256) [3, 2, 1, 0]"

definition sha256_hex :: "bytes \<Rightarrow> string" where
  "sha256_hex m =
     concat (map hex_byte (concat (map word_bytes (foldl sha_block sha_h0 (chunks 64 (sha_pad m))))))"

section \<open>The shape of a digest\<close>

definition hex_chars :: "char list" where
  "hex_chars = ''0123456789abcdef''"

definition is_sha256 :: "string \<Rightarrow> bool" where
  "is_sha256 s = (length s = 64 \<and> (\<forall>c \<in> set s. c \<in> set hex_chars))"

lemma length_sha_round: "length (sha_round st p) = length st"
  by (induction st p rule: sha_round.induct) (simp_all add: Let_def)

lemma length_foldl_sha_round: "length (foldl sha_round st ps) = length st"
  by (induction ps arbitrary: st) (simp_all add: length_sha_round)

lemma length_sha_block: "length (sha_block st b) = length st"
  by (simp add: sha_block_def length_foldl_sha_round)

lemma length_foldl_sha_block: "length (foldl sha_block st bs) = length st"
  by (induction bs arbitrary: st) (simp_all add: length_sha_block)

lemma hex_digit_char: "k < 16 \<Longrightarrow> hex_digit k \<in> set hex_chars"
proof -
  assume "k < 16"
  then have "k \<in> set [0..<16]" by simp
  moreover have "\<forall>k \<in> set [0..<16]. hex_digit k \<in> set hex_chars" by code_simp
  ultimately show ?thesis by blast
qed

lemma length_concat_const: "(\<And>x. x \<in> set xs \<Longrightarrow> length (f x) = n) \<Longrightarrow> length (concat (map f xs)) = n * length xs"
  by (induction xs) simp_all

lemma sha256_hex_shape: "is_sha256 (sha256_hex m)"
proof -
  let ?ws = "foldl sha_block sha_h0 (chunks 64 (sha_pad m))"
  let ?bs = "concat (map word_bytes ?ws)"
  have "length ?ws = 8" by (simp add: length_foldl_sha_block sha_h0_def)
  then have "length ?bs = 32" by (subst length_concat_const [where n = 4]) (simp_all add: word_bytes_def)
  then have "length (sha256_hex m) = 64"
    unfolding sha256_hex_def by (subst length_concat_const [where n = 2]) (simp_all add: hex_byte_def)
  moreover have "\<forall>n \<in> set ?bs. n < 256" by (auto simp: word_bytes_def)
  then have "\<forall>n \<in> set ?bs. \<forall>c \<in> set (hex_byte n). c \<in> set hex_chars"
    by (intro ballI) (auto simp: hex_byte_def intro!: hex_digit_char less_mult_imp_div_less)
  then have "\<forall>c \<in> set (sha256_hex m). c \<in> set hex_chars"
    by (auto simp: sha256_hex_def)
  ultimately show ?thesis by (simp add: is_sha256_def)
qed

lemma is_sha256_text [simp]: "is_sha256 s \<Longrightarrow> is_text s"
proof -
  assume s: "is_sha256 s"
  then have "s \<noteq> []" by (auto simp: is_sha256_def)
  moreover have "\<forall>c \<in> set hex_chars. \<not> is_space c"
    by (simp add: hex_chars_def is_space_def py_whitespace_def)
  ultimately show ?thesis using s by (simp add: is_text_iff is_sha256_def)
qed

end
