(* ===== verification/Timestamps.thy ===== *)
theory Timestamps
  imports Json
begin

text \<open>
  Calendar dates and timezone-aware timestamps, as far as the sources use Python's
  \<^verbatim>\<open>datetime\<close> module: \<^verbatim>\<open>isoformat\<close>, \<^verbatim>\<open>fromisoformat\<close>, \<^verbatim>\<open>astimezone(UTC)\<close> and the
  \<^verbatim>\<open>_timestamp\<close> text of \<^verbatim>\<open>src/src/study_agent/state/serialization.py\<close>.

  A timestamp carries its UTC offset in seconds, so it is aware by construction and
  \<^verbatim>\<open>require_aware\<close> holds of every value; a text without an offset is not read.
  \<^verbatim>\<open>fromisoformat\<close> is modelled on the spellings \<^verbatim>\<open>isoformat\<close> produces (extended date, colon
  separated time with or without six fraction digits, numeric offset); the other ISO 8601
  spellings the library takes are refused here.
\<close>

section \<open>Fixed-width decimal fields\<close>

fun pad :: "nat \<Rightarrow> nat \<Rightarrow> string" where
  "pad 0 n = []"
| "pad (Suc k) n = pad k (n div 10) @ [char_of (48 + n mod 10)]"

lemma length_pad [simp]: "length (pad k n) = k"
  by (induction k arbitrary: n) simp_all

lemma pad_digits: "list_all is_digit (pad k n)"
  by (induction k arbitrary: n) (simp_all add: is_digit_def)

lemma read_pad [codec_simps]: "n < 10 ^ k \<Longrightarrow> read_nat (pad k n) = n"
proof (induction k arbitrary: n)
  case 0
  then show ?case by (simp add: read_nat_def)
next
  case (Suc k)
  then have "n div 10 < 10 ^ k" by (simp add: less_mult_imp_div_less mult.commute)
  with Suc show ?case by (simp add: read_nat_snoc digit_val_def)
qed

text \<open>A field of exactly \<open>k\<close> digits at the front of a text.\<close>

definition read_field :: "nat \<Rightarrow> string \<Rightarrow> (nat \<times> string) option" where
  "read_field k s =
     (if k \<le> length s \<and> list_all is_digit (take k s) then Some (read_nat (take k s), drop k s) else None)"

definition read_char :: "char \<Rightarrow> string \<Rightarrow> string option" where
  "read_char c s = (case s of [] \<Rightarrow> None | d # r \<Rightarrow> if d = c then Some r else None)"

lemma read_field_pad [codec_simps]: "n < 10 ^ k \<Longrightarrow> read_field k (pad k n @ r) = Some (n, r)"
  by (simp add: read_field_def pad_digits read_pad)

lemma read_char_Cons [codec_simps]: "read_char c (c # r) = Some r"
  by (simp add: read_char_def)

section \<open>Dates\<close>

record date =
  year :: nat
  month :: nat
  day :: nat

definition is_leap :: "nat \<Rightarrow> bool" where
  "is_leap y = (y mod 4 = 0 \<and> (y mod 100 \<noteq> 0 \<or> y mod 400 = 0))"

definition days_in_month :: "nat \<Rightarrow> nat \<Rightarrow> nat" where
  "days_in_month y m =
     (if m = 2 then (if is_leap y then 29 else 28)
      else if m \<in> {4, 6, 9, 11} then 30 else 31)"

definition year_days :: "nat \<Rightarrow> nat" where
  "year_days y = (if is_leap y then 366 else 365)"

definition valid_date :: "date \<Rightarrow> bool" where
  "valid_date d = (1 \<le> year d \<and> year d \<le> 9999 \<and> 1 \<le> month d \<and> month d \<le> 12 \<and>
     1 \<le> day d \<and> day d \<le> days_in_month (year d) (month d))"

lemma valid_date_bounds:
  "valid_date d \<Longrightarrow> year d < 10 ^ 4 \<and> month d < 10 ^ 2 \<and> day d < 10 ^ 2"
  by (auto simp: valid_date_def days_in_month_def split: if_splits)

definition isoformat_date :: "date \<Rightarrow> string" where
  "isoformat_date d = pad 4 (year d) @ ''-'' @ pad 2 (month d) @ ''-'' @ pad 2 (day d)"

definition read_date :: "string \<Rightarrow> (date \<times> string) option" where
  "read_date s =
     Option.bind (read_field 4 s) (\<lambda>(y, s1).
     Option.bind (read_char (CHR ''-'') s1) (\<lambda>s2.
     Option.bind (read_field 2 s2) (\<lambda>(m, s3).
     Option.bind (read_char (CHR ''-'') s3) (\<lambda>s4.
     Option.bind (read_field 2 s4) (\<lambda>(d, s5).
       let dt = \<lparr>year = y, month = m, day = d\<rparr>
       in if valid_date dt then Some (dt, s5) else None)))))"

definition date_fromisoformat :: "string \<Rightarrow> date result" where
  "date_fromisoformat s =
     (case read_date s of Some (d, []) \<Rightarrow> Inr d | _ \<Rightarrow> Inl ValueError)"

lemma read_date_isoformat [codec_simps]:
  assumes "valid_date d"
  shows "read_date (isoformat_date d @ r) = Some (d, r)"
proof -
  have "read_field 4 (pad 4 (year d) @ s) = Some (year d, s)"
    "read_field 2 (pad 2 (month d) @ s) = Some (month d, s)"
    "read_field 2 (pad 2 (day d) @ s) = Some (day d, s)" for s
    using valid_date_bounds [OF assms] by (simp_all add: read_field_pad)
  with assms show ?thesis
    by (cases d) (simp add: read_date_def isoformat_date_def read_char_Cons Let_def)
qed

lemma date_fromisoformat_isoformat [codec_simps]:
  "valid_date d \<Longrightarrow> date_fromisoformat (isoformat_date d) = Inr d"
  using read_date_isoformat [of d "[]"] by (simp add: date_fromisoformat_def)

lemma isoformat_date_text: "is_text (isoformat_date d)"
proof -
  have no_space: "\<not> is_space c" if "is_digit c" for c
    using that by (auto simp: is_digit_def is_space_def py_whitespace_def)
  have ends: "\<forall>c \<in> set (pad 4 (year d)). \<not> is_space c" "\<forall>c \<in> set (pad 2 (day d)). \<not> is_space c"
    using pad_digits no_space by (auto simp: list_all_iff)
  have ne: "pad 4 (year d) \<noteq> []" "pad 2 (day d) \<noteq> []"
    by (metis length_pad list.size(3) zero_neq_numeral)+
  then show ?thesis
    using ends by (simp add: is_text_iff isoformat_date_def)
qed

section \<open>Timestamps\<close>

record datetime =
  dt_date :: date
  hour :: nat
  minute :: nat
  second :: nat
  microsecond :: nat
  utcoffset :: int

definition valid_datetime :: "datetime \<Rightarrow> bool" where
  "valid_datetime t = (valid_date (dt_date t) \<and> hour t < 24 \<and> minute t < 60 \<and> second t < 60 \<and>
     microsecond t < 1000000 \<and> \<bar>utcoffset t\<bar> < 86400)"

definition isoformat_offset :: "int \<Rightarrow> string" where
  "isoformat_offset off =
     (let n = nat \<bar>off\<bar>
      in (if off < 0 then ''-'' else ''+'') @ pad 2 (n div 3600) @ '':'' @ pad 2 (n div 60 mod 60) @
         (if n mod 60 = 0 then [] else '':'' @ pad 2 (n mod 60)))"

text \<open>\<open>isoformat micros t\<close> is \<^verbatim>\<open>t.isoformat(timespec='microseconds')\<close> when \<open>micros\<close> holds and
  \<^verbatim>\<open>t.isoformat()\<close> otherwise, which leaves out a zero fraction.\<close>

definition isoformat :: "bool \<Rightarrow> datetime \<Rightarrow> string" where
  "isoformat micros t =
     isoformat_date (dt_date t) @ ''T'' @ pad 2 (hour t) @ '':'' @ pad 2 (minute t) @ '':'' @
     pad 2 (second t) @ (if micros \<or> microsecond t \<noteq> 0 then ''.'' @ pad 6 (microsecond t) else []) @
     isoformat_offset (utcoffset t)"

definition read_offset :: "string \<Rightarrow> int option" where
  "read_offset s =
     (case s of
        [] \<Rightarrow> None
      | c # s1 \<Rightarrow>
          if c \<noteq> CHR ''+'' \<and> c \<noteq> CHR ''-'' then None
          else
            Option.bind (read_field 2 s1) (\<lambda>(h, s2).
            Option.bind (read_char (CHR '':'') s2) (\<lambda>s3.
            Option.bind (read_field 2 s3) (\<lambda>(m, s4).
            Option.bind (if s4 = [] then Some (0, [])
                         else Option.bind (read_char (CHR '':'') s4) (read_field 2)) (\<lambda>(sec, s5).
              if s5 = [] \<and> h < 24 \<and> m < 60 \<and> sec < 60
              then Some ((if c = CHR ''-'' then -1 else 1) * int (3600 * h + 60 * m + sec))
              else None)))))"

definition read_fraction :: "string \<Rightarrow> (nat \<times> string) option" where
  "read_fraction s = (case read_char (CHR ''.'') s of None \<Rightarrow> Some (0, s) | Some r \<Rightarrow> read_field 6 r)"

definition fromisoformat :: "string \<Rightarrow> datetime result" where
  "fromisoformat s =
     (case
        Option.bind (read_date s) (\<lambda>(d, s1).
        Option.bind (read_char (CHR ''T'') s1) (\<lambda>s2.
        Option.bind (read_field 2 s2) (\<lambda>(h, s3).
        Option.bind (read_char (CHR '':'') s3) (\<lambda>s4.
        Option.bind (read_field 2 s4) (\<lambda>(m, s5).
        Option.bind (read_char (CHR '':'') s5) (\<lambda>s6.
        Option.bind (read_field 2 s6) (\<lambda>(sec, s7).
        Option.bind (read_fraction s7) (\<lambda>(us, s8).
        Option.bind (read_offset s8) (\<lambda>off.
          let t = \<lparr>dt_date = d, hour = h, minute = m, second = sec, microsecond = us, utcoffset = off\<rparr>
          in if valid_datetime t then Some t else None)))))))))
      of None \<Rightarrow> Inl ValueError | Some t \<Rightarrow> Inr t)"

lemma read_offset_isoformat [codec_simps]:
  assumes "\<bar>off\<bar> < 86400"
  shows "read_offset (isoformat_offset off) = Some off"
proof -
  define n where "n = nat \<bar>off\<bar>"
  have b: "n div 3600 < 24" "n div 60 mod 60 < 60" "n mod 60 < 60"
    using assms by (auto simp: n_def)
  have sum: "3600 * (n div 3600) + 60 * (n div 60 mod 60) + n mod 60 = n"
  proof -
    have "60 * (n div 60 div 60) + n div 60 mod 60 = n div 60" by (rule mult_div_mod_eq)
    moreover have "n div 60 div 60 = n div 3600" by (simp add: div_mult2_eq [symmetric])
    ultimately show ?thesis using mult_div_mod_eq [of 60 n] by linarith
  qed
  have fields: "read_field 2 (pad 2 (n div 3600) @ s) = Some (n div 3600, s)"
    "read_field 2 (pad 2 (n div 60 mod 60) @ s) = Some (n div 60 mod 60, s)"
    "read_field 2 (pad 2 (n div 60 mod 60)) = Some (n div 60 mod 60, [])"
    "read_field 2 (pad 2 (n mod 60)) = Some (n mod 60, [])" for s
    using b read_field_pad [of "n mod 60" 2 "[]"] read_field_pad [of "n div 60 mod 60" 2 "[]"]
    by (simp_all add: read_field_pad)
  have val: "(if off < 0 then -1 else 1) * int n = off" by (simp add: n_def)
  show ?thesis
  proof (cases "n mod 60 = 0")
    case True
    then have "3600 * (n div 3600) + 60 * (n div 60 mod 60) = n" using sum by simp
    with True val b fields show ?thesis
      by (auto simp: isoformat_offset_def read_offset_def n_def [symmetric] Let_def read_char_Cons
          simp flip: of_nat_mult of_nat_add split: if_splits)
  next
    case False
    with sum val b fields show ?thesis
      by (auto simp: isoformat_offset_def read_offset_def n_def [symmetric] Let_def read_char_Cons
          simp flip: of_nat_mult of_nat_add split: if_splits)
  qed
qed

lemma read_fraction_isoformat:
  assumes "us < 1000000" and "micros \<or> us \<noteq> 0"
  shows "read_fraction ((''.'' @ pad 6 us) @ r) = Some (us, r)"
  using assms by (simp add: read_fraction_def read_char_Cons read_field_pad)

lemma read_no_fraction: "read_fraction (isoformat_offset off) = Some (0, isoformat_offset off)"
  by (simp add: read_fraction_def isoformat_offset_def read_char_def Let_def)

lemma fromisoformat_isoformat [codec_simps]:
  assumes "valid_datetime t"
  shows "fromisoformat (isoformat micros t) = Inr t"
proof -
  have d: "read_date (isoformat_date (dt_date t) @ s) = Some (dt_date t, s)" for s
    using assms by (simp add: valid_datetime_def read_date_isoformat)
  have f: "read_field 2 (pad 2 (hour t) @ s) = Some (hour t, s)"
    "read_field 2 (pad 2 (minute t) @ s) = Some (minute t, s)"
    "read_field 2 (pad 2 (second t) @ s) = Some (second t, s)" for s
    using assms by (simp_all add: valid_datetime_def read_field_pad)
  have o: "read_offset (isoformat_offset (utcoffset t)) = Some (utcoffset t)"
    using assms by (simp add: valid_datetime_def read_offset_isoformat)
  define fraction where
    "fraction = (if micros \<or> microsecond t \<noteq> 0 then ''.'' @ pad 6 (microsecond t) else [])"
  have fr: "read_fraction (fraction @ isoformat_offset (utcoffset t)) =
      Some (microsecond t, isoformat_offset (utcoffset t))"
    using assms read_fraction_isoformat [of "microsecond t" micros] read_no_fraction
    unfolding fraction_def by (cases "micros \<or> microsecond t \<noteq> 0") (auto simp: valid_datetime_def)
  have "valid_datetime \<lparr>dt_date = dt_date t, hour = hour t, minute = minute t, second = second t,
      microsecond = microsecond t, utcoffset = utcoffset t\<rparr>" using assms by (cases t) simp
  then show ?thesis
    unfolding fromisoformat_def isoformat_def fraction_def [symmetric]
    by (simp add: d f o fr read_char_Cons Let_def)
qed


section \<open>Conversion to UTC\<close>

text \<open>The proleptic Gregorian ordinal of a date (1 for 0001-01-01) and back: years and then months
  are counted off from the start.\<close>

definition days_before_month :: "nat \<Rightarrow> nat \<Rightarrow> nat" where
  "days_before_month y m = sum_list (map (days_in_month y) [1..<m])"

definition date_ordinal :: "date \<Rightarrow> nat" where
  "date_ordinal d =
     (let y = year d - 1
      in 365 * y + y div 4 - y div 100 + y div 400 + days_before_month (year d) (month d) + day d)"

lemma year_days_pos [simp]: "0 < year_days y" "year_days y \<noteq> 0"
  by (simp_all add: year_days_def)

lemma days_in_month_pos [simp]: "0 < days_in_month y m" "days_in_month y m \<noteq> 0"
  by (simp_all add: days_in_month_def)

fun split_year :: "nat \<Rightarrow> nat \<Rightarrow> nat \<times> nat" where
  "split_year y n = (if n \<le> year_days y then (y, n) else split_year (Suc y) (n - year_days y))"

fun split_month :: "nat \<Rightarrow> nat \<Rightarrow> nat \<Rightarrow> nat \<times> nat" where
  "split_month y m n =
     (if 12 \<le> m \<or> n \<le> days_in_month y m then (m, n)
      else split_month y (Suc m) (n - days_in_month y m))"

declare split_year.simps [simp del] split_month.simps [simp del]

definition date_fromordinal :: "nat \<Rightarrow> date" where
  "date_fromordinal n =
     (let (y, k) = split_year 1 n; (m, d) = split_month y 1 k in \<lparr>year = y, month = m, day = d\<rparr>)"

text \<open>\<^verbatim>\<open>t.astimezone(UTC)\<close>. An instant outside the years 1 to 9999 raises \<^verbatim>\<open>OverflowError\<close>.\<close>

definition astimezone_utc :: "datetime \<Rightarrow> datetime result" where
  "astimezone_utc t =
     (if utcoffset t = 0 then Inr t
      else
        let secs = int (3600 * hour t + 60 * minute t + second t) - utcoffset t;
            ordn = int (date_ordinal (dt_date t)) + secs div 86400;
            r = nat (secs mod 86400);
            d = date_fromordinal (nat ordn)
        in if ordn < 1 \<or> 9999 < year d then Inl OverflowError
           else Inr \<lparr>dt_date = d, hour = r div 3600, minute = r div 60 mod 60, second = r mod 60,
                     microsecond = microsecond t, utcoffset = 0\<rparr>)"

lemma split_year_bounds:
  "1 \<le> n \<Longrightarrow> split_year y n = (y', k) \<Longrightarrow> y \<le> y' \<and> 1 \<le> k \<and> k \<le> year_days y'"
proof (induction y n rule: split_year.induct)
  case (1 y n)
  show ?case
  proof (cases "n \<le> year_days y")
    case True
    with 1 show ?thesis by (simp add: split_year.simps [of y n])
  next
    case False
    with 1 show ?thesis by (fastforce simp: split_year.simps [of y n])
  qed
qed

lemma split_month_bounds:
  "1 \<le> m \<Longrightarrow> m \<le> 12 \<Longrightarrow> 1 \<le> n \<Longrightarrow> n \<le> sum_list (map (days_in_month y) [m..<13]) \<Longrightarrow>
   split_month y m n = (m', d) \<Longrightarrow>
   1 \<le> m' \<and> m' \<le> 12 \<and> 1 \<le> d \<and> d \<le> days_in_month y m'"
proof (induction y m n rule: split_month.induct)
  case (1 y m n)
  have split: "[m..<13] = m # [Suc m..<13]" using "1.prems" by (simp add: upt_conv_Cons)
  show ?case
  proof (cases "12 \<le> m \<or> n \<le> days_in_month y m")
    case True
    with "1.prems" show ?thesis
      by (auto simp: split_month.simps [of y m n] numeral_eq_Suc upt_conv_Cons)
  next
    case False
    with "1.prems" split have "split_month y (Suc m) (n - days_in_month y m) = (m', d)"
      by (simp add: split_month.simps [of y m n])
    with 1 False split show ?thesis by auto
  qed
qed

lemma sum_days_in_month: "sum_list (map (days_in_month y) [1..<13]) = year_days y"
  by (simp add: numeral_eq_Suc days_in_month_def year_days_def)

lemma valid_date_fromordinal:
  assumes "1 \<le> n" and "year (date_fromordinal n) \<le> 9999"
  shows "valid_date (date_fromordinal n)"
proof -
  obtain y k where yk: "split_year 1 n = (y, k)" by fastforce
  obtain m d where md: "split_month y 1 k = (m, d)" by fastforce
  have k: "1 \<le> y" "1 \<le> k" "k \<le> year_days y" using split_year_bounds [OF assms(1) yk] by auto
  have "1 \<le> m \<and> m \<le> 12 \<and> 1 \<le> d \<and> d \<le> days_in_month y m"
    using split_month_bounds [OF _ _ k(2) _ md] k(3) sum_days_in_month [of y] by auto
  with k yk md assms(2) show ?thesis by (simp add: date_fromordinal_def valid_date_def)
qed

lemma astimezone_utc_offset: "astimezone_utc t = Inr u \<Longrightarrow> utcoffset u = 0"
  by (auto simp: astimezone_utc_def Let_def split: if_splits)

lemma astimezone_utc_valid:
  assumes "valid_datetime t" and "astimezone_utc t = Inr u"
  shows "valid_datetime u"
proof (cases "utcoffset t = 0")
  case True
  with assms show ?thesis by (simp add: astimezone_utc_def)
next
  case False
  define secs where "secs = int (3600 * hour t + 60 * minute t + second t) - utcoffset t"
  define d where "d = date_fromordinal (nat (int (date_ordinal (dt_date t)) + secs div 86400))"
  define r where "r = nat (secs mod 86400)"
  have cond: "1 \<le> int (date_ordinal (dt_date t)) + secs div 86400" "year d \<le> 9999"
    and u: "u = \<lparr>dt_date = d, hour = r div 3600, minute = r div 60 mod 60, second = r mod 60,
        microsecond = microsecond t, utcoffset = 0\<rparr>"
    using assms(2) False
    by (auto simp: astimezone_utc_def Let_def secs_def d_def r_def simp del: of_nat_add of_nat_mult
        split: if_splits)
  have "valid_date d" using cond by (auto simp: d_def intro!: valid_date_fromordinal)
  moreover have "r < 86400" by (simp add: r_def)
  then have "r div 3600 < 24" by (simp add: less_mult_imp_div_less)
  ultimately show ?thesis using assms(1) u by (simp add: valid_datetime_def)
qed

text \<open>\<^verbatim>\<open>str.replace\<close> for a non-empty pattern.\<close>

text \<open>Aware timestamps compare by the instant they name.\<close>

definition instant :: "datetime \<Rightarrow> int" where
  "instant t = (86400 * int (date_ordinal (dt_date t)) + int (3600 * hour t + 60 * minute t + second t) -
     utcoffset t) * 1000000 + int (microsecond t)"

function replace_all :: "string \<Rightarrow> string \<Rightarrow> string \<Rightarrow> string" where
  "replace_all old new s =
     (if s = [] \<or> old = [] then s
      else if take (length old) s = old then new @ replace_all old new (drop (length old) s)
      else hd s # replace_all old new (tl s))"
  by pat_completeness auto
termination
  by (relation "measure (\<lambda>(old, new, s). length s)") (auto simp: length_greater_0_conv)

declare replace_all.simps [simp del]

lemma replace_all_Nil [simp]: "replace_all old new [] = []"
  by (simp add: replace_all.simps)

lemma replace_all_skip:
  "c \<notin> set p \<Longrightarrow> replace_all (c # old) new (p @ s) = p @ replace_all (c # old) new s"
proof (induction p)
  case (Cons x p)
  then show ?case by (subst replace_all.simps) auto
qed simp

lemma replace_all_suffix: "c \<notin> set p \<Longrightarrow> replace_all (c # old) new (p @ c # old) = p @ new"
  by (simp add: replace_all_skip) (subst replace_all.simps, simp)

definition timestamp :: "datetime \<Rightarrow> string result" where
  "timestamp t = res_bind (astimezone_utc t) (\<lambda>u. Inr (replace_all ''+00:00'' ''Z'' (isoformat True u)))"

definition parse_timestamp :: "string \<Rightarrow> datetime result" where
  "parse_timestamp s = fromisoformat (replace_all ''Z'' ''+00:00'' s)"

lemma pad_not: "\<not> is_digit c \<Longrightarrow> c \<notin> set (pad k n)"
  using pad_digits [of k n] by (auto simp: list_all_iff)

lemma timestamp_text:
  assumes "utcoffset u = 0"
  obtains p where "isoformat True u = p @ ''+00:00''" "CHR ''+'' \<notin> set p" "CHR ''Z'' \<notin> set p"
proof
  let ?p = "isoformat_date (dt_date u) @ ''T'' @ pad 2 (hour u) @ '':'' @ pad 2 (minute u) @ '':'' @
     pad 2 (second u) @ ''.'' @ pad 6 (microsecond u)"
  have "pad (Suc (Suc 0)) 0 = ''00''" by (simp add: char_of_48)
  then have "pad 2 0 = ''00''" by (simp only: numeral_2_eq_2)
  then show "isoformat True u = ?p @ ''+00:00''"
    using assms by (simp add: isoformat_def isoformat_offset_def)
  have "\<not> is_digit (CHR ''+'')" "\<not> is_digit (CHR ''Z'')" by (simp_all add: is_digit_def)
  then show "CHR ''+'' \<notin> set ?p" "CHR ''Z'' \<notin> set ?p"
    by (simp_all add: isoformat_date_def pad_not)
qed

lemma parse_timestamp_timestamp:
  assumes "valid_datetime t" and "timestamp t = Inr s"
  shows "\<exists>u. astimezone_utc t = Inr u \<and> parse_timestamp s = Inr u"
proof -
  obtain u where u: "astimezone_utc t = Inr u"
    and s: "s = replace_all ''+00:00'' ''Z'' (isoformat True u)"
    using assms(2) by (auto simp: timestamp_def res_simps)
  obtain p where p: "isoformat True u = p @ ''+00:00''" "CHR ''+'' \<notin> set p" "CHR ''Z'' \<notin> set p"
    using timestamp_text astimezone_utc_offset [OF u] by blast
  have "s = p @ ''Z''" using p s by (simp add: replace_all_suffix)
  then have "replace_all ''Z'' ''+00:00'' s = isoformat True u"
    using p replace_all_suffix [of "CHR ''Z''" p "[]"] by simp
  with u astimezone_utc_valid [OF assms(1) u] show ?thesis
    by (simp add: parse_timestamp_def fromisoformat_isoformat)
qed

lemma timestamp_utc: "utcoffset t = 0 \<Longrightarrow> \<exists>s. timestamp t = Inr s"
  by (simp add: timestamp_def astimezone_utc_def)

lemma date_fromisoformat_valid: "date_fromisoformat s = Inr d \<Longrightarrow> valid_date d"
  by (auto simp: date_fromisoformat_def read_date_def Let_def bind_eq_Some_conv
      split: if_splits option.splits prod.splits list.splits)

lemma pad_text: "is_text (pad (Suc k) n)"
proof -
  have no_space: "\<not> is_space c" if "is_digit c" for c
    using that by (auto simp: is_digit_def is_space_def py_whitespace_def)
  have "pad (Suc k) n \<noteq> []" by simp
  with pad_digits [of "Suc k" n] no_space show ?thesis
    unfolding is_text_iff list_all_iff by (meson hd_in_set last_in_set)
qed

lemma isoformat_offset_text: "is_text (isoformat_offset off)"
proof -
  have "pad 2 n \<noteq> []" "\<not> is_space (last (pad 2 n))" for n
    using pad_text [of 1 n] by (simp_all add: numeral_2_eq_2 is_text_iff)
  moreover have "\<not> is_space (CHR ''+'')" "\<not> is_space (CHR ''-'')" by (simp_all add: is_space_def py_whitespace_def)
  ultimately show ?thesis
    unfolding isoformat_offset_def Let_def is_text_iff by (simp del: pad.simps)
qed

lemma isoformat_text: "is_text (isoformat micros t)"
proof -
  obtain q where q: "isoformat micros t = (isoformat_date (dt_date t) @ q) @ isoformat_offset (utcoffset t)"
    unfolding isoformat_def by (metis append_assoc)
  have "isoformat_date (dt_date t) \<noteq> []" "\<not> is_space (hd (isoformat_date (dt_date t)))"
    using isoformat_date_text [of "dt_date t"] by (simp_all add: is_text_iff)
  then show ?thesis unfolding q by (intro is_text_append isoformat_offset_text) simp_all
qed

end
