(* ===== verification/Events.thy ===== *)
theory Events
  imports Json Sha256 Timestamps
begin

text \<open>
  The event envelope (\<^verbatim>\<open>src/src/study_agent/domain/events.py\<close>), the trusted execution context
  (\<^verbatim>\<open>domain/context.py\<close>) and the envelope codec \<^verbatim>\<open>event_to_bytes\<close> / \<^verbatim>\<open>event_from_bytes\<close>
  (\<^verbatim>\<open>state/serialization.py\<close>). The main fact is the round trip: what an event store reads
  back is the event it was given, with its timestamp in UTC and the keys of its payload
  sorted.
\<close>

section \<open>Envelopes\<close>

datatype principal_kind = HUMAN | SERVICE | MODEL

fun principal_value :: "principal_kind \<Rightarrow> string" where
  "principal_value HUMAN = ''human''"
| "principal_value SERVICE = ''service''"
| "principal_value MODEL = ''model''"

definition principal_of :: "string \<Rightarrow> principal_kind result" where
  "principal_of s =
     (if s = ''human'' then Inr HUMAN else if s = ''service'' then Inr SERVICE
      else if s = ''model'' then Inr MODEL else Inl ValueError)"

lemma principal_of_value [codec_simps]: "principal_of (principal_value k) = Inr k"
  by (cases k) (simp_all add: principal_of_def)

text \<open>The actors the services trust to write: humans and services, never a model.\<close>

definition trusted_kind :: "principal_kind \<Rightarrow> bool" where
  "trusted_kind k = (k = HUMAN \<or> k = SERVICE)"

record actor =
  act_kind :: principal_kind
  act_principal :: string

record domain_event =
  ev_id :: string
  ev_course :: string
  ev_seq :: int
  ev_type :: string
  ev_version :: int
  ev_actor :: actor
  ev_at :: datetime
  ev_correlation :: string
  ev_payload :: json_object
  ev_session :: "string option"
  ev_causation :: "string option"

record exec_context =
  ctx_kind :: principal_kind
  ctx_principal :: string
  ctx_course :: string
  ctx_correlation :: string
  ctx_capabilities :: "string list"
  ctx_session :: "string option"
  ctx_model_run :: "string option"
  ctx_key :: "string option"

definition text_option :: "string option \<Rightarrow> bool" where
  "text_option x = (case x of None \<Rightarrow> True | Some s \<Rightarrow> is_text s)"

text \<open>What \<^verbatim>\<open>ExecutionContext.__post_init__\<close> checks, with the identifiers' own checks.\<close>

definition wf_context :: "exec_context \<Rightarrow> bool" where
  "wf_context ctx =
     (is_text (ctx_principal ctx) \<and> is_text (ctx_course ctx) \<and> is_text (ctx_correlation ctx) \<and>
      list_all is_text (ctx_capabilities ctx) \<and> text_option (ctx_session ctx) \<and>
      text_option (ctx_model_run ctx) \<and> text_option (ctx_key ctx))"

text \<open>What \<^verbatim>\<open>DomainEvent.__post_init__\<close> checks, on fields whose own constructors have checked
  them (identifiers are trimmed text, the actor's principal too).\<close>

definition wf_event :: "domain_event \<Rightarrow> bool" where
  "wf_event e =
     (is_text (ev_id e) \<and> is_text (ev_course e) \<and> 1 \<le> ev_seq e \<and> is_text (ev_type e) \<and>
      1 \<le> ev_version e \<and> is_text (act_principal (ev_actor e)) \<and> valid_datetime (ev_at e) \<and>
      is_text (ev_correlation e) \<and> wf_json (JObj (ev_payload e)) \<and>
      text_option (ev_session e) \<and> text_option (ev_causation e) \<and> ev_causation e \<noteq> Some (ev_id e))"

definition mk_actor :: "principal_kind \<Rightarrow> string \<Rightarrow> actor result" where
  "mk_actor k p = res_bind (require_text p) (\<lambda>_. Inr \<lparr>act_kind = k, act_principal = p\<rparr>)"

definition mk_event :: "domain_event \<Rightarrow> domain_event result" where
  "mk_event e =
     (if ev_seq e < 1 then Inl ValueError
      else if ev_version e < 1 then Inl ValueError
      else res_bind (require_text (ev_type e)) (\<lambda>_.
        if ev_causation e = Some (ev_id e) then Inl ValueError else Inr e))"

lemma mk_event_Inr [res_simps]:
  "mk_event e = Inr e' \<longleftrightarrow>
   1 \<le> ev_seq e \<and> 1 \<le> ev_version e \<and> is_text (ev_type e) \<and> ev_causation e \<noteq> Some (ev_id e) \<and> e' = e"
  by (auto simp: mk_event_def res_simps)

lemma mk_event_wf [simp]: "wf_event e \<Longrightarrow> mk_event e = Inr e"
  by (simp add: mk_event_Inr wf_event_def)

section \<open>The envelope codec\<close>

definition opt_json :: "string option \<Rightarrow> json" where
  "opt_json x = (case x of None \<Rightarrow> JNull | Some s \<Rightarrow> JStr s)"

definition event_envelope :: "domain_event \<Rightarrow> string \<Rightarrow> json_object" where
  "event_envelope e at = [
     (''actor'', JObj [(''kind'', JStr (principal_value (act_kind (ev_actor e)))),
                       (''principal_id'', JStr (act_principal (ev_actor e)))]),
     (''causation_id'', opt_json (ev_causation e)),
     (''correlation_id'', JStr (ev_correlation e)),
     (''course_id'', JStr (ev_course e)),
     (''course_sequence'', JInt (ev_seq e)),
     (''event_id'', JStr (ev_id e)),
     (''event_type'', JStr (ev_type e)),
     (''occurred_at'', JStr at),
     (''payload'', JObj (ev_payload e)),
     (''schema_version'', JInt (ev_version e)),
     (''session_id'', opt_json (ev_session e))]"

definition event_to_bytes :: "domain_event \<Rightarrow> bytes result" where
  "event_to_bytes e =
     res_bind (timestamp (ev_at e)) (\<lambda>at. Inr (canonical_json_bytes (event_envelope e at)))"

definition required_str :: "json_object \<Rightarrow> string \<Rightarrow> string result" where
  "required_str env k = (case jget env k of JStr s \<Rightarrow> Inr s | _ \<Rightarrow> Inl ValueError)"

definition required_int :: "json_object \<Rightarrow> string \<Rightarrow> int result" where
  "required_int env k = (case jget env k of JInt i \<Rightarrow> Inr i | _ \<Rightarrow> Inl ValueError)"

definition required_map :: "json_object \<Rightarrow> string \<Rightarrow> json_object result" where
  "required_map env k = (case jget env k of JObj kvs \<Rightarrow> Inr kvs | _ \<Rightarrow> Inl ValueError)"

text \<open>\<^verbatim>\<open>SessionId(x) if x else None\<close> for a field that is null or a string: the empty string is
  false and counts as absent.\<close>

definition optional_id :: "json_object \<Rightarrow> string \<Rightarrow> string option result" where
  "optional_id env k =
     (case jget env k of
        JNull \<Rightarrow> Inr None
      | JStr s \<Rightarrow> if s = [] then Inr None else res_bind (mk_identifier s) (\<lambda>i. Inr (Some i))
      | _ \<Rightarrow> Inl ValueError)"

definition envelope_fields :: "string list" where
  "envelope_fields = [''actor'', ''causation_id'', ''correlation_id'', ''course_id'', ''course_sequence'',
     ''event_id'', ''event_type'', ''occurred_at'', ''payload'', ''schema_version'', ''session_id'']"

definition actor_from_json :: "json_object \<Rightarrow> actor result" where
  "actor_from_json obj =
     (if \<not> has_keys obj [''kind'', ''principal_id''] then Inl ValueError
      else
        res_bind (required_str obj ''kind'') (\<lambda>k.
        res_bind (principal_of k) (\<lambda>pk.
        res_bind (required_str obj ''principal_id'') (\<lambda>p. mk_actor pk p))))"

definition event_from_envelope :: "json_object \<Rightarrow> domain_event result" where
  "event_from_envelope env =
     (if \<not> has_keys env envelope_fields then Inl ValueError
      else
        res_bind (required_map env ''actor'') (\<lambda>actor_obj.
        res_bind (actor_from_json actor_obj) (\<lambda>act.
        res_bind (required_map env ''payload'') (\<lambda>pl.
        res_bind (required_str env ''occurred_at'') (\<lambda>at.
        res_bind (optional_id env ''session_id'') (\<lambda>sess.
        res_bind (optional_id env ''causation_id'') (\<lambda>caus.
        res_bind (res_bind (required_str env ''event_id'') mk_identifier) (\<lambda>eid.
        res_bind (res_bind (required_str env ''course_id'') mk_identifier) (\<lambda>cid.
        res_bind (required_int env ''course_sequence'') (\<lambda>sq.
        res_bind (required_str env ''event_type'') (\<lambda>ty.
        res_bind (required_int env ''schema_version'') (\<lambda>ver.
        res_bind (parse_timestamp at) (\<lambda>t.
        res_bind (res_bind (required_str env ''correlation_id'') mk_identifier) (\<lambda>corr.
          mk_event \<lparr>ev_id = eid, ev_course = cid, ev_seq = sq, ev_type = ty, ev_version = ver,
            ev_actor = act, ev_at = t, ev_correlation = corr, ev_payload = pl,
            ev_session = sess, ev_causation = caus\<rparr>))))))))))))))"

definition event_from_bytes :: "bytes \<Rightarrow> domain_event result" where
  "event_from_bytes data =
     res_bind (canonical_json_object data) (\<lambda>env.
       if canonical_json_bytes env \<noteq> data then Inl ValueError else event_from_envelope env)"

section \<open>The round trip\<close>

text \<open>The event as the store reads it back.\<close>

definition canonical_event :: "domain_event \<Rightarrow> datetime \<Rightarrow> domain_event" where
  "canonical_event e u = e\<lparr>ev_at := u, ev_payload := canon_obj (ev_payload e)\<rparr>"

lemma canon_opt_json [simp]: "canon (opt_json x) = opt_json x"
  by (cases x) (simp_all add: opt_json_def)

lemma wf_opt_json [simp]: "wf_json (opt_json x)"
  by (cases x) (simp_all add: opt_json_def)

lemma distinct_envelope: "distinct (keys_of (event_envelope e at))"
  by (simp add: event_envelope_def)

lemma wf_envelope: "wf_event e \<Longrightarrow> wf_json (JObj (event_envelope e at))"
  by (auto simp: event_envelope_def wf_event_def)

lemma optional_id_roundtrip:
  "text_option x \<Longrightarrow> jget env k = opt_json x \<Longrightarrow> optional_id env k = Inr x"
  by (cases x) (auto simp: optional_id_def opt_json_def text_option_def is_text_def)

lemma actor_from_json_roundtrip:
  "is_text (act_principal a) \<Longrightarrow>
   actor_from_json (canon_obj [(''kind'', JStr (principal_value (act_kind a))),
     (''principal_id'', JStr (act_principal a))]) = Inr a"
  by (simp add: actor_from_json_def required_str_def jget_canon has_keys_def)
    (simp add: jget_def principal_of_value mk_actor_def)

lemma event_from_envelope_roundtrip:
  assumes wf: "wf_event e" and at: "parse_timestamp at = Inr u"
  shows "event_from_envelope (canon_obj (event_envelope e at)) = Inr (canonical_event e u)"
proof -
  let ?env = "event_envelope e at"
  have get: "jget (canon_obj ?env) k = canon (jget ?env k)" for k
    by (rule jget_canon [OF distinct_envelope])
  have keys: "has_keys ?env envelope_fields"
    by (simp add: has_keys_def event_envelope_def envelope_fields_def)
  have act: "actor_from_json (canon_obj [(''kind'', JStr (principal_value (act_kind (ev_actor e)))),
     (''principal_id'', JStr (act_principal (ev_actor e)))]) = Inr (ev_actor e)"
    using wf by (intro actor_from_json_roundtrip) (simp add: wf_event_def)
  have maps: "required_map (canon_obj ?env) ''actor'' = Inr (canon_obj [(''kind'', JStr (principal_value (act_kind (ev_actor e)))),
     (''principal_id'', JStr (act_principal (ev_actor e)))])"
    "required_map (canon_obj ?env) ''payload'' = Inr (canon_obj (ev_payload e))"
    by (simp_all add: required_map_def get) (simp_all add: event_envelope_def jget_def canon_JObj del: canon.simps(6))
  have strs: "required_str (canon_obj ?env) ''occurred_at'' = Inr at"
    "required_str (canon_obj ?env) ''event_id'' = Inr (ev_id e)"
    "required_str (canon_obj ?env) ''course_id'' = Inr (ev_course e)"
    "required_str (canon_obj ?env) ''event_type'' = Inr (ev_type e)"
    "required_str (canon_obj ?env) ''correlation_id'' = Inr (ev_correlation e)"
    "required_int (canon_obj ?env) ''course_sequence'' = Inr (ev_seq e)"
    "required_int (canon_obj ?env) ''schema_version'' = Inr (ev_version e)"
    by (simp_all add: required_str_def required_int_def get) (simp_all add: event_envelope_def jget_def)
  have "jget (canon_obj ?env) ''session_id'' = opt_json (ev_session e)"
    "jget (canon_obj ?env) ''causation_id'' = opt_json (ev_causation e)"
    by (simp_all only: get) (simp_all add: event_envelope_def jget_def)
  then have opts: "optional_id (canon_obj ?env) ''session_id'' = Inr (ev_session e)"
    "optional_id (canon_obj ?env) ''causation_id'' = Inr (ev_causation e)"
    using wf by (auto simp: wf_event_def intro: optional_id_roundtrip)
  show ?thesis
    using wf unfolding event_from_envelope_def
    by (simp add: keys act maps strs opts at wf_event_def mk_event_Inr canonical_event_def)
qed

lemma event_roundtrip:
  assumes wf: "wf_event e" and enc: "event_to_bytes e = Inr b"
  shows "\<exists>u. astimezone_utc (ev_at e) = Inr u \<and> event_from_bytes b = Inr (canonical_event e u)"
proof -
  obtain at where at: "timestamp (ev_at e) = Inr at"
    and b: "b = canonical_json_bytes (event_envelope e at)"
    using enc by (auto simp: event_to_bytes_def res_simps)
  obtain u where u: "astimezone_utc (ev_at e) = Inr u" "parse_timestamp at = Inr u"
    using parse_timestamp_timestamp [OF _ at] wf by (auto simp: wf_event_def)
  let ?env = "event_envelope e at"
  have wfe: "wf_json (JObj ?env)" by (rule wf_envelope [OF wf])
  then have "canonical_json_object b = Inr (canon_obj ?env)"
    unfolding b by (rule canonical_json_object_bytes)
  moreover have "wf_json (JObj (canon_obj ?env))"
    using wfe wf_canon [of "JObj ?env"] by (simp only: canon_JObj)
  then have "canonical_json_bytes (canon_obj ?env) = b"
    unfolding b by (subst canonical_json_bytes_eq_iff [OF _ wfe]) simp_all
  ultimately have "event_from_bytes b = Inr (canonical_event e u)"
    using event_from_envelope_roundtrip [OF wf u(2)] by (simp add: event_from_bytes_def)
  with u(1) show ?thesis by blast
qed

section \<open>Properties\<close>

text \<open>C7. The event codec loses nothing: reading the bytes of a well-formed event gives back the event, with its
  timestamp moved to UTC and the keys of its payload sorted.\<close>

theorem event_codec_roundtrip:
  assumes "wf_event e" and "event_to_bytes e = Inr data"
  shows "\<exists>u. astimezone_utc (ev_at e) = Inr u \<and> event_from_bytes data = Inr (canonical_event e u)"
  by (rule event_roundtrip [OF assms])

definition plain_event :: domain_event where
  "plain_event = \<lparr>ev_id = ''e1'', ev_course = ''bio'', ev_seq = 1, ev_type = ''note'', ev_version = 1,
     ev_actor = \<lparr>act_kind = HUMAN, act_principal = ''ann''\<rparr>,
     ev_at = \<lparr>dt_date = \<lparr>year = 2024, month = 5, day = 2\<rparr>, hour = 9, minute = 30, second = 0, microsecond = 0, utcoffset = 0\<rparr>,
     ev_correlation = ''r1'', ev_payload = [(''b'', JInt 1), (''a'', JNull)], ev_session = None, ev_causation = None\<rparr>"

lemma plain_event_wf: "wf_event plain_event"
  by (auto simp: wf_event_def plain_event_def text_eval text_option_def valid_datetime_def valid_date_def days_in_month_def)

theorem event_codec_roundtrip_witness:
  "\<exists>data u. event_to_bytes plain_event = Inr data \<and> event_from_bytes data = Inr (canonical_event plain_event u)"
proof -
  obtain at where "timestamp (ev_at plain_event) = Inr at" using timestamp_utc by (force simp: plain_event_def)
  then have "event_to_bytes plain_event = Inr (canonical_json_bytes (event_envelope plain_event at))"
    by (simp add: event_to_bytes_def)
  with event_codec_roundtrip [OF plain_event_wf] show ?thesis by blast
qed

end
