(* ===== verification/Registry.thy ===== *)
theory Registry
  imports Events
begin

text \<open>
  The schema-versioned reducer registry and the projection it drives
  (\<^verbatim>\<open>src/src/study_agent/state/registry.py\<close> and \<^verbatim>\<open>state/projection.py\<close>).

  A registration is a decoder and a reducer for one exact event type and schema version; both
  may raise. The type of decoded payloads is a parameter, since the registry never looks into
  them. A projection migrator is named, the name standing for the identity of the function
  object the registry compares. \<open>projection_contract\<close> states what the event store relies on;
  the components prove it for their own decoders and reducers.
\<close>

section \<open>Registration and dispatch\<close>

record 'p registration =
  reg_decoder :: "domain_event \<Rightarrow> 'p result"
  reg_reducer :: "json_object \<Rightarrow> domain_event \<Rightarrow> 'p \<Rightarrow> json_object result"

record 'p registry =
  registrations :: "((string \<times> int) \<times> 'p registration) list"
  migrations :: "(string \<times> (json_object \<Rightarrow> json_object result)) list"

definition empty_registry :: "'p registry" where
  "empty_registry = \<lparr>registrations = [], migrations = []\<rparr>"

definition register_projection_migration ::
  "string \<times> (json_object \<Rightarrow> json_object result) \<Rightarrow> 'p registry \<Rightarrow> 'p registry" where
  "register_projection_migration m reg =
     (if fst m \<in> set (keys_of (migrations reg)) then reg
      else reg\<lparr>migrations := migrations reg @ [m]\<rparr>)"

definition migrate_projection :: "'p registry \<Rightarrow> json_object \<Rightarrow> json_object result" where
  "migrate_projection reg state = fold_res (\<lambda>m s. snd m s) (migrations reg) state"

definition register_entry ::
  "string \<Rightarrow> int \<Rightarrow> 'p registration \<Rightarrow> 'p registry \<Rightarrow> 'p registry result" where
  "register_entry ty ver r reg =
     (if \<not> is_text ty then Inl ReducerRegistrationError
      else if ver < 1 then Inl ReducerRegistrationError
      else if (ty, ver) \<in> set (keys_of (registrations reg)) then Inl ReducerRegistrationError
      else Inr (reg\<lparr>registrations := registrations reg @ [((ty, ver), r)]\<rparr>))"

definition register ::
  "string \<Rightarrow> int \<Rightarrow> (json_object \<Rightarrow> 'p result) \<Rightarrow>
   (json_object \<Rightarrow> domain_event \<Rightarrow> 'p \<Rightarrow> json_object result) \<Rightarrow> 'p registry \<Rightarrow> 'p registry result" where
  "register ty ver dec red reg =
     register_entry ty ver \<lparr>reg_decoder = (\<lambda>e. dec (ev_payload e)), reg_reducer = red\<rparr> reg"

definition register_event ::
  "string \<Rightarrow> int \<Rightarrow> (domain_event \<Rightarrow> 'p result) \<Rightarrow>
   (json_object \<Rightarrow> domain_event \<Rightarrow> 'p \<Rightarrow> json_object result) \<Rightarrow> 'p registry \<Rightarrow> 'p registry result" where
  "register_event ty ver dec red reg = register_entry ty ver \<lparr>reg_decoder = dec, reg_reducer = red\<rparr> reg"

definition registration_of :: "'p registry \<Rightarrow> domain_event \<Rightarrow> 'p registration result" where
  "registration_of reg e =
     (case map_of (registrations reg) (ev_type e, ev_version e) of
        None \<Rightarrow> Inl UnknownEventSchemaError
      | Some r \<Rightarrow> Inr r)"

definition decode :: "'p registry \<Rightarrow> domain_event \<Rightarrow> 'p result" where
  "decode reg e =
     res_bind (registration_of reg e) (\<lambda>r. map_error (\<lambda>_. PayloadValidationError) (reg_decoder r e))"

definition reduce_decoded :: "'p registry \<Rightarrow> json_object \<Rightarrow> domain_event \<Rightarrow> 'p \<Rightarrow> json_object result" where
  "reduce_decoded reg state e p = res_bind (registration_of reg e) (\<lambda>r. reg_reducer r state e p)"

definition reduce :: "'p registry \<Rightarrow> json_object \<Rightarrow> domain_event \<Rightarrow> json_object result" where
  "reduce reg state e = res_bind (decode reg e) (\<lambda>p. reduce_decoded reg state e p)"

text \<open>The registry erases the payload type of a decoder and a reducer; in the model the erased type is
  \<open>'p\<close>, with an injection into it and a projection back that the cast of the code stands for.\<close>

definition erase_decoder :: "('a \<Rightarrow> 'p) \<Rightarrow> (domain_event \<Rightarrow> 'a result) \<Rightarrow> domain_event \<Rightarrow> 'p result" where
  "erase_decoder wrap dec e = res_bind (dec e) (\<lambda>x. Inr (wrap x))"

definition erase_reducer ::
  "('p \<Rightarrow> 'a option) \<Rightarrow> (json_object \<Rightarrow> domain_event \<Rightarrow> 'a \<Rightarrow> json_object result) \<Rightarrow>
   json_object \<Rightarrow> domain_event \<Rightarrow> 'p \<Rightarrow> json_object result" where
  "erase_reducer unwrap red s e p = (case unwrap p of None \<Rightarrow> Inl TypeError | Some x \<Rightarrow> red s e x)"

text \<open>A registration is found again under its own key and changes no other.\<close>

lemma registration_of_register_event:
  assumes "register_event ty ver dec red reg = Inr reg'"
  shows "registration_of reg' e =
    (if ev_type e = ty \<and> ev_version e = ver
     then Inr \<lparr>reg_decoder = dec, reg_reducer = red\<rparr> else registration_of reg e)"
proof -
  have fresh: "map_of (registrations reg) (ty, ver) = None"
    and reg': "registrations reg' =
      registrations reg @ [((ty, ver), \<lparr>reg_decoder = dec, reg_reducer = red\<rparr>)]"
    using assms by (auto simp: register_event_def register_entry_def map_of_eq_None_iff split: if_splits)
  then show ?thesis
    by (auto simp: registration_of_def map_add_def split: option.splits)
qed

section \<open>Projections\<close>

record projection =
  proj_course :: string
  proj_seq :: int
  proj_state :: json_object

definition mk_projection :: "string \<Rightarrow> int \<Rightarrow> json_object \<Rightarrow> projection result" where
  "mk_projection c n s =
     (if n < 0 then Inl ValueError else Inr \<lparr>proj_course = c, proj_seq = n, proj_state = s\<rparr>)"

definition canonical_bytes :: "projection \<Rightarrow> bytes" where
  "canonical_bytes p = canonical_json_bytes
     [(''course_id'', JStr (proj_course p)), (''sequence'', JInt (proj_seq p)),
      (''state'', JObj (proj_state p))]"

definition apply_event :: "'p registry \<Rightarrow> domain_event \<Rightarrow> projection \<Rightarrow> projection result" where
  "apply_event reg e p =
     (if ev_course e \<noteq> proj_course p then Inl ProjectionSequenceError
      else if ev_seq e \<noteq> proj_seq p + 1 then Inl ProjectionSequenceError
      else res_bind (reduce reg (proj_state p) e) (\<lambda>s. mk_projection (ev_course e) (ev_seq e) s))"

definition initial_projection :: "string \<Rightarrow> projection" where
  "initial_projection c = \<lparr>proj_course = c, proj_seq = 0, proj_state = []\<rparr>"

definition replay :: "'p registry \<Rightarrow> string \<Rightarrow> domain_event list \<Rightarrow> projection result" where
  "replay reg c es = fold_res (apply_event reg) es (initial_projection c)"

lemma apply_event_Inr [res_simps]:
  "apply_event reg e p = Inr q \<longleftrightarrow>
   ev_course e = proj_course p \<and> ev_seq e = proj_seq p + 1 \<and> 0 \<le> ev_seq e \<and>
   reduce reg (proj_state p) e = Inr (proj_state q) \<and>
   proj_course q = proj_course p \<and> proj_seq q = proj_seq p + 1"
  by (cases q) (auto simp: apply_event_def mk_projection_def res_simps)

lemma fold_apply_event_course_seq:
  "fold_res (apply_event reg) es p = Inr q \<Longrightarrow>
   proj_course q = proj_course p \<and> proj_seq q = proj_seq p + int (length es)"
  by (induction es arbitrary: p) (force simp: res_simps)+

lemma replay_course_seq:
  "replay reg c es = Inr q \<Longrightarrow> proj_course q = c \<and> proj_seq q = int (length es)"
  by (auto simp: replay_def initial_projection_def dest: fold_apply_event_course_seq)

lemma fold_apply_event_seqs:
  "fold_res (apply_event reg) es p = Inr q \<Longrightarrow>
   (\<forall>e \<in> set es. ev_course e = proj_course p) \<and>
   map ev_seq es = map (\<lambda>i. proj_seq p + 1 + int i) [0..<length es]"
proof (induction es arbitrary: p)
  case (Cons e es)
  then obtain p' where p': "apply_event reg e p = Inr p'"
    and rest: "fold_res (apply_event reg) es p' = Inr q"
    by (auto simp: res_simps)
  have "map (\<lambda>i. proj_seq p + 1 + int i) [0..<length (e # es)] =
      (proj_seq p + 1) # map (\<lambda>i. proj_seq p + 1 + 1 + int i) [0..<length es]"
    by (simp add: upt_conv_Cons map_Suc_upt [symmetric] del: upt_Suc)
  with Cons.IH [OF rest] p' show ?case by (auto simp: res_simps)
qed simp

text \<open>A replay that succeeds was given one course's events, numbered from one without gaps.\<close>

lemma replay_contiguous:
  "replay reg c es = Inr q \<Longrightarrow>
   (\<forall>e \<in> set es. ev_course e = c) \<and> map ev_seq es = map (\<lambda>i. 1 + int i) [0..<length es]"
  by (auto simp: replay_def initial_projection_def dest: fold_apply_event_seqs)

lemma replay_snoc:
  "replay reg c (es @ ds) = res_bind (replay reg c es) (fold_res (apply_event reg) ds)"
  by (simp add: replay_def fold_res_append)

section \<open>What the event store relies on\<close>

text \<open>Two states are the same dictionary when they differ in the order of keys only; an event and
  the event read back from its bytes differ in the order of its payload's keys only, if its
  timestamp is in UTC.\<close>

definition same_state :: "json_object \<Rightarrow> json_object \<Rightarrow> bool" where
  "same_state s t = (canon_obj s = canon_obj t)"

definition same_result :: "json_object result \<Rightarrow> json_object result \<Rightarrow> bool" where
  "same_result a b = (map_sum id canon_obj a = map_sum id canon_obj b)"

lemma same_result_simps [simp]:
  "same_result (Inl a) (Inl b) \<longleftrightarrow> a = b" "same_result (Inr s) (Inr t) \<longleftrightarrow> same_state s t"
  "\<not> same_result (Inl a) (Inr t)" "\<not> same_result (Inr s) (Inl b)"
  by (simp_all add: same_result_def same_state_def)

lemma same_state_refl [simp]: "same_state s s"
  and same_state_canon [simp]: "same_state (canon_obj s) s" "same_state s (canon_obj s)"
  by (simp_all add: same_state_def)

lemma same_state_update:
  assumes "wf_json (JObj s)" and "wf_json (JObj t)" and "same_state s t" and "canon v = canon w"
  shows "same_state (AList.update k v s) (AList.update k w t)"
  unfolding same_state_def
proof (rule canon_obj_eqI)
  show "distinct (keys_of (AList.update k v s))" "distinct (keys_of (AList.update k w t))"
    using assms by (auto simp: distinct_update)
  have "map_option canon (map_of s j) = map_option canon (map_of t j)" for j
    using assms map_of_canon_obj [of s j] map_of_canon_obj [of t j] by (simp add: same_state_def)
  then show "map_option canon (map_of (AList.update k v s) j) = map_option canon (map_of (AList.update k w t) j)" for j
    using assms(4) by (simp add: map_of_update)
qed

lemma canon_update:
  assumes "wf_json (JObj s)" and "canon v = canon w"
  shows "canon_obj (AList.update k v (canon_obj s)) = canon_obj (AList.update k w s)"
proof -
  have "wf_json (JObj (canon_obj s))" using assms(1) wf_canon [of "JObj s"] unfolding canon_JObj by blast
  then show ?thesis
    using same_state_update [of "canon_obj s" s v w k] assms by (simp add: same_state_def)
qed

lemma same_result_bind:
  "(\<And>x. m = Inr x \<Longrightarrow> same_result (f x) (g x)) \<Longrightarrow> same_result (res_bind m f) (res_bind m g)"
  by (cases m) simp_all

lemma canon_status:
  assumes "wf_json (JObj raw)"
  shows "canon (JObj (AList.update k v (canon_obj raw))) = canon (JObj (AList.update k v raw))"
  unfolding canon_JObj using canon_update [OF assms] by simp

definition is_utc :: "domain_event \<Rightarrow> bool" where
  "is_utc e = (utcoffset (ev_at e) = 0)"

definition stored :: "domain_event \<Rightarrow> domain_event" where
  "stored e = canonical_event e (ev_at e)"

lemma stored_fields [simp]:
  "ev_id (stored e) = ev_id e" "ev_course (stored e) = ev_course e" "ev_seq (stored e) = ev_seq e"
  "ev_type (stored e) = ev_type e" "ev_version (stored e) = ev_version e" "ev_at (stored e) = ev_at e"
  "ev_actor (stored e) = ev_actor e" "ev_session (stored e) = ev_session e"
  "ev_causation (stored e) = ev_causation e" "ev_correlation (stored e) = ev_correlation e"
  "ev_payload (stored e) = canon_obj (ev_payload e)"
  by (simp_all add: stored_def canonical_event_def)

lemma wf_stored [simp]: "wf_event (stored e) \<longleftrightarrow> wf_event e"
  using wf_canon [of "JObj (ev_payload e)"] by (simp add: wf_event_def canon_JObj del: canon.simps wf_json_JObj)

lemma is_utc_stored [simp]: "is_utc (stored e) \<longleftrightarrow> is_utc e"
  by (simp add: is_utc_def)

lemma stored_stored [simp]: "stored (stored e) = stored e"
  by (cases e) (simp add: stored_def canonical_event_def)

locale projection_contract =
  fixes reg :: "'p registry"
    and inv :: "json_object \<Rightarrow> bool"
  assumes inv_empty: "inv []"
    and inv_wf: "inv s \<Longrightarrow> wf_json (JObj s)"
    and inv_canon: "inv s \<Longrightarrow> inv (canon_obj s)"
    and reduce_inv: "inv s \<Longrightarrow> wf_event e \<Longrightarrow> reduce reg s e = Inr s' \<Longrightarrow> inv s'"
    and reduce_same: "inv s \<Longrightarrow> wf_event e \<Longrightarrow> is_utc e \<Longrightarrow>
      same_result (reduce reg (canon_obj s) (stored e)) (reduce reg s e)"
    and migrate_id: "inv s \<Longrightarrow> migrate_projection reg s = Inr s"
begin

lemma reduce_congruent:
  assumes "inv s" and "inv t" and "same_state s t" and "wf_event e" and "is_utc e"
  shows "same_result (reduce reg t (stored e)) (reduce reg s e)"
proof -
  have "same_result (reduce reg (canon_obj t) (stored (stored e))) (reduce reg t (stored e))"
    using assms by (intro reduce_same) simp_all
  moreover have "same_result (reduce reg (canon_obj s) (stored e)) (reduce reg s e)"
    using assms by (intro reduce_same) simp_all
  ultimately show ?thesis using assms(3) by (simp add: same_result_def same_state_def)
qed

text \<open>Reducing a batch of events and replaying the stored forms of them end in the same state.\<close>

lemma fold_apply_congruent:
  assumes "\<forall>e \<in> set es. wf_event e \<and> is_utc e" and "inv (proj_state p)" and "inv (proj_state q)"
    and "same_state (proj_state p) (proj_state q)" and "proj_course p = proj_course q"
    and "proj_seq p = proj_seq q" and "fold_res (apply_event reg) es p = Inr p'"
  shows "\<exists>q'. fold_res (apply_event reg) (map stored es) q = Inr q' \<and> inv (proj_state p') \<and>
    inv (proj_state q') \<and> same_state (proj_state p') (proj_state q')"
  using assms
proof (induction es arbitrary: p q)
  case (Cons e es)
  obtain p1 where p1: "apply_event reg e p = Inr p1"
    and rest: "fold_res (apply_event reg) es p1 = Inr p'"
    using Cons.prems(7) by (auto simp: res_simps)
  have "same_result (reduce reg (proj_state q) (stored e)) (reduce reg (proj_state p) e)"
    using Cons.prems by (intro reduce_congruent) (auto simp: same_state_def)
  then obtain t where t: "reduce reg (proj_state q) (stored e) = Inr t" "same_state t (proj_state p1)"
    using p1 by (cases "reduce reg (proj_state q) (stored e)") (auto simp: res_simps)
  define q1 where "q1 = \<lparr>proj_course = proj_course q, proj_seq = proj_seq q + 1, proj_state = t\<rparr>"
  have q1: "apply_event reg (stored e) q = Inr q1"
    using p1 t Cons.prems by (auto simp: res_simps q1_def)
  have inv1: "inv (proj_state p1)" "inv t"
    using p1 t Cons.prems reduce_inv [of "proj_state p" e] reduce_inv [of "proj_state q" "stored e"]
    by (auto simp: res_simps)
  have "\<exists>q'. fold_res (apply_event reg) (map stored es) q1 = Inr q' \<and> inv (proj_state p') \<and>
      inv (proj_state q') \<and> same_state (proj_state p') (proj_state q')"
    using Cons.prems p1 t inv1 rest
    by (intro Cons.IH [of p1 q1]) (auto simp: q1_def res_simps same_state_def)
  with q1 show ?case by simp
qed auto

lemma fold_apply_inv:
  "\<forall>e \<in> set es. wf_event e \<Longrightarrow> inv (proj_state p) \<Longrightarrow>
   fold_res (apply_event reg) es p = Inr q \<Longrightarrow> inv (proj_state q)"
proof (induction es arbitrary: p)
  case (Cons e es)
  then obtain p1 where p1: "apply_event reg e p = Inr p1"
    and rest: "fold_res (apply_event reg) es p1 = Inr q"
    by (auto simp: res_bind_eq_Inr)
  have "inv (proj_state p1)" using p1 Cons.prems reduce_inv [of "proj_state p" e] by (auto simp: res_simps)
  with Cons rest show ?case by auto
qed simp

lemma replay_inv: "\<forall>e \<in> set es. wf_event e \<Longrightarrow> replay reg c es = Inr q \<Longrightarrow> inv (proj_state q)"
  unfolding replay_def by (rule fold_apply_inv) (simp_all add: initial_projection_def inv_empty)

end


text \<open>A registry without migrations meets the contract, with well-formed states, when each of its
  registrations does.\<close>

definition wf_state :: "json_object \<Rightarrow> bool" where
  "wf_state s = wf_json (JObj s)"

definition registration_ok :: "'p registration \<Rightarrow> bool" where
  "registration_ok r =
     ((\<forall>e. wf_event e \<longrightarrow> is_utc e \<longrightarrow> reg_decoder r (stored e) = reg_decoder r e) \<and>
      (\<forall>s e x s'. wf_state s \<longrightarrow> wf_event e \<longrightarrow> reg_decoder r e = Inr x \<longrightarrow>
        reg_reducer r s e x = Inr s' \<longrightarrow> wf_state s') \<and>
      (\<forall>s e x. wf_state s \<longrightarrow> wf_event e \<longrightarrow> is_utc e \<longrightarrow> reg_decoder r e = Inr x \<longrightarrow>
        same_result (reg_reducer r (canon_obj s) (stored e) x) (reg_reducer r s e x)))"

lemma wf_state_canon [simp]: "wf_state (canon_obj s) \<longleftrightarrow> wf_state s"
  using wf_canon [of "JObj s"] unfolding wf_state_def by (simp only: canon_JObj)

lemma registration_ok_decoder:
  "registration_ok r \<Longrightarrow> wf_event e \<Longrightarrow> is_utc e \<Longrightarrow> reg_decoder r (stored e) = reg_decoder r e"
  by (simp add: registration_ok_def)

lemma registration_ok_wf:
  "registration_ok r \<Longrightarrow> wf_state s \<Longrightarrow> wf_event e \<Longrightarrow> reg_decoder r e = Inr x \<Longrightarrow>
   reg_reducer r s e x = Inr s' \<Longrightarrow> wf_state s'"
  unfolding registration_ok_def by blast

lemma registration_ok_same:
  "registration_ok r \<Longrightarrow> wf_state s \<Longrightarrow> wf_event e \<Longrightarrow> is_utc e \<Longrightarrow> reg_decoder r e = Inr x \<Longrightarrow>
   same_result (reg_reducer r (canon_obj s) (stored e) x) (reg_reducer r s e x)"
  unfolding registration_ok_def by blast

lemma erased_registration_ok:
  assumes unwrap: "\<And>x. unwrap (wrap x) = Some x"
    and dec: "\<And>e. wf_event e \<Longrightarrow> dec (stored e) = dec e"
    and wf: "\<And>s e x s'. wf_state s \<Longrightarrow> wf_event e \<Longrightarrow> dec e = Inr x \<Longrightarrow> red s e x = Inr s' \<Longrightarrow> wf_state s'"
    and same: "\<And>s e x. wf_state s \<Longrightarrow> wf_event e \<Longrightarrow> is_utc e \<Longrightarrow> dec e = Inr x \<Longrightarrow>
      same_result (red (canon_obj s) (stored e) x) (red s e x)"
  shows "registration_ok \<lparr>reg_decoder = erase_decoder wrap dec, reg_reducer = erase_reducer unwrap red\<rparr>"
proof -
  have "\<exists>y. x = wrap y \<and> dec e = Inr y" if "erase_decoder wrap dec e = Inr x" for e x
    using that by (auto simp: erase_decoder_def res_bind_eq_Inr)
  then show ?thesis
    unfolding registration_ok_def registration.simps
    using dec wf same unwrap by (fastforce simp: erase_decoder_def erase_reducer_def)
qed

lemma registration_of_stored [simp]: "registration_of reg (stored e) = registration_of reg e"
  by (simp add: registration_of_def)

lemma projection_contractI:
  assumes ok: "\<And>k r. (k, r) \<in> set (registrations reg) \<Longrightarrow> registration_ok r"
    and mig: "migrations reg = []"
  shows "projection_contract reg wf_state"
proof
  have found: "registration_ok r" if "registration_of reg e = Inr r" for e r
    using that ok [OF map_of_SomeD] by (auto simp: registration_of_def split: option.splits)
  show "wf_state []" by (simp add: wf_state_def)
  show "wf_json (JObj s)" if "wf_state s" for s using that by (simp add: wf_state_def)
  show "wf_state (canon_obj s)" if "wf_state s" for s using that by simp
  show "migrate_projection reg s = Inr s" if "wf_state s" for s
    by (simp add: migrate_projection_def mig)
  show "wf_state s'" if "wf_state s" "wf_event e" "reduce reg s e = Inr s'" for s e s'
  proof -
    from that(3) obtain r x where "registration_of reg e = Inr r" "reg_decoder r e = Inr x"
      "reg_reducer r s e x = Inr s'"
      by (auto simp: reduce_def decode_def reduce_decoded_def res_bind_eq_Inr map_error_eq_Inr)
    then show ?thesis using registration_ok_wf [OF found] that by blast
  qed
  show "same_result (reduce reg (canon_obj s) (stored e)) (reduce reg s e)"
    if "wf_state s" "wf_event e" "is_utc e" for s e
  proof (cases "registration_of reg e")
    case (Inr r)
    have "reg_decoder r (stored e) = reg_decoder r e"
      using registration_ok_decoder [OF found [OF Inr]] that by simp
    then show ?thesis
      using that registration_ok_same [OF found [OF Inr]] Inr
      by (cases "reg_decoder r e") (simp_all add: reduce_def decode_def reduce_decoded_def)
  qed (simp add: reduce_def decode_def)
qed

section \<open>Properties\<close>

text \<open>C19. Replay accepts complete streams only: when it succeeds, every event belongs to the course, the sequence
  numbers are one, two, three and so on without a gap, and the projection is at the last of them.\<close>

theorem replay_is_gapless:
  assumes "replay reg c es = Inr p"
  shows "(\<forall>e \<in> set es. ev_course e = c) \<and> map ev_seq es = map (\<lambda>i. 1 + int i) [0..<length es] \<and>
    proj_course p = c \<and> proj_seq p = int (length es)"
  using replay_contiguous [OF assms] replay_course_seq [OF assms] by blast

text \<open>A registry with one event type that keeps the state as it is.\<close>

definition echo_registry :: "unit registry" where
  "echo_registry = \<lparr>registrations = [((''note'', 1), \<lparr>reg_decoder = (\<lambda>_. Inr ()), reg_reducer = (\<lambda>s _ _. Inr s)\<rparr>)], migrations = []\<rparr>"

theorem replay_is_gapless_witness:
  "\<exists>p. replay echo_registry ''bio'' [plain_event] = Inr p \<and> proj_seq p = 1"
proof -
  have "replay echo_registry ''bio'' [plain_event] = Inr \<lparr>proj_course = ''bio'', proj_seq = 1, proj_state = []\<rparr>"
    by (simp add: replay_def apply_event_def initial_projection_def plain_event_def reduce_def decode_def reduce_decoded_def
        registration_of_def echo_registry_def mk_projection_def)
  from replay_is_gapless [OF this] this show ?thesis by auto
qed

end
