(* ===== verification/Event_Store.thy ===== *)
theory Event_Store
  imports Registry
begin

text \<open>
  The SQLite event store (\<^verbatim>\<open>src/src/study_agent/adapters/sqlite/event_store.py\<close>): the append-only
  \<^verbatim>\<open>events\<close> table, the \<^verbatim>\<open>projections\<close> table updated in the same transaction, optimistic
  concurrency on a course's sequence, reading, rebuilding and verifying.

  A database is a record of the two tables: \<open>db_events\<close> holds the rows in insertion order,
  \<open>db_projections\<close> is keyed by course. SQLite serialises writers, so each operation is one
  transaction from a database to a result: \<open>Inr\<close> carries the committed database, \<open>Inl\<close> the
  exception, after which the transaction is rolled back and the database is the old one.
  The table constraints (primary key, unique event id, checks, 64-bit integers) are part of
  \<open>insert_event\<close>. Opening connections and guarding file identities is not modelled.
\<close>

section \<open>Tables\<close>

record event_row =
  row_course :: string
  row_seq :: int
  row_event_id :: string
  row_type :: string
  row_version :: int
  row_envelope :: bytes

record database =
  db_events :: "event_row list"
  db_projections :: "string \<rightharpoonup> int \<times> bytes"

definition empty_database :: database where
  "empty_database = \<lparr>db_events = [], db_projections = Map.empty\<rparr>"

text \<open>Binding a Python integer beyond 64 bits raises \<^verbatim>\<open>OverflowError\<close>.\<close>

definition sqlite_int :: "int \<Rightarrow> bool" where
  "sqlite_int i = (- (2 ^ 63) \<le> i \<and> i < 2 ^ 63)"

definition insert_event :: "event_row \<Rightarrow> database \<Rightarrow> database result" where
  "insert_event r db =
     (if \<not> sqlite_int (row_seq r) \<or> \<not> sqlite_int (row_version r) then Inl OverflowError
      else if row_seq r < 1 \<or> row_version r < 1 then Inl IntegrityError
      else if \<exists>q \<in> set (db_events db). row_course q = row_course r \<and> row_seq q = row_seq r
        then Inl IntegrityError
      else if \<exists>q \<in> set (db_events db). row_event_id q = row_event_id r then Inl IntegrityError
      else Inr (db\<lparr>db_events := db_events db @ [r]\<rparr>))"

definition rows_of :: "database \<Rightarrow> string \<Rightarrow> event_row list" where
  "rows_of db c = filter (\<lambda>r. row_course r = c) (db_events db)"

text \<open>\<^verbatim>\<open>SELECT COALESCE(MAX(course_sequence), 0) FROM events WHERE course_id = ?\<close>\<close>

definition current_sequence :: "database \<Rightarrow> string \<Rightarrow> int" where
  "current_sequence db c =
     (let ss = map row_seq (rows_of db c) in if ss = [] then 0 else Max (set ss))"

section \<open>Operations\<close>

definition load_projection ::
  "bool \<Rightarrow> 'p registry \<Rightarrow> database \<Rightarrow> string \<Rightarrow> int \<Rightarrow> (projection \<times> database) result" where
  "load_projection read_only reg db c stream_sequence =
     (case db_projections db c of
        None \<Rightarrow>
          if stream_sequence \<noteq> 0 then Inl ProjectionConsistencyError
          else Inr (initial_projection c, db)
      | Some (n, data) \<Rightarrow>
          if n \<noteq> stream_sequence then Inl ProjectionConsistencyError
          else
            res_bind (canonical_json_object data) (\<lambda>raw.
            res_bind (migrate_projection reg raw) (\<lambda>state.
            let db' =
              (if \<not> py_eq (JObj state) (JObj raw) \<and> \<not> read_only
               then db\<lparr>db_projections := (db_projections db)(c \<mapsto> (n, canonical_json_bytes state))\<rparr>
               else db)
            in res_bind (mk_projection c n state) (\<lambda>p. Inr (p, db')))))"

fun check_batch :: "string \<Rightarrow> int \<Rightarrow> domain_event list \<Rightarrow> unit result" where
  "check_batch c expected [] = Inr ()"
| "check_batch c expected (e # es) =
     (if ev_course e \<noteq> c then Inl EventBatchError
      else if ev_seq e \<noteq> expected + 1 then Inl EventBatchError
      else check_batch c (expected + 1) es)"

definition row_of :: "string \<Rightarrow> domain_event \<Rightarrow> bytes \<Rightarrow> event_row" where
  "row_of c e data = \<lparr>row_course = c, row_seq = ev_seq e, row_event_id = ev_id e,
     row_type = ev_type e, row_version = ev_version e, row_envelope = data\<rparr>"

definition append_one ::
  "'p registry \<Rightarrow> string \<Rightarrow> domain_event \<times> 'p \<Rightarrow> projection \<times> database \<Rightarrow> (projection \<times> database) result" where
  "append_one reg c ep pd =
     (let (e, payload) = ep; (p, db) = pd in
      res_bind (event_to_bytes e) (\<lambda>data.
      res_bind (insert_event (row_of c e data) db) (\<lambda>db'.
        if ev_seq e \<noteq> proj_seq p + 1 then Inl EventBatchError
        else
          res_bind (reduce_decoded reg (proj_state p) e payload) (\<lambda>s.
          res_bind (mk_projection (ev_course e) (ev_seq e) s) (\<lambda>p'. Inr (p', db'))))))"

definition append ::
  "bool \<Rightarrow> 'p registry \<Rightarrow> string \<Rightarrow> int \<Rightarrow> domain_event list \<Rightarrow> database \<Rightarrow> (int \<times> database) result" where
  "append read_only reg c expected es db =
     (if expected < 0 then Inl EventBatchError
      else
        res_bind (check_batch c expected es) (\<lambda>_.
        if read_only then Inl PermissionError
        else
          let current = current_sequence db c in
          if current \<noteq> expected then Inl (SequenceConflictError c expected current)
          else
            res_bind (map_res (decode reg) es) (\<lambda>payloads.
            res_bind (load_projection read_only reg db c current) (\<lambda>pd.
            res_bind (fold_res (append_one reg c) (zip es payloads) pd) (\<lambda>(p, db').
              Inr (proj_seq p,
                if es = [] then db'
                else db'\<lparr>db_projections :=
                  (db_projections db')(c \<mapsto> (proj_seq p, canonical_json_bytes (proj_state p)))\<rparr>))))))"

definition read :: "database \<Rightarrow> string \<Rightarrow> int \<Rightarrow> domain_event list result" where
  "read db c after_sequence =
     (if after_sequence < 0 then Inl ValueError
      else map_res event_from_bytes
        (map row_envelope
          (sort_key row_seq (filter (\<lambda>r. row_seq r > after_sequence) (rows_of db c)))))"

definition list_course_ids :: "database \<Rightarrow> string list" where
  "list_course_ids db = sort (remdups (map row_course (db_events db)))"

definition projection_of :: "bool \<Rightarrow> 'p registry \<Rightarrow> database \<Rightarrow> string \<Rightarrow> (projection \<times> database) result" where
  "projection_of read_only reg db c = load_projection read_only reg db c (current_sequence db c)"

definition projection_bytes :: "bool \<Rightarrow> 'p registry \<Rightarrow> database \<Rightarrow> string \<Rightarrow> (bytes \<times> database) result" where
  "projection_bytes read_only reg db c =
     res_bind (projection_of read_only reg db c) (\<lambda>(p, db'). Inr (canonical_bytes p, db'))"

definition rebuild_projection :: "bool \<Rightarrow> 'p registry \<Rightarrow> string \<Rightarrow> database \<Rightarrow> (bytes \<times> database) result" where
  "rebuild_projection read_only reg c db =
     (if read_only then Inl PermissionError
      else
        let db1 = db\<lparr>db_projections := (db_projections db)(c := None)\<rparr> in
        res_bind (map_res event_from_bytes (map row_envelope (sort_key row_seq (rows_of db1 c)))) (\<lambda>es.
        res_bind (replay reg c es) (\<lambda>p.
          let db2 =
            (if proj_seq p \<noteq> 0
             then db1\<lparr>db_projections :=
               (db_projections db1)(c \<mapsto> (proj_seq p, canonical_json_bytes (proj_state p)))\<rparr>
             else db1)
          in Inr (canonical_bytes p, db2))))"

definition verify_projection :: "bool \<Rightarrow> 'p registry \<Rightarrow> string \<Rightarrow> database \<Rightarrow> (bool \<times> database) result" where
  "verify_projection read_only reg c db =
     res_bind (projection_bytes read_only reg db c) (\<lambda>(persisted, db').
     res_bind (read db' c 0) (\<lambda>es.
     res_bind (replay reg c es) (\<lambda>p. Inr (persisted = canonical_bytes p, db'))))"

section \<open>Consistent databases\<close>

text \<open>A row holds the bytes of the event it names, and the event is well-formed.\<close>

definition row_event :: "event_row \<Rightarrow> domain_event \<Rightarrow> bool" where
  "row_event r e = (wf_event e \<and> is_utc e \<and> event_from_bytes (row_envelope r) = Inr e \<and>
     row_course r = ev_course e \<and> row_seq r = ev_seq e \<and> row_event_id r = ev_id e \<and>
     row_type r = ev_type e \<and> row_version r = ev_version e)"

text \<open>The rows of every course are its events, numbered from one without gaps in the order of
  insertion, and the projection row is the replay of them.\<close>

definition stream_ok :: "'p registry \<Rightarrow> database \<Rightarrow> string \<Rightarrow> domain_event list \<Rightarrow> bool" where
  "stream_ok reg db c es =
     (list_all2 row_event (rows_of db c) es \<and>
      (\<exists>p. replay reg c es = Inr p \<and>
        db_projections db c =
          (if es = [] then None
           else Some (int (length es), canonical_json_bytes (proj_state p)))))"

definition store_ok :: "'p registry \<Rightarrow> database \<Rightarrow> bool" where
  "store_ok reg db =
     (distinct (map row_event_id (db_events db)) \<and> (\<forall>c. \<exists>es. stream_ok reg db c es))"

lemma store_ok_empty: "store_ok reg empty_database"
  by (auto simp: store_ok_def stream_ok_def empty_database_def rows_of_def replay_def intro!: exI [of _ "[]"])

lemma rows_seqs: "list_all2 row_event rs es \<Longrightarrow> map row_seq rs = map ev_seq es"
  by (induction rule: list_all2_induct) (simp_all add: row_event_def)

lemma stream_ok_seqs:
  assumes "stream_ok reg db c es"
  shows "map row_seq (rows_of db c) = map (\<lambda>i. 1 + int i) [0..<length es]"
proof -
  have "map row_seq (rows_of db c) = map ev_seq es"
    using assms by (auto simp: stream_ok_def intro: rows_seqs)
  moreover obtain p where "replay reg c es = Inr p" using assms by (auto simp: stream_ok_def)
  then have "map ev_seq es = map (\<lambda>i. 1 + int i) [0..<length es]" by (simp add: replay_contiguous)
  ultimately show ?thesis by simp
qed

lemma stream_ok_current:
  assumes "stream_ok reg db c es"
  shows "current_sequence db c = int (length es)"
proof -
  have s: "map row_seq (rows_of db c) = map (\<lambda>i. 1 + int i) [0..<length es]"
    by (rule stream_ok_seqs [OF assms])
  show ?thesis
  proof (cases "es = []")
    case False
    have "Max ((\<lambda>i. 1 + int i) ` {0..<length es}) = int (length es)"
    proof (rule Max_eqI)
      have "int (length es) = 1 + int (length es - 1)" using False by (cases es) simp_all
      moreover have "length es - 1 \<in> {0..<length es}" using False by (cases es) simp_all
      ultimately show "int (length es) \<in> (\<lambda>i. 1 + int i) ` {0..<length es}" by (rule image_eqI)
    qed auto
    with s False show ?thesis by (simp add: current_sequence_def Let_def)
  qed (use s in \<open>simp add: current_sequence_def Let_def\<close>)
qed

lemma sorted_seqs: "sorted (map (\<lambda>i. 1 + int i) [0..<n])"
  by (simp add: sorted_map)

lemma stream_ok_sorted:
  assumes "stream_ok reg db c es"
  shows "sort_key row_seq (filter (\<lambda>r. row_seq r > 0) (rows_of db c)) = rows_of db c"
    and "sort_key row_seq (rows_of db c) = rows_of db c"
proof -
  have s: "map row_seq (rows_of db c) = map (\<lambda>i. 1 + int i) [0..<length es]"
    by (rule stream_ok_seqs [OF assms])
  have "\<forall>k \<in> set (map row_seq (rows_of db c)). k > 0" unfolding s by auto
  then have f: "filter (\<lambda>r. row_seq r > 0) (rows_of db c) = rows_of db c" by simp
  have "sorted (map row_seq (rows_of db c))" unfolding s by (rule sorted_seqs)
  then show "sort_key row_seq (rows_of db c) = rows_of db c" by (rule sort_key_id_if_sorted)
  with f show "sort_key row_seq (filter (\<lambda>r. row_seq r > 0) (rows_of db c)) = rows_of db c" by simp
qed

lemma rows_events:
  "list_all2 row_event rs es \<Longrightarrow> map_res event_from_bytes (map row_envelope rs) = Inr es"
  by (induction rule: list_all2_induct) (simp_all add: row_event_def)

lemma stream_ok_read: "stream_ok reg db c es \<Longrightarrow> read db c 0 = Inr es"
  using stream_ok_sorted(1) [of reg db c es] by (auto simp: read_def stream_ok_def intro: rows_events)

lemma stream_ok_unique: "stream_ok reg db c es \<Longrightarrow> stream_ok reg db c ds \<Longrightarrow> es = ds"
  by (drule (1) stream_ok_read [THEN sym, THEN trans [OF _ stream_ok_read]]) simp


section \<open>Appending\<close>

lemma event_to_bytes_stored:
  assumes "wf_event e" and "is_utc e" and "event_to_bytes e = Inr data"
  shows "event_from_bytes data = Inr (stored e)"
proof -
  obtain u where "astimezone_utc (ev_at e) = Inr u" "event_from_bytes data = Inr (canonical_event e u)"
    using event_roundtrip [OF assms(1,3)] by blast
  then show ?thesis using assms(2) by (simp add: is_utc_def astimezone_utc_def stored_def)
qed

lemma insert_event_Inr [res_simps]:
  "insert_event r db = Inr db' \<longleftrightarrow>
   sqlite_int (row_seq r) \<and> sqlite_int (row_version r) \<and> 1 \<le> row_seq r \<and> 1 \<le> row_version r \<and>
   (\<forall>q \<in> set (db_events db). row_course q = row_course r \<longrightarrow> row_seq q \<noteq> row_seq r) \<and>
   (\<forall>q \<in> set (db_events db). row_event_id q \<noteq> row_event_id r) \<and> db' = db\<lparr>db_events := db_events db @ [r]\<rparr>"
  by (auto simp: insert_event_def)

lemma check_batch_Inr:
  "check_batch c n es = Inr u \<longleftrightarrow>
   (\<forall>e \<in> set es. ev_course e = c) \<and> map ev_seq es = map (\<lambda>i. n + 1 + int i) [0..<length es]"
proof (induction es arbitrary: n)
  case (Cons e es)
  have "map (\<lambda>i. n + 1 + int i) [0..<length (e # es)] =
      (n + 1) # map (\<lambda>i. n + 1 + 1 + int i) [0..<length es]"
    by (simp add: upt_conv_Cons map_Suc_upt [symmetric] del: upt_Suc)
  with Cons show ?case by auto
qed simp

lemma append_one_Inr:
  assumes "append_one reg c (e, x) (p, db) = Inr (p', db')" and "decode reg e = Inr x"
    and "ev_course e = c" and "proj_course p = c"
  shows "apply_event reg e p = Inr p'"
    and "\<exists>data. event_to_bytes e = Inr data \<and> insert_event (row_of c e data) db = Inr db'"
  using assms
  by (auto simp: append_one_def res_bind_eq_Inr mk_projection_def apply_event_Inr reduce_def
      split: if_splits)

lemma append_loop:
  assumes "fold_res (append_one reg c) (zip es xs) (p, db) = Inr (p', db')"
    and "map_res (decode reg) es = Inr xs" and "\<forall>e \<in> set es. ev_course e = c" and "proj_course p = c"
    and "\<forall>e \<in> set es. wf_event e \<and> is_utc e" and "distinct (map row_event_id (db_events db))"
  shows "fold_res (apply_event reg) es p = Inr p' \<and>
    (\<exists>rs. db' = db\<lparr>db_events := db_events db @ rs\<rparr> \<and> list_all2 row_event rs (map stored es) \<and>
      (\<forall>r \<in> set rs. row_course r = c)) \<and> distinct (map row_event_id (db_events db'))"
  using assms
proof (induction es arbitrary: xs p db)
  case (Cons e es)
  obtain x ys where xs: "xs = x # ys" "decode reg e = Inr x" "map_res (decode reg) es = Inr ys"
    using Cons.prems(2) by (auto simp: res_bind_eq_Inr)
  obtain p1 db1 where one: "append_one reg c (e, x) (p, db) = Inr (p1, db1)"
    and rest: "fold_res (append_one reg c) (zip es ys) (p1, db1) = Inr (p', db')"
    using Cons.prems(1) xs by (auto simp: res_bind_eq_Inr)
  have ap: "apply_event reg e p = Inr p1"
    using append_one_Inr(1) [OF one xs(2)] Cons.prems by simp
  obtain data where data: "event_to_bytes e = Inr data" "insert_event (row_of c e data) db = Inr db1"
    using append_one_Inr(2) [OF one xs(2)] Cons.prems by auto
  have db1: "db1 = db\<lparr>db_events := db_events db @ [row_of c e data]\<rparr>"
    and fresh: "ev_id e \<notin> row_event_id ` set (db_events db)"
    using data(2) by (auto simp: insert_event_Inr row_of_def)
  have "row_event (row_of c e data) (stored e)"
    using Cons.prems data(1) event_to_bytes_stored [of e data] by (simp add: row_event_def row_of_def)
  moreover obtain rs where "fold_res (apply_event reg) es p1 = Inr p'"
    "db' = db1\<lparr>db_events := db_events db1 @ rs\<rparr>" "list_all2 row_event rs (map stored es)"
    "\<forall>r \<in> set rs. row_course r = c" "distinct (map row_event_id (db_events db'))"
    using Cons.IH [OF rest xs(3)] Cons.prems xs ap fresh db1
    by (auto simp: apply_event_Inr row_of_def)
  ultimately show ?case
    using ap db1 by (intro conjI exI [of _ "row_of c e data # rs"]) (auto simp: row_of_def)
qed auto

lemma append_InrE:
  assumes "append ro reg c n es db = Inr (m, db')"
  obtains xs p db1 p' db2 where "check_batch c n es = Inr ()" "0 \<le> n" "\<not> ro" "current_sequence db c = n"
    "map_res (decode reg) es = Inr xs" "load_projection ro reg db c n = Inr (p, db1)"
    "fold_res (append_one reg c) (zip es xs) (p, db1) = Inr (p', db2)" "m = proj_seq p'"
    "db' = (if es = [] then db2 else db2\<lparr>db_projections :=
        (db_projections db2)(c \<mapsto> (proj_seq p', canonical_json_bytes (proj_state p')))\<rparr>)"
proof -
  have "0 \<le> n" "check_batch c n es = Inr ()" "\<not> ro" "current_sequence db c = n"
    using assms by (auto simp: append_def Let_def res_bind_eq_Inr split: if_splits)
  moreover from this obtain xs pd pd' where steps: "map_res (decode reg) es = Inr xs"
    "load_projection ro reg db c n = Inr pd" "fold_res (append_one reg c) (zip es xs) pd = Inr pd'"
    and res: "(case pd' of (p, db') \<Rightarrow> Inr (proj_seq p, if es = [] then db'
        else db'\<lparr>db_projections :=
          (db_projections db')(c \<mapsto> (proj_seq p, canonical_json_bytes (proj_state p)))\<rparr>)) =
      (Inr (m, db') :: (int \<times> database) result)"
    using assms unfolding append_def Let_def res_bind_eq_Inr by (auto simp: res_bind_eq_Inr)
  ultimately show thesis
    using that [of xs "fst pd" "snd pd" "fst pd'" "snd pd'"] by (cases pd') auto
qed

context projection_contract
begin

lemma stream_ok_wf: "stream_ok reg db c es \<Longrightarrow> \<forall>e \<in> set es. wf_event e \<and> is_utc e"
  by (auto simp: stream_ok_def list_all2_conv_all_nth in_set_conv_nth row_event_def)

lemma load_projection_ok:
  assumes "stream_ok reg db c es" and "replay reg c es = Inr p"
  shows "load_projection ro reg db c (int (length es)) =
    Inr (\<lparr>proj_course = c, proj_seq = int (length es), proj_state = canon_obj (proj_state p)\<rparr>, db)"
proof (cases "es = []")
  case True
  then show ?thesis
    using assms by (auto simp: load_projection_def stream_ok_def replay_def initial_projection_def canon_obj_def)
next
  case False
  have inv: "inv (proj_state p)"
    using replay_inv [OF _ assms(2)] stream_ok_wf [OF assms(1)] by blast
  then have "canonical_json_object (canonical_json_bytes (proj_state p)) = Inr (canon_obj (proj_state p))"
    by (intro canonical_json_object_bytes inv_wf)
  moreover have "migrate_projection reg (canon_obj (proj_state p)) = Inr (canon_obj (proj_state p))"
    by (intro migrate_id inv_canon inv)
  ultimately show ?thesis
    using assms False
    by (simp add: load_projection_def stream_ok_def py_eq_def mk_projection_def)
qed

lemma append_stream:
  assumes ok: "stream_ok reg db c old" and dist: "distinct (map row_event_id (db_events db))"
    and wf: "\<forall>e \<in> set es. wf_event e \<and> is_utc e"
    and app: "append ro reg c n es db = Inr (m, db')"
  shows "stream_ok reg db' c (old @ map stored es) \<and> n = int (length old) \<and> m = n + int (length es) \<and>
    distinct (map row_event_id (db_events db')) \<and>
    (\<exists>rs. db_events db' = db_events db @ rs \<and> (\<forall>r \<in> set rs. row_course r = c)) \<and>
    (\<forall>d. d \<noteq> c \<longrightarrow> db_projections db' d = db_projections db d)"
proof -
  obtain p where p: "replay reg c old = Inr p" using ok by (auto simp: stream_ok_def)
  define q where
    "q = \<lparr>proj_course = c, proj_seq = int (length old), proj_state = canon_obj (proj_state p)\<rparr>"
  have load: "load_projection ro reg db c (int (length old)) = Inr (q, db)"
    unfolding q_def by (rule load_projection_ok [OF ok p])
  obtain xs q0 db0 p' db1 where batch: "check_batch c n es = Inr ()" and "current_sequence db c = n"
    and xs: "map_res (decode reg) es = Inr xs" and load0: "load_projection ro reg db c n = Inr (q0, db0)"
    and loop0: "fold_res (append_one reg c) (zip es xs) (q0, db0) = Inr (p', db1)"
    and res: "m = proj_seq p'" "db' = (if es = [] then db1 else db1\<lparr>db_projections :=
        (db_projections db1)(c \<mapsto> (proj_seq p', canonical_json_bytes (proj_state p')))\<rparr>)"
    by (rule append_InrE [OF app])
  then have n: "n = int (length old)" using stream_ok_current [OF ok] by simp
  have loop: "fold_res (append_one reg c) (zip es xs) (q, db) = Inr (p', db1)"
    using load load0 loop0 n by simp
  have courses: "\<forall>e \<in> set es. ev_course e = c" using batch by (simp add: check_batch_Inr)
  obtain rs where fold: "fold_res (apply_event reg) es q = Inr p'"
    and rs: "db1 = db\<lparr>db_events := db_events db @ rs\<rparr>" "list_all2 row_event rs (map stored es)"
      "\<forall>r \<in> set rs. row_course r = c" "distinct (map row_event_id (db_events db1))"
    using append_loop [OF loop xs courses _ wf dist] by (auto simp: q_def)
  have inv: "inv (proj_state p)" using replay_inv [OF _ p] stream_ok_wf [OF ok] by blast
  have "proj_course p = c \<and> proj_seq p = int (length old)" using replay_course_seq [OF p] by simp
  then obtain p2 where p2: "fold_res (apply_event reg) (map stored es) p = Inr p2"
    and inv2: "inv (proj_state p')" "inv (proj_state p2)" and same: "same_state (proj_state p') (proj_state p2)"
    using fold_apply_congruent [OF wf _ inv _ _ _ fold] inv inv_canon by (auto simp: q_def)
  have replay: "replay reg c (old @ map stored es) = Inr p2" using p p2 by (simp add: replay_snoc)
  have m: "m = n + int (length es)"
    using fold_apply_event_course_seq [OF fold] res n by (simp add: q_def)
  have "canonical_json_bytes (proj_state p') = canonical_json_bytes (proj_state p2)"
    using same inv2 inv_wf by (simp add: canonical_json_bytes_eq_iff same_state_def del: wf_json_JObj)
  then have "db_projections db' c = (if old @ map stored es = [] then None
      else Some (int (length (old @ map stored es)), canonical_json_bytes (proj_state p2)))"
    using res rs(1) m n ok p p2 by (auto simp: stream_ok_def)
  moreover have "rows_of db' c = rows_of db c @ rs"
    using res rs(1,3) by (simp add: rows_of_def)
  ultimately have "stream_ok reg db' c (old @ map stored es)"
    using ok rs(2) replay by (auto simp: stream_ok_def intro: list_all2_appendI)
  then show ?thesis using n m res rs by auto
qed

end


section \<open>Facts that hold for every registry\<close>

lemma load_projection_events: "load_projection ro reg db c n = Inr (p, db') \<Longrightarrow> db_events db' = db_events db"
  by (auto simp: load_projection_def Let_def res_bind_eq_Inr split: option.splits if_splits)

lemma append_loop_rows:
  "fold_res (append_one reg c) (zip es xs) (p, db) = Inr (p', db') \<Longrightarrow> length xs = length es \<Longrightarrow>
   \<exists>rs. db_events db' = db_events db @ rs \<and> map row_seq rs = map ev_seq es \<and>
     map row_event_id rs = map ev_id es \<and> (\<forall>r \<in> set rs. row_course r = c)"
proof (induction es arbitrary: xs p db)
  case (Cons e es)
  obtain x ys where xs: "xs = x # ys" using Cons.prems by (cases xs) auto
  obtain p1 db1 where one: "append_one reg c (e, x) (p, db) = Inr (p1, db1)"
    and rest: "fold_res (append_one reg c) (zip es ys) (p1, db1) = Inr (p', db')"
    using Cons.prems(1) xs by (auto simp: res_bind_eq_Inr)
  obtain data where "db_events db1 = db_events db @ [row_of c e data]"
    using one by (auto simp: append_one_def res_bind_eq_Inr insert_event_Inr split: if_splits)
  moreover obtain rs where "db_events db' = db_events db1 @ rs" "map row_seq rs = map ev_seq es"
    "map row_event_id rs = map ev_id es" "\<forall>r \<in> set rs. row_course r = c"
    using Cons.IH [OF rest] Cons.prems xs by auto
  ultimately show ?case
    by (intro exI [of _ "row_of c e data # rs"]) (simp add: row_of_def)
qed auto

lemma append_rows:
  assumes "append ro reg c n es db = Inr (m, db')"
  shows "\<exists>rs. db_events db' = db_events db @ rs \<and> map row_seq rs = map (\<lambda>i. n + 1 + int i) [0..<length es] \<and>
    map row_event_id rs = map ev_id es \<and> (\<forall>r \<in> set rs. row_course r = c)"
proof -
  obtain xs p db1 p' db2 where *: "check_batch c n es = Inr ()" "map_res (decode reg) es = Inr xs"
    "load_projection ro reg db c n = Inr (p, db1)"
    "fold_res (append_one reg c) (zip es xs) (p, db1) = Inr (p', db2)"
    "db' = (if es = [] then db2 else db2\<lparr>db_projections :=
        (db_projections db2)(c \<mapsto> (proj_seq p', canonical_json_bytes (proj_state p')))\<rparr>)"
    using append_InrE [OF assms] by metis
  have "length xs = length es" using *(2) by (auto simp: map_res_Inr_iff dest: list_all2_lengthD)
  from append_loop_rows [OF *(4) this] load_projection_events [OF *(3)] *(1,5) show ?thesis
    by (auto simp: check_batch_Inr)
qed

lemma current_sequence_append:
  assumes "append ro reg c n es db = Inr (m, db')"
  shows "current_sequence db' c = n + int (length es)"
proof -
  obtain rs where rs: "db_events db' = db_events db @ rs" "\<forall>r \<in> set rs. row_course r = c"
    "map row_seq rs = map (\<lambda>i. n + 1 + int i) [0..<length es]"
    using append_rows [OF assms] by blast
  have cur: "current_sequence db c = n" "0 \<le> n" using append_InrE [OF assms] by metis+
  have rows: "rows_of db' c = rows_of db c @ rs" using rs by (simp add: rows_of_def)
  show ?thesis
  proof (cases "es = []")
    case True
    then have "rs = []" using rs(3) by simp
    with True rows cur show ?thesis by (simp add: current_sequence_def)
  next
    case False
    let ?ss = "set (map row_seq (rows_of db c))" and ?new = "(\<lambda>i. n + 1 + int i) ` {0..<length es}"
    have le: "\<forall>s \<in> ?ss. s \<le> n"
    proof (cases "rows_of db c = []")
      case False
      then show ?thesis using cur(1) by (auto simp: current_sequence_def Let_def intro: Max_ge)
    qed simp
    have "n + int (length es) = n + 1 + int (length es - 1)" using False by (cases es) simp_all
    then have mem: "n + int (length es) \<in> ?new"
      using False by (intro image_eqI [of _ _ "length es - 1"]) (auto simp: Suc_leI)
    have "Max (?ss \<union> ?new) = n + int (length es)"
      using mem le by (intro Max_eqI) auto
    moreover have "set (map row_seq (rows_of db' c)) = ?ss \<union> ?new"
      using rows rs(3) by (metis atLeast_upt image_set set_append list.map(2) map_append lessThan_atLeast0)
    moreover have "map row_seq (rows_of db' c) \<noteq> []" using False rows rs(3) by auto
    ultimately show ?thesis by (simp add: current_sequence_def Let_def del: set_map)
  qed
qed

lemma append_result: "append ro reg c n es db = Inr (m, db') \<Longrightarrow> m = n + int (length es)"
proof -
  assume app: "append ro reg c n es db = Inr (m, db')"
  obtain xs p db1 p' db2 where *: "check_batch c n es = Inr ()" "map_res (decode reg) es = Inr xs"
    "load_projection ro reg db c n = Inr (p, db1)"
    "fold_res (append_one reg c) (zip es xs) (p, db1) = Inr (p', db2)" "m = proj_seq p'"
    using append_InrE [OF app] by metis
  have len: "length xs = length es" using *(2) by (auto simp: map_res_Inr_iff dest: list_all2_lengthD)
  have "proj_seq p = n"
    using *(3) by (auto simp: load_projection_def Let_def res_bind_eq_Inr initial_projection_def mk_projection_def
        split: option.splits if_splits)
  moreover have "fold_res (append_one reg c) (zip es xs) (p, db1) = Inr (p', db2) \<Longrightarrow> length xs = length es \<Longrightarrow>
      proj_seq p' = proj_seq p + int (length es)"
  proof (induction es arbitrary: xs p db1)
    case (Cons e es)
    then obtain x ys where xs: "xs = x # ys" by (cases xs) auto
    obtain p1 db3 where one: "append_one reg c (e, x) (p, db1) = Inr (p1, db3)"
      and rest: "fold_res (append_one reg c) (zip es ys) (p1, db3) = Inr (p', db2)"
      using Cons.prems(1) xs by (auto simp: res_bind_eq_Inr)
    have "proj_seq p1 = proj_seq p + 1"
      using one by (auto simp: append_one_def res_bind_eq_Inr mk_projection_def split: if_splits)
    then show ?case using Cons.IH [OF rest] Cons.prems(2) xs by simp
  qed auto
  ultimately show "m = n + int (length es)" using *(4,5) len by simp
qed

text \<open>Of two writers that read the same sequence, the second one to append conflicts.\<close>

lemma append_conflict:
  assumes "append ro reg c n es db = Inr (m, db')" and "es \<noteq> []"
    and "check_batch c n ds = Inr ()"
  shows "append ro reg' c n ds db' = Inl (SequenceConflictError c n (n + int (length es)))"
proof -
  have "\<not> ro" "0 \<le> n" using append_InrE [OF assms(1)] by metis+
  with assms current_sequence_append [OF assms(1)] show ?thesis
    by (simp add: append_def Let_def)
qed

section \<open>Runs of the store\<close>

inductive store_step :: "'p registry \<Rightarrow> database \<Rightarrow> database \<Rightarrow> bool" for reg where
  step_append: "append ro reg c n es db = Inr (m, db') \<Longrightarrow> \<forall>e \<in> set es. wf_event e \<and> is_utc e \<Longrightarrow>
    store_step reg db db'"
| step_load: "projection_of ro reg db c = Inr (p, db') \<Longrightarrow> store_step reg db db'"
| step_rebuild: "rebuild_projection ro reg c db = Inr (b, db') \<Longrightarrow> store_step reg db db'"

inductive reachable :: "'p registry \<Rightarrow> database \<Rightarrow> bool" for reg where
  reach_empty: "reachable reg empty_database"
| reach_step: "reachable reg db \<Longrightarrow> store_step reg db db' \<Longrightarrow> reachable reg db'"

inductive_cases store_stepE: "store_step reg db db'"

lemma rebuild_events: "rebuild_projection ro reg c db = Inr (b, db') \<Longrightarrow> db_events db' = db_events db"
  by (auto simp: rebuild_projection_def Let_def res_bind_eq_Inr split: if_splits)

lemma store_step_append_only: "store_step reg db db' \<Longrightarrow> \<exists>rs. db_events db' = db_events db @ rs"
proof (induction rule: store_step.induct)
  case (step_append ro c n es db m db')
  then show ?case using append_rows by blast
next
  case (step_load ro db c p db')
  then show ?case by (auto simp: projection_of_def dest: load_projection_events)
next
  case (step_rebuild ro c db b db')
  then show ?case by (auto dest: rebuild_events)
qed

context projection_contract
begin

lemma stream_ok_frame:
  "rows_of db' d = rows_of db d \<Longrightarrow> db_projections db' d = db_projections db d \<Longrightarrow>
   stream_ok reg db d es \<Longrightarrow> stream_ok reg db' d es"
  by (simp add: stream_ok_def)

lemma store_ok_append:
  assumes "store_ok reg db" and "\<forall>e \<in> set es. wf_event e \<and> is_utc e"
    and "append ro reg c n es db = Inr (m, db')"
  shows "store_ok reg db'"
proof -
  obtain old where old: "stream_ok reg db c old" using assms(1) by (auto simp: store_ok_def)
  have dist: "distinct (map row_event_id (db_events db))" using assms(1) by (simp add: store_ok_def)
  note app = append_stream [OF old dist assms(2,3)]
  have "\<exists>es. stream_ok reg db' d es" for d
  proof (cases "d = c")
    case True
    then show ?thesis using app by auto
  next
    case False
    then have "rows_of db' d = rows_of db d" "db_projections db' d = db_projections db d"
      using app by (auto simp: rows_of_def filter_empty_conv)
    moreover obtain ds where "stream_ok reg db d ds" using assms(1) by (auto simp: store_ok_def)
    ultimately show ?thesis using stream_ok_frame by blast
  qed
  with app show ?thesis by (simp add: store_ok_def)
qed

lemma projection_of_ok:
  assumes "stream_ok reg db c es" and "replay reg c es = Inr p"
  shows "projection_of ro reg db c =
    Inr (\<lparr>proj_course = c, proj_seq = int (length es), proj_state = canon_obj (proj_state p)\<rparr>, db)"
  using load_projection_ok [OF assms] stream_ok_current [OF assms(1)] by (simp add: projection_of_def)

lemma canonical_bytes_canon:
  assumes "inv (proj_state p)" and "proj_course q = proj_course p" and "proj_seq q = proj_seq p"
    and "proj_state q = canon_obj (proj_state p)"
  shows "canonical_bytes q = canonical_bytes p"
proof -
  have wf: "wf_json (JObj (proj_state p))" "wf_json (JObj (canon_obj (proj_state p)))"
    using assms(1) by (auto simp del: wf_json_JObj intro: inv_wf inv_canon)
  have "canon (JObj (canon_obj (proj_state p))) = canon (JObj (proj_state p))" by (simp only: canon_JObj canon_obj_idem)
  then show ?thesis
    unfolding canonical_bytes_def assms(2-4)
    using wf by (subst canonical_json_bytes_eq_iff)
      (simp_all add: canon_obj_def [of "[_, _, _]"] del: canon.simps(6) wf_json_JObj, simp_all)
qed

lemma verify_ok:
  assumes "store_ok reg db"
  shows "verify_projection ro reg c db = Inr (True, db)"
proof -
  obtain es where es: "stream_ok reg db c es" using assms by (auto simp: store_ok_def)
  then obtain p where p: "replay reg c es = Inr p" by (auto simp: stream_ok_def)
  have inv: "inv (proj_state p)" using replay_inv [OF _ p] stream_ok_wf [OF es] by blast
  have "canonical_bytes \<lparr>proj_course = c, proj_seq = int (length es), proj_state = canon_obj (proj_state p)\<rparr> =
      canonical_bytes p"
    using replay_course_seq [OF p] by (intro canonical_bytes_canon inv) simp_all
  with p projection_of_ok [OF es p] stream_ok_read [OF es] show ?thesis
    by (simp add: verify_projection_def projection_bytes_def)
qed

text \<open>Rebuilding recovers a lost or damaged projection row from the events alone.\<close>

lemma rebuild_recovers:
  assumes "store_ok reg db"
  shows "\<exists>b. rebuild_projection False reg c
    (db\<lparr>db_projections := (db_projections db)(c := damaged)\<rparr>) = Inr (b, db)"
proof -
  obtain es where es: "stream_ok reg db c es" using assms by (auto simp: store_ok_def)
  then obtain p where p: "replay reg c es = Inr p" and rows: "list_all2 row_event (rows_of db c) es"
    and pr: "db_projections db c = (if es = [] then None
      else Some (int (length es), canonical_json_bytes (proj_state p)))"
    by (auto simp: stream_ok_def)
  have r: "map_res event_from_bytes (map row_envelope (sort_key row_seq (rows_of db c))) = Inr es"
    using rows stream_ok_sorted(2) [OF es] rows_events by simp
  have upd: "(db_projections db)(c := db_projections db c) = db_projections db" by simp
  have "rows_of (db\<lparr>db_projections := x\<rparr>) c = rows_of db c" for x by (simp add: rows_of_def)
  with r p pr replay_course_seq [OF p] upd show ?thesis
    by (cases "es = []") (simp_all add: rebuild_projection_def Let_def fun_upd_idem_iff)
qed

text \<open>On a consistent database loading and rebuilding change nothing, so a step appends or does nothing.\<close>

lemma load_same:
  assumes "store_ok reg db" and "projection_of ro reg db c = Inr (p, db')"
  shows "db' = db"
proof -
  obtain es where es: "stream_ok reg db c es" using assms(1) by (auto simp: store_ok_def)
  then obtain q where "replay reg c es = Inr q" by (auto simp: stream_ok_def)
  with projection_of_ok [OF es] assms(2) show ?thesis by auto
qed

lemma rebuild_same:
  assumes "store_ok reg db" and "rebuild_projection ro reg c db = Inr (b, db')"
  shows "db' = db"
proof -
  have "\<not> ro" using assms(2) by (auto simp: rebuild_projection_def)
  with rebuild_recovers [OF assms(1), of c "db_projections db c"] assms(2) show ?thesis by auto
qed

lemma store_ok_step: "store_step reg db db' \<Longrightarrow> store_ok reg db \<Longrightarrow> store_ok reg db'"
proof (induction rule: store_step.induct)
  case (step_append ro c n es db m db')
  then show ?case using store_ok_append by blast
qed (use load_same rebuild_same in \<open>metis+\<close>)

lemma store_ok_steps: "(store_step reg)\<^sup>*\<^sup>* db db' \<Longrightarrow> store_ok reg db \<Longrightarrow> store_ok reg db'"
  by (induction rule: rtranclp_induct) (blast intro: store_ok_step)+

lemma reachable_store_ok: "reachable reg db \<Longrightarrow> store_ok reg db"
  by (induction rule: reachable.induct) (auto intro: store_ok_empty store_ok_step)

text \<open>Whatever the store does, the stream of a course only grows at its end.\<close>

lemma stream_grows:
  assumes ok: "store_ok reg db" and step: "store_step reg db db'" and es: "stream_ok reg db c es"
  shows "\<exists>ds. stream_ok reg db' c (es @ ds)"
  using step
proof (cases rule: store_step.cases)
  case (step_append ro d n bs m)
  obtain old where old: "stream_ok reg db d old" using ok by (auto simp: store_ok_def)
  have dist: "distinct (map row_event_id (db_events db))" using ok by (simp add: store_ok_def)
  note app = append_stream [OF old dist step_append(2,1)]
  show ?thesis
  proof (cases "c = d")
    case True
    then show ?thesis using app stream_ok_unique [OF es] old by auto
  next
    case False
    then have "rows_of db' c = rows_of db c" "db_projections db' c = db_projections db c"
      using app by (auto simp: rows_of_def filter_empty_conv)
    then show ?thesis using stream_ok_frame [OF _ _ es] by (metis append_Nil2)
  qed
qed (use ok es load_same rebuild_same in \<open>metis append_Nil2\<close>)+

lemma stream_grows_steps:
  "(store_step reg)\<^sup>*\<^sup>* db db' \<Longrightarrow> store_ok reg db \<Longrightarrow> stream_ok reg db c es \<Longrightarrow>
   \<exists>ds. stream_ok reg db' c (es @ ds)"
proof (induction rule: rtranclp_induct)
  case base
  then show ?case by (metis append_Nil2)
next
  case (step db1 db2)
  then show ?case using stream_grows store_ok_steps by (metis append_assoc)
qed

end

section \<open>Properties\<close>

lemma echo_append:
  "\<exists>m db'. append False echo_registry ''bio'' 0 [plain_event] empty_database = Inr (m, db')"
proof -
  obtain at where at: "timestamp (ev_at plain_event) = Inr at" using timestamp_utc by (force simp: plain_event_def)
  show ?thesis
    using at
    by (simp add: append_def plain_event_def current_sequence_def rows_of_def empty_database_def Let_def decode_def
        registration_of_def echo_registry_def load_projection_def append_one_def event_to_bytes_def insert_event_def row_of_def
        sqlite_int_def initial_projection_def reduce_decoded_def mk_projection_def)
qed

text \<open>C8. A successful append of a batch returns the new sequence and adds exactly one row per event at the end of
  the table, numbered from the expected sequence upwards, and the stream is then at the returned sequence.\<close>

theorem append_extends_stream:
  assumes "append ro reg c n es db = Inr (m, db')"
  shows "m = n + int (length es) \<and> current_sequence db' c = m \<and>
    (\<exists>rs. db_events db' = db_events db @ rs \<and> map row_seq rs = map (\<lambda>i. n + 1 + int i) [0..<length es] \<and>
      map row_event_id rs = map ev_id es \<and> (\<forall>r \<in> set rs. row_course r = c))"
  using append_rows [OF assms] current_sequence_append [OF assms] append_result [OF assms] by auto

theorem append_extends_stream_witness:
  "\<exists>db'. append False echo_registry ''bio'' 0 [plain_event] empty_database = Inr (1, db') \<and> current_sequence db' ''bio'' = 1"
proof -
  obtain m db' where app: "append False echo_registry ''bio'' 0 [plain_event] empty_database = Inr (m, db')"
    using echo_append by blast
  from append_extends_stream [OF app] app show ?thesis by auto
qed

text \<open>C9. Optimistic concurrency: of two writers that read the same sequence, the second to append any batch is
  told the sequence the first one reached, and changes nothing.\<close>

theorem second_writer_conflicts:
  assumes "append ro reg c n es db = Inr (m, db')" and "es \<noteq> []" and "check_batch c n ds = Inr ()"
  shows "append ro reg' c n ds db' = Inl (SequenceConflictError c n (n + int (length es)))"
  by (rule append_conflict [OF assms])

theorem second_writer_conflicts_witness:
  "\<exists>m db'. append False echo_registry ''bio'' 0 [plain_event] empty_database = Inr (m, db') \<and>
    append False echo_registry ''bio'' 0 [plain_event] db' = Inl (SequenceConflictError ''bio'' 0 1)"
proof -
  obtain m db' where app: "append False echo_registry ''bio'' 0 [plain_event] empty_database = Inr (m, db')"
    using echo_append by blast
  from second_writer_conflicts [OF app, of "[plain_event]" echo_registry] app show ?thesis by (auto simp: plain_event_def)
qed

text \<open>The event table is append-only under every operation of the store: rows are never changed, removed or
  reordered.\<close>

theorem events_append_only:
  assumes "(store_step reg)\<^sup>*\<^sup>* db db'"
  shows "\<exists>rs. db_events db' = db_events db @ rs"
  using assms
proof (induction rule: rtranclp_induct)
  case (step db1 db2)
  then show ?case using store_step_append_only by fastforce
qed simp

theorem events_append_only_witness:
  "\<exists>db' rs. append False echo_registry ''bio'' 0 [plain_event] empty_database = Inr (1, db') \<and> db_events db' = db_events empty_database @ rs"
proof -
  obtain m db' where app: "append False echo_registry ''bio'' 0 [plain_event] empty_database = Inr (m, db')"
    using echo_append by blast
  have "store_step echo_registry empty_database db'"
    using step_append [OF app] plain_event_wf by (simp add: is_utc_def plain_event_def)
  from events_append_only [OF r_into_rtranclp [of "store_step echo_registry", OF this]] append_result [OF app] app show ?thesis by auto
qed

end
