(* ===== verification/Commands.thy ===== *)
theory Commands
  imports Event_Store
begin

text \<open>
  Commands: sequential programs of the application services over a shared event store. A command accesses the store
  several times; each access is one transaction, and between two accesses other users of the store may act.
  A command is a function of the number of accesses so far and the database; the argument \<open>env\<close> of an access
  is what the others do before it.
\<close>

section \<open>Sequencing\<close>

type_synonym 'a command = "nat \<times> database \<Rightarrow> 'a result \<times> nat \<times> database"

definition cmd_lift :: "'a result \<Rightarrow> 'a command" where
  "cmd_lift r s = (r, s)"

definition cmd_bind :: "'a command \<Rightarrow> ('a \<Rightarrow> 'b command) \<Rightarrow> 'b command" where
  "cmd_bind m f s = (case m s of (Inl e, s') \<Rightarrow> (Inl e, s') | (Inr x, s') \<Rightarrow> f x s')"

text \<open>\<^verbatim>\<open>try: x = m except E as e: return h(e)\<close>, followed by the rest of the command: the handler ends it.\<close>

definition cmd_try :: "'a command \<Rightarrow> (error \<Rightarrow> 'b command) \<Rightarrow> ('a \<Rightarrow> 'b command) \<Rightarrow> 'b command" where
  "cmd_try m h f s = (case m s of (Inl e, s') \<Rightarrow> h e s' | (Inr x, s') \<Rightarrow> f x s')"

section \<open>Accesses to the store\<close>

definition access :: "(nat \<Rightarrow> database \<Rightarrow> database) \<Rightarrow> (database \<Rightarrow> ('a \<times> database) result) \<Rightarrow> 'a command" where
  "access env f s =
     (let db = env (fst s) (snd s) in
      case f db of Inl e \<Rightarrow> (Inl e, Suc (fst s), db) | Inr (x, db') \<Rightarrow> (Inr x, Suc (fst s), db'))"

definition load_course :: "'p registry \<Rightarrow> (nat \<Rightarrow> database \<Rightarrow> database) \<Rightarrow> string \<Rightarrow> projection command" where
  "load_course reg env c = access env (\<lambda>db. projection_of False reg db c)"

definition read_course :: "(nat \<Rightarrow> database \<Rightarrow> database) \<Rightarrow> string \<Rightarrow> domain_event list command" where
  "read_course env c = access env (\<lambda>db. res_bind (read db c 0) (\<lambda>es. Inr (es, db)))"

definition append_course ::
  "'p registry \<Rightarrow> (nat \<Rightarrow> database \<Rightarrow> database) \<Rightarrow> string \<Rightarrow> int \<Rightarrow> domain_event list \<Rightarrow> int command" where
  "append_course reg env c n es = access env (append False reg c n es)"

text \<open>Nobody else uses the store.\<close>

abbreviation idle :: "nat \<Rightarrow> database \<Rightarrow> database" where
  "idle \<equiv> \<lambda>_ db. db"

section \<open>What a command ensures\<close>

text \<open>What others may do is any sequence of steps of the store.\<close>

definition interference :: "'p registry \<Rightarrow> (nat \<Rightarrow> database \<Rightarrow> database) \<Rightarrow> bool" where
  "interference reg env = (\<forall>k db. (store_step reg)\<^sup>*\<^sup>* db (env k db))"

text \<open>A fact about the database that no step of the store destroys.\<close>

definition stable :: "'p registry \<Rightarrow> (database \<Rightarrow> bool) \<Rightarrow> bool" where
  "stable reg P = (\<forall>db db'. store_ok reg db \<longrightarrow> P db \<longrightarrow> (store_step reg)\<^sup>*\<^sup>* db db' \<longrightarrow> P db')"

definition ensures :: "'p registry \<Rightarrow> (database \<Rightarrow> bool) \<Rightarrow> 'a command \<Rightarrow> ('a \<Rightarrow> database \<Rightarrow> bool) \<Rightarrow> bool" where
  "ensures reg P m Q = (\<forall>k db r k' db'. store_ok reg db \<longrightarrow> P db \<longrightarrow> m (k, db) = (r, k', db') \<longrightarrow>
     (store_step reg)\<^sup>*\<^sup>* db db' \<and> (\<forall>x. r = Inr x \<longrightarrow> Q x db'))"

named_theorems ensures_intros "composition of commands"

lemma stable_triv [simp, intro]: "stable reg (\<lambda>_. b)" by (simp add: stable_def)

lemma stable_conj [intro]: "stable reg P \<Longrightarrow> stable reg Q \<Longrightarrow> stable reg (\<lambda>db. P db \<and> Q db)"
  by (auto simp: stable_def)

lemma ensures_pre: "(\<And>db. store_ok reg db \<Longrightarrow> P db \<Longrightarrow> P' db) \<Longrightarrow> ensures reg P' m Q \<Longrightarrow> ensures reg P m Q"
  unfolding ensures_def by blast

lemma ensures_lift [ensures_intros]:
  "(\<And>x db. r = Inr x \<Longrightarrow> store_ok reg db \<Longrightarrow> P db \<Longrightarrow> Q x db) \<Longrightarrow> ensures reg P (cmd_lift r) Q"
  by (simp add: ensures_def cmd_lift_def)

lemma ensures_if [ensures_intros]:
  "(b \<Longrightarrow> ensures reg P m Q) \<Longrightarrow> (\<not> b \<Longrightarrow> ensures reg P n Q) \<Longrightarrow> ensures reg P (if b then m else n) Q"
  by simp

lemma ensures_option [ensures_intros]:
  "(v = None \<Longrightarrow> ensures reg P m Q) \<Longrightarrow> (\<And>x. v = Some x \<Longrightarrow> ensures reg P (f x) Q) \<Longrightarrow>
   ensures reg P (case v of None \<Rightarrow> m | Some x \<Rightarrow> f x) Q"
  by (cases v) simp_all

lemma ensures_bind_lift [ensures_intros]:
  "(\<And>x. r = Inr x \<Longrightarrow> ensures reg P (f x) Q) \<Longrightarrow> ensures reg P (cmd_bind (cmd_lift r) f) Q"
  by (cases r) (simp_all add: ensures_def cmd_bind_def cmd_lift_def)

lemma ensures_fact: "(b \<Longrightarrow> ensures reg (\<lambda>_. True) m Q) \<Longrightarrow> ensures reg (\<lambda>_. b) m Q"
  by (simp add: ensures_def)

lemma ensures_weaken: "ensures reg (\<lambda>_. True) m Q \<Longrightarrow> ensures reg P m Q"
  by (simp add: ensures_def)

lemma ensuresD:
  "ensures reg (\<lambda>_. True) m Q \<Longrightarrow> store_ok reg db \<Longrightarrow> m (k, db) = (r, k', db') \<Longrightarrow>
   (store_step reg)\<^sup>*\<^sup>* db db' \<and> (\<forall>x. r = Inr x \<longrightarrow> Q x db')"
  unfolding ensures_def by blast

lemma interference_idle: "interference reg idle"
  by (simp add: interference_def)


context projection_contract
begin

lemma ensures_bind:
  assumes m: "ensures reg P m R" and f: "\<And>x. ensures reg (R x) (f x) Q"
  shows "ensures reg P (cmd_bind m f) Q"
  unfolding ensures_def
proof (intro allI impI)
  fix k db r k' db'
  assume ok: "store_ok reg db" and P: "P db" and run: "cmd_bind m f (k, db) = (r, k', db')"
  obtain r1 k1 db1 where m1: "m (k, db) = (r1, k1, db1)" by (cases "m (k, db)")
  have one: "(store_step reg)\<^sup>*\<^sup>* db db1" "\<And>x. r1 = Inr x \<Longrightarrow> R x db1"
    using m ok P m1 unfolding ensures_def by blast+
  then have ok1: "store_ok reg db1" using store_ok_steps ok by blast
  show "(store_step reg)\<^sup>*\<^sup>* db db' \<and> (\<forall>x. r = Inr x \<longrightarrow> Q x db')"
  proof (cases r1)
    case (Inl e)
    then show ?thesis using run m1 one by (auto simp: cmd_bind_def)
  next
    case (Inr x)
    then have run2: "f x (k1, db1) = (r, k', db')" using run m1 by (simp add: cmd_bind_def)
    have "(store_step reg)\<^sup>*\<^sup>* db1 db' \<and> (\<forall>y. r = Inr y \<longrightarrow> Q y db')"
      using f [of x] ok1 one(2) [OF Inr] run2 unfolding ensures_def by blast
    then show ?thesis using one(1) by auto
  qed
qed

lemma ensures_try:
  assumes m: "ensures reg P m R" and st: "stable reg P" and h: "\<And>e. ensures reg P (h e) Q" and f: "\<And>x. ensures reg (R x) (f x) Q"
  shows "ensures reg P (cmd_try m h f) Q"
  unfolding ensures_def
proof (intro allI impI)
  fix k db r k' db'
  assume ok: "store_ok reg db" and P: "P db" and run: "cmd_try m h f (k, db) = (r, k', db')"
  obtain r1 k1 db1 where m1: "m (k, db) = (r1, k1, db1)" by (cases "m (k, db)")
  have one: "(store_step reg)\<^sup>*\<^sup>* db db1" "\<And>x. r1 = Inr x \<Longrightarrow> R x db1"
    using m ok P m1 unfolding ensures_def by blast+
  then have ok1: "store_ok reg db1" and P1: "P db1" using store_ok_steps ok st P unfolding stable_def by blast+
  have "(store_step reg)\<^sup>*\<^sup>* db1 db' \<and> (\<forall>y. r = Inr y \<longrightarrow> Q y db')"
  proof (cases r1)
    case (Inl e)
    then have "h e (k1, db1) = (r, k', db')" using run m1 by (simp add: cmd_try_def)
    then show ?thesis using h [of e] ok1 P1 unfolding ensures_def by blast
  next
    case (Inr x)
    then have "f x (k1, db1) = (r, k', db')" using run m1 by (simp add: cmd_try_def)
    then show ?thesis using f [of x] ok1 one(2) [OF Inr] unfolding ensures_def by blast
  qed
  then show "(store_step reg)\<^sup>*\<^sup>* db db' \<and> (\<forall>x. r = Inr x \<longrightarrow> Q x db')" using one(1) by auto
qed

lemma ensures_access:
  assumes env: "interference reg env" and st: "stable reg P"
    and f: "\<And>db x db'. store_ok reg db \<Longrightarrow> P db \<Longrightarrow> f db = Inr (x, db') \<Longrightarrow> (store_step reg)\<^sup>*\<^sup>* db db' \<and> Q x db'"
  shows "ensures reg P (access env f) Q"
  unfolding ensures_def
proof (intro allI impI)
  fix k db r k' db'
  assume ok: "store_ok reg db" and P: "P db" and run: "access env f (k, db) = (r, k', db')"
  have steps: "(store_step reg)\<^sup>*\<^sup>* db (env k db)" using env by (simp add: interference_def)
  have ok1: "store_ok reg (env k db)" and P1: "P (env k db)"
    using store_ok_steps [OF steps ok] st ok P steps unfolding stable_def by blast+
  show "(store_step reg)\<^sup>*\<^sup>* db db' \<and> (\<forall>x. r = Inr x \<longrightarrow> Q x db')"
    using run f [OF ok1 P1] steps by (fastforce simp: access_def Let_def split: sum.splits)
qed

end

section \<open>The state of a course\<close>

text \<open>The state that replaying the stored stream of a course gives, and facts about it that every further event keeps.\<close>

definition course_state :: "'p registry \<Rightarrow> database \<Rightarrow> string \<Rightarrow> json_object \<Rightarrow> bool" where
  "course_state reg db c s = (\<exists>es q. stream_ok reg db c es \<and> replay reg c es = Inr q \<and> proj_state q = s)"

definition holds :: "'p registry \<Rightarrow> string \<Rightarrow> (json_object \<Rightarrow> bool) \<Rightarrow> database \<Rightarrow> bool" where
  "holds reg c F db = (\<exists>s. course_state reg db c s \<and> F s)"

definition persistent :: "'p registry \<Rightarrow> string \<Rightarrow> (json_object \<Rightarrow> bool) \<Rightarrow> bool" where
  "persistent reg c F = (\<forall>s e s'. wf_json (JObj s) \<longrightarrow> wf_event e \<longrightarrow> is_utc e \<longrightarrow> ev_course e = c \<longrightarrow>
     reduce reg s e = Inr s' \<longrightarrow> F s \<longrightarrow> F s')"

context projection_contract
begin

lemma course_state_ex: "store_ok reg db \<Longrightarrow> \<exists>s. course_state reg db c s"
  unfolding store_ok_def course_state_def stream_ok_def by metis

lemma course_state_unique: "course_state reg db c s \<Longrightarrow> course_state reg db c t \<Longrightarrow> s = t"
  unfolding course_state_def using stream_ok_unique by (metis sum.inject(2))

lemma course_state_wf: "course_state reg db c s \<Longrightarrow> wf_json (JObj s)"
  unfolding course_state_def using stream_ok_wf replay_inv inv_wf by metis

lemma fold_persistent:
  assumes "persistent reg c F" and "fold_res (apply_event reg) es p = Inr q" and "inv (proj_state p)"
    and "\<forall>e \<in> set es. wf_event e \<and> is_utc e" and "proj_course p = c" and "F (proj_state p)"
  shows "F (proj_state q)"
  using assms(2-)
proof (induction es arbitrary: p)
  case (Cons e es)
  obtain p1 where p1: "apply_event reg e p = Inr p1" and rest: "fold_res (apply_event reg) es p1 = Inr q"
    using Cons.prems(1) by (auto simp: res_simps)
  have red: "reduce reg (proj_state p) e = Inr (proj_state p1)" "ev_course e = c" "proj_course p1 = c"
    using p1 Cons.prems(4) by (auto simp: apply_event_Inr)
  have "inv (proj_state p1)" using reduce_inv [OF Cons.prems(2) _ red(1)] Cons.prems(3) by simp
  moreover have "F (proj_state p1)"
    using assms(1) inv_wf [OF Cons.prems(2)] Cons.prems(3,5) red unfolding persistent_def by (metis list.set_intros(1))
  ultimately show ?case using Cons.IH [OF rest] Cons.prems(3) red(3) by simp
qed simp

lemma holds_stable:
  assumes F: "persistent reg c F"
  shows "stable reg (holds reg c F)"
  unfolding stable_def holds_def
proof (intro allI impI)
  fix db db'
  assume ok: "store_ok reg db" and ex: "\<exists>s. course_state reg db c s \<and> F s" and steps: "(store_step reg)\<^sup>*\<^sup>* db db'"
  obtain es q where q: "stream_ok reg db c es" "replay reg c es = Inr q" "F (proj_state q)"
    using ex by (auto simp: course_state_def)
  obtain ds where ds: "stream_ok reg db' c (es @ ds)" using stream_grows_steps [OF steps ok q(1)] by blast
  then obtain q' where q': "replay reg c (es @ ds) = Inr q'" by (auto simp: stream_ok_def)
  have "fold_res (apply_event reg) ds q = Inr q'" using q' q(2) by (simp add: replay_snoc)
  moreover have "inv (proj_state q)" using replay_inv [OF _ q(2)] stream_ok_wf [OF q(1)] by blast
  ultimately have "F (proj_state q')"
    using fold_persistent [OF F] stream_ok_wf [OF ds] replay_course_seq [OF q(2)] q(3) by auto
  then show "\<exists>s. course_state reg db' c s \<and> F s" using ds q' unfolding course_state_def by blast
qed

lemma ensures_load:
  assumes env: "interference reg env" and st: "stable reg P"
    and Q: "\<And>db s p. store_ok reg db \<Longrightarrow> P db \<Longrightarrow> course_state reg db c s \<Longrightarrow> proj_course p = c \<Longrightarrow> proj_state p = canon_obj s \<Longrightarrow> Q p db"
  shows "ensures reg P (load_course reg env c) Q"
  unfolding load_course_def
proof (rule ensures_access [OF env st])
  fix db p db'
  assume ok: "store_ok reg db" and P: "P db" and run: "projection_of False reg db c = Inr (p, db')"
  obtain es q where q: "stream_ok reg db c es" "replay reg c es = Inr q"
    using ok unfolding store_ok_def stream_ok_def by blast
  then have "db' = db" "proj_course p = c" "proj_state p = canon_obj (proj_state q)" "course_state reg db c (proj_state q)"
    using projection_of_ok [OF q, of False] run unfolding course_state_def by auto
  then show "(store_step reg)\<^sup>*\<^sup>* db db' \<and> Q p db'" using Q [OF ok P] by auto
qed

lemma ensures_read:
  assumes env: "interference reg env" and st: "stable reg P" and Q: "\<And>db es. store_ok reg db \<Longrightarrow> P db \<Longrightarrow> stream_ok reg db c es \<Longrightarrow> Q es db"
  shows "ensures reg P (read_course env c) Q"
  unfolding read_course_def
proof (rule ensures_access [OF env st])
  fix db es db'
  assume ok: "store_ok reg db" and P: "P db" and run: "res_bind (read db c 0) (\<lambda>es. Inr (es, db)) = Inr (es, db')"
  obtain ds where ds: "stream_ok reg db c ds" using ok unfolding store_ok_def by blast
  then have "db' = db" "es = ds" using stream_ok_read [OF ds] run by auto
  then show "(store_step reg)\<^sup>*\<^sup>* db db' \<and> Q es db'" using Q [OF ok P ds] by auto
qed

text \<open>A successful append reduces its events, as stored, from the state it finds.\<close>

lemma ensures_append:
  assumes env: "interference reg env" and st: "stable reg P" and wf: "\<forall>e \<in> set es. wf_event e \<and> is_utc e"
    and Q: "\<And>db0 db p q m. store_ok reg db \<Longrightarrow> P db \<Longrightarrow> fold_res (apply_event reg) (map stored es) p = Inr q \<Longrightarrow>
      course_state reg db0 c (proj_state p) \<Longrightarrow> proj_course p = c \<Longrightarrow> course_state reg db c (proj_state q) \<Longrightarrow> Q m db"
  shows "ensures reg P (append_course reg env c n es) Q"
  unfolding append_course_def
proof (rule ensures_access [OF env st])
  fix db m db'
  assume ok: "store_ok reg db" and P: "P db" and run: "append False reg c n es db = Inr (m, db')"
  have step: "store_step reg db db'" using step_append [OF run wf] .
  obtain old where old: "stream_ok reg db c old" using ok by (auto simp: store_ok_def)
  have new: "stream_ok reg db' c (old @ map stored es)"
    using append_stream [OF old _ wf run] ok by (simp add: store_ok_def)
  obtain p where p: "replay reg c old = Inr p" using old by (auto simp: stream_ok_def)
  obtain q where q: "replay reg c (old @ map stored es) = Inr q" using new by (auto simp: stream_ok_def)
  have "course_state reg db c (proj_state p)" using old p unfolding course_state_def by blast
  moreover have "fold_res (apply_event reg) (map stored es) p = Inr q" using p q by (simp add: replay_snoc)
  moreover have "P db'" "store_ok reg db'" using st ok P step store_ok_step unfolding stable_def by blast+
  ultimately show "(store_step reg)\<^sup>*\<^sup>* db db' \<and> Q m db'"
    using Q [of db' p q db m] replay_course_seq [OF p] new q step unfolding course_state_def by blast
qed

end

end
