(* ===== verification/Codec.thy ===== *)
theory Codec
  imports Registry
begin

text \<open>
  The strict field readers of the event codecs (the private helpers of
  \<^verbatim>\<open>src/src/study_agent/courses/events.py\<close>, repeated by the other codecs): each takes a JSON value
  and raises unless it has exactly the expected shape. The lemmas say what a successful read
  determines and that reading does not see the order of keys.
\<close>

section \<open>Readers\<close>

definition object_value :: "json \<Rightarrow> string list \<Rightarrow> json_object result" where
  "object_value v ks =
     (case v of JObj kvs \<Rightarrow> if has_keys kvs ks then Inr kvs else Inl ValueError | _ \<Rightarrow> Inl ValueError)"

definition text_value :: "json \<Rightarrow> string result" where
  "text_value v = (case v of JStr s \<Rightarrow> if is_text s then Inr s else Inl ValueError | _ \<Rightarrow> Inl ValueError)"

definition integer_value :: "json \<Rightarrow> int result" where
  "integer_value v = (case v of JInt i \<Rightarrow> Inr i | _ \<Rightarrow> Inl ValueError)"

definition array_value :: "json \<Rightarrow> json list result" where
  "array_value v = (case v of JArr xs \<Rightarrow> Inr xs | _ \<Rightarrow> Inl ValueError)"

definition text_array :: "json \<Rightarrow> string list result" where
  "text_array v = res_bind (array_value v) (map_res text_value)"

definition text_items :: "string list \<Rightarrow> json" where
  "text_items xs = JArr (map JStr xs)"

text \<open>A date field in canonical ISO 8601 form, or null.\<close>

definition date_value :: "json \<Rightarrow> date option result" where
  "date_value v =
     (if v = JNull then Inr None
      else
        res_bind (text_value v) (\<lambda>s.
        res_bind (date_fromisoformat s) (\<lambda>d.
          if isoformat_date d \<noteq> s then Inl ValueError else Inr (Some d))))"

definition optional_text :: "json \<Rightarrow> string option result" where
  "optional_text v = (if v = JNull then Inr None else res_bind (text_value v) (\<lambda>s. Inr (Some s)))"

definition boolean_value :: "json \<Rightarrow> bool result" where
  "boolean_value v = (case v of JBool b \<Rightarrow> Inr b | _ \<Rightarrow> Inl ValueError)"

text \<open>An absent value is written as null.\<close>

definition optional_json :: "('a \<Rightarrow> json) \<Rightarrow> 'a option \<Rightarrow> json" where
  "optional_json enc x = (case x of None \<Rightarrow> JNull | Some y \<Rightarrow> enc y)"

definition optional_value :: "(json \<Rightarrow> 'a result) \<Rightarrow> json \<Rightarrow> 'a option result" where
  "optional_value dec v = (if v = JNull then Inr None else res_bind (dec v) (\<lambda>y. Inr (Some y)))"

section \<open>What a read determines\<close>

lemma text_value_canon [simp]: "text_value (canon v) = text_value v"
  by (cases v) (simp_all add: text_value_def)

lemma integer_value_canon [simp]: "integer_value (canon v) = integer_value v"
  by (cases v) (simp_all add: integer_value_def)

lemma array_value_canon: "array_value (canon v) = map_sum id (map canon) (array_value v)"
  by (cases v) (simp_all add: array_value_def)

lemma object_value_canon: "object_value (canon v) ks = map_sum id canon_obj (object_value v ks)"
  by (cases v) (simp_all add: object_value_def canon_JObj del: canon.simps(6))

lemma text_array_canon [simp]: "text_array (canon v) = text_array v"
  by (cases v) (simp_all add: text_array_def array_value_def map_res_map comp_def)

lemma date_value_canon [simp]: "date_value (canon v) = date_value v"
  by (cases v) (simp_all add: date_value_def text_value_def)

lemma object_value_Inr: "object_value v ks = Inr kvs \<longleftrightarrow> v = JObj kvs \<and> has_keys kvs ks"
  by (cases v) (auto simp: object_value_def)

lemma array_value_Inr: "array_value v = Inr xs \<longleftrightarrow> v = JArr xs"
  by (cases v) (auto simp: array_value_def)

lemma text_value_Inr [res_simps]: "text_value v = Inr s \<longleftrightarrow> v = JStr s \<and> is_text s"
  by (cases v) (auto simp: text_value_def)

lemma integer_value_Inr [res_simps]: "integer_value v = Inr i \<longleftrightarrow> v = JInt i"
  by (cases v) (auto simp: integer_value_def)

lemma text_array_Inr: "text_array v = Inr xs \<Longrightarrow> v = text_items xs"
proof -
  have "ys = map JStr xs" if "map_res text_value ys = Inr xs" for ys
    using that by (auto simp: map_res_Inr_iff list_all2_conv_all_nth text_value_Inr intro: nth_equalityI)
  then show "text_array v = Inr xs \<Longrightarrow> v = text_items xs"
    by (auto simp: text_array_def res_bind_eq_Inr array_value_Inr text_items_def)
qed

lemma date_value_Inr:
  "date_value v = Inr x \<Longrightarrow> v = (case x of None \<Rightarrow> JNull | Some d \<Rightarrow> JStr (isoformat_date d))"
  by (auto simp: date_value_def res_bind_eq_Inr text_value_Inr split: if_splits)

lemma text_items_array [codec_simps]: "list_all is_text xs \<Longrightarrow> text_array (text_items xs) = Inr xs"
  by (induction xs) (auto simp: text_array_def text_items_def array_value_def text_value_def)

lemma date_value_manifest [codec_simps]:
  "(\<forall>d. x = Some d \<longrightarrow> valid_date d) \<Longrightarrow>
   date_value (case x of None \<Rightarrow> JNull | Some d \<Rightarrow> JStr (isoformat_date d)) = Inr x"
  by (cases x) (simp_all add: date_value_def text_value_def isoformat_date_text date_fromisoformat_isoformat)

lemma text_array_texts: "text_array v = Inr xs \<Longrightarrow> list_all is_text xs"
  by (auto simp: text_array_def res_bind_eq_Inr map_res_Inr_iff list_all2_conv_all_nth list_all_length text_value_Inr)

lemma optional_text_alt: "optional_text = optional_value text_value"
  by (simp add: fun_eq_iff optional_text_def optional_value_def)

lemma optional_text_canon [simp]: "optional_text (canon v) = optional_text v"
  by (cases v) (simp_all add: optional_text_def text_value_def)

lemma optional_text_Inr:
  "optional_text v = Inr x \<longleftrightarrow> v = optional_json JStr x \<and> pred_option is_text x"
  by (cases v; cases x) (auto simp: optional_text_def optional_json_def text_value_def)

lemma boolean_value_canon [simp]: "boolean_value (canon v) = boolean_value v"
  by (cases v) (simp_all add: boolean_value_def)

lemma boolean_value_Inr: "boolean_value v = Inr b \<longleftrightarrow> v = JBool b"
  by (cases v) (auto simp: boolean_value_def)

lemma text_array_iff: "text_array v = Inr xs \<longleftrightarrow> v = text_items xs \<and> list_all is_text xs"
  using text_array_Inr [of v xs] text_array_texts [of v xs] text_items_array [of xs] by blast

lemmas read_Inr = object_value_Inr array_value_Inr text_value_Inr integer_value_Inr optional_text_Inr boolean_value_Inr
  text_array_iff

text \<open>Decoders of objects: invariance under reordering from the invariance of the fields, and
  strictness from the fields alone.\<close>

lemma object_read_canon:
  assumes "wf_json v" and "\<And>p. wf_json (JObj p) \<Longrightarrow> f (canon_obj p) = f p"
  shows "res_bind (object_value (canon v) ks) f = res_bind (object_value v ks) f"
  unfolding object_value_canon res_bind_map_sum
  using assms by (intro res_bind_cong refl) (auto simp: object_value_Inr simp del: wf_json_JObj)

lemma object_read_strict:
  assumes "wf_json v" and "object_value v ks = Inr p" and "wf_json (JObj m)" and "has_keys m ks"
    and "\<And>k. k \<in> set ks \<Longrightarrow> canon (jget p k) = canon (jget m k)"
  shows "canon v = canon (JObj m)"
proof -
  have "canon_obj p = canon_obj m"
    using assms by (intro canon_obj_of_keys [where ks = ks]) (simp_all add: object_value_Inr)
  then show ?thesis using assms(2) by (simp add: object_value_Inr canon_JObj del: canon.simps(6))
qed

lemma jget_wf_canon: "wf_json (JObj p) \<Longrightarrow> jget (canon_obj p) k = canon (jget p k)"
  by (rule jget_canon) simp

lemma jget_Cons: "jget ((k, v) # kvs) j = (if j = k then v else jget kvs j)"
  by (simp add: jget_def)

lemma read_written:
  "is_text s \<Longrightarrow> text_value (JStr s) = Inr s" "integer_value (JInt i) = Inr i" "boolean_value (JBool b) = Inr b"
  "array_value (JArr vs) = Inr vs" "pred_option is_text x \<Longrightarrow> optional_text (optional_json JStr x) = Inr x"
  "list_all is_text ts \<Longrightarrow> text_array (text_items ts) = Inr ts"
  by (simp_all add: text_value_def integer_value_def boolean_value_def array_value_def text_items_array)
    (cases x, simp_all add: optional_text_def optional_json_def text_value_def)

lemmas read_canon = jget_wf_canon text_value_canon integer_value_canon optional_text_canon boolean_value_canon text_array_canon

section \<open>Strict codecs\<close>

text \<open>The contract of a codec: the encoding of a valid value decodes to it, decoding does not see the
  order of keys, and a decoded value is valid and has the decoded text as its encoding.\<close>

locale strict_codec =
  fixes enc :: "'a \<Rightarrow> json" and dec :: "json \<Rightarrow> 'a result" and ok :: "'a \<Rightarrow> bool"
  assumes enc_wf: "wf_json (enc x)"
    and dec_enc: "ok x \<Longrightarrow> dec (enc x) = Inr x"
    and dec_canon: "wf_json v \<Longrightarrow> dec (canon v) = dec v"
    and dec_strict: "wf_json v \<Longrightarrow> dec v = Inr x \<Longrightarrow> ok x \<and> canon v = canon (enc x)"
begin

lemma accepts_iff:
  assumes "wf_json v"
  shows "dec v = Inr x \<longleftrightarrow> ok x \<and> canon v = canon (enc x)"
  using assms dec_strict [OF assms] dec_canon [OF assms] dec_canon [OF enc_wf [of x]] dec_enc [of x] by auto

lemma enc_inj: "ok x \<Longrightarrow> ok y \<Longrightarrow> canon (enc x) = canon (enc y) \<Longrightarrow> x = y"
  using accepts_iff [OF enc_wf [of x], of x] accepts_iff [OF enc_wf [of x], of y] by simp

lemma array_enc: "list_all ok xs \<Longrightarrow> map_res dec (map enc xs) = Inr xs"
  by (induction xs) (simp_all add: dec_enc)

lemma array_canon: "wf_json (JArr vs) \<Longrightarrow> map_res dec (map canon vs) = map_res dec vs"
  by (auto simp: map_res_map comp_def intro!: map_res_cong dec_canon)

lemma array_strict:
  "wf_json (JArr vs) \<Longrightarrow> map_res dec vs = Inr xs \<Longrightarrow> list_all ok xs \<and> map canon vs = map (canon \<circ> enc) xs"
proof (induction vs arbitrary: xs)
  case (Cons v vs)
  then show ?case using dec_strict [of v] by (fastforce simp: res_bind_eq_Inr)
qed simp

lemma array_wf: "wf_json (JArr (map enc xs))"
  by (auto intro: enc_wf)

lemma read_array_canon:
  assumes "wf_json v"
  shows "res_bind (array_value (canon v)) (\<lambda>vs. res_bind (map_res dec vs) g) =
    res_bind (array_value v) (\<lambda>vs. res_bind (map_res dec vs) g)"
  using assms array_canon by (cases v) (simp_all add: array_value_def del: wf_json_JArr)

lemma optional_canon: "wf_json v \<Longrightarrow> optional_value dec (canon v) = optional_value dec v"
  using dec_canon [of v] by (cases v) (simp_all add: optional_value_def)

lemma optional_enc: "pred_option ok x \<Longrightarrow> (\<And>y. enc y \<noteq> JNull) \<Longrightarrow> optional_value dec (optional_json enc x) = Inr x"
  by (cases x) (simp_all add: optional_value_def optional_json_def dec_enc)

lemma optional_strict:
  "wf_json v \<Longrightarrow> optional_value dec v = Inr x \<Longrightarrow> pred_option ok x \<and> canon v = canon (optional_json enc x)"
  using dec_strict [of v] by (cases x) (auto simp: optional_value_def optional_json_def res_bind_eq_Inr split: if_splits)

lemma optional_wf: "wf_json (optional_json enc x)"
  by (cases x) (simp_all add: optional_json_def enc_wf)

end

text \<open>The codec of an object with a fixed set of keys is strict when its fields are.\<close>

lemma object_codecI:
  assumes enc: "\<And>x. enc x = JObj (obj x)" and dec: "\<And>v. dec v = res_bind (object_value v ks) f"
    and wf: "\<And>x. wf_json (JObj (obj x))" and keys: "\<And>x. has_keys (obj x) ks"
    and read: "\<And>x. ok x \<Longrightarrow> f (obj x) = Inr x"
    and canon: "\<And>p. wf_json (JObj p) \<Longrightarrow> f (canon_obj p) = f p"
    and strict: "\<And>p x. wf_json (JObj p) \<Longrightarrow> f p = Inr x \<Longrightarrow>
      ok x \<and> (\<forall>k \<in> set ks. canon (jget p k) = canon (jget (obj x) k))"
  shows "strict_codec enc dec ok"
proof
  show "wf_json (enc x)" for x unfolding enc by (rule wf)
  show "dec (enc x) = Inr x" if "ok x" for x using read [OF that] keys by (simp add: enc dec object_value_def)
  show "dec (canon v) = dec v" if "wf_json v" for v unfolding dec by (rule object_read_canon [OF that]) (rule canon)
  show "ok x \<and> canon v = canon (enc x)" if v: "wf_json v" "dec v = Inr x" for v x
  proof -
    obtain p where p: "object_value v ks = Inr p" "f p = Inr x" using v(2) by (auto simp: dec res_bind_eq_Inr)
    have "wf_json (JObj p)" using p(1) v(1) by (simp add: object_value_Inr del: wf_json_JObj)
    then show ?thesis unfolding enc using strict [OF _ p(2)] object_read_strict [OF v(1) p(1) wf keys] by blast
  qed
qed

text \<open>Trimmed text is the first strict codec.\<close>

interpretation text_codec: strict_codec JStr text_value is_text
  by unfold_locales (auto simp: text_value_def split: json.splits if_splits)

end
