(* ===== verification/Courses.thy ===== *)
theory Courses
  imports Commands Codec
begin

text \<open>
  Courses (\<^verbatim>\<open>src/src/study_agent/courses/\<close> and \<^verbatim>\<open>domain/course.py\<close>): the immutable course profile
  and its validation, the strict codec of \<^verbatim>\<open>course.created@1\<close>, its reducer, the view over the
  projection and the service that creates a course.

  Profiles are built by the constructors of \<^verbatim>\<open>domain/course.py\<close> only, so \<open>wf_profile\<close> says what
  they check. The type checks of the code hold of every value of the model's types.
  The service is a function of the store and of the interference of other writers: \<open>env k\<close>
  is what happens to the database before the service's access number \<open>k\<close>.
\<close>

section \<open>Profiles\<close>

record source_policy =
  allowed_roles :: "string list"
  minimum_trust_level :: int

record terminology_entry =
  concept :: string
  preferred_term :: string

record course_profile =
  cp_id :: string
  cp_title :: string
  cp_language :: string
  cp_exam_date :: "date option"
  cp_assessment_styles :: "string list"
  cp_learning_goals :: "string list"
  cp_source_policy :: source_policy
  cp_terminology :: "terminology_entry list"

text \<open>\<^verbatim>\<open>len(set(values)) != len(values)\<close> and \<^verbatim>\<open>require_text\<close> on each item.\<close>

definition unique_texts :: "string list \<Rightarrow> bool" where
  "unique_texts xs = (distinct xs \<and> list_all is_text xs)"

definition mk_source_policy :: "string list \<Rightarrow> int \<Rightarrow> source_policy result" where
  "mk_source_policy roles trust =
     (if \<not> (0 \<le> trust \<and> trust \<le> 100) then Inl ValueError
      else if \<not> unique_texts roles then Inl ValueError
      else Inr \<lparr>allowed_roles = roles, minimum_trust_level = trust\<rparr>)"

definition mk_terminology_entry :: "string \<Rightarrow> string \<Rightarrow> terminology_entry result" where
  "mk_terminology_entry c t =
     res_bind (require_text c) (\<lambda>_. res_bind (require_text t) (\<lambda>_.
       Inr \<lparr>concept = c, preferred_term = t\<rparr>))"

definition mk_terminology_policy :: "terminology_entry list \<Rightarrow> terminology_entry list result" where
  "mk_terminology_policy es = (if \<not> distinct (map concept es) then Inl ValueError else Inr es)"

definition mk_course_profile :: "course_profile \<Rightarrow> course_profile result" where
  "mk_course_profile p =
     res_bind (require_text (cp_title p)) (\<lambda>_.
     res_bind (require_text (cp_language p)) (\<lambda>_.
       if cp_learning_goals p = [] then Inl ValueError
       else if \<not> unique_texts (cp_assessment_styles p) then Inl ValueError
       else if \<not> unique_texts (cp_learning_goals p) then Inl ValueError
       else Inr p))"

definition wf_profile :: "course_profile \<Rightarrow> bool" where
  "wf_profile p =
     (is_text (cp_id p) \<and> is_text (cp_title p) \<and> is_text (cp_language p) \<and>
      (\<forall>d. cp_exam_date p = Some d \<longrightarrow> valid_date d) \<and>
      unique_texts (cp_assessment_styles p) \<and> unique_texts (cp_learning_goals p) \<and>
      cp_learning_goals p \<noteq> [] \<and>
      0 \<le> minimum_trust_level (cp_source_policy p) \<and> minimum_trust_level (cp_source_policy p) \<le> 100 \<and>
      unique_texts (allowed_roles (cp_source_policy p)) \<and>
      distinct (map concept (cp_terminology p)) \<and>
      (\<forall>t \<in> set (cp_terminology p). is_text (concept t) \<and> is_text (preferred_term t)))"

section \<open>The codec of course.created\<close>

definition course_created_type :: string where "course_created_type = ''course.created''"

definition profile_keys :: "string list" where
  "profile_keys = [''id'', ''title'', ''language'', ''exam_date'', ''assessment_styles'',
     ''learning_goals'', ''source_policy'', ''terminology_policy'']"

definition entry_manifest :: "terminology_entry \<Rightarrow> json" where
  "entry_manifest t = JObj [(''concept'', JStr (concept t)), (''preferred_term'', JStr (preferred_term t))]"

definition course_profile_manifest :: "course_profile \<Rightarrow> json_object" where
  "course_profile_manifest p = [
     (''id'', JStr (cp_id p)),
     (''title'', JStr (cp_title p)),
     (''language'', JStr (cp_language p)),
     (''exam_date'', (case cp_exam_date p of None \<Rightarrow> JNull | Some d \<Rightarrow> JStr (isoformat_date d))),
     (''assessment_styles'', text_items (cp_assessment_styles p)),
     (''learning_goals'', text_items (cp_learning_goals p)),
     (''source_policy'', JObj [
        (''allowed_roles'', text_items (allowed_roles (cp_source_policy p))),
        (''minimum_trust_level'', JInt (minimum_trust_level (cp_source_policy p)))]),
     (''terminology_policy'', JObj [(''entries'', JArr (map entry_manifest (cp_terminology p)))])]"

definition decode_entry :: "json \<Rightarrow> terminology_entry result" where
  "decode_entry v =
     res_bind (object_value v [''concept'', ''preferred_term'']) (\<lambda>obj.
     res_bind (text_value (jget obj ''concept'')) (\<lambda>c.
     res_bind (text_value (jget obj ''preferred_term'')) (\<lambda>t. mk_terminology_entry c t)))"

definition decode_course_profile :: "json \<Rightarrow> course_profile result" where
  "decode_course_profile v =
     res_bind (object_value v profile_keys) (\<lambda>obj.
     res_bind (date_value (jget obj ''exam_date'')) (\<lambda>exam.
     res_bind (object_value (jget obj ''source_policy'') [''allowed_roles'', ''minimum_trust_level'']) (\<lambda>src.
     res_bind (object_value (jget obj ''terminology_policy'') [''entries'']) (\<lambda>trm.
     res_bind (array_value (jget trm ''entries'')) (\<lambda>items.
     res_bind (map_res decode_entry items) (\<lambda>entries.
     res_bind (text_value (jget obj ''id'')) (\<lambda>i.
     res_bind (text_value (jget obj ''title'')) (\<lambda>title.
     res_bind (text_value (jget obj ''language'')) (\<lambda>lang.
     res_bind (text_array (jget obj ''assessment_styles'')) (\<lambda>styles.
     res_bind (text_array (jget obj ''learning_goals'')) (\<lambda>goals.
     res_bind (text_array (jget src ''allowed_roles'')) (\<lambda>roles.
     res_bind (integer_value (jget src ''minimum_trust_level'')) (\<lambda>trust.
     res_bind (mk_source_policy roles trust) (\<lambda>policy.
     res_bind (mk_terminology_policy entries) (\<lambda>terms.
       mk_course_profile \<lparr>cp_id = i, cp_title = title, cp_language = lang, cp_exam_date = exam,
         cp_assessment_styles = styles, cp_learning_goals = goals, cp_source_policy = policy,
         cp_terminology = terms\<rparr>)))))))))))))))"

definition course_command_fingerprint :: "course_profile \<Rightarrow> string" where
  "course_command_fingerprint p = sha256_hex (canonical_json_bytes (course_profile_manifest p))"

definition course_event_id_for :: "course_profile \<Rightarrow> string" where
  "course_event_id_for p =
     ''event-sha256:'' @ sha256_hex (utf8_encode
       (''course.created@1'' @ [CHR 0x00] @ cp_id p @ [CHR 0x00] @ course_command_fingerprint p))"

definition decode_course_created :: "domain_event \<Rightarrow> course_profile result" where
  "decode_course_created e =
     (if ev_type e \<noteq> course_created_type \<or> ev_version e \<noteq> 1 then Inl ValueError
      else if ev_session e \<noteq> None \<or> ev_causation e \<noteq> None then Inl ValueError
      else if ev_seq e \<noteq> 1 then Inl ValueError
      else if \<not> trusted_kind (act_kind (ev_actor e)) then Inl ValueError
      else
        res_bind (decode_course_profile (JObj (ev_payload e))) (\<lambda>p.
          if cp_id p \<noteq> ev_course e then Inl ValueError
          else if ev_id e \<noteq> course_event_id_for p then Inl ValueError
          else Inr p))"

section \<open>The reducer and its registration\<close>

definition reduce_course_created :: "json_object \<Rightarrow> domain_event \<Rightarrow> course_profile \<Rightarrow> json_object result" where
  "reduce_course_created s e p =
     (if jget s ''course'' \<noteq> JNull then Inl ValueError
      else Inr (AList.update ''course'' (JObj (course_profile_manifest p)) s))"

definition register_course_events ::
  "(course_profile \<Rightarrow> 'p) \<Rightarrow> ('p \<Rightarrow> course_profile option) \<Rightarrow> 'p registry \<Rightarrow> 'p registry result" where
  "register_course_events wrap unwrap reg =
     register_event course_created_type 1 (erase_decoder wrap decode_course_created)
       (erase_reducer unwrap reduce_course_created) reg"

section \<open>The view\<close>

definition course_of_projection :: "string \<Rightarrow> projection \<Rightarrow> course_profile result" where
  "course_of_projection c p =
     (if proj_course p \<noteq> c then Inl ValueError
      else
        (case map_of (proj_state p) ''course'' of
           None \<Rightarrow> Inl (CourseNotFoundError c)
         | Some (JObj raw) \<Rightarrow>
             res_bind (decode_course_profile (JObj raw)) (\<lambda>q.
               if cp_id q \<noteq> c then Inl ValueError else Inr q)
         | Some _ \<Rightarrow> Inl ValueError))"

text \<open>Reading through the store: loading a projection may migrate it, so the database is returned.\<close>

definition course_view_get :: "'p registry \<Rightarrow> string \<Rightarrow> database \<Rightarrow> course_profile result \<times> database" where
  "course_view_get reg c db =
     (case projection_of False reg db c of
        Inl e \<Rightarrow> (Inl e, db)
      | Inr (p, db') \<Rightarrow> (course_of_projection c p, db'))"

fun view_all :: "'p registry \<Rightarrow> string list \<Rightarrow> database \<Rightarrow> course_profile list result \<times> database" where
  "view_all reg [] db = (Inr [], db)"
| "view_all reg (c # cs) db =
     (case course_view_get reg c db of
        (Inl e, db1) \<Rightarrow> (Inl e, db1)
      | (Inr p, db1) \<Rightarrow>
          (case view_all reg cs db1 of
             (Inl e, db2) \<Rightarrow> (Inl e, db2)
           | (Inr ps, db2) \<Rightarrow> (Inr (p # ps), db2)))"

definition list_courses :: "'p registry \<Rightarrow> database \<Rightarrow> course_profile list result \<times> database" where
  "list_courses reg db =
     (let ids = list_course_ids db in
      if \<not> distinct ids then (Inl ValueError, db) else view_all reg (sort ids) db)"

section \<open>The service\<close>

definition last_sequence :: "domain_event list \<Rightarrow> int" where
  "last_sequence es = (if es = [] then 0 else ev_seq (last es))"

definition existing_course :: "'p registry \<Rightarrow> string \<Rightarrow> database \<Rightarrow> course_profile option result \<times> database" where
  "existing_course reg c db =
     (case course_view_get reg c db of
        (Inr p, db') \<Rightarrow> (Inr (Some p), db')
      | (Inl (CourseNotFoundError _), db') \<Rightarrow> (Inr None, db')
      | (Inl e, db') \<Rightarrow> (Inl e, db'))"

definition same_or_conflict :: "course_profile \<Rightarrow> course_profile \<Rightarrow> course_profile result" where
  "same_or_conflict existing requested =
     (if existing = requested then Inr existing else Inl CourseConflictError)"

definition course_event :: "course_profile \<Rightarrow> exec_context \<Rightarrow> datetime \<Rightarrow> int \<Rightarrow> domain_event" where
  "course_event p ctx now sq = \<lparr>ev_id = course_event_id_for p, ev_course = cp_id p, ev_seq = sq,
     ev_type = course_created_type, ev_version = 1,
     ev_actor = \<lparr>act_kind = ctx_kind ctx, act_principal = ctx_principal ctx\<rparr>, ev_at = now,
     ev_correlation = ctx_correlation ctx, ev_payload = course_profile_manifest p,
     ev_session = None, ev_causation = None\<rparr>"

text \<open>After an append has raised: a sequence conflict looks for a racing writer, any other
  exception is passed on.\<close>

definition recover_race ::
  "'p registry \<Rightarrow> course_profile \<Rightarrow> int option \<Rightarrow> error \<Rightarrow> database \<Rightarrow> course_profile result \<times> database" where
  "recover_race reg p expected err db =
     (case err of
        SequenceConflictError _ _ _ \<Rightarrow>
          if expected \<noteq> None then (Inl RetryableCourseConflictError, db)
          else
            (case existing_course reg (cp_id p) db of
               (Inl e, db') \<Rightarrow> (Inl e, db')
             | (Inr (Some raced), db') \<Rightarrow> (same_or_conflict raced p, db')
             | (Inr None, db') \<Rightarrow> (Inl RetryableCourseConflictError, db'))
      | e \<Rightarrow> (Inl e, db))"

definition course_create ::
  "'p registry \<Rightarrow> (nat \<Rightarrow> database \<Rightarrow> database) \<Rightarrow> datetime \<Rightarrow> course_profile \<Rightarrow> exec_context \<Rightarrow>
   int option \<Rightarrow> database \<Rightarrow> course_profile result \<times> database" where
  "course_create reg env now p ctx expected db0 =
     (if ctx_course ctx \<noteq> cp_id p then (Inl CourseCommandError, db0)
      else if ctx_session ctx \<noteq> None then (Inl CourseCommandError, db0)
      else if \<not> trusted_kind (ctx_kind ctx) then (Inl CourseCommandError, db0)
      else
        let db1 = env 0 db0 in
        case read db1 (cp_id p) 0 of
          Inl e \<Rightarrow> (Inl e, db1)
        | Inr stream \<Rightarrow>
            let sq = last_sequence stream in
            if expected \<noteq> None \<and> expected \<noteq> Some sq then (Inl RetryableCourseConflictError, db1)
            else
              (case existing_course reg (cp_id p) (env 1 db1) of
                 (Inl e, db2) \<Rightarrow> (Inl e, db2)
               | (Inr (Some existing), db2) \<Rightarrow>
                   (case expected of
                      None \<Rightarrow> (same_or_conflict existing p, db2)
                    | Some n \<Rightarrow>
                        let db3 = env 2 db2 in
                        (case read db3 (cp_id p) 0 of
                           Inl e \<Rightarrow> (Inl e, db3)
                         | Inr latest \<Rightarrow>
                             if last_sequence latest \<noteq> n then (Inl RetryableCourseConflictError, db3)
                             else (same_or_conflict existing p, db3)))
               | (Inr None, db2) \<Rightarrow>
                   (case mk_event (course_event p ctx now (sq + 1)) of
                      Inl e \<Rightarrow> (Inl e, db2)
                    | Inr ev \<Rightarrow>
                        let db3 = env 2 db2 in
                        (case append False reg (cp_id p) sq [ev] db3 of
                           Inl e \<Rightarrow> recover_race reg p expected e (env 3 db3)
                         | Inr (_, db4) \<Rightarrow> course_view_get reg (cp_id p) (env 3 db4)))))"

section \<open>Codec lemmas\<close>

lemma decode_entry_canon: "wf_json v \<Longrightarrow> decode_entry (canon v) = decode_entry v"
  unfolding decode_entry_def object_value_canon res_bind_map_sum
  by (intro res_bind_cong refl) (auto simp: object_value_Inr jget_canon)

lemma decode_course_profile_canon:
  assumes wf: "wf_json v"
  shows "decode_course_profile (canon v) = decode_course_profile v"
proof (cases "object_value v profile_keys")
  case (Inl e)
  then show ?thesis by (simp add: decode_course_profile_def object_value_canon)
next
  case (Inr kvs)
  have kvs: "wf_json (JObj kvs)" using Inr wf by (simp add: object_value_Inr)
  then have get: "jget (canon_obj kvs) k = canon (jget kvs k)" for k by (simp add: jget_canon)
  have sub: "jget (canon_obj obj) j = canon (jget obj j)" "wf_json (jget obj j)"
    if "object_value (jget kvs k) ks = Inr obj" for k ks obj j
    using that wf_jget [OF kvs, of k] by (auto simp: object_value_Inr jget_canon intro!: wf_jget)
  have entries: "res_bind (array_value (canon w)) (\<lambda>xs. res_bind (map_res decode_entry xs) g) =
      res_bind (array_value w) (\<lambda>xs. res_bind (map_res decode_entry xs) g)"
    if "wf_json w" for w and g :: "_ \<Rightarrow> course_profile result"
  proof (cases "array_value w")
    case (Inr xs)
    then have "map_res decode_entry (map canon xs) = map_res decode_entry xs"
      using that by (auto simp: array_value_Inr map_res_map comp_def intro!: map_res_cong decode_entry_canon)
    with Inr show ?thesis by (simp add: array_value_canon)
  qed (simp add: array_value_canon)
  show ?thesis
    unfolding decode_course_profile_def object_value_canon Inr res_bind_map_sum
    by (simp add: get object_value_canon res_bind_map_sum entries sub cong: res_bind_cong)
qed

lemma decode_entry_manifest [codec_simps]:
  "is_text (concept t) \<Longrightarrow> is_text (preferred_term t) \<Longrightarrow> decode_entry (entry_manifest t) = Inr t"
  by (simp add: decode_entry_def entry_manifest_def object_value_def has_keys_def jget_def text_value_def
      mk_terminology_entry_def)

lemma decode_entries_manifest:
  "\<forall>t \<in> set ts. is_text (concept t) \<and> is_text (preferred_term t) \<Longrightarrow>
   map_res decode_entry (map entry_manifest ts) = Inr ts"
  by (induction ts) (simp_all add: decode_entry_manifest)

lemma decode_manifest:
  assumes wf: "wf_profile p"
  shows "decode_course_profile (JObj (course_profile_manifest p)) = Inr p"
proof -
  let ?m = "course_profile_manifest p"
  have keys: "has_keys ?m profile_keys"
    by (simp add: has_keys_def course_profile_manifest_def profile_keys_def)
  have get: "jget ?m ''id'' = JStr (cp_id p)" "jget ?m ''title'' = JStr (cp_title p)"
    "jget ?m ''language'' = JStr (cp_language p)"
    "jget ?m ''exam_date'' = (case cp_exam_date p of None \<Rightarrow> JNull | Some d \<Rightarrow> JStr (isoformat_date d))"
    "jget ?m ''assessment_styles'' = text_items (cp_assessment_styles p)"
    "jget ?m ''learning_goals'' = text_items (cp_learning_goals p)"
    "jget ?m ''source_policy'' = JObj [
        (''allowed_roles'', text_items (allowed_roles (cp_source_policy p))),
        (''minimum_trust_level'', JInt (minimum_trust_level (cp_source_policy p)))]"
    "jget ?m ''terminology_policy'' = JObj [(''entries'', JArr (map entry_manifest (cp_terminology p)))]"
    by (simp_all add: course_profile_manifest_def jget_def)
  have src: "object_value (jget ?m ''source_policy'') [''allowed_roles'', ''minimum_trust_level''] =
      Inr [(''allowed_roles'', text_items (allowed_roles (cp_source_policy p))),
        (''minimum_trust_level'', JInt (minimum_trust_level (cp_source_policy p)))]"
    and trm: "object_value (jget ?m ''terminology_policy'') [''entries''] =
      Inr [(''entries'', JArr (map entry_manifest (cp_terminology p)))]"
    by (simp_all add: get object_value_def has_keys_def)
  have entries: "map_res decode_entry (map entry_manifest (cp_terminology p)) = Inr (cp_terminology p)"
    using wf by (intro decode_entries_manifest) (simp add: wf_profile_def)
  have subs: "jget [(''entries'', x)] ''entries'' = x" "jget [(''allowed_roles'', y), (''minimum_trust_level'', z)] ''allowed_roles'' = y"
    "jget [(''allowed_roles'', y), (''minimum_trust_level'', z)] ''minimum_trust_level'' = z" for x y z
    by (simp_all add: jget_def)
  have texts: "text_array (text_items (cp_assessment_styles p)) = Inr (cp_assessment_styles p)"
    "text_array (text_items (cp_learning_goals p)) = Inr (cp_learning_goals p)"
    "text_array (text_items (allowed_roles (cp_source_policy p))) = Inr (allowed_roles (cp_source_policy p))"
    using wf by (simp_all add: wf_profile_def unique_texts_def text_items_array)
  have date: "date_value (jget ?m ''exam_date'') = Inr (cp_exam_date p)"
    using wf by (simp add: get date_value_manifest wf_profile_def)
  have scalars: "text_value (JStr (cp_id p)) = Inr (cp_id p)" "text_value (JStr (cp_title p)) = Inr (cp_title p)"
    "text_value (JStr (cp_language p)) = Inr (cp_language p)" "integer_value (JInt i) = Inr i"
    "array_value (JArr xs) = Inr xs" for i xs
    using wf by (simp_all add: text_value_def integer_value_def array_value_def wf_profile_def)
  have policy: "mk_source_policy (allowed_roles (cp_source_policy p)) (minimum_trust_level (cp_source_policy p)) =
      Inr (cp_source_policy p)" "mk_terminology_policy (cp_terminology p) = Inr (cp_terminology p)"
    using wf by (simp_all add: mk_source_policy_def mk_terminology_policy_def wf_profile_def)
  have profile: "mk_course_profile \<lparr>cp_id = cp_id p, cp_title = cp_title p, cp_language = cp_language p,
      cp_exam_date = cp_exam_date p, cp_assessment_styles = cp_assessment_styles p,
      cp_learning_goals = cp_learning_goals p, cp_source_policy = cp_source_policy p,
      cp_terminology = cp_terminology p\<rparr> = Inr p"
    using wf by (cases p) (simp add: mk_course_profile_def wf_profile_def)
  have "object_value (JObj ?m) profile_keys = Inr ?m" using keys by (simp add: object_value_def)
  then show ?thesis
    unfolding decode_course_profile_def
    by (simp only: res_bind_Inr src trm date) (simp add: get subs entries texts scalars policy profile)
qed

lemma decode_course_profile_wf:
  assumes "decode_course_profile v = Inr p"
  shows "wf_profile p"
proof -
  have entry: "is_text (concept t) \<and> is_text (preferred_term t)" if "decode_entry w = Inr t" for w t
    using that by (auto simp: decode_entry_def res_bind_eq_Inr mk_terminology_entry_def require_text_Inr)
  have entries: "\<forall>t \<in> set ts. is_text (concept t) \<and> is_text (preferred_term t)"
    if "map_res decode_entry xs = Inr ts" for xs ts
    using that entry by (fastforce simp: map_res_Inr_iff list_all2_conv_all_nth in_set_conv_nth)
  have date: "valid_date d" if "date_value w = Inr (Some d)" for w d
    using that
    by (auto simp: date_value_def res_bind_eq_Inr date_fromisoformat_def read_date_def Let_def
        bind_eq_Some_conv split: if_splits option.splits prod.splits list.splits)
  show ?thesis
    using assms unfolding decode_course_profile_def res_bind_eq_Inr
    by (auto simp: mk_course_profile_def mk_source_policy_def mk_terminology_policy_def wf_profile_def
        text_value_Inr res_bind_eq_Inr require_text_Inr split: if_splits dest: entries date)
qed

lemma wf_manifest: "wf_json (JObj (course_profile_manifest p))"
  by (auto simp: course_profile_manifest_def text_items_def entry_manifest_def split: option.splits)

lemma decode_entry_strict:
  "wf_json v \<Longrightarrow> decode_entry v = Inr t \<Longrightarrow> canon v = canon (entry_manifest t)"
  unfolding entry_manifest_def
  by (auto simp: decode_entry_def res_bind_eq_Inr object_value_Inr text_value_Inr mk_terminology_entry_def
      require_text_Inr has_keys_def canon_JObj jget_def simp del: canon.simps(6)
      intro!: canon_obj_of_keys [where ks = "[''concept'', ''preferred_term'']"] split: option.splits)

lemma mk_course_profile_InrD: "mk_course_profile q = Inr p \<Longrightarrow> p = q"
  by (auto simp: mk_course_profile_def res_bind_eq_Inr split: if_splits)

lemma mk_source_policy_InrD:
  "mk_source_policy roles trust = Inr p \<Longrightarrow> roles = allowed_roles p \<and> trust = minimum_trust_level p"
  by (auto simp: mk_source_policy_def split: if_splits)

lemma mk_terminology_policy_InrD: "mk_terminology_policy es = Inr ts \<Longrightarrow> es = ts"
  by (auto simp: mk_terminology_policy_def split: if_splits)

lemma decode_course_profile_strict:
  assumes wf: "wf_json (JObj kvs)" and dec: "decode_course_profile (JObj kvs) = Inr p"
  shows "canon_obj kvs = canon_obj (course_profile_manifest p)"
proof -
  obtain src trm items entries where keys: "has_keys kvs profile_keys"
    and exam: "date_value (jget kvs ''exam_date'') = Inr (cp_exam_date p)"
    and src: "object_value (jget kvs ''source_policy'') [''allowed_roles'', ''minimum_trust_level''] = Inr src"
    and trm: "object_value (jget kvs ''terminology_policy'') [''entries''] = Inr trm"
    and items: "array_value (jget trm ''entries'') = Inr items" "map_res decode_entry items = Inr (cp_terminology p)"
    and texts: "text_value (jget kvs ''id'') = Inr (cp_id p)" "text_value (jget kvs ''title'') = Inr (cp_title p)"
      "text_value (jget kvs ''language'') = Inr (cp_language p)"
    and arrays: "text_array (jget kvs ''assessment_styles'') = Inr (cp_assessment_styles p)"
      "text_array (jget kvs ''learning_goals'') = Inr (cp_learning_goals p)"
    and policy: "text_array (jget src ''allowed_roles'') = Inr (allowed_roles (cp_source_policy p))"
      "integer_value (jget src ''minimum_trust_level'') = Inr (minimum_trust_level (cp_source_policy p))"
    using dec unfolding decode_course_profile_def res_bind_eq_Inr
    by (elim exE conjE) (drule mk_course_profile_InrD, frule mk_source_policy_InrD, frule mk_terminology_policy_InrD,
        simp add: object_value_Inr)
  have sub: "wf_json (JObj src)" "wf_json (JObj trm)"
    using src trm wf_jget [OF wf, of "''source_policy''"] wf_jget [OF wf, of "''terminology_policy''"]
    by (simp_all add: object_value_Inr del: wf_json_JObj)
  have "canon_obj src = canon_obj [(''allowed_roles'', text_items (allowed_roles (cp_source_policy p))),
      (''minimum_trust_level'', JInt (minimum_trust_level (cp_source_policy p)))]"
    using sub(1) src policy text_array_Inr
    by (intro canon_obj_of_keys [where ks = "[''allowed_roles'', ''minimum_trust_level'']"])
      (auto simp: object_value_Inr has_keys_def integer_value_Inr jget_def [of "[_, _]"])
  moreover have "map canon items = map canon (map entry_manifest (cp_terminology p))"
    using items wf_jget [OF sub(2), of "''entries''"] decode_entry_strict
    by (auto simp: map_res_Inr_iff list_all2_conv_all_nth array_value_Inr intro!: nth_equalityI)
  then have "canon_obj trm = canon_obj [(''entries'', JArr (map entry_manifest (cp_terminology p)))]"
    using sub(2) trm items(1)
    by (intro canon_obj_of_keys [where ks = "[''entries'']"])
      (auto simp: object_value_Inr has_keys_def array_value_Inr jget_def [of "[_]"])
  ultimately have nested: "canon (jget kvs ''source_policy'') = canon (jget (course_profile_manifest p) ''source_policy'')"
    "canon (jget kvs ''terminology_policy'') = canon (jget (course_profile_manifest p) ''terminology_policy'')"
    using src trm by (simp_all add: object_value_Inr canon_JObj course_profile_manifest_def jget_def [of "_ # _"]
        del: canon.simps(6))
  show ?thesis
  proof (rule canon_obj_of_keys [where ks = profile_keys])
    show "canon (jget kvs k) = canon (jget (course_profile_manifest p) k)" if "k \<in> set profile_keys" for k
      using that nested texts arrays [THEN text_array_Inr] date_value_Inr [OF exam]
      by (auto simp: profile_keys_def text_value_Inr course_profile_manifest_def jget_def [of "_ # _"]
          simp del: canon.simps(6))
  qed (use wf wf_manifest [of p] keys in \<open>auto simp: has_keys_def course_profile_manifest_def profile_keys_def\<close>)
qed

section \<open>The registration meets the contract of the store\<close>

lemma decode_course_created_stored:
  "wf_event e \<Longrightarrow> decode_course_created (stored e) = decode_course_created e"
  using decode_course_profile_canon [of "JObj (ev_payload e)"]
  by (simp only: decode_course_created_def wf_event_def canon_JObj stored_fields)

lemma reduce_course_created_same:
  assumes wf: "wf_state s"
  shows "same_result (reduce_course_created (canon_obj s) e' p) (reduce_course_created s e p)"
proof -
  have "jget (canon_obj s) ''course'' = canon (jget s ''course'')"
    using wf by (intro jget_canon) (simp add: wf_state_def)
  then show ?thesis
    using wf wf_state_canon [of s]
    by (cases "jget s ''course''")
      (simp_all add: reduce_course_created_def wf_state_def same_state_update del: wf_json_JObj)
qed

lemma course_registration_ok:
  assumes "\<And>x. unwrap (wrap x) = Some x"
  shows "registration_ok \<lparr>reg_decoder = erase_decoder wrap decode_course_created,
    reg_reducer = erase_reducer unwrap reduce_course_created\<rparr>"
  using assms decode_course_created_stored reduce_course_created_same wf_manifest
  by (intro erased_registration_ok)
    (auto simp: reduce_course_created_def wf_state_def simp del: wf_json_JObj split: if_splits intro!: wf_update)

text \<open>The projected course is absent or the manifest of a well-formed profile of the stream's course,
  and it never changes once it is there.\<close>

definition course_ok :: "string \<Rightarrow> json_object \<Rightarrow> bool" where
  "course_ok c s = (map_of s ''course'' = None \<or>
     (\<exists>p. map_of s ''course'' = Some (JObj (course_profile_manifest p)) \<and> wf_profile p \<and> cp_id p = c))"

text \<open>The course of a stream of the store, by replay; the view computes it.\<close>

definition has_course :: "'p registry \<Rightarrow> database \<Rightarrow> string \<Rightarrow> course_profile \<Rightarrow> bool" where
  "has_course reg db c p = (\<exists>es q. stream_ok reg db c es \<and> replay reg c es = Inr q \<and> wf_profile p \<and> cp_id p = c \<and>
     map_of (proj_state q) ''course'' = Some (JObj (course_profile_manifest p)))"

lemma course_event_id_text: "is_text (course_event_id_for p)"
  unfolding course_event_id_for_def
  by (rule is_text_append) (simp_all add: is_space_def py_whitespace_def sha256_hex_shape)

lemma course_type_text: "is_text course_created_type"
  by (simp add: course_created_type_def is_text_iff is_space_def py_whitespace_def)

lemma wf_course_event:
  "wf_profile p \<Longrightarrow> wf_context ctx \<Longrightarrow> valid_datetime now \<Longrightarrow> 1 \<le> sq \<Longrightarrow> wf_event (course_event p ctx now sq)"
  using wf_manifest [of p]
  by (simp add: wf_event_def course_event_def wf_profile_def wf_context_def course_event_id_text
      course_type_text text_option_def del: wf_json_JObj)

locale course_registry = projection_contract reg inv
  for reg :: "'p registry" and inv +
  fixes wrap :: "course_profile \<Rightarrow> 'p"
    and unwrap :: "'p \<Rightarrow> course_profile option"
  assumes unwrap_wrap: "unwrap (wrap p) = Some p"
    and course_entry: "ev_type e = course_created_type \<Longrightarrow> ev_version e = 1 \<Longrightarrow> registration_of reg e =
      Inr \<lparr>reg_decoder = erase_decoder wrap decode_course_created,
        reg_reducer = erase_reducer unwrap reduce_course_created\<rparr>"
    and course_kept: "inv s \<Longrightarrow> wf_event e \<Longrightarrow> \<not> (ev_type e = course_created_type \<and> ev_version e = 1) \<Longrightarrow>
      reduce reg s e = Inr s' \<Longrightarrow> map_of s' ''course'' = map_of s ''course''"
begin

lemma reduce_course:
  assumes "ev_type e = course_created_type" and "ev_version e = 1"
  shows "reduce reg s e = Inr s' \<longleftrightarrow>
    (\<exists>p. decode_course_created e = Inr p \<and> reduce_course_created s e p = Inr s')"
  using course_entry [OF assms]
  by (auto simp: reduce_def decode_def reduce_decoded_def res_bind_eq_Inr map_error_eq_Inr erase_decoder_def
      erase_reducer_def unwrap_wrap)

lemma reduce_course_ok:
  assumes "inv s" and "wf_event e" and "course_ok (ev_course e) s" and red: "reduce reg s e = Inr s'"
  shows "course_ok (ev_course e) s' \<and> (map_of s ''course'' \<noteq> None \<longrightarrow> map_of s' ''course'' = map_of s ''course'')"
proof (cases "ev_type e = course_created_type \<and> ev_version e = 1")
  case True
  then obtain p where dec: "decode_course_created e = Inr p" and red: "reduce_course_created s e p = Inr s'"
    using red reduce_course by blast
  from dec have "decode_course_profile (JObj (ev_payload e)) = Inr p" "cp_id p = ev_course e"
    by (auto simp: decode_course_created_def res_bind_eq_Inr split: if_splits)
  moreover have "map_of s ''course'' = None \<or> map_of s ''course'' = Some JNull"
    "s' = AList.update ''course'' (JObj (course_profile_manifest p)) s"
    using red by (auto simp: reduce_course_created_def jget_def split: if_splits option.splits)
  ultimately show ?thesis
    using assms(3) decode_course_profile_wf by (auto simp: course_ok_def map_of_update)
next
  case False
  then show ?thesis using course_kept [OF assms(1,2) False red] assms(3) by (simp add: course_ok_def)
qed

lemma fold_course_ok:
  "fold_res (apply_event reg) es p = Inr q \<Longrightarrow> \<forall>e \<in> set es. wf_event e \<Longrightarrow> inv (proj_state p) \<Longrightarrow>
   course_ok (proj_course p) (proj_state p) \<Longrightarrow>
   course_ok (proj_course p) (proj_state q) \<and>
   (map_of (proj_state p) ''course'' \<noteq> None \<longrightarrow> map_of (proj_state q) ''course'' = map_of (proj_state p) ''course'')"
proof (induction es arbitrary: p)
  case (Cons e es)
  obtain p1 where p1: "apply_event reg e p = Inr p1" and rest: "fold_res (apply_event reg) es p1 = Inr q"
    using Cons.prems(1) by (auto simp: res_bind_eq_Inr)
  have *: "reduce reg (proj_state p) e = Inr (proj_state p1)" "ev_course e = proj_course p"
    "proj_course p1 = proj_course p" using p1 by (auto simp: apply_event_Inr)
  have one: "course_ok (proj_course p) (proj_state p1)"
    "map_of (proj_state p) ''course'' \<noteq> None \<Longrightarrow> map_of (proj_state p1) ''course'' = map_of (proj_state p) ''course''"
    using reduce_course_ok [OF Cons.prems(3) _ _ *(1)] Cons.prems * by auto
  have "inv (proj_state p1)" using reduce_inv [OF Cons.prems(3) _ *(1)] Cons.prems by simp
  then show ?case using Cons.IH [OF rest] Cons.prems one * by auto
qed simp

lemma replay_course_ok:
  assumes "replay reg c es = Inr q" and "\<forall>e \<in> set es. wf_event e"
  shows "course_ok c (proj_state q)"
  using fold_course_ok [OF assms(1) [unfolded replay_def] assms(2)] inv_empty
  by (simp add: initial_projection_def course_ok_def)

lemma has_course_iff:
  assumes es: "stream_ok reg db c es" and q: "replay reg c es = Inr q"
  shows "has_course reg db c p \<longleftrightarrow> wf_profile p \<and> cp_id p = c \<and>
    map_of (proj_state q) ''course'' = Some (JObj (course_profile_manifest p))"
proof -
  have "es' = es \<and> q' = q" if "stream_ok reg db c es'" "replay reg c es' = Inr q'" for es' q'
    using that q stream_ok_unique [OF es that(1)] by auto
  then show ?thesis using es q unfolding has_course_def by (metis (no_types, lifting))
qed

lemma has_course_unique: "has_course reg db c p \<Longrightarrow> has_course reg db c q \<Longrightarrow> p = q"
proof -
  assume p: "has_course reg db c p" and q: "has_course reg db c q"
  obtain es r where es: "stream_ok reg db c es" "replay reg c es = Inr r" using p by (auto simp: has_course_def)
  have "course_profile_manifest p = course_profile_manifest q" "wf_profile p" "wf_profile q"
    using p q by (simp_all add: has_course_iff [OF es])
  then show "p = q" using decode_manifest by (metis Inr_inject)
qed

lemma view_get_ok:
  assumes ok: "store_ok reg db"
  shows "(\<exists>p. course_view_get reg c db = (Inr p, db) \<and> has_course reg db c p) \<or>
    course_view_get reg c db = (Inl (CourseNotFoundError c), db) \<and> (\<nexists>p. has_course reg db c p)"
proof -
  obtain es q where es: "stream_ok reg db c es" and q: "replay reg c es = Inr q"
    using ok unfolding store_ok_def stream_ok_def by blast
  have uniq: "has_course reg db c p \<longleftrightarrow> wf_profile p \<and> cp_id p = c \<and>
      map_of (proj_state q) ''course'' = Some (JObj (course_profile_manifest p))" for p
    by (rule has_course_iff [OF es q])
  have state: "map_of (canon_obj (proj_state q)) ''course'' = map_option canon (map_of (proj_state q) ''course'')"
    using replay_inv [OF _ q] stream_ok_wf [OF es] inv_wf by (intro map_of_canon_obj) auto
  have view: "course_view_get reg c db = (course_of_projection c
      \<lparr>proj_course = c, proj_seq = int (length es), proj_state = canon_obj (proj_state q)\<rparr>, db)"
    using projection_of_ok [OF es q] by (simp add: course_view_get_def)
  have "course_ok c (proj_state q)" using replay_course_ok [OF q] stream_ok_wf [OF es] by blast
  then show ?thesis unfolding course_ok_def
  proof (elim disjE exE conjE)
    assume "map_of (proj_state q) ''course'' = None"
    then show ?thesis using view state uniq by (simp add: course_of_projection_def)
  next
    fix p
    assume p: "map_of (proj_state q) ''course'' = Some (JObj (course_profile_manifest p))" "wf_profile p" "cp_id p = c"
    have "decode_course_profile (canon (JObj (course_profile_manifest p))) = Inr p"
      using decode_course_profile_canon [OF wf_manifest] decode_manifest [OF p(2)] by simp
    then have "course_view_get reg c db = (Inr p, db)"
      using view state p by (simp add: course_of_projection_def canon_JObj del: canon.simps(6))
    then show ?thesis using uniq p by blast
  qed
qed

lemma view_get_iff: "store_ok reg db \<Longrightarrow> course_view_get reg c db = (Inr p, db') \<longleftrightarrow> db' = db \<and> has_course reg db c p"
  using view_get_ok [of db c] has_course_unique by auto

lemma has_course_kept:
  assumes "store_ok reg db" and "(store_step reg)\<^sup>*\<^sup>* db db'" and "has_course reg db c p"
  shows "has_course reg db' c p"
proof -
  obtain es q where es: "stream_ok reg db c es" and q: "replay reg c es = Inr q" "wf_profile p" "cp_id p = c"
    "map_of (proj_state q) ''course'' = Some (JObj (course_profile_manifest p))"
    using assms(3) by (auto simp: has_course_def)
  obtain ds where ds: "stream_ok reg db' c (es @ ds)" using stream_grows_steps [OF assms(2,1) es] by blast
  then obtain q' where q': "replay reg c (es @ ds) = Inr q'" by (auto simp: stream_ok_def)
  then have "fold_res (apply_event reg) ds q = Inr q'" using q(1) by (simp add: replay_snoc)
  moreover have "\<forall>e \<in> set (es @ ds). wf_event e" using stream_ok_wf [OF ds] by blast
  ultimately have "map_of (proj_state q') ''course'' = map_of (proj_state q) ''course''"
    using fold_course_ok [of ds q q'] replay_inv [OF _ q(1)] replay_course_ok [OF q(1)] replay_course_seq [OF q(1)] q(4)
    by auto
  then show ?thesis using ds q' q unfolding has_course_def by metis
qed


lemma existing_course_ok:
  assumes "store_ok reg db"
  shows "(\<exists>p. existing_course reg c db = (Inr (Some p), db) \<and> has_course reg db c p) \<or>
    existing_course reg c db = (Inr None, db) \<and> (\<nexists>p. has_course reg db c p)"
  using view_get_ok [OF assms, of c] by (auto simp: existing_course_def)

text \<open>Every outcome of the service leaves the database in a state the store could reach by its own
  steps, and a profile it returns is the requested one and is the one the store holds.\<close>

lemma append_course_event:
  assumes ok: "store_ok reg db" and wf: "wf_profile p" "wf_context ctx" "valid_datetime now" "utcoffset now = 0"
    and app: "append False reg (cp_id p) n [course_event p ctx now (n + 1)] db = Inr (m, db')"
    and n: "0 \<le> n"
  shows "store_step reg db db' \<and> has_course reg db' (cp_id p) p"
proof -
  let ?e = "course_event p ctx now (n + 1)"
  have wfe: "wf_event ?e" and utc: "is_utc ?e"
    using wf n by (simp add: wf_course_event, simp add: is_utc_def course_event_def)
  have step: "store_step reg db db'" using step_append [OF app] wfe utc by simp
  obtain old where old: "stream_ok reg db (cp_id p) old" using ok by (auto simp: store_ok_def)
  have new: "stream_ok reg db' (cp_id p) (old @ [stored ?e])"
    using append_stream [OF old _ _ app] ok wfe utc unfolding store_ok_def by simp metis
  then obtain q where q: "replay reg (cp_id p) (old @ [stored ?e]) = Inr q" by (auto simp: stream_ok_def)
  then obtain q0 where "apply_event reg (stored ?e) q0 = Inr q" by (auto simp: replay_snoc res_bind_eq_Inr)
  then have "reduce reg (proj_state q0) (stored ?e) = Inr (proj_state q)" by (simp add: apply_event_Inr)
  then obtain p' where p': "decode_course_created ?e = Inr p'" "reduce_course_created (proj_state q0) (stored ?e) p' = Inr (proj_state q)"
    using reduce_course [of "stored ?e"] decode_course_created_stored [OF wfe] by (auto simp: course_event_def)
  then have "p' = p" using decode_manifest [OF wf(1)]
    by (auto simp: decode_course_created_def course_event_def res_bind_eq_Inr split: if_splits)
  then have "map_of (proj_state q) ''course'' = Some (JObj (course_profile_manifest p))"
    using p'(2) by (auto simp: reduce_course_created_def map_of_update split: if_splits dest: sym)
  then show ?thesis using step new q wf(1) unfolding has_course_def by blast
qed

lemma create_append_safe:
  assumes ok: "store_ok reg db2" and env: "interference reg env"
    and wf: "wf_profile p" "wf_context ctx" "valid_datetime now" "utcoffset now = 0"
    and main: "(case mk_event (course_event p ctx now (n + 1)) of
                  Inl e \<Rightarrow> (Inl e, db2)
                | Inr ev \<Rightarrow>
                    (case append False reg (cp_id p) n [ev] (env 2 db2) of
                       Inl e \<Rightarrow> recover_race reg p expected e (env 3 (env 2 db2))
                     | Inr (_, db4) \<Rightarrow> course_view_get reg (cp_id p) (env 3 db4))) = (r, db')"
    and steps: "(store_step reg)\<^sup>*\<^sup>* db0 db2"
  shows "(store_step reg)\<^sup>*\<^sup>* db0 db' \<and> (\<forall>q. r = Inr q \<longrightarrow> q = p \<and> has_course reg db' (cp_id p) p)"
proof (cases "mk_event (course_event p ctx now (n + 1))")
  case (Inr ev)
  then have n: "0 \<le> n" and ev: "ev = course_event p ctx now (n + 1)"
    by (auto simp: mk_event_Inr course_event_def)
  have envs: "(store_step reg)\<^sup>*\<^sup>* db (env k db)" for k db using env by (simp add: interference_def)
  have ok3: "store_ok reg (env 2 db2)" and s3: "(store_step reg)\<^sup>*\<^sup>* db0 (env 2 db2)"
    using envs store_ok_steps ok steps by (blast, meson rtranclp_trans)
  show ?thesis
  proof (cases "append False reg (cp_id p) n [ev] (env 2 db2)")
    case (Inl e)
    then have rec: "recover_race reg p expected e (env 3 (env 2 db2)) = (r, db')" using main Inr by simp
    have ok4: "store_ok reg (env 3 (env 2 db2))" and s4: "(store_step reg)\<^sup>*\<^sup>* db0 (env 3 (env 2 db2))"
      using envs store_ok_steps ok3 s3 by (blast, meson rtranclp_trans)
    show ?thesis
      using rec existing_course_ok [OF ok4, of "cp_id p"] s4
      by (auto simp: recover_race_def same_or_conflict_def split: error.splits if_splits)
  next
    case (Inr md)
    then obtain m db4 where app: "append False reg (cp_id p) n [ev] (env 2 db2) = Inr (m, db4)" by (cases md) auto
    have new: "store_step reg (env 2 db2) db4" "has_course reg db4 (cp_id p) p"
      using append_course_event [OF ok3 wf app [unfolded ev] n] by auto
    have ok4: "store_ok reg db4" and s4: "(store_step reg)\<^sup>*\<^sup>* db0 (env 3 db4)"
      using store_ok_step [OF new(1) ok3] s3 new(1) envs [of db4 3] by (blast, meson rtranclp.simps rtranclp_trans)
    have ok5: "store_ok reg (env 3 db4)" and has5: "has_course reg (env 3 db4) (cp_id p) p"
      using store_ok_steps [OF envs ok4] has_course_kept [OF ok4 envs new(2)] by blast+
    have "course_view_get reg (cp_id p) (env 3 db4) = (r, db')" using main app \<open>mk_event _ = _\<close> by simp
    moreover have "course_view_get reg (cp_id p) (env 3 db4) = (Inr p, env 3 db4)"
      using view_get_iff [OF ok5] has5 by blast
    ultimately show ?thesis using has5 s4 by auto
  qed
qed (use main steps in auto)

lemma create_safe:
  assumes ok: "store_ok reg db0" and env: "interference reg env"
    and wf: "wf_profile p" "wf_context ctx" "valid_datetime now" "utcoffset now = 0"
    and res: "course_create reg env now p ctx expected db0 = (r, db')"
  shows "(store_step reg)\<^sup>*\<^sup>* db0 db' \<and> (\<forall>q. r = Inr q \<longrightarrow> q = p \<and> has_course reg db' (cp_id p) p)"
proof -
  let ?steps = "(store_step reg)\<^sup>*\<^sup>*" and ?c = "cp_id p"
  have envs: "?steps db (env k db)" for k db using env by (simp add: interference_def)
  have oks: "store_ok reg (env k db)" if "store_ok reg db" for k db using that envs store_ok_steps by blast
  define db1 where "db1 = env 0 db0"
  define db2 where "db2 = env 1 db1"
  have ok1: "store_ok reg db1" and ok2: "store_ok reg db2" by (simp_all add: db1_def db2_def ok oks)
  have s1: "?steps db0 db1" and s2: "?steps db0 db2" using envs [of db0 0] envs [of db1 1]
    by (auto simp: db1_def db2_def)
  have s3: "?steps db0 (env k db2)" for k using s2 envs [of db2 k] by auto
  show ?thesis
  proof (cases "ctx_course ctx \<noteq> ?c \<or> ctx_session ctx \<noteq> None \<or> \<not> trusted_kind (ctx_kind ctx)")
    case True
    then have "course_create reg env now p ctx expected db0 = (Inl CourseCommandError, db0)"
      by (auto simp: course_create_def)
    then show ?thesis using res by simp
  next
    case guards: False
    obtain es where es: "stream_ok reg db1 ?c es" using ok1 by (auto simp: store_ok_def)
    note unfolded = res [unfolded course_create_def Let_def, folded db1_def, folded db2_def]
    let ?n = "last_sequence es"
    have rd: "read db1 ?c 0 = Inr es" by (rule stream_ok_read [OF es])
    show ?thesis
    proof (cases "expected \<noteq> None \<and> expected \<noteq> Some ?n")
      case True
      then show ?thesis using unfolded guards rd s1 by auto
    next
      case False
      from existing_course_ok [OF ok2, of ?c] show ?thesis
      proof (elim disjE exE conjE)
        fix q
        assume ex: "existing_course reg ?c db2 = (Inr (Some q), db2)" and has: "has_course reg db2 ?c q"
        have "r = same_or_conflict q p \<or> (\<exists>e. r = Inl e)" "db' = db2 \<or> db' = env 2 db2"
          using unfolded guards rd False ex
          by (auto split: option.splits sum.splits if_splits)
        moreover have "has_course reg (env 2 db2) ?c q" by (rule has_course_kept [OF ok2 envs has])
        ultimately show ?thesis using has s2 s3 by (auto simp: same_or_conflict_def split: if_splits)
      next
        assume ex: "existing_course reg ?c db2 = (Inr None, db2)"
        have main: "(case mk_event (course_event p ctx now (?n + 1)) of
                      Inl e \<Rightarrow> (Inl e, db2)
                    | Inr ev \<Rightarrow>
                        (case append False reg ?c ?n [ev] (env 2 db2) of
                           Inl e \<Rightarrow> recover_race reg p expected e (env 3 (env 2 db2))
                         | Inr (_, db4) \<Rightarrow> course_view_get reg ?c (env 3 db4))) = (r, db')"
          using unfolded guards rd False ex by auto
        show ?thesis by (rule create_append_safe [OF ok2 env wf main s2])
      qed
    qed
  qed
qed

text \<open>Alone, the service creates a course exactly when none exists, answers a repeated request with the
  stored profile and refuses a different one.\<close>

lemma create_existing:
  assumes ok: "store_ok reg db" and guards: "ctx_course ctx = cp_id p" "ctx_session ctx = None" "trusted_kind (ctx_kind ctx)"
    and has: "has_course reg db (cp_id p) q"
  shows "course_create reg (\<lambda>_ db. db) now p ctx None db = (same_or_conflict q p, db)"
proof -
  obtain es where es: "stream_ok reg db (cp_id p) es" using has by (auto simp: has_course_def)
  have "existing_course reg (cp_id p) db = (Inr (Some q), db)"
    using existing_course_ok [OF ok, of "cp_id p"] has has_course_unique by blast
  with guards stream_ok_read [OF es] show ?thesis by (simp add: course_create_def)
qed

lemma create_fresh:
  assumes ok: "store_ok reg db" and guards: "ctx_course ctx = cp_id p" "ctx_session ctx = None" "trusted_kind (ctx_kind ctx)"
    and wf: "wf_profile p" "wf_context ctx" "valid_datetime now" "utcoffset now = 0"
    and empty: "rows_of db (cp_id p) = []" and fresh: "course_event_id_for p \<notin> row_event_id ` set (db_events db)"
    and expected: "expected = None \<or> expected = Some 0"
  shows "\<exists>db'. course_create reg (\<lambda>_ db. db) now p ctx expected db = (Inr p, db') \<and>
    has_course reg db' (cp_id p) p \<and> read db' (cp_id p) 0 = Inr [stored (course_event p ctx now 1)]"
proof -
  let ?e = "course_event p ctx now 1"
  have wfe: "wf_event ?e" and utc: "is_utc ?e"
    using wf by (simp add: wf_course_event, simp add: is_utc_def course_event_def)
  obtain es where es: "stream_ok reg db (cp_id p) es" using ok by (auto simp: store_ok_def)
  then have nil: "es = []" using empty by (simp add: stream_ok_def)
  have none: "\<not> has_course reg db (cp_id p) q" for q
    using has_course_iff [OF es, unfolded nil] by (simp add: replay_def initial_projection_def)
  have reg_e: "registration_of reg ?e = Inr \<lparr>reg_decoder = erase_decoder wrap decode_course_created,
      reg_reducer = erase_reducer unwrap reduce_course_created\<rparr>"
    by (intro course_entry) (simp_all add: course_event_def)
  have dec: "decode reg ?e = Inr (wrap p)"
    using reg_e guards(3) decode_manifest [OF wf(1)]
    by (simp add: decode_def erase_decoder_def decode_course_created_def course_event_def)
  have red: "reduce_decoded reg [] ?e (wrap p) = Inr [(''course'', JObj (course_profile_manifest p))]"
    using reg_e by (simp add: reduce_decoded_def erase_reducer_def unwrap_wrap reduce_course_created_def jget_def)
  obtain at where at: "timestamp now = Inr at" using wf(3,4) timestamp_utc by blast
  then have bytes: "event_to_bytes ?e = Inr (canonical_json_bytes (event_envelope ?e at))"
    by (simp add: event_to_bytes_def course_event_def)
  have cur: "current_sequence db (cp_id p) = 0" using stream_ok_current [OF es] nil by simp
  have load: "load_projection False reg db (cp_id p) 0 = Inr (initial_projection (cp_id p), db)"
    using es nil by (simp add: load_projection_def stream_ok_def)
  have ins: "\<exists>db1. insert_event (row_of (cp_id p) ?e (canonical_json_bytes (event_envelope ?e at))) db = Inr db1"
    using empty fresh [unfolded image_iff]
    by (auto simp: insert_event_Inr row_of_def course_event_def sqlite_int_def rows_of_def filter_empty_conv)
  have "\<exists>m db'. append False reg (cp_id p) 0 [?e] db = Inr (m, db')"
    using cur dec load ins bytes red
    by (auto simp: append_def Let_def append_one_def initial_projection_def mk_projection_def course_event_def)
  then obtain m db' where app: "append False reg (cp_id p) 0 [?e] db = Inr (m, db')" by blast
  have new: "store_step reg db db'" "has_course reg db' (cp_id p) p"
    using append_course_event [OF ok wf, of 0] app by auto
  have ok': "store_ok reg db'" by (rule store_ok_step [OF new(1) ok])
  have "stream_ok reg db' (cp_id p) (map stored [?e])"
    using append_stream [OF es _ _ app] ok wfe utc nil by (simp add: store_ok_def)
  then have "read db' (cp_id p) 0 = Inr [stored ?e]" using stream_ok_read by force
  moreover have "course_view_get reg (cp_id p) db' = (Inr p, db')" using view_get_iff [OF ok'] new(2) by blast
  moreover have "existing_course reg (cp_id p) db = (Inr None, db)"
    using existing_course_ok [OF ok, of "cp_id p"] none by blast
  ultimately have "course_create reg (\<lambda>_ db. db) now p ctx expected db = (Inr p, db')"
    using guards expected stream_ok_read [OF es] nil app wfe
    by (auto simp: course_create_def last_sequence_def)
  with \<open>read db' (cp_id p) 0 = _\<close> new show ?thesis by blast
qed

end

section \<open>Properties\<close>

text \<open>C17. The course codec is strict: it decodes the manifest of a profile to that profile, everything it accepts is
  the manifest of a valid profile up to the order of keys, and hence has the same canonical bytes.\<close>

theorem course_codec_strict:
  assumes "wf_json (JObj kvs)"
  shows "decode_course_profile (JObj kvs) = Inr p \<longleftrightarrow>
    wf_profile p \<and> canonical_json_bytes kvs = canonical_json_bytes (course_profile_manifest p)"
proof
  assume dec: "decode_course_profile (JObj kvs) = Inr p"
  show "wf_profile p \<and> canonical_json_bytes kvs = canonical_json_bytes (course_profile_manifest p)"
    using decode_course_profile_wf [OF dec] decode_course_profile_strict [OF assms dec]
      canonical_json_bytes_eq_iff [OF assms wf_manifest] by simp
next
  assume p: "wf_profile p \<and> canonical_json_bytes kvs = canonical_json_bytes (course_profile_manifest p)"
  then have "canon (JObj kvs) = canon (JObj (course_profile_manifest p))"
    using canonical_json_bytes_eq_iff [OF assms wf_manifest] by (simp only: canon_JObj)
  then show "decode_course_profile (JObj kvs) = Inr p"
    using decode_course_profile_canon [OF assms] decode_course_profile_canon [OF wf_manifest] decode_manifest p by metis
qed

theorem course_codec_strict_witness:
  "\<exists>p. decode_course_profile (JObj (course_profile_manifest p)) = Inr p"
proof -
  define p :: course_profile where "p = \<lparr>cp_id = ''bio'', cp_title = ''Biology'', cp_language = ''en'', cp_exam_date = None,
     cp_assessment_styles = [''oral''], cp_learning_goals = [''pass''],
     cp_source_policy = \<lparr>allowed_roles = [], minimum_trust_level = 50\<rparr>, cp_terminology = []\<rparr>"
  have "wf_profile p" by (simp add: p_def wf_profile_def unique_texts_def text_eval)
  with course_codec_strict [OF wf_manifest, of p p] show ?thesis by blast
qed

end
