(* ===== verification/Study_Context.thy ===== *)
theory Study_Context
  imports Courses "HOL-Library.Product_Lexorder"
begin

text \<open>
  Progressively collected learner context (\<^verbatim>\<open>src/src/study_agent/study_context/\<close> and
  \<^verbatim>\<open>domain/study_context.py\<close>): statements about the learner's objectives, deadline and time
  budget, their retraction and the resolution of conflicting scalar statements. The theory has
  the values and their canonical form, the strict codecs of the three events, the pure reducers
  with their validation of the projected state, and the reader that builds a snapshot.

  In the projection the component owns the key \<^verbatim>\<open>study_context\<close>, a dictionary of statements,
  resolutions and commands, and reads the keys \<^verbatim>\<open>course\<close>, \<^verbatim>\<open>sessions\<close> and
  \<^verbatim>\<open>session_interactions\<close>.
\<close>

section \<open>Values\<close>

datatype statement_kind = OBJECTIVE | DEADLINE | WEEKLY_TIME_BUDGET | ASSESSMENT_FORMAT | TESTING_PREFERENCE

datatype statement_status = ACTIVE | SUPERSEDED | RETRACTED

datatype statement_value = V_text string | V_date date | V_int int

fun kind_value :: "statement_kind \<Rightarrow> string" where
  "kind_value OBJECTIVE = ''objective''"
| "kind_value DEADLINE = ''deadline''"
| "kind_value WEEKLY_TIME_BUDGET = ''weekly_time_budget''"
| "kind_value ASSESSMENT_FORMAT = ''assessment_format''"
| "kind_value TESTING_PREFERENCE = ''testing_preference''"

definition kind_of :: "string \<Rightarrow> statement_kind result" where
  "kind_of s =
     (if s = ''objective'' then Inr OBJECTIVE else if s = ''deadline'' then Inr DEADLINE
      else if s = ''weekly_time_budget'' then Inr WEEKLY_TIME_BUDGET
      else if s = ''assessment_format'' then Inr ASSESSMENT_FORMAT
      else if s = ''testing_preference'' then Inr TESTING_PREFERENCE else Inl ValueError)"

definition is_scalar :: "statement_kind \<Rightarrow> bool" where
  "is_scalar k = (k = DEADLINE \<or> k = WEEKLY_TIME_BUDGET)"

fun status_value :: "statement_status \<Rightarrow> string" where
  "status_value ACTIVE = ''active''"
| "status_value SUPERSEDED = ''superseded''"
| "status_value RETRACTED = ''retracted''"

definition status_of :: "string \<Rightarrow> statement_status result" where
  "status_of s =
     (if s = ''active'' then Inr ACTIVE else if s = ''superseded'' then Inr SUPERSEDED
      else if s = ''retracted'' then Inr RETRACTED else Inl ValueError)"

definition canonical_statement_value :: "statement_kind \<Rightarrow> statement_value \<Rightarrow> statement_value result" where
  "canonical_statement_value k v =
     (if k = OBJECTIVE \<or> k = ASSESSMENT_FORMAT \<or> k = TESTING_PREFERENCE then
        (case v of
           V_text s \<Rightarrow> res_bind (require_text (strip s)) (\<lambda>_. Inr (V_text (strip s)))
         | _ \<Rightarrow> Inl TypeError)
      else if k = DEADLINE then
        (case v of V_date d \<Rightarrow> Inr (V_date d) | _ \<Rightarrow> Inl TypeError)
      else
        (case v of
           V_int i \<Rightarrow> if \<not> (1 \<le> i \<and> i \<le> 10080) then Inl ValueError else Inr (V_int i)
         | _ \<Rightarrow> Inl TypeError))"

record study_statement =
  in_kind :: statement_kind
  in_value :: statement_value

definition mk_statement :: "statement_kind \<Rightarrow> statement_value \<Rightarrow> study_statement result" where
  "mk_statement k v = res_bind (canonical_statement_value k v) (\<lambda>c. Inr \<lparr>in_kind = k, in_value = c\<rparr>)"

definition statement_value_manifest :: "study_statement \<Rightarrow> json" where
  "statement_value_manifest st =
     (case in_value st of V_date d \<Rightarrow> JStr (isoformat_date d) | V_text s \<Rightarrow> JStr s | V_int i \<Rightarrow> JInt i)"

section \<open>Identities and fingerprints\<close>

definition study_context_event_id_for :: "string \<Rightarrow> string \<Rightarrow> string \<Rightarrow> string \<Rightarrow> string" where
  "study_context_event_id_for c sess key command =
     ''event-sha256:'' @ sha256_hex (utf8_encode (''study-context@1'' @ [CHR 0x00] @ c @ [CHR 0x00] @
       sess @ [CHR 0x00] @ key @ [CHR 0x00] @ command))"

definition statement_id_for :: "string \<Rightarrow> string" where
  "statement_id_for event_id =
     ''statement-sha256:'' @ sha256_hex (utf8_encode (''study-context-statement@1'' @ [CHR 0x00] @ event_id))"

definition sha_json :: "json_object \<Rightarrow> string" where
  "sha_json obj = sha256_hex (canonical_json_bytes obj)"

definition record_command_fingerprint :: "study_statement \<Rightarrow> string \<Rightarrow> string" where
  "record_command_fingerprint st origin = sha_json
     [(''origin_interaction_id'', JStr origin), (''kind'', JStr (kind_value (in_kind st))),
      (''value'', statement_value_manifest st)]"

definition retract_command_fingerprint :: "string \<Rightarrow> string" where
  "retract_command_fingerprint sid = sha_json [(''statement_id'', JStr sid)]"

definition resolve_command_fingerprint :: "statement_kind \<Rightarrow> string \<Rightarrow> string" where
  "resolve_command_fingerprint k selected = sha_json
     [(''kind'', JStr (kind_value k)), (''selected_statement_id'', JStr selected)]"

section \<open>Payloads\<close>

definition statement_recorded_type :: string where "statement_recorded_type = ''study_context.statement_recorded''"
definition statement_retracted_type :: string where "statement_retracted_type = ''study_context.statement_retracted''"
definition conflict_resolved_type :: string where "conflict_resolved_type = ''study_context.conflict_resolved''"

record statement_recorded =
  sr_id :: string
  sr_origin :: string
  sr_statement :: study_statement
  sr_key :: string
  sr_fingerprint :: string

record statement_retracted =
  rt_id :: string
  rt_key :: string
  rt_fingerprint :: string

record conflict_resolved =
  cr_kind :: statement_kind
  cr_selected :: string
  cr_superseded :: "string list"
  cr_key :: string
  cr_fingerprint :: string

definition recorded_keys :: "string list" where
  "recorded_keys = [''idempotency_key'', ''command_fingerprint'', ''session_id'', ''statement_id'',
     ''origin_interaction_id'', ''kind'', ''value'']"

definition retracted_keys :: "string list" where
  "retracted_keys = [''idempotency_key'', ''command_fingerprint'', ''session_id'', ''statement_id'']"

definition resolved_keys :: "string list" where
  "resolved_keys = [''idempotency_key'', ''command_fingerprint'', ''session_id'', ''kind'',
     ''selected_statement_id'', ''superseded_statement_ids'']"

definition statement_recorded_payload ::
  "string \<Rightarrow> string \<Rightarrow> study_statement \<Rightarrow> string \<Rightarrow> string \<Rightarrow> json_object" where
  "statement_recorded_payload sid origin st sess key = [
     (''statement_id'', JStr sid), (''session_id'', JStr sess), (''origin_interaction_id'', JStr origin),
     (''kind'', JStr (kind_value (in_kind st))), (''value'', statement_value_manifest st),
     (''idempotency_key'', JStr key), (''command_fingerprint'', JStr (record_command_fingerprint st origin))]"

definition statement_retracted_payload :: "string \<Rightarrow> string \<Rightarrow> string \<Rightarrow> json_object" where
  "statement_retracted_payload sid sess key = [
     (''statement_id'', JStr sid), (''session_id'', JStr sess), (''idempotency_key'', JStr key),
     (''command_fingerprint'', JStr (retract_command_fingerprint sid))]"

definition conflict_resolved_payload ::
  "statement_kind \<Rightarrow> string \<Rightarrow> string list \<Rightarrow> string \<Rightarrow> string \<Rightarrow> json_object" where
  "conflict_resolved_payload k selected superseded sess key = [
     (''kind'', JStr (kind_value k)), (''selected_statement_id'', JStr selected),
     (''superseded_statement_ids'', text_items superseded), (''session_id'', JStr sess),
     (''idempotency_key'', JStr key), (''command_fingerprint'', JStr (resolve_command_fingerprint k selected))]"

section \<open>Decoders\<close>

definition key_value :: "json_object \<Rightarrow> string result" where
  "key_value payload = text_value (jget payload ''idempotency_key'')"

definition fingerprint_value :: "json_object \<Rightarrow> string result" where
  "fingerprint_value payload =
     res_bind (text_value (jget payload ''command_fingerprint'')) (\<lambda>v.
       if \<not> is_sha256 v then Inl ValueError else Inr v)"

definition kind_field :: "json \<Rightarrow> statement_kind result" where
  "kind_field v = res_bind (text_value v) kind_of"

text \<open>A calendar date in canonical ISO 8601 form.\<close>

definition iso_date :: "json \<Rightarrow> date result" where
  "iso_date v =
     res_bind (text_value v) (\<lambda>s.
     res_bind (date_fromisoformat s) (\<lambda>d. if isoformat_date d \<noteq> s then Inl ValueError else Inr d))"

text \<open>A JSON value where the code casts it to \<^verbatim>\<open>str | int\<close>: any other one is refused by the
  constructor of the statement with a \<^verbatim>\<open>TypeError\<close>.\<close>

definition scalar_value :: "json \<Rightarrow> statement_value result" where
  "scalar_value v = (case v of JStr s \<Rightarrow> Inr (V_text s) | JInt i \<Rightarrow> Inr (V_int i) | _ \<Rightarrow> Inl TypeError)"

definition decode_statement :: "json_object \<Rightarrow> study_statement result" where
  "decode_statement payload =
     res_bind (kind_field (jget payload ''kind'')) (\<lambda>k.
       if k = DEADLINE
       then res_bind (iso_date (jget payload ''value'')) (\<lambda>d. mk_statement k (V_date d))
       else res_bind (scalar_value (jget payload ''value'')) (\<lambda>v. mk_statement k v))"

definition study_envelope :: "domain_event \<Rightarrow> string \<Rightarrow> string list \<Rightarrow> string \<Rightarrow> json_object result" where
  "study_envelope e ty ks command =
     (if ev_type e \<noteq> ty \<or> ev_version e \<noteq> 1 then Inl ValueError
      else if \<not> has_keys (ev_payload e) ks then Inl ValueError
      else
        (case ev_session e of
           None \<Rightarrow> Inl ValueError
         | Some sess \<Rightarrow>
             if ev_seq e < 2 then Inl ValueError
             else
               res_bind (text_value (jget (ev_payload e) ''session_id'')) (\<lambda>s.
                 if s \<noteq> sess then Inl ValueError
                 else if \<not> trusted_kind (act_kind (ev_actor e)) then Inl ValueError
                 else
                   res_bind (key_value (ev_payload e)) (\<lambda>key.
                     if ev_id e \<noteq> study_context_event_id_for (ev_course e) sess key command then Inl ValueError
                     else Inr (ev_payload e)))))"

definition session_text :: "domain_event \<Rightarrow> string" where
  "session_text e = (case ev_session e of None \<Rightarrow> ''None'' | Some s \<Rightarrow> s)"

definition decode_statement_recorded :: "domain_event \<Rightarrow> statement_recorded result" where
  "decode_statement_recorded e =
     res_bind (study_envelope e statement_recorded_type recorded_keys ''record'') (\<lambda>payload.
     res_bind (decode_statement payload) (\<lambda>st.
     res_bind (text_value (jget payload ''origin_interaction_id'')) (\<lambda>origin.
     res_bind (key_value payload) (\<lambda>key.
       let command_id = study_context_event_id_for (ev_course e) (session_text e) key ''record'' in
       if ev_id e \<noteq> command_id then Inl ValueError
       else
         res_bind (text_value (jget payload ''statement_id'')) (\<lambda>sid.
           if sid \<noteq> statement_id_for command_id then Inl ValueError
           else
             res_bind (fingerprint_value payload) (\<lambda>fp.
               if fp \<noteq> record_command_fingerprint st origin then Inl ValueError
               else Inr \<lparr>sr_id = sid, sr_origin = origin, sr_statement = st, sr_key = key, sr_fingerprint = fp\<rparr>))))))"

definition decode_statement_retracted :: "domain_event \<Rightarrow> statement_retracted result" where
  "decode_statement_retracted e =
     res_bind (study_envelope e statement_retracted_type retracted_keys ''retract'') (\<lambda>payload.
     res_bind (text_value (jget payload ''statement_id'')) (\<lambda>sid.
     res_bind (fingerprint_value payload) (\<lambda>fp.
       if fp \<noteq> retract_command_fingerprint sid then Inl ValueError
       else res_bind (key_value payload) (\<lambda>key. Inr \<lparr>rt_id = sid, rt_key = key, rt_fingerprint = fp\<rparr>))))"

definition decode_conflict_resolved :: "domain_event \<Rightarrow> conflict_resolved result" where
  "decode_conflict_resolved e =
     res_bind (study_envelope e conflict_resolved_type resolved_keys ''resolve'') (\<lambda>payload.
     res_bind (kind_field (jget payload ''kind'')) (\<lambda>k.
       if \<not> is_scalar k then Inl ValueError
       else
         res_bind (text_value (jget payload ''selected_statement_id'')) (\<lambda>selected.
         res_bind (text_array (jget payload ''superseded_statement_ids'')) (\<lambda>superseded.
           if superseded = [] \<or> selected \<in> set superseded \<or> \<not> distinct superseded then Inl ValueError
           else if sort superseded \<noteq> superseded then Inl ValueError
           else
             res_bind (fingerprint_value payload) (\<lambda>fp.
               if fp \<noteq> resolve_command_fingerprint k selected then Inl ValueError
               else res_bind (key_value payload) (\<lambda>key.
                 Inr \<lparr>cr_kind = k, cr_selected = selected, cr_superseded = superseded, cr_key = key,
                   cr_fingerprint = fp\<rparr>))))))"

section \<open>The projected state\<close>

text \<open>The value of a projected statement; every failure is reported as corruption.\<close>

definition projected_value :: "statement_kind \<Rightarrow> json \<Rightarrow> statement_value result" where
  "projected_value k raw =
     map_error (\<lambda>_. ValueError)
       (res_bind (if k = DEADLINE then res_bind (iso_date raw) (\<lambda>d. Inr (V_date d)) else scalar_value raw)
         (\<lambda>v. res_bind (mk_statement k v) (\<lambda>st. Inr (in_value st))))"

definition status_field :: "json \<Rightarrow> statement_status result" where
  "status_field v = res_bind (text_value v) status_of"

definition timestamp_field :: "json \<Rightarrow> datetime result" where
  "timestamp_field v = res_bind (text_value v) fromisoformat"

definition statement_keys :: "string list" where
  "statement_keys = [''statement_id'', ''course_id'', ''session_id'', ''origin_interaction_id'', ''kind'',
     ''value'', ''status'', ''recorded_at'']"

definition valid_statement :: "string \<Rightarrow> string \<times> json \<Rightarrow> bool" where
  "valid_statement c kv =
     (case snd kv of
        JObj raw \<Rightarrow>
          has_keys raw statement_keys \<and> jget raw ''statement_id'' = JStr (fst kv) \<and>
          jget raw ''course_id'' = JStr c \<and> is_ok (text_value (jget raw ''session_id'')) \<and>
          is_ok (text_value (jget raw ''origin_interaction_id'')) \<and>
          is_ok (res_bind (kind_field (jget raw ''kind'')) (\<lambda>k. projected_value k (jget raw ''value''))) \<and>
          is_ok (status_field (jget raw ''status'')) \<and> is_ok (timestamp_field (jget raw ''recorded_at''))
      | _ \<Rightarrow> False)"

definition resolution_keys :: "string list" where
  "resolution_keys = [''event_id'', ''kind'', ''selected_statement_id'', ''superseded_statement_ids'', ''resolved_at'']"

definition valid_resolution :: "json \<Rightarrow> bool" where
  "valid_resolution v =
     (case v of
        JObj raw \<Rightarrow>
          has_keys raw resolution_keys \<and> is_ok (text_value (jget raw ''event_id'')) \<and>
          (case kind_field (jget raw ''kind'') of Inl _ \<Rightarrow> False | Inr k \<Rightarrow> is_scalar k) \<and>
          (case text_value (jget raw ''selected_statement_id'') of
             Inl _ \<Rightarrow> False
           | Inr selected \<Rightarrow>
               (case text_array (jget raw ''superseded_statement_ids'') of
                  Inl _ \<Rightarrow> False
                | Inr losers \<Rightarrow>
                    losers \<noteq> [] \<and> selected \<notin> set losers \<and> sort losers = losers \<and> distinct losers)) \<and>
          is_ok (timestamp_field (jget raw ''resolved_at''))
      | _ \<Rightarrow> False)"

definition valid_command :: "string \<times> json \<Rightarrow> bool" where
  "valid_command kv =
     (fst kv \<noteq> [] \<and>
      (case snd kv of
         JObj raw \<Rightarrow>
           has_keys raw [''command_fingerprint'', ''statement_id''] \<and> is_ok (text_value (jget raw ''statement_id'')) \<and>
           (case jget raw ''command_fingerprint'' of JStr fp \<Rightarrow> is_sha256 fp | _ \<Rightarrow> False)
       | _ \<Rightarrow> False))"

record study_parts =
  sp_statements :: json_object
  sp_resolutions :: "json list"
  sp_commands :: json_object

definition collections :: "json_object \<Rightarrow> study_parts result" where
  "collections raw =
     (case (get_default raw ''statements'' (JObj []), get_default raw ''resolutions'' (JArr []),
            get_default raw ''commands'' (JObj [])) of
        (JObj sts, JArr rss, JObj cmds) \<Rightarrow>
          Inr \<lparr>sp_statements = sts, sp_resolutions = rss, sp_commands = cmds\<rparr>
      | _ \<Rightarrow> Inl ValueError)"

definition study_parts_of :: "json_object \<Rightarrow> domain_event \<Rightarrow> study_parts result" where
  "study_parts_of state e =
     (case get_default state ''study_context'' (JObj []) of
        JObj raw \<Rightarrow>
          if raw \<noteq> [] \<and> \<not> has_keys raw [''statements'', ''resolutions'', ''commands''] then Inl ValueError
          else
            res_bind (collections raw) (\<lambda>parts.
            res_bind (require (list_all (valid_statement (ev_course e)) (sp_statements parts))) (\<lambda>_.
            res_bind (require (list_all valid_resolution (sp_resolutions parts))) (\<lambda>_.
            res_bind (require (list_all valid_command (sp_commands parts))) (\<lambda>_. Inr parts))))
      | _ \<Rightarrow> Inl ValueError)"

definition replace_parts :: "json_object \<Rightarrow> study_parts \<Rightarrow> json_object" where
  "replace_parts state parts = AList.update ''study_context''
     (JObj [(''statements'', JObj (sp_statements parts)), (''resolutions'', JArr (sp_resolutions parts)),
            (''commands'', JObj (sp_commands parts))]) state"

definition require_session :: "json_object \<Rightarrow> domain_event \<Rightarrow> string result" where
  "require_session state e =
     (case jget state ''sessions'' of
        JObj sessions \<Rightarrow>
          (case jget sessions (session_text e) of
             JObj session \<Rightarrow>
               if jget session ''session_id'' = JStr (session_text e) \<and> jget session ''course_id'' = JStr (ev_course e)
               then Inr (session_text e) else Inl ValueError
           | _ \<Rightarrow> Inl ValueError)
      | _ \<Rightarrow> Inl ValueError)"

definition require_human_origin :: "json_object \<Rightarrow> string \<Rightarrow> statement_recorded \<Rightarrow> unit result" where
  "require_human_origin state sess p =
     (case jget state ''session_interactions'' of
        JObj interactions \<Rightarrow>
          (case jget interactions (sr_origin p) of
             JObj origin \<Rightarrow>
               require (jget origin ''session_id'' = JStr sess \<and> jget origin ''kind'' = JStr ''human'')
           | _ \<Rightarrow> Inl ValueError)
      | _ \<Rightarrow> Inl ValueError)"

definition value_key :: "json \<Rightarrow> (string \<times> string) result" where
  "value_key v =
     (case v of JStr s \<Rightarrow> Inr (''str'', s) | JInt i \<Rightarrow> Inr (''int'', show_int i) | _ \<Rightarrow> Inl ValueError)"

definition command_entry :: "string \<Rightarrow> string \<Rightarrow> json" where
  "command_entry fp sid = JObj [(''command_fingerprint'', JStr fp), (''statement_id'', JStr sid)]"

section \<open>Reducers\<close>

definition statement_entry :: "domain_event \<Rightarrow> statement_recorded \<Rightarrow> json" where
  "statement_entry e p = JObj [
     (''statement_id'', JStr (sr_id p)), (''course_id'', JStr (ev_course e)), (''session_id'', JStr (session_text e)),
     (''origin_interaction_id'', JStr (sr_origin p)), (''kind'', JStr (kind_value (in_kind (sr_statement p)))),
     (''value'', statement_value_manifest (sr_statement p)), (''status'', JStr (status_value ACTIVE)),
     (''recorded_at'', JStr (isoformat False (ev_at e)))]"

definition record_parts :: "domain_event \<Rightarrow> statement_recorded \<Rightarrow> study_parts \<Rightarrow> study_parts result" where
  "record_parts e p parts =
     (if ev_id e \<in> set (keys_of (sp_commands parts)) \<or> sr_id p \<in> set (keys_of (sp_statements parts))
      then Inl ValueError
      else Inr \<lparr>
        sp_statements = AList.update (sr_id p) (statement_entry e p) (sp_statements parts),
        sp_resolutions = sp_resolutions parts,
        sp_commands = AList.update (ev_id e) (command_entry (sr_fingerprint p) (sr_id p)) (sp_commands parts)\<rparr>)"

definition reduce_statement_recorded :: "json_object \<Rightarrow> domain_event \<Rightarrow> statement_recorded \<Rightarrow> json_object result" where
  "reduce_statement_recorded state e p =
     (if ''course'' \<notin> set (keys_of state) then Inl ValueError
      else
        res_bind (require_session state e) (\<lambda>sess.
        res_bind (require_human_origin state sess p) (\<lambda>_.
        res_bind (study_parts_of state e) (\<lambda>parts.
        res_bind (record_parts e p parts) (\<lambda>new. Inr (replace_parts state new))))))"

definition retract_parts :: "domain_event \<Rightarrow> statement_retracted \<Rightarrow> study_parts \<Rightarrow> study_parts result" where
  "retract_parts e p parts =
     (if ev_id e \<in> set (keys_of (sp_commands parts)) then Inl ValueError
      else
        (case jget (sp_statements parts) (rt_id p) of
           JObj raw \<Rightarrow>
             if jget raw ''status'' \<noteq> JStr (status_value ACTIVE) then Inl ValueError
             else Inr \<lparr>
               sp_statements = AList.update (rt_id p)
                 (JObj (AList.update ''status'' (JStr (status_value RETRACTED)) raw)) (sp_statements parts),
               sp_resolutions = sp_resolutions parts,
               sp_commands = AList.update (ev_id e) (command_entry (rt_fingerprint p) (rt_id p)) (sp_commands parts)\<rparr>
         | _ \<Rightarrow> Inl ValueError))"

definition reduce_statement_retracted :: "json_object \<Rightarrow> domain_event \<Rightarrow> statement_retracted \<Rightarrow> json_object result" where
  "reduce_statement_retracted state e p =
     res_bind (require_session state e) (\<lambda>_.
     res_bind (study_parts_of state e) (\<lambda>parts.
     res_bind (retract_parts e p parts) (\<lambda>new. Inr (replace_parts state new))))"

text \<open>The active statements of a kind, the losers of a resolution and their new entries.\<close>

fun active_entries :: "statement_kind \<Rightarrow> json_object \<Rightarrow> (string \<times> json_object) list" where
  "active_entries k [] = []"
| "active_entries k ((sid, v) # rest) =
     (case v of
        JObj raw \<Rightarrow>
          if jget raw ''kind'' = JStr (kind_value k) \<and> jget raw ''status'' = JStr (status_value ACTIVE)
          then (sid, raw) # active_entries k rest else active_entries k rest
      | _ \<Rightarrow> active_entries k rest)"

definition value_keys :: "(string \<times> json_object) list \<Rightarrow> (string \<times> string \<times> string) list result" where
  "value_keys active =
     map_res (\<lambda>(sid, raw). res_bind (value_key (jget raw ''value'')) (\<lambda>vk. Inr (sid, vk))) active"

definition supersede :: "(string \<times> json_object) list \<Rightarrow> string list \<Rightarrow> json_object \<Rightarrow> json_object" where
  "supersede active losers sts = fold (\<lambda>sid acc.
     (case map_of active sid of
        None \<Rightarrow> acc
      | Some raw \<Rightarrow> AList.update sid (JObj (AList.update ''status'' (JStr (status_value SUPERSEDED)) raw)) acc))
     losers sts"

definition resolution_entry :: "domain_event \<Rightarrow> conflict_resolved \<Rightarrow> json" where
  "resolution_entry e p = JObj [
     (''event_id'', JStr (ev_id e)), (''kind'', JStr (kind_value (cr_kind p))),
     (''selected_statement_id'', JStr (cr_selected p)), (''superseded_statement_ids'', text_items (cr_superseded p)),
     (''resolved_at'', JStr (isoformat False (ev_at e)))]"

definition resolve_parts :: "domain_event \<Rightarrow> conflict_resolved \<Rightarrow> study_parts \<Rightarrow> study_parts result" where
  "resolve_parts e p parts =
     (if ev_id e \<in> set (keys_of (sp_commands parts)) then Inl ValueError
      else
        (case jget (sp_statements parts) (cr_selected p) of
           JObj sel \<Rightarrow>
             if jget sel ''status'' \<noteq> JStr (status_value ACTIVE) \<or> jget sel ''kind'' \<noteq> JStr (kind_value (cr_kind p))
             then Inl ValueError
             else
               let active = active_entries (cr_kind p) (sp_statements parts) in
               res_bind (value_keys active) (\<lambda>vks.
               if card (set (map snd vks)) < 2 then Inl ValueError
               else
                 res_bind (value_key (jget sel ''value'')) (\<lambda>selected_value.
                 let losers = sort (map fst (filter (\<lambda>sv. snd sv \<noteq> selected_value) vks)) in
                 if cr_superseded p \<noteq> losers then Inl ValueError
                 else Inr \<lparr>
                   sp_statements = supersede active losers (sp_statements parts),
                   sp_resolutions = sp_resolutions parts @ [resolution_entry e p],
                   sp_commands = AList.update (ev_id e) (command_entry (cr_fingerprint p) (cr_selected p))
                     (sp_commands parts)\<rparr>))
         | _ \<Rightarrow> Inl ValueError))"

definition reduce_conflict_resolved :: "json_object \<Rightarrow> domain_event \<Rightarrow> conflict_resolved \<Rightarrow> json_object result" where
  "reduce_conflict_resolved state e p =
     res_bind (require_session state e) (\<lambda>_.
     res_bind (study_parts_of state e) (\<lambda>parts.
     res_bind (resolve_parts e p parts) (\<lambda>new. Inr (replace_parts state new))))"

section \<open>Registration\<close>

datatype study_payload =
    Recorded statement_recorded
  | Retracted statement_retracted
  | Resolved conflict_resolved

fun recorded_of :: "study_payload \<Rightarrow> statement_recorded option" where
  "recorded_of (Recorded p) = Some p" | "recorded_of _ = None"

fun retracted_of :: "study_payload \<Rightarrow> statement_retracted option" where
  "retracted_of (Retracted p) = Some p" | "retracted_of _ = None"

fun resolved_of :: "study_payload \<Rightarrow> conflict_resolved option" where
  "resolved_of (Resolved p) = Some p" | "resolved_of _ = None"

definition register_study_context_events ::
  "(study_payload \<Rightarrow> 'p) \<Rightarrow> ('p \<Rightarrow> study_payload option) \<Rightarrow> 'p registry \<Rightarrow> 'p registry result" where
  "register_study_context_events wrap unwrap reg =
     res_bind (register_event statement_recorded_type 1 (erase_decoder (wrap \<circ> Recorded) decode_statement_recorded)
       (erase_reducer (\<lambda>p. Option.bind (unwrap p) recorded_of) reduce_statement_recorded) reg) (\<lambda>reg1.
     res_bind (register_event statement_retracted_type 1 (erase_decoder (wrap \<circ> Retracted) decode_statement_retracted)
       (erase_reducer (\<lambda>p. Option.bind (unwrap p) retracted_of) reduce_statement_retracted) reg1) (\<lambda>reg2.
     register_event conflict_resolved_type 1 (erase_decoder (wrap \<circ> Resolved) decode_conflict_resolved)
       (erase_reducer (\<lambda>p. Option.bind (unwrap p) resolved_of) reduce_conflict_resolved) reg2))"

section \<open>The view\<close>

record context_statement =
  st_id :: string
  st_course :: string
  st_session :: string
  st_origin :: string
  st_kind :: statement_kind
  st_value :: statement_value
  st_status :: statement_status
  st_recorded :: datetime

record context_resolution =
  rs_event :: string
  rs_kind :: statement_kind
  rs_selected :: string
  rs_superseded :: "string list"
  rs_at :: datetime

record context_conflict =
  cf_kind :: statement_kind
  cf_statements :: "string list"

record context_snapshot =
  sn_course :: string
  sn_sequence :: int
  sn_statements :: "context_statement list"
  sn_resolutions :: "context_resolution list"
  sn_conflicts :: "context_conflict list"

definition mk_context_statement :: "context_statement \<Rightarrow> context_statement result" where
  "mk_context_statement st =
     res_bind (canonical_statement_value (st_kind st) (st_value st)) (\<lambda>v. Inr (st\<lparr>st_value := v\<rparr>))"

definition mk_resolution :: "context_resolution \<Rightarrow> context_resolution result" where
  "mk_resolution r =
     (if \<not> is_scalar (rs_kind r) then Inl ValueError
      else if rs_selected r \<in> set (rs_superseded r) then Inl ValueError
      else if \<not> distinct (rs_superseded r) then Inl ValueError
      else Inr r)"

definition mk_conflict :: "statement_kind \<Rightarrow> string list \<Rightarrow> context_conflict result" where
  "mk_conflict k ids =
     (if \<not> is_scalar k then Inl ValueError
      else if length ids < 2 \<or> \<not> distinct ids then Inl ValueError
      else Inr \<lparr>cf_kind = k, cf_statements = ids\<rparr>)"

definition mk_snapshot :: "context_snapshot \<Rightarrow> context_snapshot result" where
  "mk_snapshot sn = (if sn_sequence sn < 1 then Inl ValueError else Inr sn)"

definition snapshot_statement :: "context_snapshot \<Rightarrow> string \<Rightarrow> context_statement result" where
  "snapshot_statement sn sid =
     (case find (\<lambda>st. st_id st = sid) (sn_statements sn) of None \<Rightarrow> Inl LookupError | Some st \<Rightarrow> Inr st)"

definition snapshot_active :: "context_snapshot \<Rightarrow> statement_kind \<Rightarrow> context_statement list" where
  "snapshot_active sn k = filter (\<lambda>st. st_kind st = k \<and> st_status st = ACTIVE) (sn_statements sn)"

definition view_text :: "json \<Rightarrow> string result" where
  "view_text v = (case v of JStr s \<Rightarrow> if s = [] then Inl ValueError else Inr s | _ \<Rightarrow> Inl ValueError)"

definition view_timestamp :: "json \<Rightarrow> datetime result" where
  "view_timestamp v = res_bind (view_text v) fromisoformat"

definition view_value :: "statement_kind \<Rightarrow> json \<Rightarrow> statement_value result" where
  "view_value k v =
     (if k = DEADLINE then res_bind (view_text v) (\<lambda>s. res_bind (date_fromisoformat s) (\<lambda>d. Inr (V_date d)))
      else (case v of JStr s \<Rightarrow> Inr (V_text s) | JInt i \<Rightarrow> Inr (V_int i) | _ \<Rightarrow> Inl ValueError))"

definition view_statement :: "string \<Rightarrow> string \<times> json \<Rightarrow> context_statement result" where
  "view_statement c kv =
     (case snd kv of
        JObj raw \<Rightarrow>
          if \<not> has_keys raw statement_keys \<or> jget raw ''statement_id'' \<noteq> JStr (fst kv) then Inl ValueError
          else if jget raw ''course_id'' \<noteq> JStr c then Inl ValueError
          else
            res_bind (view_text (jget raw ''kind'')) (\<lambda>kt.
            res_bind (kind_of kt) (\<lambda>k.
            res_bind (view_value k (jget raw ''value'')) (\<lambda>v.
            res_bind (mk_statement k v) (\<lambda>st.
            res_bind (mk_identifier (fst kv)) (\<lambda>sid.
            res_bind (res_bind (view_text (jget raw ''session_id'')) mk_identifier) (\<lambda>sess.
            res_bind (res_bind (view_text (jget raw ''origin_interaction_id'')) mk_identifier) (\<lambda>origin.
            res_bind (res_bind (view_text (jget raw ''status'')) status_of) (\<lambda>status.
            res_bind (view_timestamp (jget raw ''recorded_at'')) (\<lambda>at.
              mk_context_statement \<lparr>st_id = sid, st_course = c, st_session = sess, st_origin = origin,
                st_kind = k, st_value = in_value st, st_status = status, st_recorded = at\<rparr>)))))))))
      | _ \<Rightarrow> Inl ValueError)"

definition view_resolution :: "json \<Rightarrow> context_resolution result" where
  "view_resolution v =
     (case v of
        JObj raw \<Rightarrow>
          (case jget raw ''superseded_statement_ids'' of
             JArr items \<Rightarrow>
               if \<not> has_keys raw resolution_keys then Inl ValueError
               else
                 res_bind (res_bind (view_text (jget raw ''event_id'')) mk_identifier) (\<lambda>eid.
                 res_bind (res_bind (view_text (jget raw ''kind'')) kind_of) (\<lambda>k.
                 res_bind (res_bind (view_text (jget raw ''selected_statement_id'')) mk_identifier) (\<lambda>selected.
                 res_bind (map_res (\<lambda>i. res_bind (view_text i) mk_identifier) items) (\<lambda>superseded.
                 res_bind (view_timestamp (jget raw ''resolved_at'')) (\<lambda>at.
                   mk_resolution \<lparr>rs_event = eid, rs_kind = k, rs_selected = selected,
                     rs_superseded = superseded, rs_at = at\<rparr>)))))
           | _ \<Rightarrow> Inl ValueError)
      | _ \<Rightarrow> Inl ValueError)"

text \<open>\<^verbatim>\<open>statements_by_id\<close> maps the id of every statement to the last one that has it; the ids are distinct.\<close>

definition by_id :: "context_statement list \<Rightarrow> string \<Rightarrow> context_statement option" where
  "by_id sts sid = map_of (rev (map (\<lambda>st. (st_id st, st)) sts)) sid"

definition linked :: "context_statement list \<Rightarrow> context_resolution \<Rightarrow> bool" where
  "linked sts r =
     ((case by_id sts (rs_selected r) of None \<Rightarrow> False | Some st \<Rightarrow> st_kind st = rs_kind r) \<and>
      list_all (\<lambda>sid. case by_id sts sid of None \<Rightarrow> False
         | Some st \<Rightarrow> st_kind st = rs_kind r \<and> st_status st = SUPERSEDED) (rs_superseded r))"

fun view_value_key :: "statement_value \<Rightarrow> string \<times> string" where
  "view_value_key (V_date d) = (''date'', isoformat_date d)"
| "view_value_key (V_text s) = (''str'', s)"
| "view_value_key (V_int i) = (''int'', show_int i)"

fun view_conflicts :: "context_statement list \<Rightarrow> statement_kind list \<Rightarrow> context_conflict list result" where
  "view_conflicts sts [] = Inr []"
| "view_conflicts sts (k # ks) =
     (let active = filter (\<lambda>st. st_kind st = k \<and> st_status st = ACTIVE) sts in
      if card (set (map (view_value_key \<circ> st_value) active)) > 1
      then res_bind (mk_conflict k (map st_id active)) (\<lambda>cf.
        res_bind (view_conflicts sts ks) (\<lambda>cfs. Inr (cf # cfs)))
      else view_conflicts sts ks)"

definition study_projection :: "string \<Rightarrow> projection \<Rightarrow> json_object result" where
  "study_projection c p =
     (if proj_course p \<noteq> c then Inl ValueError
      else if ''course'' \<notin> set (keys_of (proj_state p)) then Inl (CourseNotFoundError c)
      else
        (case get_default (proj_state p) ''study_context'' (JObj []) of JObj raw \<Rightarrow> Inr raw | _ \<Rightarrow> Inl ValueError))"

definition study_view_get :: "string \<Rightarrow> projection \<Rightarrow> context_snapshot result" where
  "study_view_get c p =
     res_bind (study_projection c p) (\<lambda>raw.
       if raw \<noteq> [] \<and> \<not> has_keys raw [''statements'', ''resolutions'', ''commands''] then Inl ValueError
       else
         (case (get_default raw ''statements'' (JObj []), get_default raw ''resolutions'' (JArr [])) of
            (JObj raw_statements, JArr raw_resolutions) \<Rightarrow>
              res_bind (map_res (view_statement c) raw_statements) (\<lambda>unsorted.
              let sts = sort_key (\<lambda>st. (instant (st_recorded st), st_id st)) unsorted in
              res_bind (map_res view_resolution raw_resolutions) (\<lambda>rss.
              if \<not> list_all (linked sts) rss then Inl ValueError
              else
                res_bind (view_conflicts sts [DEADLINE, WEEKLY_TIME_BUDGET]) (\<lambda>cfs.
                  mk_snapshot \<lparr>sn_course = c, sn_sequence = proj_seq p, sn_statements = sts,
                    sn_resolutions = rss, sn_conflicts = cfs\<rparr>)))
          | _ \<Rightarrow> Inl ValueError))"

definition command_fingerprint :: "string \<Rightarrow> string \<Rightarrow> projection \<Rightarrow> string option result" where
  "command_fingerprint c event_id p =
     res_bind (study_projection c p) (\<lambda>raw.
       (case get_default raw ''commands'' (JObj []) of
          JObj commands \<Rightarrow>
            (case jget commands event_id of
               JNull \<Rightarrow> Inr None
             | JObj entry \<Rightarrow>
                 if \<not> has_keys entry [''command_fingerprint'', ''statement_id''] then Inl ValueError
                 else
                   (case (jget entry ''command_fingerprint'', jget entry ''statement_id'') of
                      (JStr fp, JStr sid) \<Rightarrow>
                        if \<not> is_sha256 fp \<or> sid = [] then Inl ValueError else Inr (Some fp)
                    | _ \<Rightarrow> Inl ValueError)
             | _ \<Rightarrow> Inl ValueError)
        | _ \<Rightarrow> Inl ValueError))"

section \<open>Reading does not see the order of keys\<close>

lemma kind_field_canon [simp]: "kind_field (canon v) = kind_field v"
  and iso_date_canon [simp]: "iso_date (canon v) = iso_date v"
  and status_field_canon [simp]: "status_field (canon v) = status_field v"
  and timestamp_field_canon [simp]: "timestamp_field (canon v) = timestamp_field v"
  by (simp_all add: kind_field_def iso_date_def status_field_def timestamp_field_def)

lemma scalar_value_canon [simp]: "scalar_value (canon v) = scalar_value v"
  by (cases v) (simp_all add: scalar_value_def)

lemma value_key_canon [simp]: "value_key (canon v) = value_key v"
  by (cases v) (simp_all add: value_key_def)

lemma projected_value_canon [simp]: "projected_value k (canon v) = projected_value k v"
  by (simp add: projected_value_def)

lemma decode_payload_canon:
  assumes "wf_json (JObj payload)"
  shows "key_value (canon_obj payload) = key_value payload"
    and "fingerprint_value (canon_obj payload) = fingerprint_value payload"
    and "decode_statement (canon_obj payload) = decode_statement payload"
  using assms jget_canon [of payload]
  by (simp_all add: key_value_def fingerprint_value_def decode_statement_def cong: if_cong)

lemma study_envelope_stored:
  assumes "wf_event e"
  shows "study_envelope (stored e) ty ks command = map_sum id canon_obj (study_envelope e ty ks command)"
proof -
  have wf: "wf_json (JObj (ev_payload e))" using assms by (simp add: wf_event_def)
  have get: "jget (canon_obj (ev_payload e)) k = canon (jget (ev_payload e) k)" for k
    using wf by (intro jget_canon) simp
  show ?thesis
    by (cases "text_value (jget (ev_payload e) ''session_id'')"; cases "key_value (ev_payload e)")
      (simp_all add: study_envelope_def get decode_payload_canon [OF wf] split: option.split)
qed

lemma study_envelope_Inr:
  "study_envelope e ty ks command = Inr pl \<Longrightarrow> pl = ev_payload e \<and> has_keys pl ks \<and> ev_type e = ty \<and>
    ev_version e = 1 \<and> 2 \<le> ev_seq e \<and> trusted_kind (act_kind (ev_actor e)) \<and> (\<exists>s. ev_session e = Some s)"
  by (auto simp: study_envelope_def res_bind_eq_Inr split: if_splits option.splits)

lemma decode_stored:
  assumes "wf_event e"
  shows "decode_statement_recorded (stored e) = decode_statement_recorded e"
    and "decode_statement_retracted (stored e) = decode_statement_retracted e"
    and "decode_conflict_resolved (stored e) = decode_conflict_resolved e"
proof -
  have wf: "wf_json (JObj (ev_payload e))" using assms by (simp add: wf_event_def)
  have get: "jget (canon_obj (ev_payload e)) k = canon (jget (ev_payload e) k)" for k
    using wf by (intro jget_canon) simp
  note facts = study_envelope_stored [OF assms] res_bind_map_sum decode_payload_canon [OF wf] get
  show "decode_statement_recorded (stored e) = decode_statement_recorded e"
    unfolding decode_statement_recorded_def facts(1,2)
    by (intro res_bind_cong refl) (auto simp: facts session_text_def dest!: study_envelope_Inr cong: if_cong)
  show "decode_statement_retracted (stored e) = decode_statement_retracted e"
    unfolding decode_statement_retracted_def facts(1,2)
    by (intro res_bind_cong refl) (auto simp: facts dest!: study_envelope_Inr cong: if_cong)
  show "decode_conflict_resolved (stored e) = decode_conflict_resolved e"
    unfolding decode_conflict_resolved_def facts(1,2)
    by (intro res_bind_cong refl) (auto simp: facts dest!: study_envelope_Inr cong: if_cong)
qed

section \<open>The parts of the projection\<close>

definition canon_parts :: "study_parts \<Rightarrow> study_parts" where
  "canon_parts p = \<lparr>sp_statements = canon_obj (sp_statements p), sp_resolutions = map canon (sp_resolutions p),
     sp_commands = canon_obj (sp_commands p)\<rparr>"

definition wf_parts :: "study_parts \<Rightarrow> bool" where
  "wf_parts p = (wf_json (JObj (sp_statements p)) \<and> wf_json (JArr (sp_resolutions p)) \<and> wf_json (JObj (sp_commands p)))"

lemma valid_statement_canon:
  assumes "wf_json v"
  shows "valid_statement c (k, canon v) = valid_statement c (k, v)"
proof (cases v)
  case (JObj raw)
  then have get: "jget (canon_obj raw) x = canon (jget raw x)" for x
    using assms by (intro jget_canon) simp
  have "(\<lambda>k. projected_value k (canon w)) = (\<lambda>k. projected_value k w)" for w by simp
  with JObj show ?thesis by (simp add: valid_statement_def canon_JObj get del: canon.simps(6))
qed (simp_all add: valid_statement_def)

lemma valid_resolution_canon:
  assumes "wf_json v"
  shows "valid_resolution (canon v) = valid_resolution v"
proof (cases v)
  case (JObj raw)
  then have get: "jget (canon_obj raw) x = canon (jget raw x)" for x
    using assms by (intro jget_canon) simp
  with JObj show ?thesis by (simp add: valid_resolution_def canon_JObj del: canon.simps(6) cong: sum.case_cong)
qed (simp_all add: valid_resolution_def)

lemma valid_command_canon:
  assumes "wf_json v"
  shows "valid_command (k, canon v) = valid_command (k, v)"
proof (cases v)
  case (JObj raw)
  then have get: "jget (canon_obj raw) x = canon (jget raw x)" for x
    using assms by (intro jget_canon) simp
  have "(case canon w of JStr fp \<Rightarrow> is_sha256 fp | _ \<Rightarrow> False) = (case w of JStr fp \<Rightarrow> is_sha256 fp | _ \<Rightarrow> False)" for w
    by (cases w) simp_all
  with JObj show ?thesis by (simp add: valid_command_def canon_JObj get del: canon.simps(6))
qed (simp_all add: valid_command_def)

lemma collections_canon:
  assumes "wf_json (JObj raw)"
  shows "collections (canon_obj raw) = map_sum id canon_parts (collections raw)"
proof -
  have get: "get_default (canon_obj raw) k d = canon (get_default raw k d)" if "canon d = d" for k d
    using get_default_canon [of raw k d] assms that by simp
  show ?thesis
    by (cases "get_default raw ''statements'' (JObj [])"; cases "get_default raw ''resolutions'' (JArr [])";
        cases "get_default raw ''commands'' (JObj [])")
      (simp_all add: collections_def get canon_JObj canon_parts_def del: canon.simps(6) add: canon.simps(6) [of "[]"])
qed

lemma collections_wf:
  assumes "wf_json (JObj raw)" and "collections raw = Inr parts"
  shows "wf_parts parts"
  using assms(2) wf_get_default [OF assms(1) wf_empty(1), of "''statements''"]
    wf_get_default [OF assms(1) wf_empty(2), of "''resolutions''"] wf_get_default [OF assms(1) wf_empty(1), of "''commands''"]
  by (auto simp: collections_def wf_parts_def simp del: wf_json_JObj wf_json_JArr split: json.splits)

lemma study_parts_wf:
  assumes "wf_json (JObj s)" and "study_parts_of s e = Inr parts"
  shows "wf_parts parts"
proof -
  obtain raw where raw: "get_default s ''study_context'' (JObj []) = JObj raw" "collections raw = Inr parts"
    using assms(2) by (auto simp: study_parts_of_def res_bind_eq_Inr split: json.splits if_splits)
  have "wf_json (JObj raw)"
    using raw(1) wf_get_default [OF assms(1) wf_empty(1), of "''study_context''"] by (simp del: wf_json_JObj)
  then show ?thesis using collections_wf raw(2) by blast
qed

lemma study_parts_canon:
  assumes wf: "wf_json (JObj s)"
  shows "study_parts_of (canon_obj s) (stored e) = map_sum id canon_parts (study_parts_of s e)"
proof -
  have get: "get_default (canon_obj s) ''study_context'' (JObj []) = canon (get_default s ''study_context'' (JObj []))"
    using get_default_canon [of s "''study_context''" "JObj []"] wf by simp
  show ?thesis
  proof (cases "get_default s ''study_context'' (JObj [])")
    case (JObj raw)
    then have wfr: "wf_json (JObj raw)"
      using wf_get_default [OF wf wf_empty(1), of "''study_context''"] by (simp del: wf_json_JObj)
    show ?thesis
    proof (cases "collections raw")
      case (Inl x)
      then show ?thesis using JObj get collections_canon [OF wfr]
        by (auto simp: study_parts_of_def canon_JObj simp del: canon.simps(6))
    next
      case (Inr parts)
      have wfp: "wf_parts parts" by (rule collections_wf [OF wfr Inr])
      have "list_all (valid_statement c) (canon_obj (sp_statements parts)) = list_all (valid_statement c) (sp_statements parts)" for c
        using wfp by (intro list_all_canon_obj valid_statement_canon) (simp_all add: wf_parts_def)
      moreover have "list_all valid_command (canon_obj (sp_commands parts)) = list_all valid_command (sp_commands parts)"
        using wfp by (intro list_all_canon_obj valid_command_canon) (simp_all add: wf_parts_def)
      moreover have "list_all valid_resolution (map canon (sp_resolutions parts)) = list_all valid_resolution (sp_resolutions parts)"
        using wfp valid_resolution_canon by (simp add: wf_parts_def list_all_iff)
      ultimately show ?thesis using JObj Inr get collections_canon [OF wfr]
        by (cases "raw = []") (simp_all add: study_parts_of_def canon_JObj canon_parts_def require_def del: canon.simps(6))
    qed
  qed (simp_all add: study_parts_of_def get)
qed

lemma require_session_canon:
  assumes wf: "wf_json (JObj s)"
  shows "require_session (canon_obj s) (stored e) = require_session s e"
proof -
  have get: "jget (canon_obj s) ''sessions'' = canon (jget s ''sessions'')" using wf by (intro jget_canon) simp
  have st: "session_text (stored e) = session_text e" by (simp add: session_text_def)
  show ?thesis
  proof (cases "jget s ''sessions''")
    case (JObj ss)
    then have wfs: "wf_json (JObj ss)" using wf_jget [OF wf, of "''sessions''"] by simp
    then have get2: "jget (canon_obj ss) (session_text e) = canon (jget ss (session_text e))" by (intro jget_canon) simp
    show ?thesis
    proof (cases "jget ss (session_text e)")
      case (JObj raw)
      then have "wf_json (JObj raw)" using wf_jget [OF wfs, of "session_text e"] by simp
      then have "jget (canon_obj raw) x = canon (jget raw x)" for x by (intro jget_canon) simp
      with get get2 \<open>jget s _ = _\<close> JObj show ?thesis by (simp add: require_session_def st canon_JObj del: canon.simps(6))
    qed (use get get2 JObj in \<open>simp_all add: require_session_def st canon_JObj del: canon.simps(6)\<close>)
  qed (use get in \<open>simp_all add: require_session_def\<close>)
qed

lemma require_human_origin_canon:
  assumes wf: "wf_json (JObj s)"
  shows "require_human_origin (canon_obj s) sess p = require_human_origin s sess p"
proof -
  have get: "jget (canon_obj s) ''session_interactions'' = canon (jget s ''session_interactions'')"
    using wf by (intro jget_canon) simp
  show ?thesis
  proof (cases "jget s ''session_interactions''")
    case (JObj ss)
    then have wfs: "wf_json (JObj ss)" using wf_jget [OF wf, of "''session_interactions''"] by simp
    then have get2: "jget (canon_obj ss) (sr_origin p) = canon (jget ss (sr_origin p))" by (intro jget_canon) simp
    show ?thesis
    proof (cases "jget ss (sr_origin p)")
      case (JObj raw)
      then have "wf_json (JObj raw)" using wf_jget [OF wfs, of "sr_origin p"] by simp
      then have "jget (canon_obj raw) x = canon (jget raw x)" for x by (intro jget_canon) simp
      with get get2 \<open>jget s _ = _\<close> JObj show ?thesis
        by (simp add: require_human_origin_def canon_JObj del: canon.simps(6))
    qed (use get get2 JObj in \<open>simp_all add: require_human_origin_def canon_JObj del: canon.simps(6)\<close>)
  qed (use get in \<open>simp_all add: require_human_origin_def\<close>)
qed

lemma replace_parts_wf:
  "wf_json (JObj s) \<Longrightarrow> wf_parts parts \<Longrightarrow> wf_json (JObj (replace_parts s parts))"
  unfolding replace_parts_def wf_parts_def
  by (rule wf_update) (auto simp del: wf_json_JObj wf_json_JArr simp add: wf_json_JObj [of "[_, _, _]"])

lemma replace_parts_same:
  assumes "wf_json (JObj s)" and "canon_parts p = canon_parts q"
  shows "same_state (replace_parts (canon_obj s) p) (replace_parts s q)"
  unfolding replace_parts_def
proof (rule same_state_update)
  show "wf_json (JObj (canon_obj s))" "wf_json (JObj s)"
    using assms(1) wf_canon [of "JObj s"] unfolding canon_JObj by blast+
  show "canon (JObj [(''statements'', JObj (sp_statements p)), (''resolutions'', JArr (sp_resolutions p)),
        (''commands'', JObj (sp_commands p))]) =
      canon (JObj [(''statements'', JObj (sp_statements q)), (''resolutions'', JArr (sp_resolutions q)),
        (''commands'', JObj (sp_commands q))])"
    using assms(2) unfolding canon_parts_def canon_JObj [of "[_, _, _]"]
    by (simp add: canon_obj_def [of "[_, _, _]"] canon_JObj del: canon.simps(6))
qed simp

definition same_parts :: "study_parts result \<Rightarrow> study_parts result \<Rightarrow> bool" where
  "same_parts a b = (map_sum id canon_parts a = map_sum id canon_parts b)"

lemma same_parts_simps [simp]:
  "same_parts (Inl x) (Inl y) \<longleftrightarrow> x = y" "same_parts (Inr p) (Inr q) \<longleftrightarrow> canon_parts p = canon_parts q"
  "\<not> same_parts (Inl x) (Inr q)" "\<not> same_parts (Inr p) (Inl y)"
  by (simp_all add: same_parts_def)

text \<open>A reducer that changes the parts of the projection by a function of the parts alone.\<close>

lemma parts_step_same:
  assumes wf: "wf_json (JObj s)"
    and step: "\<And>parts. wf_parts parts \<Longrightarrow> same_parts (step' (canon_parts parts)) (step parts)"
  shows "same_result
    (res_bind (study_parts_of (canon_obj s) (stored e)) (\<lambda>parts. res_bind (step' parts) (\<lambda>new. Inr (replace_parts (canon_obj s) new))))
    (res_bind (study_parts_of s e) (\<lambda>parts. res_bind (step parts) (\<lambda>new. Inr (replace_parts s new))))"
proof (cases "study_parts_of s e")
  case (Inr parts)
  have "same_parts (step' (canon_parts parts)) (step parts)" by (rule step [OF study_parts_wf [OF wf Inr]])
  then show ?thesis
    using Inr study_parts_canon [OF wf, of e] replace_parts_same [OF wf]
    by (cases "step' (canon_parts parts)"; cases "step parts") auto
qed (simp add: study_parts_canon [OF wf])

lemma parts_step_wf:
  assumes "wf_json (JObj s)" and "\<And>parts new. wf_parts parts \<Longrightarrow> step parts = Inr new \<Longrightarrow> wf_parts new"
    and "res_bind (study_parts_of s e) (\<lambda>parts. res_bind (step parts) (\<lambda>new. Inr (replace_parts s new))) = Inr s'"
  shows "wf_json (JObj s')"
  using assms(2,3) study_parts_wf [OF assms(1)] replace_parts_wf [OF assms(1)]
  unfolding res_bind_eq_Inr by blast

lemma record_parts_same:
  "wf_parts parts \<Longrightarrow> same_parts (record_parts (stored e) p (canon_parts parts)) (record_parts e p parts)"
  by (simp add: record_parts_def canon_parts_def wf_parts_def canon_update statement_entry_def session_text_def
      del: wf_json_JObj)

lemma retract_parts_same:
  assumes wfp: "wf_parts parts"
  shows "same_parts (retract_parts (stored e) p (canon_parts parts)) (retract_parts e p parts)"
proof -
  have ws: "wf_json (JObj (sp_statements parts))" using wfp by (simp add: wf_parts_def)
  have get: "jget (canon_obj (sp_statements parts)) (rt_id p) = canon (jget (sp_statements parts) (rt_id p))"
    using ws by (intro jget_canon) simp
  show ?thesis
  proof (cases "jget (sp_statements parts) (rt_id p)")
    case (JObj raw)
    then have wr: "wf_json (JObj raw)" using wf_jget [OF ws, of "rt_id p"] by simp
    then have getr: "jget (canon_obj raw) ''status'' = canon (jget raw ''status'')" by (intro jget_canon) simp
    show ?thesis
      using wfp JObj get getr canon_update [OF ws canon_status [OF wr]]
      by (simp add: retract_parts_def canon_parts_def wf_parts_def canon_update canon_JObj [of raw]
          del: wf_json_JObj canon.simps(6))
  qed (use get in \<open>simp_all add: retract_parts_def canon_parts_def\<close>)
qed



lemma active_entries_canon:
  "\<forall>(k, v) \<in> set xs. wf_json v \<Longrightarrow>
   active_entries k (map (map_prod id canon) xs) = map (map_prod id canon_obj) (active_entries k xs)"
proof (induction xs)
  case (Cons x xs)
  obtain sid v where x: "x = (sid, v)" by (cases x)
  show ?case
  proof (cases v)
    case (JObj raw)
    then have "jget (canon_obj raw) y = canon (jget raw y)" for y
      using Cons.prems x by (intro jget_canon) simp
    with JObj Cons x show ?thesis by (simp add: canon_JObj del: canon.simps(6))
  qed (use Cons x in simp_all)
qed simp

lemma mset_active_entries: "mset xs = mset ys \<Longrightarrow> mset (active_entries k xs) = mset (active_entries k ys)"
proof -
  define g where "g = (\<lambda>(sid :: string, v). case v of JObj raw \<Rightarrow>
      if jget raw ''kind'' = JStr (kind_value k) \<and> jget raw ''status'' = JStr (status_value ACTIVE)
      then Some (sid, raw) else None | _ \<Rightarrow> None)"
  have "active_entries k zs = List.map_filter g zs" for zs
    by (induction zs) (auto simp: g_def List.map_filter_def split: json.splits)
  moreover assume "mset xs = mset ys"
  ultimately show ?thesis by (simp add: List.map_filter_def mset_filter)
qed

lemma mset_active_canon:
  assumes "wf_json (JObj sts)"
  shows "mset (active_entries k (canon_obj sts)) = image_mset (map_prod id canon_obj) (mset (active_entries k sts))"
proof -
  have "active_entries k (canon_obj sts) = map (map_prod id canon_obj) (active_entries k (sort_key fst sts))"
    unfolding canon_obj_sort [of sts] using assms by (intro active_entries_canon) auto
  then show ?thesis using mset_active_entries [of "sort_key fst sts" sts k] by simp
qed

lemma set_active_entries:
  "set (active_entries k sts) = {(sid, raw). (sid, JObj raw) \<in> set sts \<and>
     jget raw ''kind'' = JStr (kind_value k) \<and> jget raw ''status'' = JStr (status_value ACTIVE)}"
  by (induction sts) (auto split: json.splits if_splits)

lemma distinct_active_entries: "distinct (keys_of sts) \<Longrightarrow> distinct (keys_of (active_entries k sts))"
proof (induction sts)
  case (Cons x sts)
  obtain sid v where x: "x = (sid, v)" by (cases x)
  have "sid \<notin> fst ` set (active_entries k sts)"
    using Cons.prems x by (force simp: set_active_entries)
  with Cons x show ?case by (cases v) simp_all
qed simp

lemma map_of_active_entries:
  assumes "distinct (keys_of sts)"
  shows "map_of (active_entries k sts) sid = Some raw \<longleftrightarrow> map_of sts sid = Some (JObj raw) \<and>
     jget raw ''kind'' = JStr (kind_value k) \<and> jget raw ''status'' = JStr (status_value ACTIVE)"
  by (simp add: map_of_eq_Some_iff [OF distinct_active_entries [OF assms]] map_of_eq_Some_iff [OF assms] set_active_entries)

lemma map_of_supersede:
  "map_of (supersede active losers sts) j =
    (if j \<in> set losers then case map_of active j of None \<Rightarrow> map_of sts j
       | Some raw \<Rightarrow> Some (JObj (AList.update ''status'' (JStr (status_value SUPERSEDED)) raw))
     else map_of sts j)"
  unfolding supersede_def
  by (induction losers arbitrary: sts) (auto simp: map_of_update split: option.splits)

lemma wf_supersede:
  assumes "wf_json (JObj sts)" and "\<forall>(sid, raw) \<in> set active. wf_json (JObj raw)"
  shows "wf_json (JObj (supersede active losers sts))"
  unfolding supersede_def using assms(1)
proof (induction losers arbitrary: sts)
  case (Cons l losers)
  have "wf_json (JObj (case map_of active l of None \<Rightarrow> sts
      | Some raw \<Rightarrow> AList.update l (JObj (AList.update ''status'' (JStr (status_value SUPERSEDED)) raw)) sts))"
    using assms(2) Cons.prems
    by (auto simp del: wf_json_JObj split: option.splits intro!: wf_update dest: map_of_SomeD)
  then show ?case using Cons.IH by simp
qed simp



lemma value_keys_canon:
  assumes "wf_json (JObj sts)"
  shows "(\<exists>us vs. value_keys (active_entries k (canon_obj sts)) = Inr us \<and>
      value_keys (active_entries k sts) = Inr vs \<and> mset us = mset vs) \<or>
    value_keys (active_entries k (canon_obj sts)) = Inl ValueError \<and> value_keys (active_entries k sts) = Inl ValueError"
  unfolding value_keys_def
proof (rule map_res_mset)
  show "mset (active_entries k (canon_obj sts)) = image_mset (map_prod id canon_obj) (mset (active_entries k sts))"
    by (rule mset_active_canon [OF assms])
  have *: "jget (canon_obj raw) y = canon (jget raw y)" if "(sid, raw) \<in> set (active_entries k sts)" for sid raw y
  proof -
    have "wf_json (JObj raw)" using that assms by (force simp: set_active_entries)
    then show ?thesis by (intro jget_canon) simp
  qed
  show "(\<lambda>(sid, raw). res_bind (value_key (jget raw ''value'')) (\<lambda>vk. Inr (sid, vk))) (map_prod id canon_obj x) =
      (\<lambda>(sid, raw). res_bind (value_key (jget raw ''value'')) (\<lambda>vk. Inr (sid, vk))) x"
    if "x \<in> set (active_entries k sts)" for x
    using that * [of "fst x" "snd x"] by (simp add: case_prod_unfold)
qed (auto simp: value_key_def res_bind_eq_Inl split: json.splits prod.splits)

lemma supersede_canon:
  assumes ws: "wf_json (JObj sts)"
  shows "canon_obj (supersede (active_entries k (canon_obj sts)) losers (canon_obj sts)) =
    canon_obj (supersede (active_entries k sts) losers sts)"
proof (rule canon_obj_eqI)
  have wc: "wf_json (JObj (canon_obj sts))" using wf_canon [of "JObj sts"] ws by (simp only: canon_JObj)
  have raws: "\<forall>(sid, raw) \<in> set (active_entries k zs). wf_json (JObj raw)" if "wf_json (JObj zs)" for zs
    using that by (force simp: set_active_entries)
  show "distinct (keys_of (supersede (active_entries k (canon_obj sts)) losers (canon_obj sts)))"
    "distinct (keys_of (supersede (active_entries k sts) losers sts))"
    using wf_supersede [OF wc raws [OF wc]] wf_supersede [OF ws raws [OF ws]] by simp_all
  fix j
  have sets: "set (active_entries k (canon_obj sts)) = map_prod id canon_obj ` set (active_entries k sts)"
    using arg_cong [OF mset_active_canon [OF ws, of k], of set_mset] by simp
  have act: "map_of (active_entries k (canon_obj sts)) j = map_option canon_obj (map_of (active_entries k sts) j)"
  proof -
    have "map_of (active_entries k (canon_obj sts)) j = map_of (map (map_prod id canon_obj) (active_entries k sts)) j"
      using ws sets
      by (intro fun_cong [OF map_of_inject_set [THEN iffD2]]) (simp_all add: distinct_active_entries comp_def)
    then show ?thesis by (simp add: map_prod_def map_of_map id_def)
  qed
  have st: "map_of (canon_obj sts) j = map_option canon (map_of sts j)" using ws by (intro map_of_canon_obj) simp
  show "map_option canon (map_of (supersede (active_entries k (canon_obj sts)) losers (canon_obj sts)) j) =
      map_option canon (map_of (supersede (active_entries k sts) losers sts) j)"
  proof (cases "map_of (active_entries k sts) j")
    case (Some raw)
    then have "wf_json (JObj raw)" using raws [OF ws] by (fastforce simp del: wf_json_JObj dest: map_of_SomeD)
    then show ?thesis using Some by (simp add: map_of_supersede act st canon_status option.map_comp comp_def del: canon.simps(6))
  qed (simp add: map_of_supersede act st option.map_comp comp_def)
qed

lemma resolve_parts_same:
  assumes wfp: "wf_parts parts"
  shows "same_parts (resolve_parts (stored e) p (canon_parts parts)) (resolve_parts e p parts)"
proof -
  let ?k = "cr_kind p" and ?sts = "sp_statements parts"
  have ws: "wf_json (JObj ?sts)" and wc: "wf_json (JObj (sp_commands parts))" using wfp by (simp_all add: wf_parts_def)
  have get: "jget (canon_obj ?sts) (cr_selected p) = canon (jget ?sts (cr_selected p))"
    using ws by (intro jget_canon) simp
  have ent: "resolution_entry (stored e) p = resolution_entry e p" by (simp add: resolution_entry_def)
  show ?thesis
  proof (cases "jget ?sts (cr_selected p)")
    case (JObj sel)
    then have wr: "wf_json (JObj sel)" using wf_jget [OF ws, of "cr_selected p"] by simp
    then have getr: "jget (canon_obj sel) y = canon (jget sel y)" for y by (intro jget_canon) simp
    from value_keys_canon [OF ws, of ?k] show ?thesis
    proof (elim disjE exE conjE)
      fix us vs
      assume vk: "value_keys (active_entries ?k (canon_obj ?sts)) = Inr us" "value_keys (active_entries ?k ?sts) = Inr vs"
        and m: "mset us = mset vs"
      have "set us = set vs" using m by (rule mset_eq_setD)
      moreover have "sort (map fst (filter P us)) = sort (map fst (filter P vs))" for P
        using m by (intro sort_mset) (simp add: mset_filter)
      ultimately show ?thesis using JObj get getr vk
        by (cases "value_key (jget sel ''value'')")
          (simp_all add: resolve_parts_def ent canon_parts_def canon_JObj Let_def supersede_canon [OF ws] canon_update [OF wc]
            del: canon.simps(6) wf_json_JObj)
    qed (use JObj get getr in \<open>simp add: resolve_parts_def canon_parts_def canon_JObj Let_def del: canon.simps(6)\<close>)
  qed (use get in \<open>simp_all add: resolve_parts_def canon_parts_def\<close>)
qed

lemma wf_entries:
  "wf_json (statement_entry e p)" "wf_json (command_entry fp sid)" "wf_json (resolution_entry e q)"
  by (auto simp: statement_entry_def command_entry_def resolution_entry_def statement_value_manifest_def text_items_def
      split: statement_value.splits)

lemma parts_wf:
  assumes "wf_parts parts"
  shows "record_parts e r parts = Inr new \<Longrightarrow> wf_parts new"
    and "retract_parts e t parts = Inr new \<Longrightarrow> wf_parts new"
    and "resolve_parts e c parts = Inr new \<Longrightarrow> wf_parts new"
proof -
  have ws: "wf_json (JObj (sp_statements parts))" and wr: "\<forall>x \<in> set (sp_resolutions parts). wf_json x"
    and wc: "wf_json (JObj (sp_commands parts))"
    using assms by (simp_all add: wf_parts_def)
  show "record_parts e r parts = Inr new \<Longrightarrow> wf_parts new"
    using ws wr wc by (auto simp: record_parts_def wf_parts_def simp del: wf_json_JObj split: if_splits intro!: wf_update wf_entries)
  have raw: "wf_json (JObj raw)" if "jget (sp_statements parts) sid = JObj raw" for sid raw
    using wf_jget [OF ws, of sid] that by simp
  show "retract_parts e t parts = Inr new \<Longrightarrow> wf_parts new"
    using ws wr wc raw
    by (auto simp: retract_parts_def wf_parts_def simp del: wf_json_JObj split: if_splits json.splits
        intro!: wf_update wf_entries)
  have active: "\<forall>(sid, raw) \<in> set (active_entries k (sp_statements parts)). wf_json (JObj raw)" for k
    using ws by (force simp: set_active_entries)
  show "resolve_parts e c parts = Inr new \<Longrightarrow> wf_parts new"
    using wr wc wf_supersede [OF ws active] wf_entries(3) wf_update [OF wc wf_entries(2)]
    by (auto simp: resolve_parts_def wf_parts_def res_bind_eq_Inr Let_def simp del: wf_json_JObj split: if_splits json.splits)
qed

lemma reducers_wf:
  assumes "wf_json (JObj s)"
  shows "reduce_statement_recorded s e r = Inr s' \<Longrightarrow> wf_json (JObj s')"
    and "reduce_statement_retracted s e t = Inr s' \<Longrightarrow> wf_json (JObj s')"
    and "reduce_conflict_resolved s e c = Inr s' \<Longrightarrow> wf_json (JObj s')"
proof -
  have "wf_json (JObj s')" if red: "reduce_statement_recorded s e r = Inr s'"
  proof -
    have "''course'' \<in> set (keys_of s)" using red by (auto simp: reduce_statement_recorded_def split: if_splits)
    then have "res_bind (require_session s e) (\<lambda>sess. res_bind (require_human_origin s sess r) (\<lambda>_.
        res_bind (study_parts_of s e) (\<lambda>parts. res_bind (record_parts e r parts) (\<lambda>new. Inr (replace_parts s new))))) = Inr s'"
      using red unfolding reduce_statement_recorded_def by (simp only: if_not_P not_not)
    then show ?thesis
      unfolding res_bind_eq_Inr [of "require_session s e"] res_bind_eq_Inr [of "require_human_origin s _ _"]
      using parts_step_wf [OF assms, of "record_parts e r"] parts_wf(1) by blast
  qed
  then show "reduce_statement_recorded s e r = Inr s' \<Longrightarrow> wf_json (JObj s')" .
  show "reduce_statement_retracted s e t = Inr s' \<Longrightarrow> wf_json (JObj s')"
    unfolding reduce_statement_retracted_def res_bind_eq_Inr [of "require_session s e"]
    using parts_step_wf [OF assms, of "retract_parts e t"] parts_wf(2) by blast
  show "reduce_conflict_resolved s e c = Inr s' \<Longrightarrow> wf_json (JObj s')"
    unfolding reduce_conflict_resolved_def res_bind_eq_Inr [of "require_session s e"]
    using parts_step_wf [OF assms, of "resolve_parts e c"] parts_wf(3) by blast
qed

lemma reducers_same:
  assumes wf: "wf_json (JObj s)"
  shows "same_result (reduce_statement_recorded (canon_obj s) (stored e) r) (reduce_statement_recorded s e r)"
    and "same_result (reduce_statement_retracted (canon_obj s) (stored e) t) (reduce_statement_retracted s e t)"
    and "same_result (reduce_conflict_resolved (canon_obj s) (stored e) c) (reduce_conflict_resolved s e c)"
proof -
  note canon = require_session_canon [OF wf] require_human_origin_canon [OF wf]
  have steps: "same_result
      (res_bind (study_parts_of (canon_obj s) (stored e)) (\<lambda>parts. res_bind (record_parts (stored e) r parts) (\<lambda>new. Inr (replace_parts (canon_obj s) new))))
      (res_bind (study_parts_of s e) (\<lambda>parts. res_bind (record_parts e r parts) (\<lambda>new. Inr (replace_parts s new))))"
    "same_result
      (res_bind (study_parts_of (canon_obj s) (stored e)) (\<lambda>parts. res_bind (retract_parts (stored e) t parts) (\<lambda>new. Inr (replace_parts (canon_obj s) new))))
      (res_bind (study_parts_of s e) (\<lambda>parts. res_bind (retract_parts e t parts) (\<lambda>new. Inr (replace_parts s new))))"
    "same_result
      (res_bind (study_parts_of (canon_obj s) (stored e)) (\<lambda>parts. res_bind (resolve_parts (stored e) c parts) (\<lambda>new. Inr (replace_parts (canon_obj s) new))))
      (res_bind (study_parts_of s e) (\<lambda>parts. res_bind (resolve_parts e c parts) (\<lambda>new. Inr (replace_parts s new))))"
    by (rule parts_step_same [OF wf], erule record_parts_same retract_parts_same resolve_parts_same)+
  show "same_result (reduce_statement_recorded (canon_obj s) (stored e) r) (reduce_statement_recorded s e r)"
    using steps(1) unfolding reduce_statement_recorded_def canon by (auto intro!: same_result_bind)
  show "same_result (reduce_statement_retracted (canon_obj s) (stored e) t) (reduce_statement_retracted s e t)"
    using steps(2) unfolding reduce_statement_retracted_def canon by (intro same_result_bind)
  show "same_result (reduce_conflict_resolved (canon_obj s) (stored e) c) (reduce_conflict_resolved s e c)"
    using steps(3) unfolding reduce_conflict_resolved_def canon by (intro same_result_bind)
qed

lemma study_registration_ok:
  assumes "\<And>x. unwrap (wrap x) = Some x"
  shows "registration_ok \<lparr>reg_decoder = erase_decoder (wrap \<circ> Recorded) decode_statement_recorded,
      reg_reducer = erase_reducer (\<lambda>p. Option.bind (unwrap p) recorded_of) reduce_statement_recorded\<rparr>"
    and "registration_ok \<lparr>reg_decoder = erase_decoder (wrap \<circ> Retracted) decode_statement_retracted,
      reg_reducer = erase_reducer (\<lambda>p. Option.bind (unwrap p) retracted_of) reduce_statement_retracted\<rparr>"
    and "registration_ok \<lparr>reg_decoder = erase_decoder (wrap \<circ> Resolved) decode_conflict_resolved,
      reg_reducer = erase_reducer (\<lambda>p. Option.bind (unwrap p) resolved_of) reduce_conflict_resolved\<rparr>"
proof -
  have wrap: "\<And>x. Option.bind (unwrap ((wrap \<circ> Recorded) x)) recorded_of = Some x"
    "\<And>x. Option.bind (unwrap ((wrap \<circ> Retracted) x)) retracted_of = Some x"
    "\<And>x. Option.bind (unwrap ((wrap \<circ> Resolved) x)) resolved_of = Some x"
    using assms by simp_all
  note facts = reducers_wf [folded wf_state_def] reducers_same [folded wf_state_def] decode_stored
  show "registration_ok \<lparr>reg_decoder = erase_decoder (wrap \<circ> Recorded) decode_statement_recorded,
      reg_reducer = erase_reducer (\<lambda>p. Option.bind (unwrap p) recorded_of) reduce_statement_recorded\<rparr>"
    by (rule erased_registration_ok) (fact wrap, erule facts, erule (1) facts, erule facts)
  show "registration_ok \<lparr>reg_decoder = erase_decoder (wrap \<circ> Retracted) decode_statement_retracted,
      reg_reducer = erase_reducer (\<lambda>p. Option.bind (unwrap p) retracted_of) reduce_statement_retracted\<rparr>"
    by (rule erased_registration_ok) (fact wrap, erule facts, erule (1) facts, erule facts)
  show "registration_ok \<lparr>reg_decoder = erase_decoder (wrap \<circ> Resolved) decode_conflict_resolved,
      reg_reducer = erase_reducer (\<lambda>p. Option.bind (unwrap p) resolved_of) reduce_conflict_resolved\<rparr>"
    by (rule erased_registration_ok) (fact wrap, erule facts, erule (1) facts, erule facts)
qed

end
