(* ===== verification/Study_Lifecycle.thy ===== *)
theory Study_Lifecycle
  imports Study_Context
begin

text \<open>
  The lifecycle of study-context statements. An abstract context maps statement ids to a kind, a
  value and a status; recording, retracting and resolving are three functions on it. The reducers
  of \<^verbatim>\<open>study_context/projection.py\<close> refine them, statements never disappear or change, and the
  statuses superseded and retracted are final. The invariant \<open>context_ok\<close> is what the reducers
  keep, and every state that has it is read by the view of \<^verbatim>\<open>study_context/view.py\<close> without an
  error, with the conflicts of the abstract context.
\<close>

section \<open>The abstract lifecycle\<close>

type_synonym abs_context = "string \<rightharpoonup> statement_kind \<times> statement_value \<times> statement_status"

definition entry_abs :: "json \<Rightarrow> (statement_kind \<times> statement_value \<times> statement_status) option" where
  "entry_abs v =
     (case v of
        JObj raw \<Rightarrow>
          (case (kind_field (jget raw ''kind''), status_field (jget raw ''status'')) of
             (Inr k, Inr s) \<Rightarrow>
               (case projected_value k (jget raw ''value'') of Inr x \<Rightarrow> Some (k, x, s) | Inl _ \<Rightarrow> None)
           | _ \<Rightarrow> None)
      | _ \<Rightarrow> None)"

definition abs_statements :: "json_object \<Rightarrow> abs_context" where
  "abs_statements sts sid = Option.bind (map_of sts sid) entry_abs"

definition spec_record :: "string \<Rightarrow> study_statement \<Rightarrow> abs_context \<Rightarrow> abs_context option" where
  "spec_record sid st A = (if A sid = None then Some (A(sid \<mapsto> (in_kind st, in_value st, ACTIVE))) else None)"

definition spec_retract :: "string \<Rightarrow> abs_context \<Rightarrow> abs_context option" where
  "spec_retract sid A =
     (case A sid of Some (k, v, ACTIVE) \<Rightarrow> Some (A(sid \<mapsto> (k, v, RETRACTED))) | _ \<Rightarrow> None)"

definition spec_conflict :: "statement_kind \<Rightarrow> abs_context \<Rightarrow> bool" where
  "spec_conflict k A = (\<exists>i j v w. A i = Some (k, v, ACTIVE) \<and> A j = Some (k, w, ACTIVE) \<and> v \<noteq> w)"

definition lose :: "statement_kind \<Rightarrow> statement_value \<Rightarrow>
  statement_kind \<times> statement_value \<times> statement_status \<Rightarrow> statement_kind \<times> statement_value \<times> statement_status" where
  "lose k v t = (case t of (k', w, s) \<Rightarrow>
     if k' = k \<and> s = ACTIVE \<and> w \<noteq> v then (k', w, SUPERSEDED) else t)"

definition spec_resolve :: "statement_kind \<Rightarrow> string \<Rightarrow> abs_context \<Rightarrow> abs_context option" where
  "spec_resolve k sel A =
     (case A sel of
        Some (k', v, ACTIVE) \<Rightarrow>
          if k' = k \<and> spec_conflict k A then Some (map_option (lose k v) \<circ> A) else None
      | _ \<Rightarrow> None)"

section \<open>Entries\<close>

lemma kind_of_value [codec_simps]: "kind_of (kind_value k) = Inr k"
  by (cases k) (simp_all add: kind_of_def)

lemma kind_value_inj [simp]: "kind_value k = kind_value l \<longleftrightarrow> k = l"
  by (cases k; cases l) simp_all

lemma status_value_inj [simp]: "status_value k = status_value l \<longleftrightarrow> k = l"
  by (cases k; cases l) simp_all

lemma kind_value_text [simp]: "is_text (kind_value k)"
  by (cases k) (simp_all add: is_text_iff is_space_def py_whitespace_def)

lemma status_value_text [simp]: "is_text (status_value k)"
  by (cases k) (simp_all add: is_text_iff is_space_def py_whitespace_def)

lemma kind_of_Inr: "kind_of s = Inr k \<longleftrightarrow> s = kind_value k"
proof
  show "kind_of s = Inr k \<Longrightarrow> s = kind_value k" unfolding kind_of_def by (elim ifE_Inr | simp)+
qed (simp add: kind_of_value)

lemma status_of_Inr: "status_of s = Inr k \<longleftrightarrow> s = status_value k"
proof
  show "status_of s = Inr k \<Longrightarrow> s = status_value k" unfolding status_of_def by (elim ifE_Inr | simp)+
qed (cases k, simp_all add: status_of_def)

lemma kind_field_Inr: "kind_field v = Inr k \<longleftrightarrow> v = JStr (kind_value k)"
  using kind_value_text [of k] unfolding kind_field_def res_bind_eq_Inr text_value_Inr kind_of_Inr by blast

lemma status_field_Inr: "status_field v = Inr s \<longleftrightarrow> v = JStr (status_value s)"
  using status_value_text [of s] unfolding status_field_def res_bind_eq_Inr text_value_Inr status_of_Inr by blast

lemma field_values [simp]: "kind_field (JStr (kind_value k)) = Inr k" "status_field (JStr (status_value s)) = Inr s"
  by (simp_all add: kind_field_Inr status_field_Inr)

lemma entry_abs_JObj:
  "entry_abs (JObj raw) = Some (k, x, s) \<longleftrightarrow> jget raw ''kind'' = JStr (kind_value k) \<and>
     projected_value k (jget raw ''value'') = Inr x \<and> jget raw ''status'' = JStr (status_value s)"
  by (cases "kind_field (jget raw ''kind'')"; cases "status_field (jget raw ''status'')")
    (auto simp: entry_abs_def kind_field_Inr status_field_Inr split: sum.splits)

lemma entry_abs_Some: "entry_abs v = Some t \<Longrightarrow> \<exists>raw. v = JObj raw"
  by (auto simp: entry_abs_def split: json.splits)

lemma entry_abs_status:
  "entry_abs (JObj raw) = Some (k, x, s) \<Longrightarrow>
   entry_abs (JObj (AList.update ''status'' (JStr (status_value s')) raw)) = Some (k, x, s')"
  by (simp add: entry_abs_JObj jget_update)

lemma valid_statement_abs:
  assumes "valid_statement c (sid, v)"
  shows "\<exists>raw k x s. v = JObj raw \<and> entry_abs v = Some (k, x, s)"
proof -
  obtain raw where raw: "v = JObj raw" using assms by (auto simp: valid_statement_def split: json.splits)
  then obtain k x s where "kind_field (jget raw ''kind'') = Inr k" "projected_value k (jget raw ''value'') = Inr x"
    "status_field (jget raw ''status'') = Inr s"
    using assms by (auto simp: valid_statement_def is_ok_iff res_bind_eq_Inr)
  then show ?thesis using raw by (auto simp: entry_abs_JObj kind_field_Inr status_field_Inr)
qed

lemma valid_statement_status:
  assumes "valid_statement c (sid, JObj raw)"
  shows "valid_statement c (sid, JObj (AList.update ''status'' (JStr (status_value s')) raw))"
proof -
  have "status_field (JStr (status_value s')) = Inr s'" by (simp add: status_field_Inr)
  moreover have "has_keys (AList.update ''status'' v raw) statement_keys" if "has_keys raw statement_keys" for v
    using that by (auto simp: has_keys_def statement_keys_def)
  ultimately show ?thesis using assms by (simp add: valid_statement_def jget_update is_ok_def)
qed

text \<open>Scalar values and the keys the reducer compares.\<close>

fun scalar_key :: "statement_value \<Rightarrow> string \<times> string" where
  "scalar_key (V_date d) = (''str'', isoformat_date d)"
| "scalar_key (V_text s) = (''str'', s)"
| "scalar_key (V_int i) = (''int'', show_int i)"

lemma projected_scalar:
  assumes "is_scalar k" and "projected_value k v = Inr x"
  shows "value_key v = Inr (scalar_key x) \<and>
    (k = DEADLINE \<longrightarrow> (\<exists>d. x = V_date d \<and> date_fromisoformat (isoformat_date d) = Inr d)) \<and>
    (k = WEEKLY_TIME_BUDGET \<longrightarrow> (\<exists>i. x = V_int i))"
proof (cases "k = DEADLINE")
  case True
  then show ?thesis using assms(2)
    by (auto simp: projected_value_def map_error_eq_Inr res_bind_eq_Inr iso_date_def text_value_Inr
        mk_statement_def canonical_statement_value_def value_key_def split: if_splits)
next
  case False
  then have "k = WEEKLY_TIME_BUDGET" using assms(1) by (simp add: is_scalar_def)
  then show ?thesis using assms(2)
    by (cases v) (auto simp: projected_value_def map_error_eq_Inr res_bind_eq_Inr
        mk_statement_def canonical_statement_value_def value_key_def scalar_value_def split: if_splits)
qed

lemma scalar_key_inj:
  assumes "is_scalar k" and "projected_value k v = Inr x" and "projected_value k w = Inr y"
  shows "scalar_key x = scalar_key y \<longleftrightarrow> x = y"
proof (cases "k = DEADLINE")
  case True
  then obtain d d' where "x = V_date d" "date_fromisoformat (isoformat_date d) = Inr d"
    "y = V_date d'" "date_fromisoformat (isoformat_date d') = Inr d'"
    using projected_scalar [OF assms(1,2)] projected_scalar [OF assms(1,3)] by blast
  moreover have "isoformat_date d = isoformat_date d' \<longleftrightarrow> d = d'"
    using calculation(2,4) by (metis sum.inject(2))
  ultimately show ?thesis by simp
next
  case False
  then have "k = WEEKLY_TIME_BUDGET" using assms(1) by (simp add: is_scalar_def)
  then obtain i j where "x = V_int i" "y = V_int j"
    using projected_scalar [OF assms(1,2)] projected_scalar [OF assms(1,3)] by blast
  then show ?thesis by (simp add: show_int_inj)
qed

lemma abs_statements_Some:
  "abs_statements sts sid = Some (k, x, s) \<longleftrightarrow> (\<exists>raw. map_of sts sid = Some (JObj raw) \<and> entry_abs (JObj raw) = Some (k, x, s))"
  by (auto simp: abs_statements_def bind_eq_Some_conv dest: entry_abs_Some)

lemma active_abs:
  assumes "distinct (keys_of sts)" and "list_all (valid_statement c) sts"
  shows "(\<exists>raw. (sid, raw) \<in> set (active_entries k sts) \<and> projected_value k (jget raw ''value'') = Inr x) \<longleftrightarrow>
    abs_statements sts sid = Some (k, x, ACTIVE)"
  by (auto simp: abs_statements_Some entry_abs_JObj set_active_entries map_of_eq_Some_iff [OF assms(1)])

lemma value_keys_abs:
  assumes "distinct (keys_of sts)" and valid: "list_all (valid_statement c) sts" and "is_scalar k"
    and vks: "value_keys (active_entries k sts) = Inr vks"
  shows "set vks = {(sid, scalar_key x) |sid x. abs_statements sts sid = Some (k, x, ACTIVE)}"
    and "map fst vks = keys_of (active_entries k sts)"
proof -
  have proj: "\<exists>x. projected_value k (jget raw ''value'') = Inr x" if "(sid, raw) \<in> set (active_entries k sts)" for sid raw
  proof -
    have "valid_statement c (sid, JObj raw)" "jget raw ''kind'' = JStr (kind_value k)"
      using that valid by (auto simp: set_active_entries list_all_iff)
    then show ?thesis using valid_statement_abs [of c sid "JObj raw"] by (auto simp: entry_abs_JObj)
  qed
  define f where "f = (\<lambda>(sid :: string, raw). res_bind (value_key (jget raw ''value'')) (\<lambda>vk. Inr (sid, vk)))"
  have all2: "list_all2 (\<lambda>x y. f x = Inr y) (active_entries k sts) vks"
    using vks by (simp add: value_keys_def map_res_Inr_iff f_def)
  have f: "f (sid, raw) = Inr y \<longleftrightarrow> (\<exists>x. projected_value k (jget raw ''value'') = Inr x \<and> y = (sid, scalar_key x))"
    if "(sid, raw) \<in> set (active_entries k sts)" for sid raw y
    using proj [OF that] projected_scalar [OF assms(3)] by (auto simp: f_def)
  show "map fst vks = keys_of (active_entries k sts)"
    using all2 by (induction rule: list_all2_induct) (auto simp: f_def res_bind_eq_Inr)
  have "y \<in> set vks \<longleftrightarrow> (\<exists>sid raw. (sid, raw) \<in> set (active_entries k sts) \<and> f (sid, raw) = Inr y)" for y
    using all2 by (induction rule: list_all2_induct) auto
  then have "y \<in> set vks \<longleftrightarrow> (\<exists>sid raw x. (sid, raw) \<in> set (active_entries k sts) \<and>
      projected_value k (jget raw ''value'') = Inr x \<and> y = (sid, scalar_key x))" for y
    using f by blast
  then show "set vks = {(sid, scalar_key x) |sid x. abs_statements sts sid = Some (k, x, ACTIVE)}"
    unfolding active_abs [OF assms(1,2), symmetric] by blast
qed



section \<open>What the decoders guarantee\<close>

definition canonical_statement :: "study_statement \<Rightarrow> bool" where
  "canonical_statement st =
     (canonical_statement_value (in_kind st) (in_value st) = Inr (in_value st) \<and>
      (\<forall>d. in_value st = V_date d \<longrightarrow> valid_date d))"

lemma canonical_idem:
  "canonical_statement_value k v = Inr w \<Longrightarrow> canonical_statement_value k w = Inr w"
  by (auto simp: canonical_statement_value_def res_bind_eq_Inr require_text_Inr strip_idem split: if_splits statement_value.splits)

lemma mk_statement_canonical:
  "mk_statement k v = Inr st \<Longrightarrow> (\<And>d. v = V_date d \<Longrightarrow> valid_date d) \<Longrightarrow> canonical_statement st"
  by (auto simp: mk_statement_def res_bind_eq_Inr canonical_statement_def dest: canonical_idem)
    (auto simp: canonical_statement_value_def res_bind_eq_Inr split: if_splits statement_value.splits)

lemma decode_statement_canonical: "decode_statement payload = Inr st \<Longrightarrow> canonical_statement st"
  by (auto simp: decode_statement_def res_bind_eq_Inr iso_date_def scalar_value_def
      intro: mk_statement_canonical date_fromisoformat_valid split: if_splits json.splits)

lemma fingerprint_value_sha: "fingerprint_value payload = Inr fp \<Longrightarrow> is_sha256 fp"
  by (auto simp: fingerprint_value_def res_bind_eq_Inr split: if_splits)

lemma projected_manifest:
  assumes "canonical_statement st"
  shows "projected_value (in_kind st) (statement_value_manifest st) = Inr (in_value st)"
proof -
  have can: "canonical_statement_value (in_kind st) (in_value st) = Inr (in_value st)"
    using assms by (simp add: canonical_statement_def)
  have date: "iso_date (JStr (isoformat_date d)) = Inr d" if "in_value st = V_date d" for d
    using assms that by (simp add: canonical_statement_def iso_date_def text_value_def isoformat_date_text date_fromisoformat_isoformat)
  show ?thesis
  proof (cases "in_kind st = DEADLINE")
    case True
    then obtain d where "in_value st = V_date d"
      using can by (auto simp: canonical_statement_value_def split: statement_value.splits)
    with True can date show ?thesis by (simp add: projected_value_def statement_value_manifest_def mk_statement_def)
  next
    case False
    then have "\<nexists>d. in_value st = V_date d"
      using can by (auto simp: canonical_statement_value_def split: statement_value.splits if_splits)
    with False can show ?thesis
      by (cases "in_value st") (simp_all add: projected_value_def statement_value_manifest_def mk_statement_def scalar_value_def)
  qed
qed

definition recorded_ok :: "statement_recorded \<Rightarrow> bool" where
  "recorded_ok p = (is_text (sr_id p) \<and> is_text (sr_origin p) \<and> canonical_statement (sr_statement p) \<and> is_sha256 (sr_fingerprint p))"

definition resolved_ok :: "conflict_resolved \<Rightarrow> bool" where
  "resolved_ok p = (is_scalar (cr_kind p) \<and> is_text (cr_selected p) \<and> list_all is_text (cr_superseded p) \<and>
     cr_superseded p \<noteq> [] \<and> cr_selected p \<notin> set (cr_superseded p) \<and> distinct (cr_superseded p) \<and>
     sort (cr_superseded p) = cr_superseded p \<and> is_sha256 (cr_fingerprint p))"

lemma decoded_ok:
  shows "decode_statement_recorded e = Inr r \<Longrightarrow> recorded_ok r \<and> (\<exists>s. ev_session e = Some s)"
    and "decode_statement_retracted e = Inr t \<Longrightarrow> is_text (rt_id t) \<and> is_sha256 (rt_fingerprint t) \<and> (\<exists>s. ev_session e = Some s)"
    and "decode_conflict_resolved e = Inr c \<Longrightarrow> resolved_ok c \<and> (\<exists>s. ev_session e = Some s)"
proof -
  show "decode_statement_recorded e = Inr r \<Longrightarrow> recorded_ok r \<and> (\<exists>s. ev_session e = Some s)"
    unfolding decode_statement_recorded_def res_bind_eq_Inr Let_def
    by (elim exE conjE, drule study_envelope_Inr)
      (auto simp: recorded_ok_def text_value_Inr res_bind_eq_Inr split: if_splits
        dest: decode_statement_canonical fingerprint_value_sha)
  show "decode_statement_retracted e = Inr t \<Longrightarrow> is_text (rt_id t) \<and> is_sha256 (rt_fingerprint t) \<and> (\<exists>s. ev_session e = Some s)"
    unfolding decode_statement_retracted_def res_bind_eq_Inr
    by (elim exE conjE, drule study_envelope_Inr)
      (auto simp: text_value_Inr res_bind_eq_Inr split: if_splits dest: fingerprint_value_sha)
  show "decode_conflict_resolved e = Inr c \<Longrightarrow> resolved_ok c \<and> (\<exists>s. ev_session e = Some s)"
    unfolding decode_conflict_resolved_def res_bind_eq_Inr
    by (elim exE conjE, drule study_envelope_Inr)
      (auto simp: resolved_ok_def text_value_Inr res_bind_eq_Inr split: if_splits
        dest: fingerprint_value_sha text_array_texts)
qed

section \<open>The reducers implement the lifecycle\<close>

lemma abs_update: "abs_statements (AList.update sid v sts) = (abs_statements sts)(sid := entry_abs v)"
  by (auto simp: abs_statements_def map_of_update fun_eq_iff)

lemma entry_abs_statement:
  assumes "recorded_ok p"
  shows "entry_abs (statement_entry e p) = Some (in_kind (sr_statement p), in_value (sr_statement p), ACTIVE)"
  unfolding statement_entry_def using projected_manifest [of "sr_statement p"] assms
  by (subst entry_abs_JObj) (simp add: jget_def recorded_ok_def)

lemma record_refines:
  assumes "recorded_ok p" and "record_parts e p parts = Inr new"
  shows "spec_record (sr_id p) (sr_statement p) (abs_statements (sp_statements parts)) = Some (abs_statements (sp_statements new))"
proof -
  have fresh: "sr_id p \<notin> set (keys_of (sp_statements parts))"
    and new: "sp_statements new = AList.update (sr_id p) (statement_entry e p) (sp_statements parts)"
    using assms(2) by (auto simp: record_parts_def split: if_splits)
  have "map_of (sp_statements parts) (sr_id p) = None" using fresh by (simp add: map_of_eq_None_iff)
  then have "abs_statements (sp_statements parts) (sr_id p) = None" by (simp add: abs_statements_def)
  then show ?thesis by (simp add: spec_record_def new abs_update entry_abs_statement [OF assms(1)])
qed

lemma valid_sts_abs:
  assumes "list_all (valid_statement c) sts" and "map_of sts sid = Some v"
  shows "\<exists>raw k x s. v = JObj raw \<and> entry_abs v = Some (k, x, s)"
  using assms valid_statement_abs [of c sid v] by (auto simp: list_all_iff dest: map_of_SomeD)

lemma retract_refines:
  assumes valid: "list_all (valid_statement c) (sp_statements parts)" and "retract_parts e p parts = Inr new"
  shows "spec_retract (rt_id p) (abs_statements (sp_statements parts)) = Some (abs_statements (sp_statements new))"
proof -
  obtain raw where raw: "jget (sp_statements parts) (rt_id p) = JObj raw" "jget raw ''status'' = JStr (status_value ACTIVE)"
    and new: "sp_statements new = AList.update (rt_id p)
      (JObj (AList.update ''status'' (JStr (status_value RETRACTED)) raw)) (sp_statements parts)"
    using assms(2) by (auto simp: retract_parts_def split: if_splits json.splits)
  then have m: "map_of (sp_statements parts) (rt_id p) = Some (JObj raw)" by (auto simp: jget_def split: option.splits)
  obtain k x s where abs: "entry_abs (JObj raw) = Some (k, x, s)" using valid_sts_abs [OF valid m] by blast
  then have "s = ACTIVE" using raw(2) status_value_inj by (simp add: entry_abs_JObj del: status_value.simps)
  then show ?thesis
    using abs m entry_abs_status [OF abs, of RETRACTED]
    by (simp add: spec_retract_def abs_statements_def new abs_update [unfolded abs_statements_def] del: status_value.simps)
      (simp add: fun_eq_iff abs_statements_def map_of_update)
qed

lemma resolve_refines:
  assumes wf: "distinct (keys_of (sp_statements parts))" and valid: "list_all (valid_statement c) (sp_statements parts)"
    and ok: "resolved_ok p" and res: "resolve_parts e p parts = Inr new"
  shows "spec_resolve (cr_kind p) (cr_selected p) (abs_statements (sp_statements parts)) = Some (abs_statements (sp_statements new))"
    and "\<forall>sid \<in> set (cr_superseded p). \<exists>x. abs_statements (sp_statements new) sid = Some (cr_kind p, x, SUPERSEDED)"
    and "sp_resolutions new = sp_resolutions parts @ [resolution_entry e p]"
proof -
  let ?sts = "sp_statements parts" and ?k = "cr_kind p" and ?A = "abs_statements (sp_statements parts)"
  obtain sel vks v where sel: "jget ?sts (cr_selected p) = JObj sel" "jget sel ''status'' = JStr (status_value ACTIVE)"
      "jget sel ''kind'' = JStr (kind_value ?k)"
    and vks: "value_keys (active_entries ?k ?sts) = Inr vks" "2 \<le> card (set (map snd vks))"
    and v: "value_key (jget sel ''value'') = Inr v"
    and losers: "cr_superseded p = sort (map fst (filter (\<lambda>sv. snd sv \<noteq> v) vks))"
    and new: "new = \<lparr>sp_statements = supersede (active_entries ?k ?sts) (cr_superseded p) ?sts,
      sp_resolutions = sp_resolutions parts @ [resolution_entry e p],
      sp_commands = AList.update (ev_id e) (command_entry (cr_fingerprint p) (cr_selected p)) (sp_commands parts)\<rparr>"
    using res by (auto simp: resolve_parts_def res_bind_eq_Inr Let_def not_less split: if_splits json.splits)
  have scalar: "is_scalar ?k" using ok by (simp add: resolved_ok_def)
  have m: "map_of ?sts (cr_selected p) = Some (JObj sel)" using sel(1) by (auto simp: jget_def split: option.splits)
  obtain k' x s where abs: "entry_abs (JObj sel) = Some (k', x, s)" using valid_sts_abs [OF valid m] by blast
  then have abs: "entry_abs (JObj sel) = Some (?k, x, ACTIVE)" using sel(2,3) by (simp add: entry_abs_JObj del: status_value.simps)
  then have A_sel: "?A (cr_selected p) = Some (?k, x, ACTIVE)" using m by (auto simp: abs_statements_Some)
  have vx: "v = scalar_key x" using projected_scalar [OF scalar, of _ x] abs v by (auto simp: entry_abs_JObj)
  have inj: "scalar_key y = scalar_key x \<longleftrightarrow> y = x" if act: "?A i = Some (?k, y, ACTIVE)" for i y
  proof -
    obtain raw where "projected_value ?k (jget raw ''value'') = Inr y" using act by (auto simp: abs_statements_Some entry_abs_JObj)
    then show ?thesis using scalar_key_inj [OF scalar] abs by (auto simp: entry_abs_JObj)
  qed
  have set_vks: "set vks = {(sid, scalar_key y) |sid y. ?A sid = Some (?k, y, ACTIVE)}"
    by (rule value_keys_abs(1) [OF wf valid scalar vks(1)])
  have in_losers: "i \<in> set (cr_superseded p) \<longleftrightarrow> (\<exists>y. ?A i = Some (?k, y, ACTIVE) \<and> y \<noteq> x)" for i
    using inj by (force simp: losers set_vks vx)
  have new_abs: "abs_statements (sp_statements new) i = map_option (lose ?k x) (?A i)" for i
  proof (cases "i \<in> set (cr_superseded p)")
    case True
    then obtain y where y: "?A i = Some (?k, y, ACTIVE)" "y \<noteq> x" using in_losers by blast
    then obtain raw where raw: "map_of ?sts i = Some (JObj raw)" "entry_abs (JObj raw) = Some (?k, y, ACTIVE)"
      by (auto simp: abs_statements_Some)
    then have "map_of (active_entries ?k ?sts) i = Some raw"
      by (simp add: map_of_active_entries [OF wf] entry_abs_JObj)
    then have "map_of (sp_statements new) i = Some (JObj (AList.update ''status'' (JStr (status_value SUPERSEDED)) raw))"
      using True by (simp add: new map_of_supersede)
    then show ?thesis using y entry_abs_status [OF raw(2), of SUPERSEDED]
      by (simp add: abs_statements_def [of "sp_statements new"] lose_def del: status_value.simps)
  next
    case False
    then have "map_of (sp_statements new) i = map_of ?sts i" by (simp add: new map_of_supersede)
    then have "abs_statements (sp_statements new) i = ?A i" by (simp add: abs_statements_def)
    then show ?thesis using False in_losers [of i] by (cases "?A i") (auto simp: lose_def)
  qed
  have "finite (set (map snd vks))" "2 \<le> card (set (map snd vks))" using vks(2) by simp_all
  then obtain a b where "a \<in> set (map snd vks)" "b \<in> set (map snd vks)" "a \<noteq> b"
    by (metis card_2_iff' card_le_Suc0_iff_eq not_less_eq_eq numeral_2_eq_2)
  then have "spec_conflict ?k ?A" by (force simp: spec_conflict_def set_vks)
  then show "spec_resolve ?k (cr_selected p) ?A = Some (abs_statements (sp_statements new))"
    using A_sel new_abs by (auto simp: spec_resolve_def fun_eq_iff)
  show "\<forall>sid \<in> set (cr_superseded p). \<exists>x. abs_statements (sp_statements new) sid = Some (?k, x, SUPERSEDED)"
  proof
    fix sid
    assume "sid \<in> set (cr_superseded p)"
    then obtain y where "?A sid = Some (?k, y, ACTIVE)" "y \<noteq> x" using in_losers by blast
    then show "\<exists>x. abs_statements (sp_statements new) sid = Some (?k, x, SUPERSEDED)" by (simp add: new_abs lose_def)
  qed
  show "sp_resolutions new = sp_resolutions parts @ [resolution_entry e p]" by (simp add: new)
qed

section \<open>What a lifecycle step can do\<close>

definition evolves :: "abs_context \<Rightarrow> abs_context \<Rightarrow> bool" where
  "evolves A B = (\<forall>sid k x s. A sid = Some (k, x, s) \<longrightarrow>
     (\<exists>s'. B sid = Some (k, x, s') \<and> (s \<noteq> ACTIVE \<longrightarrow> s' = s)))"

lemma evolves_refl [simp]: "evolves A A"
  by (simp add: evolves_def)

lemma evolves_trans: "evolves A B \<Longrightarrow> evolves B C \<Longrightarrow> evolves A C"
  unfolding evolves_def by metis

lemma spec_evolves:
  "spec_record sid st A = Some B \<Longrightarrow> evolves A B"
  "spec_retract sid A = Some B \<Longrightarrow> evolves A B"
  "spec_resolve k sid A = Some B \<Longrightarrow> evolves A B"
  by (auto simp: spec_record_def spec_retract_def spec_resolve_def evolves_def lose_def
      split: if_splits option.splits statement_status.splits)

lemma spec_resolve_settles:
  assumes "spec_resolve k sid A = Some B"
  shows "\<not> spec_conflict k B" and "\<exists>x. A sid = Some (k, x, ACTIVE) \<and> B sid = Some (k, x, ACTIVE)"
  using assms
  by (auto simp: spec_resolve_def spec_conflict_def lose_def split: if_splits option.splits statement_status.splits)



section \<open>The invariant of the projected context\<close>

text \<open>The collections pass the reducers' own checks, and every resolution names a winner of its kind
  and losers of its kind that are superseded.\<close>

definition resolution_linked :: "abs_context \<Rightarrow> json \<Rightarrow> bool" where
  "resolution_linked A v =
     (case v of
        JObj raw \<Rightarrow>
          (case (kind_field (jget raw ''kind''), text_value (jget raw ''selected_statement_id''),
                 text_array (jget raw ''superseded_statement_ids'')) of
             (Inr k, Inr sel, Inr losers) \<Rightarrow>
               (case A sel of None \<Rightarrow> False | Some (k', _, _) \<Rightarrow> k' = k) \<and>
               list_all (\<lambda>l. case A l of None \<Rightarrow> False | Some (k', _, s) \<Rightarrow> k' = k \<and> s = SUPERSEDED) losers
           | _ \<Rightarrow> False)
      | _ \<Rightarrow> False)"

definition parts_ok :: "string \<Rightarrow> study_parts \<Rightarrow> bool" where
  "parts_ok c parts =
     (wf_parts parts \<and> list_all (valid_statement c) (sp_statements parts) \<and>
      list_all (\<lambda>kv. is_text (fst kv)) (sp_statements parts) \<and>
      list_all valid_resolution (sp_resolutions parts) \<and> list_all valid_command (sp_commands parts) \<and>
      list_all (resolution_linked (abs_statements (sp_statements parts))) (sp_resolutions parts))"

lemma resolution_linked_evolves: "evolves A B \<Longrightarrow> resolution_linked A v \<Longrightarrow> resolution_linked B v"
proof -
  assume ev: "evolves A B" and link: "resolution_linked A v"
  have one: "case B i of None \<Rightarrow> False | Some (k', _, _) \<Rightarrow> k' = k"
    if "case A i of None \<Rightarrow> False | Some (k', _, _) \<Rightarrow> k' = k" for i k
    using that ev unfolding evolves_def by (cases "A i") fastforce+
  have two: "case B i of None \<Rightarrow> False | Some (k', _, s) \<Rightarrow> k' = k \<and> s = SUPERSEDED"
    if "case A i of None \<Rightarrow> False | Some (k', _, s) \<Rightarrow> k' = k \<and> s = SUPERSEDED" for i k
    using that ev unfolding evolves_def by (cases "A i") fastforce+
  show "resolution_linked B v"
    using link one two by (auto simp: resolution_linked_def list_all_iff split: json.splits sum.splits)
qed

lemma linked_all_evolves:
  "list_all (resolution_linked A) rs \<Longrightarrow> evolves A B \<Longrightarrow> list_all (resolution_linked B) rs"
  using resolution_linked_evolves by (auto simp: list_all_iff)

lemma command_entry_valid: "event_id \<noteq> [] \<Longrightarrow> is_sha256 fp \<Longrightarrow> is_text sid \<Longrightarrow> valid_command (event_id, command_entry fp sid)"
  by (simp add: valid_command_def command_entry_def has_keys_def jget_def text_value_def is_ok_def)

lemma timestamp_entry: "wf_event e \<Longrightarrow> is_ok (timestamp_field (JStr (isoformat False (ev_at e))))"
  by (simp add: timestamp_field_def text_value_def isoformat_text fromisoformat_isoformat wf_event_def is_ok_def)

lemma statement_entry_valid:
  assumes "recorded_ok p" and "wf_event e" and "ev_session e = Some s"
  shows "valid_statement (ev_course e) (sr_id p, statement_entry e p)"
proof -
  have "is_text s" using assms(2,3) by (simp add: wf_event_def text_option_def)
  then show ?thesis
    using assms projected_manifest [of "sr_statement p"] timestamp_entry [of e]
    by (simp add: valid_statement_def statement_entry_def has_keys_def statement_keys_def jget_def session_text_def
        recorded_ok_def text_value_def is_ok_def del: status_value.simps)
qed

lemma resolution_entry_valid:
  assumes "resolved_ok p" and "wf_event e"
  shows "valid_resolution (resolution_entry e p)"
proof -
  have "text_array (text_items (cr_superseded p)) = Inr (cr_superseded p)"
    using assms(1) by (intro text_items_array) (simp add: resolved_ok_def)
  moreover have "is_text (ev_id e)" using assms(2) by (simp add: wf_event_def)
  ultimately show ?thesis
    using assms timestamp_entry [of e]
    by (simp add: valid_resolution_def resolution_entry_def has_keys_def resolution_keys_def jget_def
        resolved_ok_def text_value_def is_ok_def)
qed

lemma record_ok:
  assumes parts: "parts_ok (ev_course e) parts" and p: "recorded_ok p" and e: "wf_event e" "ev_session e = Some s"
    and new: "record_parts e p parts = Inr new"
  shows "parts_ok (ev_course e) new"
proof -
  have "sp_statements new = AList.update (sr_id p) (statement_entry e p) (sp_statements parts)"
    "sp_resolutions new = sp_resolutions parts"
    "sp_commands new = AList.update (ev_id e) (command_entry (sr_fingerprint p) (sr_id p)) (sp_commands parts)"
    using new by (auto simp: record_parts_def split: if_splits)
  moreover have "evolves (abs_statements (sp_statements parts)) (abs_statements (sp_statements new))"
    using spec_evolves(1) [OF record_refines [OF p new]] .
  moreover have "ev_id e \<noteq> []" using e by (auto simp: wf_event_def is_text_def)
  ultimately show ?thesis
    using parts parts_wf(1) [OF _ new] statement_entry_valid [OF p e] p
    by (auto simp: parts_ok_def recorded_ok_def intro!: list_all_update command_entry_valid
        elim!: linked_all_evolves)
qed

lemma retract_ok:
  assumes parts: "parts_ok (ev_course e) parts" and p: "is_text (rt_id p)" "is_sha256 (rt_fingerprint p)" and e: "wf_event e"
    and new: "retract_parts e p parts = Inr new"
  shows "parts_ok (ev_course e) new"
proof -
  obtain raw where raw: "jget (sp_statements parts) (rt_id p) = JObj raw"
    and "sp_statements new = AList.update (rt_id p)
      (JObj (AList.update ''status'' (JStr (status_value RETRACTED)) raw)) (sp_statements parts)"
    "sp_resolutions new = sp_resolutions parts"
    "sp_commands new = AList.update (ev_id e) (command_entry (rt_fingerprint p) (rt_id p)) (sp_commands parts)"
    using new by (auto simp: retract_parts_def split: if_splits json.splits)
  moreover have "(rt_id p, JObj raw) \<in> set (sp_statements parts)"
    using raw by (auto simp: jget_def split: option.splits dest: map_of_SomeD)
  moreover have valid: "list_all (valid_statement (ev_course e)) (sp_statements parts)" using parts by (simp add: parts_ok_def)
  moreover have "evolves (abs_statements (sp_statements parts)) (abs_statements (sp_statements new))"
    using spec_evolves(2) [OF retract_refines [OF valid new]] .
  moreover have "ev_id e \<noteq> []" using e by (auto simp: wf_event_def is_text_def)
  ultimately show ?thesis
    using parts parts_wf(2) [OF _ new] p valid_statement_status [of "ev_course e" "rt_id p" raw RETRACTED]
    by (auto simp: parts_ok_def list_all_iff [of "valid_statement _" "sp_statements parts"] simp del: status_value.simps
        intro!: list_all_update command_entry_valid elim!: linked_all_evolves)
qed

lemma resolve_ok:
  assumes parts: "parts_ok (ev_course e) parts" and p: "resolved_ok p" and e: "wf_event e"
    and new: "resolve_parts e p parts = Inr new"
  shows "parts_ok (ev_course e) new"
proof -
  let ?sts = "sp_statements parts" and ?k = "cr_kind p"
  have wfp: "wf_parts parts" and valid: "list_all (valid_statement (ev_course e)) ?sts"
    and texts: "list_all (\<lambda>kv. is_text (fst kv)) ?sts" using parts by (simp_all add: parts_ok_def)
  then have dist: "distinct (keys_of ?sts)" by (simp add: wf_parts_def)
  have wfn: "wf_parts new" by (rule parts_wf(3) [OF wfp new])
  then have distn: "distinct (keys_of (sp_statements new))" by (simp add: wf_parts_def)
  note ref = resolve_refines [OF dist valid p new]
  have sts: "sp_statements new = supersede (active_entries ?k ?sts) (cr_superseded p) ?sts"
    and cmds: "sp_commands new = AList.update (ev_id e) (command_entry (cr_fingerprint p) (cr_selected p)) (sp_commands parts)"
    using new by (auto simp: resolve_parts_def res_bind_eq_Inr Let_def split: if_splits json.splits)
  have entry: "valid_statement (ev_course e) (i, v) \<and> is_text i" if i: "map_of (sp_statements new) i = Some v" for i v
  proof (cases "map_of (active_entries ?k ?sts) i")
    case (Some raw)
    then have m: "map_of ?sts i = Some (JObj raw)" by (simp add: map_of_active_entries [OF dist])
    then have "valid_statement (ev_course e) (i, JObj raw)" "is_text i"
      using valid texts by (auto simp: list_all_iff dest!: map_of_SomeD)
    then show ?thesis
      using i m Some valid_statement_status [of "ev_course e" i raw SUPERSEDED]
      by (auto simp: sts map_of_supersede simp del: status_value.simps split: if_splits)
  next
    case None
    then have "map_of ?sts i = Some v" using i by (simp add: sts map_of_supersede split: if_splits)
    then show ?thesis using valid texts by (auto simp: list_all_iff dest!: map_of_SomeD)
  qed
  have linked_new: "resolution_linked (abs_statements (sp_statements new)) (resolution_entry e p)"
  proof -
    obtain x where "abs_statements (sp_statements new) (cr_selected p) = Some (?k, x, ACTIVE)"
      using spec_resolve_settles(2) [OF ref(1)] by blast
    moreover have "text_array (text_items (cr_superseded p)) = Inr (cr_superseded p)"
      using p by (intro text_items_array) (simp add: resolved_ok_def)
    ultimately show ?thesis
      using ref(2) p by (auto simp: resolution_linked_def resolution_entry_def jget_def text_value_def resolved_ok_def list_all_iff)
  qed
  have "ev_id e \<noteq> []" using e by (auto simp: wf_event_def is_text_def)
  then have "list_all valid_command (sp_commands new)"
    using parts p unfolding cmds by (auto simp: parts_ok_def resolved_ok_def intro!: list_all_update command_entry_valid)
  moreover have "list_all (valid_statement (ev_course e)) (sp_statements new)" "list_all (\<lambda>kv. is_text (fst kv)) (sp_statements new)"
    using entry by (simp_all add: list_all_map_of [OF distn])
  ultimately show ?thesis
    using parts wfn ref(3) resolution_entry_valid [OF p e] linked_new
      linked_all_evolves [OF _ spec_evolves(3) [OF ref(1)]]
    by (simp add: parts_ok_def)
qed



section \<open>The view reads every state the reducers produce\<close>

definition context_ok :: "string \<Rightarrow> json_object \<Rightarrow> bool" where
  "context_ok c s =
     (case get_default s ''study_context'' (JObj []) of
        JObj raw \<Rightarrow>
          (raw = [] \<or> has_keys raw [''statements'', ''resolutions'', ''commands'']) \<and>
          (case collections raw of Inl _ \<Rightarrow> False | Inr parts \<Rightarrow> parts_ok c parts)
      | _ \<Rightarrow> False)"

lemma context_ok_iff:
  "context_ok c s \<longleftrightarrow> (\<exists>raw parts. get_default s ''study_context'' (JObj []) = JObj raw \<and>
     (raw = [] \<or> has_keys raw [''statements'', ''resolutions'', ''commands'']) \<and> collections raw = Inr parts \<and> parts_ok c parts)"
  by (auto simp: context_ok_def split: json.splits sum.splits)

lemma context_ok_parts: "context_ok (ev_course e) s \<Longrightarrow> study_parts_of s e = Inr parts \<Longrightarrow> parts_ok (ev_course e) parts"
  by (auto simp: context_ok_iff study_parts_of_def res_bind_eq_Inr split: if_splits)

lemma context_ok_replace: "parts_ok c new \<Longrightarrow> context_ok c (replace_parts s new)"
  unfolding context_ok_iff
  by (intro exI [of _ "[(''statements'', JObj (sp_statements new)), (''resolutions'', JArr (sp_resolutions new)),
          (''commands'', JObj (sp_commands new))]"] exI [of _ new])
    (simp add: replace_parts_def get_default_def map_of_update collections_def has_keys_def)

lemma context_ok_empty: "map_of s ''study_context'' = None \<Longrightarrow> context_ok c s"
  by (simp add: context_ok_def get_default_def collections_def parts_ok_def wf_parts_def)

lemma reducers_context_ok:
  assumes "context_ok (ev_course e) s" and "wf_event e"
  shows "decode_statement_recorded e = Inr r \<Longrightarrow> reduce_statement_recorded s e r = Inr s' \<Longrightarrow> context_ok (ev_course e) s'"
    and "decode_statement_retracted e = Inr t \<Longrightarrow> reduce_statement_retracted s e t = Inr s' \<Longrightarrow> context_ok (ev_course e) s'"
    and "decode_conflict_resolved e = Inr c \<Longrightarrow> reduce_conflict_resolved s e c = Inr s' \<Longrightarrow> context_ok (ev_course e) s'"
proof -
  show "context_ok (ev_course e) s'" if "decode_statement_recorded e = Inr r" "reduce_statement_recorded s e r = Inr s'"
    using that decoded_ok(1) [OF that(1)] context_ok_parts [OF assms(1)] record_ok [OF _ _ assms(2)]
    by (auto simp: reduce_statement_recorded_def res_bind_eq_Inr split: if_splits intro!: context_ok_replace)
  show "context_ok (ev_course e) s'" if "decode_statement_retracted e = Inr t" "reduce_statement_retracted s e t = Inr s'"
    using that decoded_ok(2) [OF that(1)] context_ok_parts [OF assms(1)] retract_ok [OF _ _ _ assms(2)]
    by (auto simp: reduce_statement_retracted_def res_bind_eq_Inr intro!: context_ok_replace)
  show "context_ok (ev_course e) s'" if "decode_conflict_resolved e = Inr c" "reduce_conflict_resolved s e c = Inr s'"
    using that decoded_ok(3) [OF that(1)] context_ok_parts [OF assms(1)] resolve_ok [OF _ _ assms(2)]
    by (auto simp: reduce_conflict_resolved_def res_bind_eq_Inr intro!: context_ok_replace)
qed

lemma view_text_of: "text_value v = Inr s \<Longrightarrow> view_text v = Inr s \<and> mk_identifier s = Inr s"
  by (auto simp: text_value_Inr view_text_def is_text_def)

lemma view_value_of:
  assumes "projected_value k v = Inr x"
  shows "\<exists>u st. view_value k v = Inr u \<and> mk_statement k u = Inr st \<and> in_value st = x"
  using assms
  by (auto simp: projected_value_def map_error_eq_Inr res_bind_eq_Inr view_value_def iso_date_def scalar_value_def
      text_value_Inr view_text_def is_text_def split: if_splits json.splits)

lemma view_statement_of:
  assumes "valid_statement c (sid, v)" and "is_text sid"
  shows "\<exists>st. view_statement c (sid, v) = Inr st \<and> st_id st = sid \<and> entry_abs v = Some (st_kind st, st_value st, st_status st)"
proof -
  obtain raw k x s where v: "v = JObj raw" and abs: "entry_abs v = Some (k, x, s)"
    using valid_statement_abs [OF assms(1)] by blast
  then have f: "jget raw ''kind'' = JStr (kind_value k)" "projected_value k (jget raw ''value'') = Inr x"
    "jget raw ''status'' = JStr (status_value s)" by (simp_all add: entry_abs_JObj)
  obtain u st where u: "view_value k (jget raw ''value'') = Inr u" "mk_statement k u = Inr st" "in_value st = x"
    using view_value_of [OF f(2)] by blast
  obtain sess origin at where t: "text_value (jget raw ''session_id'') = Inr sess"
    "text_value (jget raw ''origin_interaction_id'') = Inr origin" "timestamp_field (jget raw ''recorded_at'') = Inr at"
    using assms(1) v by (auto simp: valid_statement_def is_ok_iff)
  have at: "view_timestamp (jget raw ''recorded_at'') = Inr at"
    using t(3) by (auto simp: timestamp_field_def view_timestamp_def res_bind_eq_Inr dest: view_text_of)
  have can: "canonical_statement_value k x = Inr x"
    using u(2,3) canonical_idem by (auto simp: mk_statement_def res_bind_eq_Inr)
  have kt: "view_text (JStr (kind_value k)) = Inr (kind_value k)" "view_text (JStr (status_value s)) = Inr (status_value s)"
    "kind_of (kind_value k) = Inr k" "status_of (status_value s) = Inr s"
    by (cases k; cases s; simp add: view_text_def kind_of_def status_of_def)+
  have "view_statement c (sid, v) = Inr \<lparr>st_id = sid, st_course = c, st_session = sess, st_origin = origin,
      st_kind = k, st_value = x, st_status = s, st_recorded = at\<rparr>"
    using assms v f u at can kt view_text_of [OF t(1)] view_text_of [OF t(2)]
    by (simp add: view_statement_def valid_statement_def mk_context_statement_def)
  then show ?thesis using abs by auto
qed

lemma view_resolution_of:
  assumes "valid_resolution v"
  shows "\<exists>r raw. view_resolution v = Inr r \<and> v = JObj raw \<and> kind_field (jget raw ''kind'') = Inr (rs_kind r) \<and>
    text_value (jget raw ''selected_statement_id'') = Inr (rs_selected r) \<and>
    text_array (jget raw ''superseded_statement_ids'') = Inr (rs_superseded r)"
proof -
  obtain raw k sel losers eid at where v: "v = JObj raw" and f: "has_keys raw resolution_keys"
    "text_value (jget raw ''event_id'') = Inr eid" "kind_field (jget raw ''kind'') = Inr k" "is_scalar k"
    "text_value (jget raw ''selected_statement_id'') = Inr sel"
    "text_array (jget raw ''superseded_statement_ids'') = Inr losers" "sel \<notin> set losers" "distinct losers"
    "timestamp_field (jget raw ''resolved_at'') = Inr at"
    using assms by (auto simp: valid_resolution_def is_ok_iff split: json.splits sum.splits)
  have at: "view_timestamp (jget raw ''resolved_at'') = Inr at"
    using f(9) by (auto simp: timestamp_field_def view_timestamp_def res_bind_eq_Inr dest: view_text_of)
  have items: "jget raw ''superseded_statement_ids'' = JArr (map JStr losers)" "list_all is_text losers"
    using text_array_Inr [OF f(6)] text_array_texts [OF f(6)] by (simp_all add: text_items_def)
  have "map_res (\<lambda>i. res_bind (view_text i) mk_identifier) (map JStr losers) = Inr losers"
    using items(2) by (induction losers) (auto simp: view_text_def is_text_def)
  moreover have "view_text (jget raw ''kind'') = Inr (kind_value k)" "kind_of (kind_value k) = Inr k"
    using f(3) by (cases k; simp add: kind_field_Inr view_text_def kind_of_def)+
  ultimately have "view_resolution v = Inr \<lparr>rs_event = eid, rs_kind = k, rs_selected = sel, rs_superseded = losers, rs_at = at\<rparr>"
    using v f at items view_text_of [OF f(2)] view_text_of [OF f(5)]
    by (simp add: view_resolution_def mk_resolution_def)
  then show ?thesis using v f by auto
qed



definition triple :: "context_statement \<Rightarrow> statement_kind \<times> statement_value \<times> statement_status" where
  "triple st = (st_kind st, st_value st, st_status st)"

text \<open>The statements of a snapshot are the abstract context.\<close>

definition represents :: "context_statement list \<Rightarrow> abs_context \<Rightarrow> bool" where
  "represents sts A = (distinct (map st_id sts) \<and>
     (\<forall>sid t. A sid = Some t \<longleftrightarrow> (\<exists>st \<in> set sts. st_id st = sid \<and> triple st = t)))"

lemma represents_mset: "mset sts = mset ts \<Longrightarrow> represents sts A \<longleftrightarrow> represents ts A"
proof -
  assume m: "mset sts = mset ts"
  then have "mset (map st_id sts) = mset (map st_id ts)" by simp
  then show ?thesis using mset_eq_setD [OF m] mset_eq_imp_distinct_iff unfolding represents_def by metis
qed

lemma view_statements_of:
  assumes "distinct (keys_of sts)" and "list_all (valid_statement c) sts" and "list_all (\<lambda>kv. is_text (fst kv)) sts"
  shows "\<exists>us. map_res (view_statement c) sts = Inr us \<and> represents us (abs_statements sts)"
proof -
  have "\<forall>kv \<in> set sts. \<exists>st. view_statement c kv = Inr st \<and> st_id st = fst kv \<and> entry_abs (snd kv) = Some (triple st)"
    using assms(2,3) view_statement_of by (fastforce simp: list_all_iff triple_def)
  then obtain g where g: "\<And>kv. kv \<in> set sts \<Longrightarrow> view_statement c kv = Inr (g kv) \<and> st_id (g kv) = fst kv \<and>
      entry_abs (snd kv) = Some (triple (g kv))" by metis
  have "map st_id (map g sts) = keys_of sts" using g by simp
  moreover have "abs_statements sts sid = Some t \<longleftrightarrow> (\<exists>st \<in> set (map g sts). st_id st = sid \<and> triple st = t)" for sid t
  proof -
    have "abs_statements sts sid = Some t \<longleftrightarrow> (\<exists>v. (sid, v) \<in> set sts \<and> entry_abs v = Some t)"
      using assms(1) by (auto simp: abs_statements_def bind_eq_Some_conv)
    also have "\<dots> \<longleftrightarrow> (\<exists>kv \<in> set sts. fst kv = sid \<and> triple (g kv) = t)" using g by force
    finally show ?thesis using g by auto
  qed
  ultimately have "represents (map g sts) (abs_statements sts)" using assms(1) by (simp add: represents_def del: map_map)
  moreover have "map_res (view_statement c) sts = Inr (map g sts)" using g by (intro map_res_all_Inr) simp
  ultimately show ?thesis by blast
qed

lemma by_id_represents: "represents sts A \<Longrightarrow> map_option triple (by_id sts sid) = A sid"
proof -
  assume r: "represents sts A"
  have d: "distinct (keys_of (rev (map (\<lambda>st. (st_id st, st)) sts)))"
    using r by (simp add: represents_def comp_def rev_map [symmetric])
  have "by_id sts sid = Some st \<longleftrightarrow> st \<in> set sts \<and> st_id st = sid" for st
    unfolding by_id_def map_of_eq_Some_iff [OF d] by auto
  moreover have "A sid = Some t \<longleftrightarrow> (\<exists>st \<in> set sts. st_id st = sid \<and> triple st = t)" for t
    using r unfolding represents_def by blast
  ultimately have "map_option triple (by_id sts sid) = Some t \<longleftrightarrow> A sid = Some t" for t
    unfolding map_option_eq_Some by blast
  then show ?thesis by (metis not_Some_eq)
qed

lemma linked_of:
  assumes "represents sts A" and "resolution_linked A v" and "v = JObj raw" and "kind_field (jget raw ''kind'') = Inr (rs_kind r)"
    "text_value (jget raw ''selected_statement_id'') = Inr (rs_selected r)"
    "text_array (jget raw ''superseded_statement_ids'') = Inr (rs_superseded r)"
  shows "linked sts r"
proof -
  have A: "A i = map_option triple (by_id sts i)" for i using by_id_represents [OF assms(1)] by simp
  have "(case A (rs_selected r) of None \<Rightarrow> False | Some (k', _, _) \<Rightarrow> k' = rs_kind r)"
    "list_all (\<lambda>l. case A l of None \<Rightarrow> False | Some (k', _, s) \<Rightarrow> k' = rs_kind r \<and> s = SUPERSEDED) (rs_superseded r)"
    using assms(2-) by (simp_all add: resolution_linked_def)
  then show ?thesis
    by (auto simp: linked_def list_all_iff A triple_def split: option.splits)
qed

lemma view_resolutions_of:
  assumes "represents sts A" and "list_all valid_resolution vs" and "list_all (resolution_linked A) vs"
  shows "\<exists>rs. map_res view_resolution vs = Inr rs \<and> list_all (linked sts) rs"
proof -
  have "\<forall>v \<in> set vs. \<exists>r. view_resolution v = Inr r \<and> linked sts r"
  proof
    fix v
    assume "v \<in> set vs"
    then have v: "valid_resolution v" "resolution_linked A v" using assms(2,3) by (auto simp: list_all_iff)
    from view_resolution_of [OF v(1)] show "\<exists>r. view_resolution v = Inr r \<and> linked sts r"
      using linked_of [OF assms(1) v(2)] by blast
  qed
  then obtain g where "\<And>v. v \<in> set vs \<Longrightarrow> view_resolution v = Inr (g v) \<and> linked sts (g v)" by metis
  then show ?thesis by (intro exI [of _ "map g vs"]) (simp add: map_res_all_Inr list_all_iff)
qed

lemma represents_conflict:
  assumes "represents sts A" and key: "\<And>i j v w. A i = Some (k, v, ACTIVE) \<Longrightarrow> A j = Some (k, w, ACTIVE) \<Longrightarrow>
      view_value_key v = view_value_key w \<longleftrightarrow> v = w"
  shows "card (set (map (view_value_key \<circ> st_value) (filter (\<lambda>st. st_kind st = k \<and> st_status st = ACTIVE) sts))) > 1
    \<longleftrightarrow> spec_conflict k A"
proof -
  let ?active = "filter (\<lambda>st. st_kind st = k \<and> st_status st = ACTIVE) sts"
  have A: "A i = Some (k, v, ACTIVE) \<longleftrightarrow> (\<exists>st \<in> set ?active. st_id st = i \<and> st_value st = v)" for i v
    using assms(1) by (auto simp: represents_def triple_def)
  have "card (set (map (view_value_key \<circ> st_value) ?active)) > 1 \<longleftrightarrow>
      (\<exists>st \<in> set ?active. \<exists>st' \<in> set ?active. view_value_key (st_value st) \<noteq> view_value_key (st_value st'))"
    using card_le_Suc0_iff_eq [of "set (map (view_value_key \<circ> st_value) ?active)"]
    by (simp add: not_le [symmetric] One_nat_def)
  also have "\<dots> \<longleftrightarrow> (\<exists>st \<in> set ?active. \<exists>st' \<in> set ?active. st_value st \<noteq> st_value st')"
  proof -
    have "view_value_key (st_value st) = view_value_key (st_value st') \<longleftrightarrow> st_value st = st_value st'"
      if "st \<in> set ?active" "st' \<in> set ?active" for st st'
      by (rule key [of "st_id st" _ "st_id st'"]) (use that A in blast)+
    then show ?thesis by blast
  qed
  also have "\<dots> \<longleftrightarrow> spec_conflict k A" unfolding spec_conflict_def A by blast
  finally show ?thesis .
qed

lemma view_conflicts_of:
  assumes "distinct (map st_id sts)" and "\<forall>k \<in> set ks. is_scalar k"
    and "\<And>k. k \<in> set ks \<Longrightarrow> card (set (map (view_value_key \<circ> st_value)
      (filter (\<lambda>st. st_kind st = k \<and> st_status st = ACTIVE) sts))) > 1 \<longleftrightarrow> P k"
  shows "\<exists>cfs. view_conflicts sts ks = Inr cfs \<and> cf_kind ` set cfs = {k \<in> set ks. P k}"
  using assms(2,3)
proof (induction ks)
  case (Cons k ks)
  let ?active = "filter (\<lambda>st. st_kind st = k \<and> st_status st = ACTIVE) sts"
  obtain cfs where cfs: "view_conflicts sts ks = Inr cfs" "cf_kind ` set cfs = {k \<in> set ks. P k}" using Cons by auto
  show ?case
  proof (cases "P k")
    case True
    then have gt: "1 < card (set (map (view_value_key \<circ> st_value) ?active))" using Cons.prems(2) [of k] by simp
    then have "2 \<le> length ?active" using card_length [of "map (view_value_key \<circ> st_value) ?active"] by simp
    moreover have "distinct (map st_id ?active)" using assms(1) by (rule distinct_map_filter)
    ultimately have "mk_conflict k (map st_id ?active) = Inr \<lparr>cf_kind = k, cf_statements = map st_id ?active\<rparr>"
      using Cons.prems(1) by (simp add: mk_conflict_def)
    then show ?thesis using gt cfs True by (auto simp: Let_def)
  next
    case False
    then show ?thesis using Cons.prems(2) [of k] cfs by (auto simp: Let_def)
  qed
qed simp

lemma scalar_value_keys:
  assumes "list_all (valid_statement c) sts" and "distinct (keys_of sts)" and "is_scalar k"
    and "abs_statements sts i = Some (k, v, ACTIVE)" and "abs_statements sts j = Some (k, w, ACTIVE)"
  shows "view_value_key v = view_value_key w \<longleftrightarrow> v = w"
proof -
  obtain a b where "projected_value k a = Inr v" "projected_value k b = Inr w"
    using assms(4,5) by (auto simp: abs_statements_Some entry_abs_JObj)
  note p = projected_scalar [OF assms(3) this(1)] projected_scalar [OF assms(3) this(2)] scalar_key_inj [OF assms(3) this]
  have "view_value_key v = view_value_key w \<longleftrightarrow> scalar_key v = scalar_key w"
  proof (cases "k = DEADLINE")
    case True
    then obtain d d' where "v = V_date d" "w = V_date d'" using p(1,2) by blast
    then show ?thesis by simp
  next
    case False
    then have "k = WEEKLY_TIME_BUDGET" using assms(3) by (simp add: is_scalar_def)
    then obtain m n where "v = V_int m" "w = V_int n" using p(1,2) by blast
    then show ?thesis by simp
  qed
  then show ?thesis using p(3) by simp
qed

definition abs_context_of :: "json_object \<Rightarrow> abs_context" where
  "abs_context_of s =
     (case get_default s ''study_context'' (JObj []) of
        JObj raw \<Rightarrow> (case collections raw of Inl _ \<Rightarrow> Map.empty | Inr parts \<Rightarrow> abs_statements (sp_statements parts))
      | _ \<Rightarrow> Map.empty)"

lemma study_view_total:
  assumes ok: "context_ok c (proj_state p)" and course: "''course'' \<in> set (keys_of (proj_state p))"
    and p: "proj_course p = c" "1 \<le> proj_seq p"
  shows "\<exists>sn. study_view_get c p = Inr sn \<and> sn_course sn = c \<and> sn_sequence sn = proj_seq p \<and>
    represents (sn_statements sn) (abs_context_of (proj_state p)) \<and>
    cf_kind ` set (sn_conflicts sn) = {k. is_scalar k \<and> spec_conflict k (abs_context_of (proj_state p))}"
proof -
  obtain raw parts where raw: "get_default (proj_state p) ''study_context'' (JObj []) = JObj raw"
      "raw = [] \<or> has_keys raw [''statements'', ''resolutions'', ''commands'']" "collections raw = Inr parts"
    and parts: "parts_ok c parts"
    using ok by (auto simp: context_ok_iff)
  let ?A = "abs_statements (sp_statements parts)"
  have A: "abs_context_of (proj_state p) = ?A" by (simp add: abs_context_of_def raw)
  have coll: "get_default raw ''statements'' (JObj []) = JObj (sp_statements parts)"
    "get_default raw ''resolutions'' (JArr []) = JArr (sp_resolutions parts)"
    using raw(3) by (auto simp: collections_def split: json.splits)
  have dist: "distinct (keys_of (sp_statements parts))" and valid: "list_all (valid_statement c) (sp_statements parts)"
    and texts: "list_all (\<lambda>kv. is_text (fst kv)) (sp_statements parts)"
    and res: "list_all valid_resolution (sp_resolutions parts)" "list_all (resolution_linked ?A) (sp_resolutions parts)"
    using parts by (simp_all add: parts_ok_def wf_parts_def)
  obtain us where us: "map_res (view_statement c) (sp_statements parts) = Inr us" "represents us ?A"
    using view_statements_of [OF dist valid texts] by blast
  define sts where "sts = sort_key (\<lambda>st. (instant (st_recorded st), st_id st)) us"
  have rep: "represents sts ?A" using us(2) represents_mset [of sts us ?A] by (simp add: sts_def)
  obtain rs where rs: "map_res view_resolution (sp_resolutions parts) = Inr rs" "list_all (linked sts) rs"
    using view_resolutions_of [OF rep res] by blast
  have "card (set (map (view_value_key \<circ> st_value) (filter (\<lambda>st. st_kind st = k \<and> st_status st = ACTIVE) sts))) > 1
      \<longleftrightarrow> spec_conflict k ?A" if "k \<in> set [DEADLINE, WEEKLY_TIME_BUDGET]" for k
    by (rule represents_conflict [OF rep])
      (use that scalar_value_keys [OF valid dist, of k] in \<open>auto simp: is_scalar_def\<close>)
  then obtain cfs where cfs: "view_conflicts sts [DEADLINE, WEEKLY_TIME_BUDGET] = Inr cfs"
    "cf_kind ` set cfs = {k \<in> set [DEADLINE, WEEKLY_TIME_BUDGET]. spec_conflict k ?A}"
    using view_conflicts_of [of sts "[DEADLINE, WEEKLY_TIME_BUDGET]" "\<lambda>k. spec_conflict k ?A"] rep
    by (auto simp: represents_def is_scalar_def)
  have "study_view_get c p = Inr \<lparr>sn_course = c, sn_sequence = proj_seq p, sn_statements = sts, sn_resolutions = rs, sn_conflicts = cfs\<rparr>"
    using raw coll us rs cfs p course
    by (auto simp: study_view_get_def study_projection_def sts_def Let_def mk_snapshot_def)
  moreover have "{k \<in> set [DEADLINE, WEEKLY_TIME_BUDGET]. spec_conflict k ?A} = {k. is_scalar k \<and> spec_conflict k ?A}"
    by (auto simp: is_scalar_def)
  ultimately show ?thesis using rep cfs A by auto
qed

section \<open>Abstraction of a projection\<close>

lemma abs_replace: "abs_context_of (replace_parts s new) = abs_statements (sp_statements new)"
  by (simp add: abs_context_of_def replace_parts_def get_default_def map_of_update collections_def)

lemma abs_parts: "study_parts_of s e = Inr parts \<Longrightarrow> abs_context_of s = abs_statements (sp_statements parts)"
  by (auto simp: study_parts_of_def abs_context_of_def res_bind_eq_Inr split: json.splits if_splits)

lemma parts_checked:
  "wf_state s \<Longrightarrow> study_parts_of s e = Inr parts \<Longrightarrow>
   wf_parts parts \<and> list_all (valid_statement (ev_course e)) (sp_statements parts)"
  using study_parts_wf [of s e parts]
  by (auto simp: wf_state_def study_parts_of_def res_bind_eq_Inr require_def simp del: wf_json_JObj split: json.splits if_splits)

lemma spec_resolve_conflict: "spec_resolve k sid A = Some B \<Longrightarrow> spec_conflict k A"
  by (auto simp: spec_resolve_def split: option.splits statement_status.splits if_splits)

lemma reducers_refine:
  assumes wf: "wf_state s"
  shows "decode_statement_recorded e = Inr r \<Longrightarrow> reduce_statement_recorded s e r = Inr s' \<Longrightarrow>
      spec_record (sr_id r) (sr_statement r) (abs_context_of s) = Some (abs_context_of s')"
    and "decode_statement_retracted e = Inr t \<Longrightarrow> reduce_statement_retracted s e t = Inr s' \<Longrightarrow>
      spec_retract (rt_id t) (abs_context_of s) = Some (abs_context_of s')"
    and "decode_conflict_resolved e = Inr c \<Longrightarrow> reduce_conflict_resolved s e c = Inr s' \<Longrightarrow>
      spec_resolve (cr_kind c) (cr_selected c) (abs_context_of s) = Some (abs_context_of s')"
proof -
  show "spec_record (sr_id r) (sr_statement r) (abs_context_of s) = Some (abs_context_of s')"
    if dec: "decode_statement_recorded e = Inr r" and red: "reduce_statement_recorded s e r = Inr s'"
  proof -
    obtain parts new where "study_parts_of s e = Inr parts" "record_parts e r parts = Inr new" "s' = replace_parts s new"
      using red by (auto simp: reduce_statement_recorded_def res_bind_eq_Inr split: if_splits)
    then show ?thesis using record_refines [of r e parts new] decoded_ok(1) [OF dec] by (simp add: abs_parts abs_replace)
  qed
  show "spec_retract (rt_id t) (abs_context_of s) = Some (abs_context_of s')"
    if dec: "decode_statement_retracted e = Inr t" and red: "reduce_statement_retracted s e t = Inr s'"
  proof -
    obtain parts new where "study_parts_of s e = Inr parts" "retract_parts e t parts = Inr new" "s' = replace_parts s new"
      using red by (auto simp: reduce_statement_retracted_def res_bind_eq_Inr)
    then show ?thesis
      using retract_refines [of "ev_course e" parts e t new] parts_checked [OF wf] by (simp add: abs_parts abs_replace)
  qed
  show "spec_resolve (cr_kind c) (cr_selected c) (abs_context_of s) = Some (abs_context_of s')"
    if dec: "decode_conflict_resolved e = Inr c" and red: "reduce_conflict_resolved s e c = Inr s'"
  proof -
    obtain parts new where *: "study_parts_of s e = Inr parts" "resolve_parts e c parts = Inr new" "s' = replace_parts s new"
      using red by (auto simp: reduce_conflict_resolved_def res_bind_eq_Inr)
    then show ?thesis
      using resolve_refines(1) [of parts "ev_course e" c e new] parts_checked [OF wf *(1)] decoded_ok(3) [OF dec]
      by (simp add: abs_parts abs_replace wf_parts_def)
  qed
qed

section \<open>An example course\<close>

text \<open>A course with one session, one human interaction and two weekly time budgets that contradict each
  other, and the event that resolves the contradiction.\<close>

definition example_time :: datetime where
  "example_time = \<lparr>dt_date = \<lparr>year = 2024, month = 5, day = 2\<rparr>, hour = 9, minute = 30, second = 0, microsecond = 0, utcoffset = 0\<rparr>"

definition example_event :: "string \<Rightarrow> string \<Rightarrow> string \<Rightarrow> json_object \<Rightarrow> domain_event" where
  "example_event ty command key payload = \<lparr>ev_id = study_context_event_id_for ''bio'' ''s1'' key command, ev_course = ''bio'', ev_seq = 7,
     ev_type = ty, ev_version = 1, ev_actor = \<lparr>act_kind = HUMAN, act_principal = ''ann''\<rparr>, ev_at = example_time,
     ev_correlation = ''r1'', ev_payload = payload, ev_session = Some ''s1'', ev_causation = None\<rparr>"

definition example_budget :: "int \<Rightarrow> study_statement" where
  "example_budget n = \<lparr>in_kind = WEEKLY_TIME_BUDGET, in_value = V_int n\<rparr>"

definition example_recorded :: "string \<Rightarrow> int \<Rightarrow> statement_recorded" where
  "example_recorded sid n = \<lparr>sr_id = sid, sr_origin = ''i1'', sr_statement = example_budget n, sr_key = ''k0'',
     sr_fingerprint = record_command_fingerprint (example_budget n) ''i1''\<rparr>"

definition example_resolve :: domain_event where
  "example_resolve = example_event conflict_resolved_type ''resolve'' ''k1''
     (conflict_resolved_payload WEEKLY_TIME_BUDGET ''st2'' [''st1''] ''s1'' ''k1'')"

definition example_retract :: domain_event where
  "example_retract = example_event statement_retracted_type ''retract'' ''k2'' (statement_retracted_payload ''st1'' ''s1'' ''k2'')"

definition example_new_id :: string where
  "example_new_id = statement_id_for (study_context_event_id_for ''bio'' ''s1'' ''k3'' ''record'')"

definition example_record :: domain_event where
  "example_record = example_event statement_recorded_type ''record'' ''k3''
     (statement_recorded_payload example_new_id ''i1'' (example_budget 120) ''s1'' ''k3'')"

definition example_parts :: study_parts where
  "example_parts = \<lparr>sp_statements =
       [(''st1'', statement_entry example_resolve (example_recorded ''st1'' 300)),
        (''st2'', statement_entry example_resolve (example_recorded ''st2'' 600))],
     sp_resolutions = [], sp_commands = []\<rparr>"

definition example_state :: json_object where
  "example_state = replace_parts [(''course'', JObj []),
     (''sessions'', JObj [(''s1'', JObj [(''session_id'', JStr ''s1''), (''course_id'', JStr ''bio'')])]),
     (''session_interactions'', JObj [(''i1'', JObj [(''session_id'', JStr ''s1''), (''kind'', JStr ''human'')])])] example_parts"

lemmas decode_eval = text_eval study_envelope_def has_keys_eval jget_def text_value_def key_value_def trusted_kind_def
  kind_field_def kind_of_def is_scalar_def text_array_def text_items_def array_value_def fingerprint_value_def
  sha_json_def sha256_hex_shape

lemma example_decodes:
  "decode_conflict_resolved example_resolve = Inr \<lparr>cr_kind = WEEKLY_TIME_BUDGET, cr_selected = ''st2'', cr_superseded = [''st1''],
     cr_key = ''k1'', cr_fingerprint = resolve_command_fingerprint WEEKLY_TIME_BUDGET ''st2''\<rparr>"
  "decode_statement_retracted example_retract = Inr \<lparr>rt_id = ''st1'', rt_key = ''k2'', rt_fingerprint = retract_command_fingerprint ''st1''\<rparr>"
  unfolding example_resolve_def example_retract_def example_event_def
  by (simp_all add: decode_conflict_resolved_def decode_statement_retracted_def decode_eval conflict_resolved_payload_def resolved_keys_def
      resolve_command_fingerprint_def insort_key_def statement_retracted_payload_def retracted_keys_def retract_command_fingerprint_def)

lemma study_id_text: "is_text (study_context_event_id_for c s k cmd)" "is_text (statement_id_for i)"
  unfolding study_context_event_id_for_def statement_id_for_def
  by (rule is_text_append; simp add: is_space_def py_whitespace_def sha256_hex_shape)+

lemma example_record_decodes:
  "decode_statement_recorded example_record = Inr \<lparr>sr_id = example_new_id, sr_origin = ''i1'', sr_statement = example_budget 120,
     sr_key = ''k3'', sr_fingerprint = record_command_fingerprint (example_budget 120) ''i1''\<rparr>"
proof -
  have id: "is_text example_new_id" by (simp add: example_new_id_def study_id_text)
  have sha: "is_sha256 (record_command_fingerprint (example_budget 120) ''i1'')"
    by (simp add: record_command_fingerprint_def sha_json_def sha256_hex_shape)
  show ?thesis
    unfolding example_record_def example_event_def statement_recorded_payload_def
    using id sha
    by (simp add: decode_statement_recorded_def decode_statement_def decode_eval recorded_keys_def session_text_def
        example_new_id_def scalar_value_def mk_statement_def canonical_statement_value_def example_budget_def
        statement_value_manifest_def Let_def)
qed

lemma example_time_valid: "valid_datetime example_time"
  by (simp add: example_time_def valid_datetime_def valid_date_def days_in_month_def is_leap_def)

lemma example_event_wf:
  "wf_json (JObj payload) \<Longrightarrow> is_text ty \<Longrightarrow> wf_event (example_event ty command key payload)"
  by (simp add: wf_event_def example_event_def study_id_text example_time_valid text_option_def text_eval del: wf_json_JObj)

lemma study_type_text: "is_text conflict_resolved_type" "is_text statement_retracted_type" "is_text statement_recorded_type"
  by (simp_all add: conflict_resolved_type_def statement_retracted_type_def statement_recorded_type_def text_eval)

lemma example_events_wf: "wf_event example_resolve" "wf_event example_retract" "wf_event example_record"
  unfolding example_resolve_def example_retract_def example_record_def
  by (rule example_event_wf; auto simp: study_type_text conflict_resolved_payload_def statement_retracted_payload_def
      statement_recorded_payload_def statement_value_manifest_def example_budget_def text_items_def)+

lemma example_recorded_ok: "is_text sid \<Longrightarrow> 1 \<le> n \<Longrightarrow> n \<le> 10080 \<Longrightarrow> recorded_ok (example_recorded sid n)"
  by (simp add: recorded_ok_def example_recorded_def example_budget_def canonical_statement_def canonical_statement_value_def
      record_command_fingerprint_def sha_json_def sha256_hex_shape text_eval)

lemma example_parts_ok: "parts_ok ''bio'' example_parts"
proof -
  have ids: "sr_id (example_recorded sid n) = sid" "ev_course example_resolve = ''bio''" "ev_session example_resolve = Some ''s1''" for sid n
    by (simp_all add: example_recorded_def example_resolve_def example_event_def)
  have "valid_statement ''bio'' (sid, statement_entry example_resolve (example_recorded sid n))" if "is_text sid" "1 \<le> n" "n \<le> 10080" for sid n
    using statement_entry_valid [OF example_recorded_ok [OF that] example_events_wf(1) ids(3)] by (simp add: ids)
  then show ?thesis
    by (auto simp: parts_ok_def wf_parts_def example_parts_def wf_entries text_eval)
qed

lemma example_wf: "wf_state example_state"
  unfolding wf_state_def example_state_def
  using example_parts_ok by (intro replace_parts_wf) (auto simp: parts_ok_def)

lemma example_parts_of: "ev_course e = ''bio'' \<Longrightarrow> study_parts_of example_state e = Inr example_parts"
  using example_parts_ok
  by (simp add: study_parts_of_def example_state_def get_default_def replace_parts_def map_of_update has_keys_eval collections_def
      require_def parts_ok_def)

lemma example_session:
  "ev_session e = Some ''s1'' \<Longrightarrow> ev_course e = ''bio'' \<Longrightarrow> require_session example_state e = Inr ''s1''"
  by (simp add: require_session_def session_text_def example_state_def replace_parts_def jget_def)

lemma example_context_ok: "context_ok ''bio'' example_state"
  unfolding example_state_def by (rule context_ok_replace [OF example_parts_ok])

lemma example_entry: "statement_entry example_resolve (example_recorded sid n) = JObj [
     (''statement_id'', JStr sid), (''course_id'', JStr ''bio''), (''session_id'', JStr ''s1''),
     (''origin_interaction_id'', JStr ''i1''), (''kind'', JStr ''weekly_time_budget''),
     (''value'', JInt n), (''status'', JStr ''active''), (''recorded_at'', JStr (isoformat False example_time))]"
  by (simp add: statement_entry_def example_recorded_def example_budget_def example_resolve_def example_event_def
      session_text_def statement_value_manifest_def)

lemma example_commands: "sp_commands example_parts = []"
  by (simp add: example_parts_def)

lemma example_resolves: "\<exists>s'. reduce_conflict_resolved example_state example_resolve
    \<lparr>cr_kind = WEEKLY_TIME_BUDGET, cr_selected = ''st2'', cr_superseded = [''st1''], cr_key = ''k1'',
      cr_fingerprint = resolve_command_fingerprint WEEKLY_TIME_BUDGET ''st2''\<rparr> = Inr s'"
proof -
  have "ev_course example_resolve = ''bio''" "ev_session example_resolve = Some ''s1''"
    by (simp_all add: example_resolve_def example_event_def)
  note ctx = example_parts_of [OF this(1)] example_session [OF this(2,1)]
  have "active_entries WEEKLY_TIME_BUDGET (sp_statements example_parts) =
      map (\<lambda>(sid, v). (sid, case v of JObj raw \<Rightarrow> raw | _ \<Rightarrow> [])) (sp_statements example_parts)"
    by (simp add: example_parts_def example_entry jget_def)
  then have vks: "value_keys (active_entries WEEKLY_TIME_BUDGET (sp_statements example_parts)) =
      Inr [(''st1'', ''int'', show_int 300), (''st2'', ''int'', show_int 600)]"
    by (simp add: example_parts_def example_entry jget_def value_keys_def value_key_def)
  have "\<exists>raw. jget (sp_statements example_parts) ''st2'' = JObj raw \<and> jget raw ''status'' = JStr ''active'' \<and>
      jget raw ''kind'' = JStr ''weekly_time_budget'' \<and> jget raw ''value'' = JInt 600"
    by (simp add: example_parts_def example_entry jget_def)
  then show ?thesis
    using ctx vks show_int_inj [of 300 600]
    by (auto simp: reduce_conflict_resolved_def resolve_parts_def Let_def value_key_def example_commands)
qed

lemma example_retracts: "\<exists>s'. reduce_statement_retracted example_state example_retract
    \<lparr>rt_id = ''st1'', rt_key = ''k2'', rt_fingerprint = retract_command_fingerprint ''st1''\<rparr> = Inr s'"
proof -
  have "ev_course example_retract = ''bio''" "ev_session example_retract = Some ''s1''"
    by (simp_all add: example_retract_def example_event_def)
  note ctx = example_parts_of [OF this(1)] example_session [OF this(2,1)]
  have "\<exists>raw. jget (sp_statements example_parts) ''st1'' = JObj raw \<and> jget raw ''status'' = JStr ''active''"
    "sp_commands example_parts = []"
    by (simp_all add: example_parts_def example_entry jget_def)
  then show ?thesis using ctx by (auto simp: reduce_statement_retracted_def retract_parts_def)
qed

lemma example_records: "\<exists>s'. reduce_statement_recorded example_state example_record
    \<lparr>sr_id = example_new_id, sr_origin = ''i1'', sr_statement = example_budget 120,
     sr_key = ''k3'', sr_fingerprint = record_command_fingerprint (example_budget 120) ''i1''\<rparr> = Inr s'"
proof -
  have "ev_course example_record = ''bio''" "ev_session example_record = Some ''s1''"
    by (simp_all add: example_record_def example_event_def)
  note ctx = example_parts_of [OF this(1)] example_session [OF this(2,1)]
  have "example_new_id \<notin> set (keys_of (sp_statements example_parts))" "sp_commands example_parts = []"
    "''course'' \<in> set (keys_of example_state)"
    by (simp_all add: example_parts_def example_new_id_def statement_id_for_def example_state_def replace_parts_def)
  moreover have "jget example_state ''session_interactions'' =
      JObj [(''i1'', JObj [(''session_id'', JStr ''s1''), (''kind'', JStr ''human'')])]"
    by (simp add: example_state_def replace_parts_def jget_def)
  then have "require_human_origin example_state ''s1'' \<lparr>sr_id = example_new_id, sr_origin = ''i1'', sr_statement = example_budget 120,
      sr_key = ''k3'', sr_fingerprint = record_command_fingerprint (example_budget 120) ''i1''\<rparr> = Inr ()"
    by (simp add: require_human_origin_def jget_def require_def)
  ultimately show ?thesis using ctx by (simp add: reduce_statement_recorded_def record_parts_def)
qed

section \<open>Properties\<close>

text \<open>C11. A recorded statement refines the abstract recording: when the decoder accepts the event and the
  reducer does not raise, the new projection has exactly one more statement, active, with the
  decoded kind and value.\<close>

theorem statement_recorded_refines:
  assumes "wf_state s" and "decode_statement_recorded e = Inr p" and "reduce_statement_recorded s e p = Inr s'"
  shows "spec_record (sr_id p) (sr_statement p) (abs_context_of s) = Some (abs_context_of s')"
  by (rule reducers_refine(1) [OF assms])

theorem statement_recorded_refines_witness:
  "\<exists>p s'. decode_statement_recorded example_record = Inr p \<and> reduce_statement_recorded example_state example_record p = Inr s' \<and>
    spec_record (sr_id p) (sr_statement p) (abs_context_of example_state) = Some (abs_context_of s')"
  using example_record_decodes example_records statement_recorded_refines [OF example_wf example_record_decodes] by blast

text \<open>A retraction refines the abstract one: only an active statement can be retracted, it keeps its kind
  and value, and nothing else changes.\<close>

theorem statement_retracted_refines:
  assumes "wf_state s" and "decode_statement_retracted e = Inr p" and "reduce_statement_retracted s e p = Inr s'"
  shows "spec_retract (rt_id p) (abs_context_of s) = Some (abs_context_of s')"
  by (rule reducers_refine(2) [OF assms])

theorem statement_retracted_refines_witness:
  "\<exists>p s'. reduce_statement_retracted example_state example_retract p = Inr s' \<and>
    spec_retract (rt_id p) (abs_context_of example_state) = Some (abs_context_of s')"
  using example_retracts example_decodes(2) statement_retracted_refines [OF example_wf example_decodes(2)] by blast

text \<open>C4. A resolution refines the abstract one: there was a conflict of the kind, the winner stays active,
  every active statement of the kind with another value becomes superseded, and the conflict is gone.\<close>

theorem conflict_resolved_refines:
  assumes "wf_state s" and "decode_conflict_resolved e = Inr p" and "reduce_conflict_resolved s e p = Inr s'"
  shows "spec_resolve (cr_kind p) (cr_selected p) (abs_context_of s) = Some (abs_context_of s') \<and>
    spec_conflict (cr_kind p) (abs_context_of s) \<and> \<not> spec_conflict (cr_kind p) (abs_context_of s')"
  using reducers_refine(3) [OF assms] spec_resolve_settles(1) spec_resolve_conflict by blast

theorem conflict_resolved_refines_witness:
  "\<exists>p s'. decode_conflict_resolved example_resolve = Inr p \<and> reduce_conflict_resolved example_state example_resolve p = Inr s' \<and>
    spec_conflict (cr_kind p) (abs_context_of example_state) \<and> \<not> spec_conflict (cr_kind p) (abs_context_of s')"
  using example_decodes(1) example_resolves conflict_resolved_refines [OF example_wf example_decodes(1)] by blast



text \<open>C12. The reducers keep the invariant of the projected context: what they write passes their own checks
  again, and every recorded resolution stays linked to a winner of its kind and to superseded losers.\<close>

theorem reducers_keep_context_ok:
  assumes "context_ok (ev_course e) s" and "wf_event e"
    and "(\<exists>p. decode_statement_recorded e = Inr p \<and> reduce_statement_recorded s e p = Inr s') \<or>
      (\<exists>p. decode_statement_retracted e = Inr p \<and> reduce_statement_retracted s e p = Inr s') \<or>
      (\<exists>p. decode_conflict_resolved e = Inr p \<and> reduce_conflict_resolved s e p = Inr s')"
  shows "context_ok (ev_course e) s'"
  using assms(3) reducers_context_ok [OF assms(1,2)] by blast

theorem reducers_keep_context_ok_witness:
  "\<exists>s'. reduce_conflict_resolved example_state example_resolve
    \<lparr>cr_kind = WEEKLY_TIME_BUDGET, cr_selected = ''st2'', cr_superseded = [''st1''], cr_key = ''k1'',
      cr_fingerprint = resolve_command_fingerprint WEEKLY_TIME_BUDGET ''st2''\<rparr> = Inr s' \<and> context_ok ''bio'' s'"
proof -
  obtain s' where s': "reduce_conflict_resolved example_state example_resolve
    \<lparr>cr_kind = WEEKLY_TIME_BUDGET, cr_selected = ''st2'', cr_superseded = [''st1''], cr_key = ''k1'',
      cr_fingerprint = resolve_command_fingerprint WEEKLY_TIME_BUDGET ''st2''\<rparr> = Inr s'"
    using example_resolves by blast
  have "ev_course example_resolve = ''bio''" by (simp add: example_resolve_def example_event_def)
  then show ?thesis
    using reducers_keep_context_ok [of example_resolve example_state s'] example_context_ok example_events_wf(1) s' example_decodes(1)
    by auto
qed

text \<open>C13. The reader never finds a state of the reducers corrupt: it returns a snapshot whose statements are
  those of the projection and whose conflicts are exactly the contradictions between active scalar statements.\<close>

theorem study_view_reads_every_state:
  assumes "context_ok c (proj_state p)" and "''course'' \<in> set (keys_of (proj_state p))"
    and "proj_course p = c" and "1 \<le> proj_seq p"
  shows "\<exists>sn. study_view_get c p = Inr sn \<and> sn_sequence sn = proj_seq p \<and>
    represents (sn_statements sn) (abs_context_of (proj_state p)) \<and>
    cf_kind ` set (sn_conflicts sn) = {k. is_scalar k \<and> spec_conflict k (abs_context_of (proj_state p))}"
  using study_view_total [OF assms] by blast

theorem study_view_reads_every_state_witness:
  "\<exists>sn. study_view_get ''bio'' \<lparr>proj_course = ''bio'', proj_seq = 7, proj_state = example_state\<rparr> = Inr sn \<and> sn_sequence sn = 7"
  using study_view_reads_every_state [of "''bio''" "\<lparr>proj_course = ''bio'', proj_seq = 7, proj_state = example_state\<rparr>"] example_context_ok
  by (auto simp: example_state_def replace_parts_def)



end
