(* ===== verification/Grounding.thy ===== *)
theory Grounding
  imports Codec
begin

text \<open>
  Grounded answers and their provenance: the values of
  \<^verbatim>\<open>src/src/study_agent/domain/provenance.py\<close>, \<^verbatim>\<open>domain/grounding.py\<close> and the citation of
  \<^verbatim>\<open>domain/source.py\<close> with the checks of their constructors, and their codec in
  \<^verbatim>\<open>src/src/study_agent/sessions/events.py\<close>. A constructor \<open>mk_x\<close> takes the record of the
  arguments and returns it when the checks of \<^verbatim>\<open>__post_init__\<close> pass. Every codec is shown to
  meet the contract \<open>strict_codec\<close>; the codec of the whole answer rests on those of its parts.
\<close>

section \<open>Provenance values\<close>

definition require_fingerprint :: "string \<Rightarrow> unit result" where
  "require_fingerprint s = res_bind (require_text s) (\<lambda>_. require (is_sha256 s))"

record citation =
  ci_source :: string
  ci_revision :: string
  ci_chunk :: string
  ci_start :: int
  ci_end :: int
  ci_locator :: string
  ci_snippet :: "string option"

definition mk_citation :: "citation \<Rightarrow> citation result" where
  "mk_citation c =
     (if ci_start c < 0 \<or> ci_end c \<le> ci_start c then Inl ValueError
      else res_bind (require_text (ci_locator c)) (\<lambda>_.
        if ci_snippet c = Some [] then Inl ValueError else Inr c))"

record source_commitment =
  sc_source :: string
  sc_revision :: string
  sc_chunk :: string
  sc_start :: int
  sc_end :: int

definition mk_commitment :: "source_commitment \<Rightarrow> source_commitment result" where
  "mk_commitment c = (if sc_start c < 0 \<or> sc_end c \<le> sc_start c then Inl ValueError else Inr c)"

record prompt_provenance =
  pp_id :: string
  pp_version :: string
  pp_composition :: "string option"
  pp_layers :: "string list"

definition mk_prompt :: "prompt_provenance \<Rightarrow> prompt_provenance result" where
  "mk_prompt p =
     res_bind (require_text (pp_id p)) (\<lambda>_.
     res_bind (require_text (pp_version p)) (\<lambda>_.
     res_bind (case pp_composition p of None \<Rightarrow> Inr () | Some fp \<Rightarrow> require_fingerprint fp) (\<lambda>_.
     res_bind (map_res require_fingerprint (pp_layers p)) (\<lambda>_.
       if \<not> distinct (pp_layers p) then Inl ValueError else Inr p))))"

record model_usage =
  mu_input :: int
  mu_output :: int

definition mk_usage :: "model_usage \<Rightarrow> model_usage result" where
  "mk_usage u = (if mu_input u < 0 \<or> mu_output u < 0 then Inl ValueError else Inr u)"

record model_provenance =
  mp_adapter :: string
  mp_adapter_version :: string
  mp_model :: string
  mp_response :: "string option"
  mp_run :: string
  mp_usage :: "model_usage option"

definition mk_model :: "model_provenance \<Rightarrow> model_provenance result" where
  "mk_model m =
     res_bind (require_text (mp_adapter m)) (\<lambda>_.
     res_bind (require_text (mp_adapter_version m)) (\<lambda>_.
     res_bind (require_text (mp_model m)) (\<lambda>_.
     res_bind (case mp_response m of None \<Rightarrow> Inr () | Some r \<Rightarrow> require_text r) (\<lambda>_. Inr m))))"

record retrieval_provenance =
  rp_strategy :: string
  rp_strategy_version :: string
  rp_query :: string
  rp_index :: string
  rp_read_set :: string

definition mk_retrieval :: "retrieval_provenance \<Rightarrow> retrieval_provenance result" where
  "mk_retrieval r =
     res_bind (require_text (rp_strategy r)) (\<lambda>_.
     res_bind (require_text (rp_strategy_version r)) (\<lambda>_.
     res_bind (require_text (rp_index r)) (\<lambda>_.
     res_bind (require_fingerprint (rp_query r)) (\<lambda>_.
     res_bind (require_fingerprint (rp_read_set r)) (\<lambda>_. Inr r)))))"

record validator_provenance =
  vp_id :: string
  vp_version :: string
  vp_passed :: bool
  vp_disposition :: string
  vp_result :: string

definition mk_validator :: "validator_provenance \<Rightarrow> validator_provenance result" where
  "mk_validator v =
     res_bind (require_text (vp_id v)) (\<lambda>_.
     res_bind (require_text (vp_version v)) (\<lambda>_.
     res_bind (require_text (vp_disposition v)) (\<lambda>_.
     res_bind (require_fingerprint (vp_result v)) (\<lambda>_. Inr v))))"

record version_pins =
  pin_skill :: string
  pin_playbook :: string
  pin_prompt :: string
  pin_model_adapter :: "string option"
  pin_state_contract :: string
  pin_tool_behavior :: string

definition mk_pins :: "version_pins \<Rightarrow> version_pins result" where
  "mk_pins p =
     res_bind (require_text (pin_skill p)) (\<lambda>_.
     res_bind (require_text (pin_playbook p)) (\<lambda>_.
     res_bind (require_text (pin_prompt p)) (\<lambda>_.
     res_bind (require_text (pin_state_contract p)) (\<lambda>_.
     res_bind (require_text (pin_tool_behavior p)) (\<lambda>_.
     res_bind (case pin_model_adapter p of None \<Rightarrow> Inr () | Some a \<Rightarrow> require_text a) (\<lambda>_. Inr p))))))"

record answer_provenance =
  ap_commitments :: "source_commitment list"
  ap_prompt :: prompt_provenance
  ap_model :: "model_provenance option"
  ap_retrieval :: retrieval_provenance
  ap_validators :: "validator_provenance list"
  ap_pins :: version_pins
  ap_run :: string
  ap_event_version :: int
  ap_reducer_version :: int

definition mk_provenance :: "answer_provenance \<Rightarrow> answer_provenance result" where
  "mk_provenance p =
     (if ap_validators p = [] then Inl ValueError
      else if \<exists>v \<in> set (ap_validators p). \<not> vp_passed v then Inl ValueError
      else if \<not> distinct (ap_commitments p) then Inl ValueError
      else if \<not> distinct (map (\<lambda>v. (vp_id v, vp_version v)) (ap_validators p)) then Inl ValueError
      else if ap_event_version p < 1 \<or> ap_reducer_version p < 1 then Inl ValueError
      else
        (case ap_model p of
           None \<Rightarrow>
             if pp_composition (ap_prompt p) \<noteq> None then Inl ValueError
             else if pp_layers (ap_prompt p) \<noteq> [] then Inl ValueError
             else if pin_model_adapter (ap_pins p) \<noteq> None then Inl ValueError
             else Inr p
         | Some m \<Rightarrow>
             if pin_model_adapter (ap_pins p) \<noteq> Some (mp_adapter m @ ''@'' @ mp_adapter_version m) then Inl ValueError
             else if mp_run m \<noteq> ap_run p then Inl ValueError
             else Inr p))"

section \<open>Answers\<close>

datatype answer_status = ANSWERED | INSUFFICIENT_EVIDENCE | CONFLICTING_EVIDENCE | FAILED
datatype segment_kind = SUPPORTED_CLAIM | SYNTHESIS | UNCERTAINTY | STUDY_GUIDANCE
datatype claim_origin = DECLARED | OBSERVED | INFERRED

fun answer_status_value :: "answer_status \<Rightarrow> string" where
  "answer_status_value ANSWERED = ''answered''"
| "answer_status_value INSUFFICIENT_EVIDENCE = ''insufficient_evidence''"
| "answer_status_value CONFLICTING_EVIDENCE = ''conflicting_evidence''"
| "answer_status_value FAILED = ''failed''"

fun segment_kind_value :: "segment_kind \<Rightarrow> string" where
  "segment_kind_value SUPPORTED_CLAIM = ''supported_claim''"
| "segment_kind_value SYNTHESIS = ''synthesis''"
| "segment_kind_value UNCERTAINTY = ''uncertainty''"
| "segment_kind_value STUDY_GUIDANCE = ''study_guidance''"

fun claim_origin_value :: "claim_origin \<Rightarrow> string" where
  "claim_origin_value DECLARED = ''declared''"
| "claim_origin_value OBSERVED = ''observed''"
| "claim_origin_value INFERRED = ''inferred''"

text \<open>Looking an enumeration member up by its value.\<close>

definition enum_of :: "('a \<Rightarrow> string) \<Rightarrow> 'a list \<Rightarrow> string \<Rightarrow> 'a result" where
  "enum_of val members s = (case filter (\<lambda>m. val m = s) members of [] \<Rightarrow> Inl ValueError | m # _ \<Rightarrow> Inr m)"

definition answer_status_of :: "string \<Rightarrow> answer_status result" where
  "answer_status_of = enum_of answer_status_value [ANSWERED, INSUFFICIENT_EVIDENCE, CONFLICTING_EVIDENCE, FAILED]"

definition segment_kind_of :: "string \<Rightarrow> segment_kind result" where
  "segment_kind_of = enum_of segment_kind_value [SUPPORTED_CLAIM, SYNTHESIS, UNCERTAINTY, STUDY_GUIDANCE]"

definition claim_origin_of :: "string \<Rightarrow> claim_origin result" where
  "claim_origin_of = enum_of claim_origin_value [DECLARED, OBSERVED, INFERRED]"

definition claim_kind :: "segment_kind \<Rightarrow> bool" where
  "claim_kind k = (k \<in> {SUPPORTED_CLAIM, SYNTHESIS})"

record answer_segment =
  sg_kind :: segment_kind
  sg_text :: string
  sg_citations :: "citation list"
  sg_origin :: claim_origin

definition mk_segment :: "answer_segment \<Rightarrow> answer_segment result" where
  "mk_segment s =
     res_bind (require_text (sg_text s)) (\<lambda>_.
       if claim_kind (sg_kind s) \<and> sg_citations s = [] then Inl ValueError
       else if sg_kind s = STUDY_GUIDANCE \<and> sg_citations s \<noteq> [] then Inl ValueError
       else Inr s)"

record grounded_answer =
  ga_status :: answer_status
  ga_segments :: "answer_segment list"
  ga_note :: "string option"
  ga_provenance :: answer_provenance

text \<open>\<^verbatim>\<open>tuple(dict.fromkeys(xs))\<close>: the first occurrence of each value, in order.\<close>

definition fromkeys :: "'a list \<Rightarrow> 'a list" where
  "fromkeys xs = rev (remdups (rev xs))"

definition citation_commitment :: "citation \<Rightarrow> source_commitment" where
  "citation_commitment c = \<lparr>sc_source = ci_source c, sc_revision = ci_revision c, sc_chunk = ci_chunk c,
     sc_start = ci_start c, sc_end = ci_end c\<rparr>"

definition answer_citations :: "grounded_answer \<Rightarrow> citation list" where
  "answer_citations a = concat (map sg_citations (ga_segments a))"

definition check_evidence :: "grounded_answer \<Rightarrow> unit result" where
  "check_evidence a =
     (let p = ga_provenance a in
      if ga_status a = INSUFFICIENT_EVIDENCE then
        if ap_model p \<noteq> None then Inl ValueError
        else if ap_commitments p \<noteq> [] \<or> answer_citations a \<noteq> [] then Inl ValueError
        else
          (case filter (\<lambda>v. vp_id v = ''evidence_sufficiency'') (ap_validators p) of
             [v] \<Rightarrow> require (vp_passed v \<and> vp_disposition v = ''terminate'')
           | _ \<Rightarrow> Inl ValueError)
      else if ga_status a \<in> {ANSWERED, CONFLICTING_EVIDENCE} then
        if ap_model p = None then Inl ValueError
        else if ga_status a = CONFLICTING_EVIDENCE \<and> answer_citations a = [] then Inl ValueError
        else require (\<exists>v \<in> set (ap_validators p). vp_id v = ''grounded_answer_integrity'' \<and> vp_passed v)
      else Inr ())"

definition mk_answer :: "grounded_answer \<Rightarrow> grounded_answer result" where
  "mk_answer a =
     (let has_claims = (\<exists>s \<in> set (ga_segments a). claim_kind (sg_kind s)) in
      if ga_status a = ANSWERED \<and> \<not> has_claims then Inl ValueError
      else if ga_status a \<in> {INSUFFICIENT_EVIDENCE, FAILED} \<and> has_claims then Inl ValueError
      else
        res_bind (if ga_status a = ANSWERED then Inr ()
                  else case ga_note a of None \<Rightarrow> Inl ValueError | Some n \<Rightarrow> require_text n) (\<lambda>_.
          if ga_status a = FAILED then Inl ValueError
          else if ap_commitments (ga_provenance a) \<noteq> fromkeys (map citation_commitment (answer_citations a))
            then Inl ValueError
          else res_bind (check_evidence a) (\<lambda>_. Inr a)))"

section \<open>The codec\<close>

definition citation_keys :: "string list" where
  "citation_keys = [''source_id'', ''revision_id'', ''chunk_id'', ''start_offset'', ''end_offset'', ''locator'',
     ''quoted_snippet'']"

definition citation_json :: "citation \<Rightarrow> json" where
  "citation_json c = JObj [
     (''source_id'', JStr (ci_source c)), (''revision_id'', JStr (ci_revision c)), (''chunk_id'', JStr (ci_chunk c)),
     (''start_offset'', JInt (ci_start c)), (''end_offset'', JInt (ci_end c)), (''locator'', JStr (ci_locator c)),
     (''quoted_snippet'', optional_json JStr (ci_snippet c))]"

definition decode_citation :: "json \<Rightarrow> citation result" where
  "decode_citation v =
     res_bind (object_value v citation_keys) (\<lambda>p.
     res_bind (text_value (jget p ''source_id'')) (\<lambda>source.
     res_bind (text_value (jget p ''revision_id'')) (\<lambda>revision.
     res_bind (text_value (jget p ''chunk_id'')) (\<lambda>chunk.
     res_bind (integer_value (jget p ''start_offset'')) (\<lambda>start.
     res_bind (integer_value (jget p ''end_offset'')) (\<lambda>stop.
     res_bind (text_value (jget p ''locator'')) (\<lambda>locator.
     res_bind (optional_text (jget p ''quoted_snippet'')) (\<lambda>snippet.
       mk_citation \<lparr>ci_source = source, ci_revision = revision, ci_chunk = chunk, ci_start = start, ci_end = stop,
         ci_locator = locator, ci_snippet = snippet\<rparr>))))))))"

definition commitment_keys :: "string list" where
  "commitment_keys = [''source_id'', ''revision_id'', ''chunk_id'', ''start_offset'', ''end_offset'']"

definition commitment_json :: "source_commitment \<Rightarrow> json" where
  "commitment_json c = JObj [
     (''source_id'', JStr (sc_source c)), (''revision_id'', JStr (sc_revision c)), (''chunk_id'', JStr (sc_chunk c)),
     (''start_offset'', JInt (sc_start c)), (''end_offset'', JInt (sc_end c))]"

definition decode_commitment :: "json \<Rightarrow> source_commitment result" where
  "decode_commitment v =
     res_bind (object_value v commitment_keys) (\<lambda>p.
     res_bind (text_value (jget p ''source_id'')) (\<lambda>source.
     res_bind (text_value (jget p ''revision_id'')) (\<lambda>revision.
     res_bind (text_value (jget p ''chunk_id'')) (\<lambda>chunk.
     res_bind (integer_value (jget p ''start_offset'')) (\<lambda>start.
     res_bind (integer_value (jget p ''end_offset'')) (\<lambda>stop.
       mk_commitment \<lparr>sc_source = source, sc_revision = revision, sc_chunk = chunk, sc_start = start, sc_end = stop\<rparr>))))))"

definition prompt_keys :: "string list" where
  "prompt_keys = [''prompt_id'', ''version'', ''composition_fingerprint'', ''layer_fingerprints'']"

definition prompt_json :: "prompt_provenance \<Rightarrow> json" where
  "prompt_json p = JObj [
     (''prompt_id'', JStr (pp_id p)), (''version'', JStr (pp_version p)),
     (''composition_fingerprint'', optional_json JStr (pp_composition p)),
     (''layer_fingerprints'', text_items (pp_layers p))]"

definition decode_prompt :: "json \<Rightarrow> prompt_provenance result" where
  "decode_prompt v =
     res_bind (object_value v prompt_keys) (\<lambda>p.
     res_bind (text_array (jget p ''layer_fingerprints'')) (\<lambda>layers.
     res_bind (text_value (jget p ''prompt_id'')) (\<lambda>pid.
     res_bind (text_value (jget p ''version'')) (\<lambda>version.
     res_bind (optional_text (jget p ''composition_fingerprint'')) (\<lambda>composition.
       mk_prompt \<lparr>pp_id = pid, pp_version = version, pp_composition = composition, pp_layers = layers\<rparr>)))))"

definition usage_keys :: "string list" where
  "usage_keys = [''input_tokens'', ''output_tokens'']"

definition usage_json :: "model_usage \<Rightarrow> json" where
  "usage_json u = JObj [(''input_tokens'', JInt (mu_input u)), (''output_tokens'', JInt (mu_output u))]"

definition decode_usage :: "json \<Rightarrow> model_usage result" where
  "decode_usage v =
     res_bind (object_value v usage_keys) (\<lambda>p.
     res_bind (integer_value (jget p ''input_tokens'')) (\<lambda>i.
     res_bind (integer_value (jget p ''output_tokens'')) (\<lambda>out. mk_usage \<lparr>mu_input = i, mu_output = out\<rparr>)))"

definition model_keys :: "string list" where
  "model_keys = [''adapter_id'', ''adapter_version'', ''model_id'', ''response_id'', ''run_id'', ''usage'']"

definition model_json :: "model_provenance \<Rightarrow> json" where
  "model_json m = JObj [
     (''adapter_id'', JStr (mp_adapter m)), (''adapter_version'', JStr (mp_adapter_version m)),
     (''model_id'', JStr (mp_model m)), (''response_id'', optional_json JStr (mp_response m)),
     (''run_id'', JStr (mp_run m)), (''usage'', optional_json usage_json (mp_usage m))]"

text \<open>The decoder asks for a response id although the value may be without one.\<close>

definition decode_model :: "json \<Rightarrow> model_provenance result" where
  "decode_model v =
     res_bind (object_value v model_keys) (\<lambda>p.
     res_bind (optional_value decode_usage (jget p ''usage'')) (\<lambda>usage.
     res_bind (text_value (jget p ''adapter_id'')) (\<lambda>adapter.
     res_bind (text_value (jget p ''adapter_version'')) (\<lambda>version.
     res_bind (text_value (jget p ''model_id'')) (\<lambda>model.
     res_bind (text_value (jget p ''response_id'')) (\<lambda>response.
     res_bind (text_value (jget p ''run_id'')) (\<lambda>run.
       mk_model \<lparr>mp_adapter = adapter, mp_adapter_version = version, mp_model = model, mp_response = Some response,
         mp_run = run, mp_usage = usage\<rparr>)))))))"

definition retrieval_keys :: "string list" where
  "retrieval_keys = [''strategy_id'', ''strategy_version'', ''query_fingerprint'', ''index_version'', ''read_set_fingerprint'']"

definition retrieval_json :: "retrieval_provenance \<Rightarrow> json" where
  "retrieval_json r = JObj [
     (''strategy_id'', JStr (rp_strategy r)), (''strategy_version'', JStr (rp_strategy_version r)),
     (''query_fingerprint'', JStr (rp_query r)), (''index_version'', JStr (rp_index r)),
     (''read_set_fingerprint'', JStr (rp_read_set r))]"

definition decode_retrieval :: "json \<Rightarrow> retrieval_provenance result" where
  "decode_retrieval v =
     res_bind (object_value v retrieval_keys) (\<lambda>p.
     res_bind (text_value (jget p ''strategy_id'')) (\<lambda>strategy.
     res_bind (text_value (jget p ''strategy_version'')) (\<lambda>version.
     res_bind (text_value (jget p ''query_fingerprint'')) (\<lambda>query.
     res_bind (text_value (jget p ''index_version'')) (\<lambda>index.
     res_bind (text_value (jget p ''read_set_fingerprint'')) (\<lambda>read_set.
       mk_retrieval \<lparr>rp_strategy = strategy, rp_strategy_version = version, rp_query = query, rp_index = index,
         rp_read_set = read_set\<rparr>))))))"

definition validator_keys :: "string list" where
  "validator_keys = [''validator_id'', ''version'', ''passed'', ''disposition'', ''result_fingerprint'']"

definition validator_json :: "validator_provenance \<Rightarrow> json" where
  "validator_json v = JObj [
     (''validator_id'', JStr (vp_id v)), (''version'', JStr (vp_version v)), (''passed'', JBool (vp_passed v)),
     (''disposition'', JStr (vp_disposition v)), (''result_fingerprint'', JStr (vp_result v))]"

definition decode_validator :: "json \<Rightarrow> validator_provenance result" where
  "decode_validator v =
     res_bind (object_value v validator_keys) (\<lambda>p.
     res_bind (text_value (jget p ''validator_id'')) (\<lambda>vid.
     res_bind (text_value (jget p ''version'')) (\<lambda>version.
     res_bind (boolean_value (jget p ''passed'')) (\<lambda>passed.
     res_bind (text_value (jget p ''disposition'')) (\<lambda>disposition.
     res_bind (text_value (jget p ''result_fingerprint'')) (\<lambda>result.
       mk_validator \<lparr>vp_id = vid, vp_version = version, vp_passed = passed, vp_disposition = disposition,
         vp_result = result\<rparr>))))))"

definition pins_keys :: "string list" where
  "pins_keys = [''skill'', ''playbook'', ''prompt'', ''model_adapter'', ''state_contract'', ''tool_behavior'']"

definition pins_json :: "version_pins \<Rightarrow> json" where
  "pins_json p = JObj [
     (''skill'', JStr (pin_skill p)), (''playbook'', JStr (pin_playbook p)), (''prompt'', JStr (pin_prompt p)),
     (''model_adapter'', optional_json JStr (pin_model_adapter p)), (''state_contract'', JStr (pin_state_contract p)),
     (''tool_behavior'', JStr (pin_tool_behavior p))]"

definition decode_pins :: "json \<Rightarrow> version_pins result" where
  "decode_pins v =
     res_bind (object_value v pins_keys) (\<lambda>p.
     res_bind (text_value (jget p ''skill'')) (\<lambda>skill.
     res_bind (text_value (jget p ''playbook'')) (\<lambda>playbook.
     res_bind (text_value (jget p ''prompt'')) (\<lambda>prompt.
     res_bind (optional_text (jget p ''model_adapter'')) (\<lambda>adapter.
     res_bind (text_value (jget p ''state_contract'')) (\<lambda>contract.
     res_bind (text_value (jget p ''tool_behavior'')) (\<lambda>behavior.
       mk_pins \<lparr>pin_skill = skill, pin_playbook = playbook, pin_prompt = prompt, pin_model_adapter = adapter,
         pin_state_contract = contract, pin_tool_behavior = behavior\<rparr>)))))))"

definition provenance_keys :: "string list" where
  "provenance_keys = [''source_commitments'', ''prompt'', ''model'', ''retrieval'', ''validators'', ''pins'',
     ''playbook_run_id'', ''event_schema_version'', ''reducer_schema_version'']"

definition provenance_json :: "answer_provenance \<Rightarrow> json" where
  "provenance_json p = JObj [
     (''source_commitments'', JArr (map commitment_json (ap_commitments p))),
     (''prompt'', prompt_json (ap_prompt p)), (''model'', optional_json model_json (ap_model p)),
     (''retrieval'', retrieval_json (ap_retrieval p)),
     (''validators'', JArr (map validator_json (ap_validators p))), (''pins'', pins_json (ap_pins p)),
     (''playbook_run_id'', JStr (ap_run p)), (''event_schema_version'', JInt (ap_event_version p)),
     (''reducer_schema_version'', JInt (ap_reducer_version p))]"

definition decode_provenance :: "json \<Rightarrow> answer_provenance result" where
  "decode_provenance v =
     res_bind (object_value v provenance_keys) (\<lambda>p.
     res_bind (decode_prompt (jget p ''prompt'')) (\<lambda>prompt.
     res_bind (optional_value decode_model (jget p ''model'')) (\<lambda>model.
     res_bind (array_value (jget p ''validators'')) (\<lambda>vs.
     res_bind (map_res decode_validator vs) (\<lambda>validators.
     res_bind (array_value (jget p ''source_commitments'')) (\<lambda>cs.
     res_bind (map_res decode_commitment cs) (\<lambda>commitments.
     res_bind (decode_retrieval (jget p ''retrieval'')) (\<lambda>retrieval.
     res_bind (decode_pins (jget p ''pins'')) (\<lambda>pins.
     res_bind (text_value (jget p ''playbook_run_id'')) (\<lambda>run.
     res_bind (integer_value (jget p ''event_schema_version'')) (\<lambda>event_version.
     res_bind (integer_value (jget p ''reducer_schema_version'')) (\<lambda>reducer_version.
       mk_provenance \<lparr>ap_commitments = commitments, ap_prompt = prompt, ap_model = model, ap_retrieval = retrieval,
         ap_validators = validators, ap_pins = pins, ap_run = run, ap_event_version = event_version,
         ap_reducer_version = reducer_version\<rparr>))))))))))))"

definition segment_keys :: "string list" where
  "segment_keys = [''kind'', ''text'', ''citations'', ''claim_origin'']"

definition segment_json :: "answer_segment \<Rightarrow> json" where
  "segment_json s = JObj [
     (''kind'', JStr (segment_kind_value (sg_kind s))), (''text'', JStr (sg_text s)),
     (''citations'', JArr (map citation_json (sg_citations s))),
     (''claim_origin'', JStr (claim_origin_value (sg_origin s)))]"

definition decode_segment :: "json \<Rightarrow> answer_segment result" where
  "decode_segment v =
     res_bind (object_value v segment_keys) (\<lambda>p.
     res_bind (text_value (jget p ''kind'')) (\<lambda>ks.
     res_bind (segment_kind_of ks) (\<lambda>k.
     res_bind (text_value (jget p ''claim_origin'')) (\<lambda>os.
     res_bind (claim_origin_of os) (\<lambda>org.
     res_bind (array_value (jget p ''citations'')) (\<lambda>cs.
     res_bind (map_res decode_citation cs) (\<lambda>citations.
     res_bind (text_value (jget p ''text'')) (\<lambda>t.
       mk_segment \<lparr>sg_kind = k, sg_text = t, sg_citations = citations, sg_origin = org\<rparr>))))))))"

definition answer_keys :: "string list" where
  "answer_keys = [''status'', ''segments'', ''unsupported_information_note'', ''provenance'']"

definition answer_json :: "grounded_answer \<Rightarrow> json" where
  "answer_json a = JObj [
     (''status'', JStr (answer_status_value (ga_status a))), (''segments'', JArr (map segment_json (ga_segments a))),
     (''unsupported_information_note'', optional_json JStr (ga_note a)),
     (''provenance'', provenance_json (ga_provenance a))]"

definition decode_answer :: "json \<Rightarrow> grounded_answer result" where
  "decode_answer v =
     res_bind (object_value v answer_keys) (\<lambda>p.
     res_bind (text_value (jget p ''status'')) (\<lambda>st.
     res_bind (answer_status_of st) (\<lambda>status.
     res_bind (array_value (jget p ''segments'')) (\<lambda>ss.
     res_bind (map_res decode_segment ss) (\<lambda>segments.
     res_bind (optional_text (jget p ''unsupported_information_note'')) (\<lambda>note.
     res_bind (decode_provenance (jget p ''provenance'')) (\<lambda>prov.
       mk_answer \<lparr>ga_status = status, ga_segments = segments, ga_note = note, ga_provenance = prov\<rparr>)))))))"

section \<open>The parts are strict codecs\<close>

lemma require_fingerprint_Inr [res_simps]: "require_fingerprint s = Inr u \<longleftrightarrow> is_sha256 s"
  by (auto simp: require_fingerprint_def require_def res_simps)

lemma map_res_fingerprint_Inr: "(\<exists>us. map_res require_fingerprint xs = Inr us) \<longleftrightarrow> list_all is_sha256 xs"
  by (induction xs) (auto simp: res_simps)

text \<open>A constructor returns its argument.\<close>

lemma mk_same:
  "mk_citation c = Inr c' \<Longrightarrow> c' = c"
  "mk_commitment m = Inr m' \<Longrightarrow> m' = m"
  "mk_prompt p = Inr p' \<Longrightarrow> p' = p"
  "mk_usage u = Inr u' \<Longrightarrow> u' = u"
  "mk_model n = Inr n' \<Longrightarrow> n' = n"
  "mk_retrieval r = Inr r' \<Longrightarrow> r' = r"
  "mk_validator v = Inr v' \<Longrightarrow> v' = v"
  "mk_pins q = Inr q' \<Longrightarrow> q' = q"
  "mk_provenance a = Inr a' \<Longrightarrow> a' = a"
  "mk_segment s = Inr s' \<Longrightarrow> s' = s"
  "mk_answer g = Inr g' \<Longrightarrow> g' = g"
  by (auto simp: mk_citation_def mk_commitment_def mk_prompt_def mk_usage_def mk_model_def mk_retrieval_def
      mk_validator_def mk_pins_def mk_provenance_def mk_segment_def mk_answer_def res_bind_eq_Inr Let_def
      split: if_splits option.splits)

lemma mk_returns:
  "mk_citation c = Inr c' \<Longrightarrow> c' = c \<and> built mk_citation c"
  "mk_commitment m = Inr m' \<Longrightarrow> m' = m \<and> built mk_commitment m"
  "mk_prompt p = Inr p' \<Longrightarrow> p' = p \<and> built mk_prompt p"
  "mk_usage u = Inr u' \<Longrightarrow> u' = u \<and> built mk_usage u"
  "mk_model n = Inr n' \<Longrightarrow> n' = n \<and> built mk_model n"
  "mk_retrieval r = Inr r' \<Longrightarrow> r' = r \<and> built mk_retrieval r"
  "mk_validator v = Inr v' \<Longrightarrow> v' = v \<and> built mk_validator v"
  "mk_pins q = Inr q' \<Longrightarrow> q' = q \<and> built mk_pins q"
  "mk_provenance a = Inr a' \<Longrightarrow> a' = a \<and> built mk_provenance a"
  "mk_segment s = Inr s' \<Longrightarrow> s' = s \<and> built mk_segment s"
  "mk_answer g = Inr g' \<Longrightarrow> g' = g \<and> built mk_answer g"
  by (frule mk_same; simp add: built_def)+

definition ok_citation :: "citation \<Rightarrow> bool" where
  "ok_citation c = (list_all is_text [ci_source c, ci_revision c, ci_chunk c, ci_locator c] \<and>
     pred_option is_text (ci_snippet c) \<and> built mk_citation c)"

interpretation citation_codec: strict_codec citation_json decode_citation ok_citation
proof (rule object_codecI [OF citation_json_def decode_citation_def], goal_cases)
  case 1 then show ?case by (auto simp: optional_json_def text_items_def split: option.splits)
next
  case 2 then show ?case by (simp add: has_keys_def citation_keys_def)
next
  case (3 c) then show ?case by (cases c) (simp add: ok_citation_def built_def jget_Cons read_written)
next
  case 4 then show ?case by (simp only: read_canon)
next
  case (5 p c) then show ?case
    by (auto simp: res_bind_eq_Inr read_Inr ok_citation_def citation_keys_def jget_Cons dest!: mk_returns)
qed

definition ok_commitment :: "source_commitment \<Rightarrow> bool" where
  "ok_commitment c = (list_all is_text [sc_source c, sc_revision c, sc_chunk c] \<and> built mk_commitment c)"

interpretation commitment_codec: strict_codec commitment_json decode_commitment ok_commitment
proof (rule object_codecI [OF commitment_json_def decode_commitment_def], goal_cases)
  case 1 then show ?case by (auto simp: optional_json_def text_items_def split: option.splits)
next
  case 2 then show ?case by (simp add: has_keys_def commitment_keys_def)
next
  case (3 c) then show ?case by (cases c) (simp add: ok_commitment_def built_def jget_Cons read_written)
next
  case 4 then show ?case by (simp only: read_canon)
next
  case (5 p c) then show ?case
    by (auto simp: res_bind_eq_Inr read_Inr ok_commitment_def commitment_keys_def jget_Cons dest!: mk_returns)
qed

definition ok_prompt :: "prompt_provenance \<Rightarrow> bool" where
  "ok_prompt p = (is_text (pp_id p) \<and> is_text (pp_version p) \<and> pred_option is_text (pp_composition p) \<and>
     list_all is_text (pp_layers p) \<and> built mk_prompt p)"

interpretation prompt_codec: strict_codec prompt_json decode_prompt ok_prompt
proof (rule object_codecI [OF prompt_json_def decode_prompt_def], goal_cases)
  case 1 then show ?case by (auto simp: optional_json_def text_items_def split: option.splits)
next
  case 2 then show ?case by (simp add: has_keys_def prompt_keys_def)
next
  case (3 q) then show ?case by (cases q) (simp add: ok_prompt_def built_def jget_Cons read_written)
next
  case 4 then show ?case by (simp only: read_canon)
next
  case (5 p q) then show ?case
    by (auto simp: res_bind_eq_Inr read_Inr ok_prompt_def prompt_keys_def jget_Cons dest!: mk_returns)
qed

definition ok_usage :: "model_usage \<Rightarrow> bool" where
  "ok_usage u = built mk_usage u"

interpretation usage_codec: strict_codec usage_json decode_usage ok_usage
proof (rule object_codecI [OF usage_json_def decode_usage_def], goal_cases)
  case 1 then show ?case by (auto simp: optional_json_def text_items_def split: option.splits)
next
  case 2 then show ?case by (simp add: has_keys_def usage_keys_def)
next
  case (3 u) then show ?case by (cases u) (simp add: ok_usage_def built_def jget_Cons read_written)
next
  case 4 then show ?case by (simp only: read_canon)
next
  case (5 p u) then show ?case
    by (auto simp: res_bind_eq_Inr read_Inr ok_usage_def usage_keys_def jget_Cons dest!: mk_returns)
qed

definition ok_model :: "model_provenance \<Rightarrow> bool" where
  "ok_model m = (list_all is_text [mp_adapter m, mp_adapter_version m, mp_model m, mp_run m] \<and>
     mp_response m \<noteq> None \<and> pred_option is_text (mp_response m) \<and> pred_option ok_usage (mp_usage m) \<and> built mk_model m)"

interpretation model_codec: strict_codec model_json decode_model ok_model
proof (rule object_codecI [OF model_json_def decode_model_def], goal_cases)
  case (1 m)
  show ?case using usage_codec.optional_wf [of "mp_usage m"] by (auto simp: optional_json_def [of JStr] split: option.splits)
next
  case 2 then show ?case by (simp add: has_keys_def model_keys_def)
next
  case (3 m)
  have "optional_value decode_usage (optional_json usage_json (mp_usage m)) = Inr (mp_usage m)"
    using 3 by (intro usage_codec.optional_enc) (simp_all add: ok_model_def usage_json_def)
  moreover have "optional_json JStr (mp_response m) = JStr (the (mp_response m))" "is_text (the (mp_response m))"
    using 3 by (auto simp: ok_model_def optional_json_def)
  ultimately show ?case using 3 by (cases m) (auto simp: ok_model_def built_def jget_Cons read_written)
next
  case (4 p) then show ?case by (simp only: read_canon usage_codec.optional_canon [OF wf_jget])
next
  case (5 p m) then show ?case
    by (auto simp: res_bind_eq_Inr read_Inr ok_model_def model_keys_def jget_Cons optional_json_def [of JStr]
        simp del: wf_json_JObj dest!: mk_returns usage_codec.optional_strict [OF wf_jget [OF 5(1)]])
qed

definition ok_retrieval :: "retrieval_provenance \<Rightarrow> bool" where
  "ok_retrieval r = (list_all is_text [rp_strategy r, rp_strategy_version r, rp_query r, rp_index r, rp_read_set r] \<and>
     built mk_retrieval r)"

interpretation retrieval_codec: strict_codec retrieval_json decode_retrieval ok_retrieval
proof (rule object_codecI [OF retrieval_json_def decode_retrieval_def], goal_cases)
  case 1 then show ?case by (auto simp: optional_json_def text_items_def split: option.splits)
next
  case 2 then show ?case by (simp add: has_keys_def retrieval_keys_def)
next
  case (3 r) then show ?case by (cases r) (simp add: ok_retrieval_def built_def jget_Cons read_written)
next
  case 4 then show ?case by (simp only: read_canon)
next
  case (5 p r) then show ?case
    by (auto simp: res_bind_eq_Inr read_Inr ok_retrieval_def retrieval_keys_def jget_Cons dest!: mk_returns)
qed

definition ok_validator :: "validator_provenance \<Rightarrow> bool" where
  "ok_validator v = (list_all is_text [vp_id v, vp_version v, vp_disposition v, vp_result v] \<and> built mk_validator v)"

interpretation validator_codec: strict_codec validator_json decode_validator ok_validator
proof (rule object_codecI [OF validator_json_def decode_validator_def], goal_cases)
  case 1 then show ?case by (auto simp: optional_json_def text_items_def split: option.splits)
next
  case 2 then show ?case by (simp add: has_keys_def validator_keys_def)
next
  case (3 v) then show ?case by (cases v) (simp add: ok_validator_def built_def jget_Cons read_written)
next
  case 4 then show ?case by (simp only: read_canon)
next
  case (5 p v) then show ?case
    by (auto simp: res_bind_eq_Inr read_Inr ok_validator_def validator_keys_def jget_Cons dest!: mk_returns)
qed

definition ok_pins :: "version_pins \<Rightarrow> bool" where
  "ok_pins q = (list_all is_text [pin_skill q, pin_playbook q, pin_prompt q, pin_state_contract q, pin_tool_behavior q] \<and>
     pred_option is_text (pin_model_adapter q) \<and> built mk_pins q)"

interpretation pins_codec: strict_codec pins_json decode_pins ok_pins
proof (rule object_codecI [OF pins_json_def decode_pins_def], goal_cases)
  case 1 then show ?case by (auto simp: optional_json_def text_items_def split: option.splits)
next
  case 2 then show ?case by (simp add: has_keys_def pins_keys_def)
next
  case (3 q) then show ?case by (cases q) (simp add: ok_pins_def built_def jget_Cons read_written)
next
  case 4 then show ?case by (simp only: read_canon)
next
  case (5 p q) then show ?case
    by (auto simp: res_bind_eq_Inr read_Inr ok_pins_def pins_keys_def jget_Cons dest!: mk_returns)
qed

lemma enum_of_value:
  assumes "m \<in> set members" and "inj_on val (set members)"
  shows "enum_of val members (val m) = Inr m"
proof -
  have "filter (\<lambda>x. val x = val m) members = filter (\<lambda>x. x = m) members"
    using assms by (intro filter_cong refl) (auto dest: inj_onD)
  moreover have "m \<in> set (filter (\<lambda>x. x = m) members)" using assms(1) by simp
  ultimately show ?thesis
    by (cases "filter (\<lambda>x. x = m) members") (auto simp: enum_of_def dest: filter_eq_ConsD)
qed

lemma enum_of_Inr: "enum_of val members s = Inr m \<Longrightarrow> val m = s \<and> m \<in> set members"
  by (auto simp: enum_of_def split: list.splits dest: filter_eq_ConsD)

lemma enum_values:
  "answer_status_of (answer_status_value st) = Inr st" "segment_kind_of (segment_kind_value k) = Inr k"
  "claim_origin_of (claim_origin_value org) = Inr org"
proof -
  show "answer_status_of (answer_status_value st) = Inr st"
    unfolding answer_status_of_def by (cases st) (rule enum_of_value; simp)+
  show "segment_kind_of (segment_kind_value k) = Inr k"
    unfolding segment_kind_of_def by (cases k) (rule enum_of_value; simp)+
  show "claim_origin_of (claim_origin_value org) = Inr org"
    unfolding claim_origin_of_def by (cases org) (rule enum_of_value; simp)+
qed

lemma enum_value_text [simp]:
  shows "is_text (answer_status_value st)" and "is_text (segment_kind_value k)" and "is_text (claim_origin_value org)"
proof -
  show "is_text (answer_status_value st)" by (cases st) (simp_all add: text_eval)
  show "is_text (segment_kind_value k)" by (cases k) (simp_all add: text_eval)
  show "is_text (claim_origin_value org)" by (cases org) (simp_all add: text_eval)
qed

lemma enum_read:
  "answer_status_of s = Inr st \<longleftrightarrow> s = answer_status_value st" "segment_kind_of s = Inr k \<longleftrightarrow> s = segment_kind_value k"
  "claim_origin_of s = Inr org \<longleftrightarrow> s = claim_origin_value org"
  using enum_values enum_of_Inr
  unfolding answer_status_of_def segment_kind_of_def claim_origin_of_def by metis+

definition ok_provenance :: "answer_provenance \<Rightarrow> bool" where
  "ok_provenance a = (list_all ok_commitment (ap_commitments a) \<and> ok_prompt (ap_prompt a) \<and> pred_option ok_model (ap_model a) \<and>
     ok_retrieval (ap_retrieval a) \<and> list_all ok_validator (ap_validators a) \<and> ok_pins (ap_pins a) \<and> is_text (ap_run a) \<and>
     built mk_provenance a)"

interpretation provenance_codec: strict_codec provenance_json decode_provenance ok_provenance
proof (rule object_codecI [OF provenance_json_def decode_provenance_def], goal_cases)
  case (1 a)
  show ?case
    using commitment_codec.array_wf [of "ap_commitments a"] validator_codec.array_wf [of "ap_validators a"]
      model_codec.optional_wf [of "ap_model a"]
    by (auto simp: prompt_codec.enc_wf retrieval_codec.enc_wf pins_codec.enc_wf)
next
  case 2 then show ?case by (simp add: has_keys_def provenance_keys_def)
next
  case (3 a)
  have "optional_value decode_model (optional_json model_json (ap_model a)) = Inr (ap_model a)"
    using 3 by (intro model_codec.optional_enc) (simp_all add: ok_provenance_def model_json_def)
  with 3 show ?case
    by (cases a) (simp add: ok_provenance_def built_def jget_Cons read_written prompt_codec.dec_enc retrieval_codec.dec_enc
        pins_codec.dec_enc commitment_codec.array_enc validator_codec.array_enc)
next
  case (4 p) then show ?case
    by (simp only: read_canon prompt_codec.dec_canon [OF wf_jget] retrieval_codec.dec_canon [OF wf_jget]
        pins_codec.dec_canon [OF wf_jget] model_codec.optional_canon [OF wf_jget]
        commitment_codec.read_array_canon [OF wf_jget] validator_codec.read_array_canon [OF wf_jget])
next
  case (5 p a)
  note wf = wf_jget [OF 5(1)]
  have arr: "wf_json (JArr vs)" if "jget p k = JArr vs" for k vs using wf [of k] that by simp
  show ?case using 5(2)
    by (auto simp: res_bind_eq_Inr read_Inr ok_provenance_def provenance_keys_def jget_Cons comp_def
        dest!: mk_returns prompt_codec.dec_strict [OF wf] retrieval_codec.dec_strict [OF wf] pins_codec.dec_strict [OF wf]
          model_codec.optional_strict [OF wf] commitment_codec.array_strict [OF arr, rotated] validator_codec.array_strict [OF arr, rotated])
qed

definition ok_segment :: "answer_segment \<Rightarrow> bool" where
  "ok_segment s = (is_text (sg_text s) \<and> list_all ok_citation (sg_citations s) \<and> built mk_segment s)"

interpretation segment_codec: strict_codec segment_json decode_segment ok_segment
proof (rule object_codecI [OF segment_json_def decode_segment_def], goal_cases)
  case (1 s)
  show ?case using citation_codec.array_wf [of "sg_citations s"] by auto
next
  case 2 then show ?case by (simp add: has_keys_def segment_keys_def)
next
  case (3 s) then show ?case
    by (cases s) (simp add: ok_segment_def built_def jget_Cons read_written enum_value_text enum_values citation_codec.array_enc)
next
  case (4 p) then show ?case by (simp only: read_canon citation_codec.read_array_canon [OF wf_jget])
next
  case (5 p s)
  have arr: "wf_json (JArr vs)" if "jget p k = JArr vs" for k vs using wf_jget [OF 5(1), of k] that by simp
  show ?case using 5(2)
    by (auto simp: res_bind_eq_Inr read_Inr enum_read ok_segment_def segment_keys_def jget_Cons comp_def
        dest!: mk_returns citation_codec.array_strict [OF arr, rotated])
qed

definition ok_answer :: "grounded_answer \<Rightarrow> bool" where
  "ok_answer a = (list_all ok_segment (ga_segments a) \<and> pred_option is_text (ga_note a) \<and> ok_provenance (ga_provenance a) \<and>
     built mk_answer a)"

interpretation answer_codec: strict_codec answer_json decode_answer ok_answer
proof (rule object_codecI [OF answer_json_def decode_answer_def], goal_cases)
  case (1 a)
  show ?case using segment_codec.array_wf [of "ga_segments a"] provenance_codec.enc_wf
    by (auto simp: optional_json_def split: option.splits)
next
  case 2 then show ?case by (simp add: has_keys_def answer_keys_def)
next
  case (3 a) then show ?case
    by (cases a) (simp add: ok_answer_def built_def jget_Cons read_written enum_value_text enum_values segment_codec.array_enc
        provenance_codec.dec_enc)
next
  case (4 p) then show ?case
    by (simp only: read_canon segment_codec.read_array_canon [OF wf_jget] provenance_codec.dec_canon [OF wf_jget])
next
  case (5 p a)
  note wf = wf_jget [OF 5(1)]
  have arr: "wf_json (JArr vs)" if "jget p k = JArr vs" for k vs using wf [of k] that by simp
  show ?case using 5(2)
    by (auto simp: res_bind_eq_Inr read_Inr enum_read ok_answer_def answer_keys_def jget_Cons comp_def
        dest!: mk_returns segment_codec.array_strict [OF arr, rotated] provenance_codec.dec_strict [OF wf])
qed

section \<open>Properties\<close>


definition example_fingerprint :: string where
  "example_fingerprint = replicate 64 (CHR ''0'')"

definition example_answer :: grounded_answer where
  "example_answer = \<lparr>ga_status = ANSWERED,
     ga_segments = [\<lparr>sg_kind = SUPPORTED_CLAIM, sg_text = ''Cells divide.'',
       sg_citations = [\<lparr>ci_source = ''s'', ci_revision = ''r'', ci_chunk = ''c'', ci_start = 0, ci_end = 5,
         ci_locator = ''p1'', ci_snippet = Some ''Cells''\<rparr>], sg_origin = OBSERVED\<rparr>],
     ga_note = None,
     ga_provenance = \<lparr>
       ap_commitments = [\<lparr>sc_source = ''s'', sc_revision = ''r'', sc_chunk = ''c'', sc_start = 0, sc_end = 5\<rparr>],
       ap_prompt = \<lparr>pp_id = ''p'', pp_version = ''1'', pp_composition = Some example_fingerprint, pp_layers = []\<rparr>,
       ap_model = Some \<lparr>mp_adapter = ''m'', mp_adapter_version = ''1'', mp_model = ''x'', mp_response = Some ''i'',
         mp_run = ''run'', mp_usage = Some \<lparr>mu_input = 3, mu_output = 4\<rparr>\<rparr>,
       ap_retrieval = \<lparr>rp_strategy = ''f'', rp_strategy_version = ''1'', rp_query = example_fingerprint, rp_index = ''1'',
         rp_read_set = example_fingerprint\<rparr>,
       ap_validators = [\<lparr>vp_id = ''grounded_answer_integrity'', vp_version = ''1'', vp_passed = True, vp_disposition = ''continue'',
         vp_result = example_fingerprint\<rparr>],
       ap_pins = \<lparr>pin_skill = ''s'', pin_playbook = ''b'', pin_prompt = ''p'', pin_model_adapter = Some ''m@1'',
         pin_state_contract = ''c'', pin_tool_behavior = ''t''\<rparr>,
       ap_run = ''run'', ap_event_version = 1, ap_reducer_version = 1\<rparr>\<rparr>"

lemma example_fingerprint_ok: "is_sha256 example_fingerprint"
  by (simp add: example_fingerprint_def is_sha256_def hex_chars_def)

lemma example_answer_ok: "ok_answer example_answer"
proof -
  note fp = example_fingerprint_ok is_sha256_text [OF example_fingerprint_ok]
  note defs = built_def require_def require_fingerprint_def text_eval claim_kind_def citation_commitment_def fromkeys_def
    mk_citation_def mk_segment_def mk_commitment_def mk_prompt_def mk_usage_def mk_model_def mk_retrieval_def mk_validator_def
    mk_pins_def mk_provenance_def ok_citation_def ok_segment_def ok_commitment_def ok_prompt_def ok_usage_def ok_model_def
    ok_retrieval_def ok_validator_def ok_pins_def
  show ?thesis
    unfolding ok_answer_def ok_provenance_def example_answer_def
    by (simp add: fp defs mk_answer_def check_evidence_def answer_citations_def)
qed


text \<open>C23. Only grounded answers are accepted: every claim is cited, the source commitments are exactly the cited spans,
  once each, every validator passed, an answered question has a claim, a model and a passed integrity check, and any other
  outcome carries a note.\<close>

theorem accepted_answers_grounded:
  assumes "wf_json v" and "decode_answer v = Inr a"
  shows "(\<forall>s \<in> set (ga_segments a). claim_kind (sg_kind s) \<longrightarrow> sg_citations s \<noteq> []) \<and>
    set (ap_commitments (ga_provenance a)) = citation_commitment ` set (answer_citations a) \<and>
    distinct (ap_commitments (ga_provenance a)) \<and>
    (\<forall>w \<in> set (ap_validators (ga_provenance a)). vp_passed w) \<and>
    (if ga_status a = ANSWERED
     then (\<exists>s \<in> set (ga_segments a). claim_kind (sg_kind s)) \<and> ap_model (ga_provenance a) \<noteq> None \<and>
       (\<exists>w \<in> set (ap_validators (ga_provenance a)). vp_id w = ''grounded_answer_integrity'')
     else ga_status a \<noteq> FAILED \<and> ga_note a \<noteq> None)"
proof -
  have ok: "list_all ok_segment (ga_segments a)" "built mk_answer a" "built mk_provenance (ga_provenance a)"
    using answer_codec.dec_strict [OF assms] by (simp_all add: ok_answer_def ok_provenance_def)
  have "\<forall>s \<in> set (ga_segments a). claim_kind (sg_kind s) \<longrightarrow> sg_citations s \<noteq> []"
    using ok(1) by (auto simp: list_all_iff ok_segment_def built_def mk_segment_def res_bind_eq_Inr)
  moreover have "ap_commitments (ga_provenance a) = fromkeys (map citation_commitment (answer_citations a))"
    using ok(2) by (auto simp: built_def mk_answer_def Let_def res_bind_eq_Inr split: if_splits)
  moreover have "\<forall>w \<in> set (ap_validators (ga_provenance a)). vp_passed w"
    using ok(3) by (auto simp: built_def mk_provenance_def split: if_splits)
  moreover have "if ga_status a = ANSWERED
     then (\<exists>s \<in> set (ga_segments a). claim_kind (sg_kind s)) \<and> ap_model (ga_provenance a) \<noteq> None \<and>
       (\<exists>w \<in> set (ap_validators (ga_provenance a)). vp_id w = ''grounded_answer_integrity'')
     else ga_status a \<noteq> FAILED \<and> ga_note a \<noteq> None"
    using ok(2)
    by (auto simp: built_def mk_answer_def check_evidence_def require_def Let_def res_bind_eq_Inr split: if_splits option.splits)
  ultimately show ?thesis by (auto simp: fromkeys_def)
qed

theorem accepted_answers_grounded_witness:
  "set (ap_commitments (ga_provenance example_answer)) = citation_commitment ` set (answer_citations example_answer)"
  using accepted_answers_grounded [OF answer_codec.enc_wf answer_codec.dec_enc [OF example_answer_ok]] by blast

end
