(* ===== verification/Session_Events.thy ===== *)
theory Session_Events
  imports Grounding
begin

text \<open>
  Session values and the session event codec: \<^verbatim>\<open>src/src/study_agent/domain/session.py\<close>, the session
  identities of \<^verbatim>\<open>domain/identifiers.py\<close> and \<^verbatim>\<open>src/src/study_agent/sessions/events.py\<close>. The checks that
  an envelope field has its Python class hold by typing. The identity functions take keys their callers have
  checked, so their own \<^verbatim>\<open>require_text\<close> cannot fail and is left out.
\<close>

section \<open>Values\<close>

datatype interaction_kind = Interaction_HUMAN | Interaction_ASSISTANT | Interaction_NOTE
datatype session_status = Session_ACTIVE | Session_SUSPENDED | Session_ENDED
datatype assistant_turn_status = COMPLETED | TERMINATED

fun interaction_kind_value :: "interaction_kind \<Rightarrow> string" where
  "interaction_kind_value Interaction_HUMAN = ''human''"
| "interaction_kind_value Interaction_ASSISTANT = ''assistant''"
| "interaction_kind_value Interaction_NOTE = ''note''"

fun session_status_value :: "session_status \<Rightarrow> string" where
  "session_status_value Session_ACTIVE = ''active''"
| "session_status_value Session_SUSPENDED = ''suspended''"
| "session_status_value Session_ENDED = ''ended''"

fun turn_status_value :: "assistant_turn_status \<Rightarrow> string" where
  "turn_status_value COMPLETED = ''completed''"
| "turn_status_value TERMINATED = ''terminated''"

definition interaction_kind_of :: "string \<Rightarrow> interaction_kind result" where
  "interaction_kind_of = enum_of interaction_kind_value [Interaction_HUMAN, Interaction_ASSISTANT, Interaction_NOTE]"

definition session_status_of :: "string \<Rightarrow> session_status result" where
  "session_status_of = enum_of session_status_value [Session_ACTIVE, Session_SUSPENDED, Session_ENDED]"

definition turn_status_of :: "string \<Rightarrow> assistant_turn_status result" where
  "turn_status_of = enum_of turn_status_value [COMPLETED, TERMINATED]"

record run_output_ref =
  ro_run :: string
  ro_fingerprint :: string
  ro_key :: string

definition mk_output_ref :: "run_output_ref \<Rightarrow> run_output_ref result" where
  "mk_output_ref r =
     (if ro_key r \<noteq> ''tutor_message'' then Inl ValueError
      else res_bind (require_fingerprint (ro_fingerprint r)) (\<lambda>_. Inr r))"

record assistant_turn =
  at_id :: string
  at_session :: string
  at_time :: datetime
  at_status :: assistant_turn_status
  at_content :: string
  at_reply :: "string option"
  at_output :: run_output_ref
  at_key :: string
  at_fingerprint :: string
  at_event :: string
  at_sequence :: int

definition mk_turn :: "assistant_turn \<Rightarrow> assistant_turn result" where
  "mk_turn t =
     res_bind (require_text (at_content t)) (\<lambda>_.
     res_bind (require_text (at_key t)) (\<lambda>_.
     res_bind (require_fingerprint (at_fingerprint t)) (\<lambda>_.
       if at_sequence t < 1 then Inl ValueError else Inr t)))"

record interaction_record =
  ix_id :: string
  ix_kind :: interaction_kind
  ix_time :: datetime
  ix_content :: string
  ix_answer :: "string option"
  ix_run :: "string option"

definition mk_interaction :: "interaction_record \<Rightarrow> interaction_record result" where
  "mk_interaction i =
     res_bind (require_text (ix_content i)) (\<lambda>_.
       if ix_kind i = Interaction_ASSISTANT then
         if ix_answer i = None \<or> ix_run i = None then Inl ValueError else Inr i
       else if ix_answer i \<noteq> None \<or> ix_run i \<noteq> None then Inl ValueError else Inr i)"

record answer_record =
  ar_id :: string
  ar_interaction :: string
  ar_question :: string
  ar_run :: string
  ar_key :: string
  ar_fingerprint :: string
  ar_answer :: grounded_answer

definition mk_answer_record :: "answer_record \<Rightarrow> answer_record result" where
  "mk_answer_record r =
     (if ar_interaction r = ar_question r then Inl ValueError
      else
        res_bind (require_text (ar_key r)) (\<lambda>_.
        res_bind (require_fingerprint (ar_fingerprint r)) (\<lambda>_.
          if ap_run (ga_provenance (ar_answer r)) \<noteq> ar_run r then Inl ValueError else Inr r)))"

record summary_exchange =
  sx_question :: string
  sx_answer :: string
  sx_learner :: string
  sx_assistant :: string
  sx_status :: answer_status
  sx_note :: "string option"

definition mk_exchange :: "summary_exchange \<Rightarrow> summary_exchange result" where
  "mk_exchange x =
     (if sx_question x = sx_answer x then Inl ValueError
      else
        res_bind (require_text (sx_learner x)) (\<lambda>_.
        res_bind (require_text (sx_assistant x)) (\<lambda>_.
        res_bind (case sx_note x of None \<Rightarrow> Inr () | Some n \<Rightarrow> require_text n) (\<lambda>_.
          if sx_status x \<noteq> ANSWERED \<and> sx_note x = None then Inl ValueError else Inr x))))"

record continuation_summary =
  cs_through :: string
  cs_count :: int
  cs_exchanges :: "summary_exchange list"
  cs_points :: "string list"
  cs_notes :: "string list"
  cs_characters :: int
  cs_version :: int

text \<open>The characters of the excerpts, in either of the two places the source sums them.\<close>

definition exchange_characters :: "summary_exchange \<Rightarrow> nat" where
  "exchange_characters x = length (sx_learner x) + length (sx_assistant x) +
     (case sx_note x of None \<Rightarrow> 0 | Some n \<Rightarrow> length n)"

definition summary_characters :: "summary_exchange list \<Rightarrow> string list \<Rightarrow> string list \<Rightarrow> int" where
  "summary_characters xs points notes =
     int (sum_list (map exchange_characters xs)) + int (sum_list (map length (points @ notes)))"

definition mk_summary :: "continuation_summary \<Rightarrow> continuation_summary result" where
  "mk_summary c =
     (if cs_version c \<noteq> 1 then Inl ValueError
      else if cs_count c < 1 then Inl ValueError
      else if cs_characters c < 0 \<or> 2000 < cs_characters c then Inl ValueError
      else if 4 < length (cs_exchanges c) then Inl ValueError
      else if \<not> distinct (map (\<lambda>x. (sx_question x, sx_answer x)) (cs_exchanges c)) then Inl ValueError
      else
        res_bind (map_res require_text (cs_points c)) (\<lambda>_.
        res_bind (map_res require_text (cs_notes c)) (\<lambda>_.
          if \<not> distinct (cs_points c) then Inl ValueError
          else if \<not> distinct (cs_notes c) then Inl ValueError
          else if cs_characters c \<noteq> summary_characters (cs_exchanges c) (cs_points c) (cs_notes c) then Inl ValueError
          else Inr c)))"

section \<open>Identities\<close>

definition joined_digest :: "string list \<Rightarrow> string" where
  "joined_digest parts = sha256_hex (utf8_encode (join [CHR 0x00] parts))"

definition retry_digest :: "string \<Rightarrow> string \<Rightarrow> string \<Rightarrow> string \<Rightarrow> string \<Rightarrow> string" where
  "retry_digest course session run key purpose = joined_digest [course, session, run, key, purpose]"

definition answer_id_for :: "string \<Rightarrow> string \<Rightarrow> string \<Rightarrow> string \<Rightarrow> string" where
  "answer_id_for course session run key = ''answer-sha256:'' @ retry_digest course session run key ''answer''"

definition question_interaction_id_for :: "string \<Rightarrow> string \<Rightarrow> string \<Rightarrow> string \<Rightarrow> string" where
  "question_interaction_id_for course session run key =
     ''interaction-sha256:'' @ retry_digest course session run key ''question''"

definition assistant_interaction_id_for :: "string \<Rightarrow> string \<Rightarrow> string \<Rightarrow> string \<Rightarrow> string" where
  "assistant_interaction_id_for course session run key =
     ''interaction-sha256:'' @ retry_digest course session run key ''assistant''"

definition learner_interaction_id_for :: "string \<Rightarrow> string \<Rightarrow> string \<Rightarrow> string" where
  "learner_interaction_id_for course session key =
     ''interaction-sha256:'' @ joined_digest [''session-learner-turn@1'', course, session, key]"

definition session_turn_event_id_for :: "string \<Rightarrow> string \<Rightarrow> string \<Rightarrow> string \<Rightarrow> string" where
  "session_turn_event_id_for course session key event_type =
     ''event-sha256:'' @ joined_digest [''session-turn-event@1'', course, session, key, event_type]"

definition session_event_id_for :: "string \<Rightarrow> string \<Rightarrow> string \<Rightarrow> string \<Rightarrow> string \<Rightarrow> string" where
  "session_event_id_for course session run key event_type =
     ''event-sha256:'' @ retry_digest course session run key event_type"

section \<open>Summary codec\<close>

definition exchange_keys :: "string list" where
  "exchange_keys = [''question_interaction_id'', ''answer_interaction_id'', ''learner_excerpt'', ''assistant_excerpt'',
     ''answer_status'', ''unsupported_note'']"

definition exchange_json :: "summary_exchange \<Rightarrow> json" where
  "exchange_json x = JObj [
     (''question_interaction_id'', JStr (sx_question x)), (''answer_interaction_id'', JStr (sx_answer x)),
     (''learner_excerpt'', JStr (sx_learner x)), (''assistant_excerpt'', JStr (sx_assistant x)),
     (''answer_status'', JStr (answer_status_value (sx_status x))), (''unsupported_note'', optional_json JStr (sx_note x))]"

definition decode_exchange :: "json \<Rightarrow> summary_exchange result" where
  "decode_exchange v =
     res_bind (object_value v exchange_keys) (\<lambda>p.
     res_bind (text_value (jget p ''answer_status'')) (\<lambda>st.
     res_bind (answer_status_of st) (\<lambda>status.
     res_bind (text_value (jget p ''question_interaction_id'')) (\<lambda>question.
     res_bind (text_value (jget p ''answer_interaction_id'')) (\<lambda>answer.
     res_bind (text_value (jget p ''learner_excerpt'')) (\<lambda>learner.
     res_bind (text_value (jget p ''assistant_excerpt'')) (\<lambda>assistant.
     res_bind (optional_text (jget p ''unsupported_note'')) (\<lambda>note.
       mk_exchange \<lparr>sx_question = question, sx_answer = answer, sx_learner = learner, sx_assistant = assistant,
         sx_status = status, sx_note = note\<rparr>))))))))"

definition summary_keys :: "string list" where
  "summary_keys = [''schema_version'', ''through_interaction_id'', ''interaction_count'', ''recent_exchanges'',
     ''grounded_points'', ''unresolved_notes'', ''character_count'']"

definition summary_json :: "continuation_summary \<Rightarrow> json" where
  "summary_json c = JObj [
     (''schema_version'', JInt (cs_version c)), (''through_interaction_id'', JStr (cs_through c)),
     (''interaction_count'', JInt (cs_count c)), (''recent_exchanges'', JArr (map exchange_json (cs_exchanges c))),
     (''grounded_points'', text_items (cs_points c)), (''unresolved_notes'', text_items (cs_notes c)),
     (''character_count'', JInt (cs_characters c))]"

definition summary_payload :: "continuation_summary \<Rightarrow> json_object" where
  "summary_payload c = [(''summary'', summary_json c)]"

definition decode_summary :: "json \<Rightarrow> continuation_summary result" where
  "decode_summary v =
     res_bind (object_value v summary_keys) (\<lambda>p.
     res_bind (array_value (jget p ''recent_exchanges'')) (\<lambda>xs.
     res_bind (map_res decode_exchange xs) (\<lambda>exchanges.
     res_bind (text_array (jget p ''grounded_points'')) (\<lambda>points.
     res_bind (text_array (jget p ''unresolved_notes'')) (\<lambda>notes.
     res_bind (text_value (jget p ''through_interaction_id'')) (\<lambda>through.
     res_bind (integer_value (jget p ''interaction_count'')) (\<lambda>count.
     res_bind (integer_value (jget p ''character_count'')) (\<lambda>characters.
     res_bind (integer_value (jget p ''schema_version'')) (\<lambda>version.
       mk_summary \<lparr>cs_through = through, cs_count = count, cs_exchanges = exchanges, cs_points = points, cs_notes = notes,
         cs_characters = characters, cs_version = version\<rparr>)))))))))"

section \<open>Event payloads\<close>

definition session_started_type :: string where "session_started_type = ''session.started''"
definition interaction_recorded_type :: string where "interaction_recorded_type = ''session.interaction_recorded''"
definition answer_recorded_type :: string where "answer_recorded_type = ''session.answer_recorded''"
definition assistant_turn_type :: string where "assistant_turn_type = ''session.assistant_turn_recorded''"
definition summary_updated_type :: string where "summary_updated_type = ''session.continuation_summary_updated''"
definition session_suspended_type :: string where "session_suspended_type = ''session.suspended''"
definition session_resumed_type :: string where "session_resumed_type = ''session.resumed''"
definition session_ended_type :: string where "session_ended_type = ''session.ended''"

record interaction_recorded =
  ir_id :: string
  ir_kind :: interaction_kind
  ir_content :: string

definition session_started_payload :: "string \<Rightarrow> json_object" where
  "session_started_payload sess = [(''session_id'', JStr sess)]"

definition interaction_recorded_payload :: "string \<Rightarrow> interaction_kind \<Rightarrow> string \<Rightarrow> json_object result" where
  "interaction_recorded_payload iid k content =
     (if k \<notin> {Interaction_HUMAN, Interaction_NOTE} then Inl ValueError
      else Inr [(''interaction_id'', JStr iid), (''kind'', JStr (interaction_kind_value k)), (''content'', JStr content)])"

definition answer_recorded_payload :: "answer_record \<Rightarrow> json_object" where
  "answer_recorded_payload r =
     [(''answer_id'', JStr (ar_id r)), (''interaction_id'', JStr (ar_interaction r)),
      (''question_interaction_id'', JStr (ar_question r)), (''run_id'', JStr (ar_run r)),
      (''idempotency_key'', JStr (ar_key r)), (''command_fingerprint'', JStr (ar_fingerprint r)),
      (''answer'', answer_json (ar_answer r)), (''provenance'', provenance_json (ga_provenance (ar_answer r)))]"

definition output_json :: "run_output_ref \<Rightarrow> json" where
  "output_json r = JObj [(''run_id'', JStr (ro_run r)), (''output_key'', JStr (ro_key r)),
     (''output_fingerprint'', JStr (ro_fingerprint r))]"

definition assistant_turn_recorded_payload :: "assistant_turn \<Rightarrow> json_object" where
  "assistant_turn_recorded_payload t =
     [(''turn_id'', JStr (at_id t)), (''status'', JStr (turn_status_value (at_status t))), (''content'', JStr (at_content t)),
      (''in_reply_to_interaction_id'', optional_json JStr (at_reply t)), (''output'', output_json (at_output t)),
      (''idempotency_key'', JStr (at_key t)), (''command_fingerprint'', JStr (at_fingerprint t))]"

definition tutor_message_output_fingerprint :: "assistant_turn_status \<Rightarrow> string \<Rightarrow> string option \<Rightarrow> string" where
  "tutor_message_output_fingerprint status content reply = sha256_hex (canonical_json_bytes
     [(''schema_version'', JInt 1), (''status'', JStr (turn_status_value status)), (''content'', JStr content),
      (''in_reply_to_interaction_id'', optional_json JStr reply)])"

definition assistant_turn_command_fingerprint ::
  "assistant_turn_status \<Rightarrow> string \<Rightarrow> string option \<Rightarrow> run_output_ref \<Rightarrow> string" where
  "assistant_turn_command_fingerprint status content reply output = sha256_hex (canonical_json_bytes
     [(''status'', JStr (turn_status_value status)), (''content'', JStr content),
      (''in_reply_to_interaction_id'', optional_json JStr reply), (''output'', output_json output)])"

section \<open>Event decoders\<close>

definition session_envelope :: "domain_event \<Rightarrow> string \<Rightarrow> string result" where
  "session_envelope e ty =
     (if ev_type e \<noteq> ty \<or> ev_version e \<noteq> 1 then Inl ValueError
      else case ev_session e of None \<Rightarrow> Inl ValueError | Some sess \<Rightarrow> Inr sess)"

definition decode_session_started :: "domain_event \<Rightarrow> string result" where
  "decode_session_started e =
     res_bind (session_envelope e session_started_type) (\<lambda>sess.
     res_bind (object_value (JObj (ev_payload e)) [''session_id'']) (\<lambda>p.
     res_bind (text_value (jget p ''session_id'')) (\<lambda>decoded.
       if decoded \<noteq> sess then Inl ValueError else Inr decoded)))"

definition decode_interaction_recorded :: "domain_event \<Rightarrow> interaction_recorded result" where
  "decode_interaction_recorded e =
     res_bind (session_envelope e interaction_recorded_type) (\<lambda>_.
     res_bind (object_value (JObj (ev_payload e)) [''interaction_id'', ''kind'', ''content'']) (\<lambda>p.
     res_bind (text_value (jget p ''kind'')) (\<lambda>ks.
     res_bind (interaction_kind_of ks) (\<lambda>k.
       if k \<notin> {Interaction_HUMAN, Interaction_NOTE} then Inl ValueError
       else
         res_bind (text_value (jget p ''interaction_id'')) (\<lambda>iid.
         res_bind (text_value (jget p ''content'')) (\<lambda>content.
           Inr \<lparr>ir_id = iid, ir_kind = k, ir_content = content\<rparr>))))))"

definition answer_recorded_keys :: "string list" where
  "answer_recorded_keys = [''answer_id'', ''interaction_id'', ''question_interaction_id'', ''run_id'', ''idempotency_key'',
     ''command_fingerprint'', ''answer'', ''provenance'']"

definition decode_answer_recorded :: "domain_event \<Rightarrow> answer_record result" where
  "decode_answer_recorded e =
     res_bind (session_envelope e answer_recorded_type) (\<lambda>_.
     res_bind (object_value (JObj (ev_payload e)) answer_recorded_keys) (\<lambda>p.
     res_bind (decode_answer (jget p ''answer'')) (\<lambda>answer.
     res_bind (decode_provenance (jget p ''provenance'')) (\<lambda>prov.
       if prov \<noteq> ga_provenance answer then Inl ValueError
       else
         res_bind (text_value (jget p ''answer_id'')) (\<lambda>aid.
         res_bind (text_value (jget p ''interaction_id'')) (\<lambda>iid.
         res_bind (text_value (jget p ''question_interaction_id'')) (\<lambda>qid.
         res_bind (text_value (jget p ''run_id'')) (\<lambda>run.
         res_bind (text_value (jget p ''idempotency_key'')) (\<lambda>key.
         res_bind (text_value (jget p ''command_fingerprint'')) (\<lambda>fp.
           mk_answer_record \<lparr>ar_id = aid, ar_interaction = iid, ar_question = qid, ar_run = run, ar_key = key,
             ar_fingerprint = fp, ar_answer = answer\<rparr>))))))))))"

definition turn_keys :: "string list" where
  "turn_keys = [''turn_id'', ''status'', ''content'', ''in_reply_to_interaction_id'', ''output'', ''idempotency_key'',
     ''command_fingerprint'']"

definition decode_turn_fields :: "domain_event \<Rightarrow> string \<Rightarrow> json_object \<Rightarrow> assistant_turn result" where
  "decode_turn_fields e sess p =
     res_bind (object_value (jget p ''output'') [''run_id'', ''output_key'', ''output_fingerprint'']) (\<lambda>out.
     res_bind (text_value (jget p ''status'')) (\<lambda>st.
     res_bind (turn_status_of st) (\<lambda>status.
     res_bind (optional_text (jget p ''in_reply_to_interaction_id'')) (\<lambda>reply.
     res_bind (text_value (jget p ''turn_id'')) (\<lambda>tid.
     res_bind (text_value (jget p ''content'')) (\<lambda>content.
     res_bind (text_value (jget out ''run_id'')) (\<lambda>run.
     res_bind (text_value (jget out ''output_key'')) (\<lambda>okey.
     res_bind (text_value (jget out ''output_fingerprint'')) (\<lambda>ofp.
     res_bind (mk_output_ref \<lparr>ro_run = run, ro_fingerprint = ofp, ro_key = okey\<rparr>) (\<lambda>output.
     res_bind (text_value (jget p ''idempotency_key'')) (\<lambda>key.
     res_bind (text_value (jget p ''command_fingerprint'')) (\<lambda>fp.
       mk_turn \<lparr>at_id = tid, at_session = sess, at_time = ev_at e, at_status = status, at_content = content,
         at_reply = reply, at_output = output, at_key = key, at_fingerprint = fp, at_event = ev_id e,
         at_sequence = ev_seq e\<rparr>))))))))))))"

definition check_turn :: "domain_event \<Rightarrow> string \<Rightarrow> assistant_turn \<Rightarrow> assistant_turn result" where
  "check_turn e sess t =
     (if at_id t \<noteq> assistant_interaction_id_for (ev_course e) sess (ro_run (at_output t)) (at_key t) then Inl ValueError
      else if ev_id e \<noteq> session_turn_event_id_for (ev_course e) sess (at_key t) assistant_turn_type then Inl ValueError
      else if ro_fingerprint (at_output t) \<noteq> tutor_message_output_fingerprint (at_status t) (at_content t) (at_reply t)
        then Inl ValueError
      else if at_fingerprint t \<noteq> assistant_turn_command_fingerprint (at_status t) (at_content t) (at_reply t) (at_output t)
        then Inl ValueError
      else Inr t)"

definition decode_assistant_turn_recorded :: "domain_event \<Rightarrow> assistant_turn result" where
  "decode_assistant_turn_recorded e =
     res_bind (session_envelope e assistant_turn_type) (\<lambda>sess.
       if act_kind (ev_actor e) \<noteq> SERVICE then Inl ValueError
       else
         res_bind (object_value (JObj (ev_payload e)) turn_keys) (\<lambda>p.
         res_bind (decode_turn_fields e sess p) (\<lambda>t. check_turn e sess t)))"

definition decode_summary_updated :: "domain_event \<Rightarrow> continuation_summary result" where
  "decode_summary_updated e =
     res_bind (session_envelope e summary_updated_type) (\<lambda>_.
     res_bind (object_value (JObj (ev_payload e)) [''summary'']) (\<lambda>p. decode_summary (jget p ''summary'')))"

definition decode_lifecycle :: "string \<Rightarrow> domain_event \<Rightarrow> unit result" where
  "decode_lifecycle ty e =
     res_bind (session_envelope e ty) (\<lambda>_.
     res_bind (object_value (JObj (ev_payload e)) []) (\<lambda>_. Inr ()))"

section \<open>Strictness and invariance\<close>

lemma mk_session_same:
  "mk_exchange x = Inr x' \<Longrightarrow> x' = x" "mk_summary c = Inr c' \<Longrightarrow> c' = c" "mk_turn t = Inr t' \<Longrightarrow> t' = t"
  "mk_answer_record r = Inr r' \<Longrightarrow> r' = r" "mk_output_ref w = Inr w' \<Longrightarrow> w' = w" "mk_interaction i = Inr i' \<Longrightarrow> i' = i"
  by (auto simp: mk_exchange_def mk_summary_def mk_turn_def mk_answer_record_def mk_output_ref_def mk_interaction_def
      res_bind_eq_Inr split: if_splits)

lemma mk_session_returns:
  "mk_exchange x = Inr x' \<Longrightarrow> x' = x \<and> built mk_exchange x" "mk_summary c = Inr c' \<Longrightarrow> c' = c \<and> built mk_summary c"
  "mk_turn t = Inr t' \<Longrightarrow> t' = t \<and> built mk_turn t" "mk_answer_record r = Inr r' \<Longrightarrow> r' = r \<and> built mk_answer_record r"
  "mk_output_ref w = Inr w' \<Longrightarrow> w' = w \<and> built mk_output_ref w"
  "mk_interaction i = Inr i' \<Longrightarrow> i' = i \<and> built mk_interaction i"
  by (frule mk_session_same; simp add: built_def)+

definition ok_exchange :: "summary_exchange \<Rightarrow> bool" where
  "ok_exchange x = (list_all is_text [sx_question x, sx_answer x, sx_learner x, sx_assistant x] \<and>
     pred_option is_text (sx_note x) \<and> built mk_exchange x)"

interpretation exchange_codec: strict_codec exchange_json decode_exchange ok_exchange
proof (rule object_codecI [OF exchange_json_def decode_exchange_def], goal_cases)
  case 1 then show ?case by (auto simp: optional_json_def split: option.splits)
next
  case 2 then show ?case by (simp add: has_keys_def exchange_keys_def)
next
  case (3 x) then show ?case
    by (cases x) (simp add: ok_exchange_def built_def jget_Cons read_written enum_values)
next
  case 4 then show ?case by (simp only: read_canon)
next
  case (5 p x) then show ?case
    by (auto simp: res_bind_eq_Inr read_Inr enum_read ok_exchange_def exchange_keys_def jget_Cons dest!: mk_session_returns)
qed

definition ok_summary :: "continuation_summary \<Rightarrow> bool" where
  "ok_summary c = (is_text (cs_through c) \<and> list_all ok_exchange (cs_exchanges c) \<and> list_all is_text (cs_points c) \<and>
     list_all is_text (cs_notes c) \<and> built mk_summary c)"

interpretation summary_codec: strict_codec summary_json decode_summary ok_summary
proof (rule object_codecI [OF summary_json_def decode_summary_def], goal_cases)
  case (1 c) show ?case using exchange_codec.array_wf [of "cs_exchanges c"] by (auto simp: text_items_def)
next
  case 2 then show ?case by (simp add: has_keys_def summary_keys_def)
next
  case (3 c) then show ?case
    by (cases c) (simp add: ok_summary_def built_def jget_Cons read_written exchange_codec.array_enc)
next
  case (4 p) then show ?case by (simp only: read_canon exchange_codec.read_array_canon [OF wf_jget])
next
  case (5 p c)
  have arr: "wf_json (JArr vs)" if "jget p k = JArr vs" for k vs using wf_jget [OF 5(1), of k] that by simp
  show ?case using 5(2)
    by (auto simp: res_bind_eq_Inr read_Inr ok_summary_def summary_keys_def jget_Cons comp_def
        dest!: mk_session_returns exchange_codec.array_strict [OF arr, rotated])
qed

lemma session_envelope_stored [simp]: "session_envelope (stored e) ty = session_envelope e ty"
  by (simp add: session_envelope_def)

text \<open>Decoders of the payload of an event read its keys only.\<close>

lemma payload_read_stored:
  assumes "wf_event e" and "\<And>p. wf_json (JObj p) \<Longrightarrow> f (canon_obj p) = g p"
  shows "res_bind (object_value (JObj (canon_obj (ev_payload e))) ks) f = res_bind (object_value (JObj (ev_payload e)) ks) g"
proof -
  have "wf_json (JObj (ev_payload e))" using assms(1) by (simp add: wf_event_def)
  then show ?thesis using assms(2) by (simp add: object_value_def)
qed

lemma session_decoders_stored:
  assumes "wf_event e"
  shows "decode_session_started (stored e) = decode_session_started e"
    and "decode_interaction_recorded (stored e) = decode_interaction_recorded e"
    and "decode_answer_recorded (stored e) = decode_answer_recorded e"
    and "decode_assistant_turn_recorded (stored e) = decode_assistant_turn_recorded e"
    and "decode_summary_updated (stored e) = decode_summary_updated e"
    and "decode_lifecycle ty (stored e) = decode_lifecycle ty e"
proof -
  show "decode_session_started (stored e) = decode_session_started e"
    unfolding decode_session_started_def session_envelope_stored stored_fields
    by (rule res_bind_cong [OF refl], rule payload_read_stored [OF assms]) (simp only: read_canon)
  show "decode_interaction_recorded (stored e) = decode_interaction_recorded e"
    unfolding decode_interaction_recorded_def session_envelope_stored stored_fields
    by (rule res_bind_cong [OF refl], rule payload_read_stored [OF assms]) (simp only: read_canon)
  show "decode_answer_recorded (stored e) = decode_answer_recorded e"
    unfolding decode_answer_recorded_def session_envelope_stored stored_fields
    by (rule res_bind_cong [OF refl], rule payload_read_stored [OF assms])
      (simp only: read_canon answer_codec.dec_canon [OF wf_jget] provenance_codec.dec_canon [OF wf_jget])
  have turn: "decode_turn_fields (stored e) sess (canon_obj p) = decode_turn_fields e sess p" if wf: "wf_json (JObj p)" for sess p
    unfolding decode_turn_fields_def stored_fields jget_wf_canon [OF wf] object_value_canon res_bind_map_sum read_canon(2-)
  proof (rule res_bind_cong [OF refl], goal_cases)
    case (1 out)
    then have "wf_json (JObj out)" using wf_jget [OF wf, of "''output''"] by (simp add: object_value_Inr del: wf_json_JObj)
    then have "jget (canon_obj out) k = canon (jget out k)" for k by (rule jget_wf_canon)
    then show ?case by (simp only: text_value_canon)
  qed
  have "check_turn (stored e) = check_turn e" by (simp add: fun_eq_iff check_turn_def)
  then show "decode_assistant_turn_recorded (stored e) = decode_assistant_turn_recorded e"
    unfolding decode_assistant_turn_recorded_def session_envelope_stored stored_fields using turn
    by (intro res_bind_cong [where m = "session_envelope e _"] refl if_cong payload_read_stored [OF assms]) simp
  show "decode_summary_updated (stored e) = decode_summary_updated e"
    unfolding decode_summary_updated_def session_envelope_stored stored_fields
    by (rule res_bind_cong [OF refl], rule payload_read_stored [OF assms]) (simp only: read_canon summary_codec.dec_canon [OF wf_jget])
  show "decode_lifecycle ty (stored e) = decode_lifecycle ty e"
    unfolding decode_lifecycle_def session_envelope_stored stored_fields
    by (rule res_bind_cong [OF refl], rule payload_read_stored [OF assms]) simp
qed

end
