(* ===== verification/Session_Summary.thy ===== *)
theory Session_Summary
  imports Session_Events
begin

text \<open>
  Continuation summaries: \<^verbatim>\<open>src/src/study_agent/sessions/summary.py\<close>. The summary of a session is
  rebuilt from its canonical interactions and answers under a budget of 2000 characters, newest exchanges
  first. The lemmas account for the budget: what an excerpt uses, and that what is selected and what
  remains add up to what there was.
\<close>

section \<open>Bounded excerpts\<close>

text \<open>The mark of a shortened text. The source uses U+2026, which the 8-bit characters of the model do not
  have; nothing below depends on the character beyond its not being white space.\<close>

definition ellipsis :: char where
  "ellipsis = CHR 0xB7"

definition max_recent_exchanges :: nat where "max_recent_exchanges = 4"
definition max_summary_characters :: int where "max_summary_characters = 2000"

definition bounded_excerpt :: "string \<Rightarrow> int \<Rightarrow> string \<times> int" where
  "bounded_excerpt v remaining =
     (if remaining < 1 then ([], 0)
      else if int (length v) \<le> remaining then (v, int (length v))
      else if remaining = 1 then ([ellipsis], 1)
      else let r = take (nat (remaining - 1)) v @ [ellipsis] in (r, int (length r)))"

fun dedup_loop :: "string list \<Rightarrow> string list \<Rightarrow> string list" where
  "dedup_loop seen [] = []"
| "dedup_loop seen (v # vs) = (if v \<in> set seen then dedup_loop seen vs else v # dedup_loop (v # seen) vs)"

definition deduplicate :: "string list \<Rightarrow> string list" where
  "deduplicate vs = dedup_loop [] vs"

fun bounded_loop :: "string list \<Rightarrow> int \<Rightarrow> string list \<times> int" where
  "bounded_loop [] remaining = ([], remaining)"
| "bounded_loop (v # vs) remaining =
     (if remaining = 0 then ([], remaining)
      else
        let (excerpt, used) = bounded_excerpt v remaining; (rest, left) = bounded_loop vs (remaining - used)
        in (excerpt # rest, left))"

definition bounded_values :: "string list \<Rightarrow> int \<Rightarrow> string list \<times> int" where
  "bounded_values vs remaining = (let (selected, left) = bounded_loop (rev vs) remaining in (rev selected, left))"

section \<open>Building and verifying\<close>

type_synonym exchange_source = "interaction_record \<times> interaction_record \<times> answer_record"

definition candidate ::
  "interaction_record list \<Rightarrow> (string \<rightharpoonup> answer_record) \<Rightarrow> interaction_record \<Rightarrow> exchange_source result" where
  "candidate ordered answers assistant =
     (case ix_answer assistant of
        None \<Rightarrow> Inl ValueError
      | Some aid \<Rightarrow>
          (case answers aid of
             None \<Rightarrow> Inl ValueError
           | Some answer \<Rightarrow>
               (case map_of (map (\<lambda>i. (ix_id i, i)) ordered) (ar_question answer) of
                  None \<Rightarrow> Inl ValueError
                | Some learner \<Rightarrow>
                    if ix_kind learner \<noteq> Interaction_HUMAN then Inl ValueError
                    else if ar_interaction answer \<noteq> ix_id assistant \<or> Some (ar_run answer) \<noteq> ix_run assistant
                      then Inl ValueError
                    else Inr (learner, assistant, answer))))"

fun select_exchanges ::
  "exchange_source list \<Rightarrow> int \<Rightarrow> ((summary_exchange \<times> answer_record) list \<times> int) result" where
  "select_exchanges [] remaining = Inr ([], remaining)"
| "select_exchanges ((learner, assistant, answer) # rest) remaining =
     (let note = ga_note (ar_answer answer); minimum = (if note \<noteq> None then 3 else 2) in
      if remaining < minimum then Inr ([], remaining)
      else
        let (learner_excerpt, u1) = bounded_excerpt (ix_content learner) (remaining - (if note \<noteq> None then 2 else 1));
            r1 = remaining - u1;
            (assistant_excerpt, u2) = bounded_excerpt (ix_content assistant) (r1 - (if note \<noteq> None then 1 else 0));
            r2 = r1 - u2;
            (unsupported, r3) =
              (case note of None \<Rightarrow> (None, r2)
               | Some n \<Rightarrow> let (excerpt, u3) = bounded_excerpt n r2 in (Some excerpt, r2 - u3))
        in res_bind (mk_exchange \<lparr>sx_question = ix_id learner, sx_answer = ix_id assistant, sx_learner = learner_excerpt,
             sx_assistant = assistant_excerpt, sx_status = ga_status (ar_answer answer), sx_note = unsupported\<rparr>) (\<lambda>x.
           res_bind (select_exchanges rest r3) (\<lambda>(xs, left). Inr ((x, answer) # xs, left))))"

definition grounded_texts :: "answer_record \<Rightarrow> string list" where
  "grounded_texts r = map sg_text (filter (\<lambda>s. claim_kind (sg_kind s)) (ga_segments (ar_answer r)))"

definition unresolved_texts :: "answer_record \<Rightarrow> string list" where
  "unresolved_texts r = (case ga_note (ar_answer r) of None \<Rightarrow> [] | Some n \<Rightarrow> [n])"

text \<open>\<^verbatim>\<open>xs[-n:]\<close>\<close>

definition last_items :: "nat \<Rightarrow> 'a list \<Rightarrow> 'a list" where
  "last_items n xs = drop (length xs - n) xs"

definition note_texts :: "interaction_record list \<Rightarrow> string list" where
  "note_texts ordered =
     last_items max_recent_exchanges (map ix_content (filter (\<lambda>i. ix_kind i = Interaction_NOTE) ordered))"

definition assemble_summary ::
  "interaction_record list \<Rightarrow> (summary_exchange \<times> answer_record) list \<Rightarrow> int \<Rightarrow> continuation_summary result" where
  "assemble_summary ordered selected_reversed remaining =
     (let exchanges = rev (map fst selected_reversed);
          records = rev (map snd selected_reversed);
          grounded = concat (map grounded_texts records);
          unresolved = concat (map unresolved_texts records) @ note_texts ordered;
          (points, left) = bounded_values (deduplicate grounded) remaining;
          (notes, _) = bounded_values (deduplicate unresolved) left
      in mk_summary \<lparr>cs_through = ix_id (last ordered), cs_count = int (length ordered), cs_exchanges = exchanges,
           cs_points = points, cs_notes = notes, cs_characters = summary_characters exchanges points notes, cs_version = 1\<rparr>)"

definition build_continuation_summary ::
  "interaction_record list \<Rightarrow> (string \<rightharpoonup> answer_record) \<Rightarrow> continuation_summary result" where
  "build_continuation_summary ordered answers =
     (if ordered = [] then Inl ValueError
      else if \<not> distinct (map ix_id ordered) then Inl ValueError
      else
        res_bind (map_res (candidate ordered answers) (filter (\<lambda>i. ix_kind i = Interaction_ASSISTANT) ordered)) (\<lambda>candidates.
        res_bind (select_exchanges (rev (last_items max_recent_exchanges candidates)) max_summary_characters)
          (\<lambda>(selected, remaining). assemble_summary ordered selected remaining)))"

definition verify_continuation_summary ::
  "continuation_summary \<Rightarrow> interaction_record list \<Rightarrow> (string \<rightharpoonup> answer_record) \<Rightarrow> unit result" where
  "verify_continuation_summary c ordered answers =
     res_bind (build_continuation_summary ordered answers) (\<lambda>expected.
       if c \<noteq> expected then Inl ValueError else Inr ())"

section \<open>The budget\<close>

lemma ellipsis_not_space: "\<not> is_space ellipsis"
  by (simp add: ellipsis_def is_space_def py_whitespace_def)

lemma bounded_excerpt_text:
  assumes "is_text v" and "1 \<le> r" and "bounded_excerpt v r = (e, u)"
  shows "is_text e \<and> u = int (length e) \<and> 1 \<le> u \<and> u \<le> r \<and> (e = v \<or> u = r \<and> last e = ellipsis)"
proof -
  have "v \<noteq> []" using assms(1) by (simp add: is_text_iff)
  have cut: "is_text (take (nat (r - 1)) v @ [ellipsis])" if "r \<noteq> 1"
    using assms(1,2) that ellipsis_not_space by (cases v) (auto simp: is_text_iff hd_append take_Cons split: nat.splits)
  show ?thesis
  proof (cases "int (length v) \<le> r")
    case True
    then show ?thesis using assms \<open>v \<noteq> []\<close> by (cases v) (auto simp: bounded_excerpt_def)
  next
    case False
    then have "length (take (nat (r - 1)) v) = nat (r - 1)" by simp
    then show ?thesis using assms False cut ellipsis_not_space
      by (auto simp: bounded_excerpt_def Let_def is_text_iff split: if_splits)
  qed
qed

lemma dedup_loop_distinct: "distinct (dedup_loop seen vs) \<and> set (dedup_loop seen vs) = set vs - set seen"
  by (induction seen vs rule: dedup_loop.induct) auto

lemma deduplicate_distinct: "distinct (deduplicate vs)" "set (deduplicate vs) = set vs"
  using dedup_loop_distinct [of "[]" vs] by (simp_all add: deduplicate_def)

lemma bounded_loop_budget:
  assumes "list_all is_text vs" and "0 \<le> r" and "bounded_loop vs r = (es, left)"
  shows "list_all is_text es \<and> int (sum_list (map length es)) + left = r \<and> 0 \<le> left"
  using assms
proof (induction vs r arbitrary: es left rule: bounded_loop.induct)
  case (2 v vs r)
  show ?case
  proof (cases "r = 0")
    case False
    obtain e u where eu: "bounded_excerpt v r = (e, u)" by (cases "bounded_excerpt v r")
    obtain es' where es': "bounded_loop vs (r - u) = (es', left)" "es = e # es'"
      using "2.prems"(3) eu False by (auto split: prod.splits)
    have e: "is_text e" "u = int (length e)" "u \<le> r"
      using bounded_excerpt_text [OF _ _ eu] "2.prems" False by auto
    then have "list_all is_text es' \<and> int (sum_list (map length es')) + left = r - u \<and> 0 \<le> left"
      using "2.IH" [OF False eu [symmetric] refl _ _ es'(1)] "2.prems" by auto
    then show ?thesis using es' e by auto
  qed (use "2.prems" in auto)
qed auto

lemma bounded_loop_zero: "bounded_loop vs 0 = ([], 0)"
  by (cases vs) auto

text \<open>Shortening keeps texts apart when none of them ends in the mark.\<close>

lemma bounded_loop_distinct:
  assumes "list_all is_text vs" and "distinct vs" and "\<forall>v \<in> set vs. last v \<noteq> ellipsis" and "0 \<le> r"
    and "bounded_loop vs r = (es, left)"
  shows "distinct es \<and> (\<forall>e \<in> set es. e \<in> set vs \<or> last e = ellipsis)"
  using assms
proof (induction vs r arbitrary: es left rule: bounded_loop.induct)
  case (2 v vs r)
  show ?case
  proof (cases "r = 0")
    case False
    obtain e u where eu: "bounded_excerpt v r = (e, u)" by (cases "bounded_excerpt v r")
    obtain es' where es': "bounded_loop vs (r - u) = (es', left)" "es = e # es'"
      using "2.prems"(5) eu False by (auto split: prod.splits)
    have e: "u \<le> r" "e = v \<or> u = r \<and> last e = ellipsis"
      using bounded_excerpt_text [OF _ _ eu] "2.prems" False by auto
    then have IH: "distinct es' \<and> (\<forall>e \<in> set es'. e \<in> set vs \<or> last e = ellipsis)"
      using "2.IH" [OF False eu [symmetric] refl _ _ _ _ es'(1)] "2.prems" by auto
    show ?thesis using e(2)
    proof
      assume "e = v"
      then show ?thesis using IH es'(2) "2.prems" by auto
    next
      assume "u = r \<and> last e = ellipsis"
      then show ?thesis using es' bounded_loop_zero [of vs] by auto
    qed
  qed (use "2.prems" in auto)
qed auto

lemma bounded_values_ok:
  assumes "list_all is_text vs" and "0 \<le> r" and "bounded_values vs r = (es, left)"
  shows "list_all is_text es" and "int (sum_list (map length es)) + left = r" and "0 \<le> left"
    and "distinct vs \<Longrightarrow> \<forall>v \<in> set vs. last v \<noteq> ellipsis \<Longrightarrow> distinct es"
proof -
  obtain es' where es': "bounded_loop (rev vs) r = (es', left)" "es = rev es'"
    using assms(3) by (auto simp: bounded_values_def split: prod.splits)
  have "list_all is_text (rev vs)" using assms(1) by simp
  from bounded_loop_budget [OF this assms(2) es'(1)] bounded_loop_distinct [OF this _ _ assms(2) es'(1)]
  show "list_all is_text es" "int (sum_list (map length es)) + left = r" "0 \<le> left"
    "distinct vs \<Longrightarrow> \<forall>v \<in> set vs. last v \<noteq> ellipsis \<Longrightarrow> distinct es"
    using es'(2) by (simp_all add: rev_map [symmetric])
qed

definition source_ok :: "exchange_source \<Rightarrow> bool" where
  "source_ok s = (case s of (learner, assistant, answer) \<Rightarrow>
     is_text (ix_content learner) \<and> is_text (ix_content assistant) \<and> ix_id learner \<noteq> ix_id assistant \<and>
     pred_option is_text (ga_note (ar_answer answer)) \<and>
     (ga_status (ar_answer answer) \<noteq> ANSWERED \<longrightarrow> ga_note (ar_answer answer) \<noteq> None))"

lemma select_step:
  assumes ok: "source_ok (l, a, ans)" and r: "(if ga_note (ar_answer ans) \<noteq> None then 3 else 2) \<le> r"
  shows "\<exists>x r'. 0 \<le> r' \<and> int (exchange_characters x) + r' = r \<and> sx_answer x = ix_id a \<and>
    select_exchanges ((l, a, ans) # cs) r = res_bind (select_exchanges cs r') (\<lambda>(xs, left). Inr ((x, ans) # xs, left))"
proof -
  have texts: "is_text (ix_content l)" "is_text (ix_content a)" using ok by (simp_all add: source_ok_def)
  define reserve where "reserve = (if ga_note (ar_answer ans) \<noteq> None then 1 else 0 :: int)"
  obtain le u1 where e1: "bounded_excerpt (ix_content l) (r - (1 + reserve)) = (le, u1)" by fastforce
  obtain ae u2 where e2: "bounded_excerpt (ix_content a) (r - u1 - reserve) = (ae, u2)" by fastforce
  have b1: "is_text le" "u1 = int (length le)" "u1 \<le> r - (1 + reserve)"
    using bounded_excerpt_text [OF texts(1) _ e1] r by (auto simp: reserve_def split: if_splits)
  have b2: "is_text ae" "u2 = int (length ae)" "u2 \<le> r - u1 - reserve"
    using bounded_excerpt_text [OF texts(2) _ e2] b1 by (auto simp: reserve_def split: if_splits)
  show ?thesis
  proof (cases "ga_note (ar_answer ans)")
    case None
    let ?x = "\<lparr>sx_question = ix_id l, sx_answer = ix_id a, sx_learner = le, sx_assistant = ae,
      sx_status = ga_status (ar_answer ans), sx_note = None\<rparr>"
    have "mk_exchange ?x = Inr ?x" using ok None b1(1) b2(1) by (auto simp: mk_exchange_def source_ok_def)
    then show ?thesis using None r e1 e2 b1 b2
      by (intro exI [of _ ?x] exI [of _ "r - u1 - u2"]) (auto simp: reserve_def exchange_characters_def Let_def)
  next
    case (Some n)
    obtain ne u3 where e3: "bounded_excerpt n (r - u1 - u2) = (ne, u3)" by fastforce
    have b3: "is_text ne" "u3 = int (length ne)" "u3 \<le> r - u1 - u2"
      using bounded_excerpt_text [OF _ _ e3] b2 ok Some by (auto simp: source_ok_def reserve_def)
    let ?x = "\<lparr>sx_question = ix_id l, sx_answer = ix_id a, sx_learner = le, sx_assistant = ae,
      sx_status = ga_status (ar_answer ans), sx_note = Some ne\<rparr>"
    have "mk_exchange ?x = Inr ?x" using ok Some b1(1) b2(1) b3(1) by (auto simp: mk_exchange_def source_ok_def)
    then show ?thesis using Some r e1 e2 e3 b1 b2 b3
      by (intro exI [of _ ?x] exI [of _ "r - u1 - u2 - u3"]) (auto simp: reserve_def exchange_characters_def Let_def)
  qed
qed

lemma select_exchanges_ok:
  assumes "list_all source_ok cs" and "0 \<le> r"
  shows "\<exists>xs left. select_exchanges cs r = Inr (xs, left) \<and> 0 \<le> left \<and>
    int (sum_list (map (exchange_characters \<circ> fst) xs)) + left = r \<and>
    map (sx_answer \<circ> fst) xs = take (length xs) (map (\<lambda>(l, a, ans). ix_id a) cs) \<and>
    map snd xs = take (length xs) (map (snd \<circ> snd) cs)"
  using assms
proof (induction cs arbitrary: r)
  case (Cons c cs)
  obtain l a ans where c: "c = (l, a, ans)" by (cases c)
  show ?case
  proof (cases "(if ga_note (ar_answer ans) \<noteq> None then 3 else 2) \<le> r")
    case True
    have "source_ok (l, a, ans)" using Cons.prems(1) c by simp
    from select_step [OF this True, of cs] obtain x r' where x: "0 \<le> r'" "int (exchange_characters x) + r' = r"
      "sx_answer x = ix_id a"
      "select_exchanges (c # cs) r = res_bind (select_exchanges cs r') (\<lambda>(xs, left). Inr ((x, ans) # xs, left))"
      unfolding c by blast
    obtain xs left where xs: "select_exchanges cs r' = Inr (xs, left)" "0 \<le> left"
      "int (sum_list (map (exchange_characters \<circ> fst) xs)) + left = r'"
      "map (sx_answer \<circ> fst) xs = take (length xs) (map (\<lambda>(l, a, ans). ix_id a) cs)"
      "map snd xs = take (length xs) (map (snd \<circ> snd) cs)"
      using Cons.IH [OF _ x(1)] Cons.prems(1) unfolding list.pred_inject by blast
    have "select_exchanges (c # cs) r = Inr ((x, ans) # xs, left)" using x(4) xs(1) by (simp del: select_exchanges.simps)
    then show ?thesis
      using x(2,3) xs c by (intro exI [of _ "(x, ans) # xs"] exI [of _ left]) (simp add: comp_def del: select_exchanges.simps)
  next
    case False
    then show ?thesis using Cons.prems(2) c by (auto simp: Let_def)
  qed
qed auto

text \<open>The history a summary is built from: valid interactions with distinct ids, valid answers.\<close>

definition history_ok :: "interaction_record list \<Rightarrow> (string \<rightharpoonup> answer_record) \<Rightarrow> bool" where
  "history_ok ordered answers = (ordered \<noteq> [] \<and> distinct (map ix_id ordered) \<and> list_all (built mk_interaction) ordered \<and>
     (\<forall>r. r \<in> ran answers \<longrightarrow> ok_answer (ar_answer r)))"

definition no_mark :: "interaction_record list \<Rightarrow> (string \<rightharpoonup> answer_record) \<Rightarrow> bool" where
  "no_mark ordered answers = ((\<forall>i \<in> set ordered. last (ix_content i) \<noteq> ellipsis) \<and>
     (\<forall>r. r \<in> ran answers \<longrightarrow> (\<forall>t \<in> set (grounded_texts r @ unresolved_texts r). last t \<noteq> ellipsis)))"

lemma interaction_text: "built mk_interaction i \<Longrightarrow> is_text (ix_content i)"
  by (auto simp: built_def mk_interaction_def res_bind_eq_Inr require_text_Inr)

lemma answer_texts:
  assumes "ok_answer (ar_answer r)"
  shows "list_all is_text (grounded_texts r)" "list_all is_text (unresolved_texts r)"
    "pred_option is_text (ga_note (ar_answer r))"
    "ga_status (ar_answer r) \<noteq> ANSWERED \<Longrightarrow> ga_note (ar_answer r) \<noteq> None"
  using assms
  by (auto simp: ok_answer_def grounded_texts_def unresolved_texts_def list_all_iff ok_segment_def built_def mk_answer_def
      Let_def res_bind_eq_Inr split: option.splits if_splits)

lemma candidate_Inr:
  assumes "candidate ordered answers a = Inr s"
  shows "\<exists>l r. s = (l, a, r) \<and> r \<in> ran answers \<and> l \<in> set ordered \<and> ix_kind l = Interaction_HUMAN"
  using assms by (auto simp: candidate_def ran_def split: option.splits if_splits dest!: map_of_SomeD)

lemma distinct_last_items: "distinct xs \<Longrightarrow> distinct (last_items n xs)"
  by (simp add: last_items_def)

lemma set_last_items: "set (last_items n xs) \<subseteq> set xs"
  unfolding last_items_def by (rule set_drop_subset)

lemma candidates_ok:
  assumes hist: "history_ok ordered answers"
    and cands: "map_res (candidate ordered answers) (filter (\<lambda>i. ix_kind i = Interaction_ASSISTANT) ordered) = Inr cs"
  shows "list_all source_ok cs" and "distinct (map (\<lambda>(l, a, ans). ix_id a) cs)" and "snd ` snd ` set cs \<subseteq> ran answers"
proof -
  let ?as = "filter (\<lambda>i. ix_kind i = Interaction_ASSISTANT) ordered"
  have each: "list_all2 (\<lambda>a s. candidate ordered answers a = Inr s) ?as cs" using cands by (simp add: map_res_Inr_iff)
  have src: "\<exists>l r. s = (l, a, r) \<and> r \<in> ran answers \<and> l \<in> set ordered \<and> ix_kind l = Interaction_HUMAN"
    if "(a, s) \<in> set (zip ?as cs)" for a s
    using each that candidate_Inr [of ordered answers a s] by (auto simp: list_all2_iff)
  have "source_ok s" if mem_s: "s \<in> set cs" for s
  proof -
    obtain a where a: "(a, s) \<in> set (zip ?as cs)"
      by (rule in_set_impl_in_set_zip2 [OF list_all2_lengthD [OF each] mem_s])
    then have mem: "a \<in> set ordered" "ix_kind a = Interaction_ASSISTANT" by (auto dest: set_zip_leftD)
    obtain l r where s: "s = (l, a, r)" "r \<in> ran answers" "l \<in> set ordered" "ix_kind l = Interaction_HUMAN"
      using src [OF a] by blast
    have "ix_id l \<noteq> ix_id a"
      using hist mem s by (auto simp: history_ok_def distinct_map inj_on_def)
    moreover have "ok_answer (ar_answer r)" using hist s(2) by (simp add: history_ok_def)
    note answer_texts(3,4) [OF this]
    moreover have "is_text (ix_content l)" "is_text (ix_content a)"
      using hist mem(1) s(3) by (simp_all add: history_ok_def list_all_iff interaction_text)
    ultimately show ?thesis unfolding s(1) source_ok_def by simp
  qed
  then show "list_all source_ok cs" by (simp add: list_all_iff)
  have "map (\<lambda>(l, a, ans). ix_id a) cs = map ix_id ?as"
    using each by (auto simp: list_all2_conv_all_nth intro!: nth_equalityI dest!: candidate_Inr)
  moreover have "distinct (map ix_id ?as)" using hist by (simp add: history_ok_def distinct_map inj_on_def)
  ultimately show "distinct (map (\<lambda>(l, a, ans). ix_id a) cs)" by simp
  have "snd (snd s) \<in> ran answers" if mem_s: "s \<in> set cs" for s
  proof -
    obtain b where "(b, s) \<in> set (zip ?as cs)"
      by (rule in_set_impl_in_set_zip2 [OF list_all2_lengthD [OF each] mem_s])
    from src [OF this] show ?thesis by auto
  qed
  then show "snd ` snd ` set cs \<subseteq> ran answers" by auto
qed

lemma list_all_require_text: "list_all is_text xs \<Longrightarrow> \<exists>us. map_res require_text xs = Inr us"
  by (induction xs) auto

lemma assemble_summary_ok:
  assumes hist: "history_ok ordered answers" and mark: "no_mark ordered answers"
    and sel: "0 \<le> r" "int (sum_list (map (exchange_characters \<circ> fst) xs)) + r = max_summary_characters"
      "distinct (map (sx_answer \<circ> fst) xs)" "length xs \<le> max_recent_exchanges" "snd ` set xs \<subseteq> ran answers"
  shows "\<exists>c. assemble_summary ordered xs r = Inr c \<and> cs_through c = ix_id (last ordered) \<and> cs_count c = int (length ordered) \<and>
    cs_exchanges c = rev (map fst xs) \<and> cs_characters c \<le> max_summary_characters"
proof -
  let ?g = "deduplicate (concat (map grounded_texts (rev (map snd xs))))"
  let ?u = "deduplicate (concat (map unresolved_texts (rev (map snd xs))) @ note_texts ordered)"
  obtain points left where p: "bounded_values ?g r = (points, left)" by fastforce
  obtain nts left' where n: "bounded_values ?u left = (nts, left')" by fastforce
  have recs: "list_all is_text (grounded_texts a)" "list_all is_text (unresolved_texts a)"
    "\<forall>t \<in> set (grounded_texts a @ unresolved_texts a). last t \<noteq> ellipsis" if "(x, a) \<in> set xs" for x a
    using that sel(5) hist mark by (auto simp: history_ok_def no_mark_def intro!: answer_texts(1,2))
  have nt: "set (note_texts ordered) \<subseteq> ix_content ` set ordered"
    using set_last_items [of max_recent_exchanges "map ix_content (filter (\<lambda>i. ix_kind i = Interaction_NOTE) ordered)"]
    by (auto simp: note_texts_def)
  have g: "list_all is_text ?g" "\<forall>v \<in> set ?g. last v \<noteq> ellipsis"
    using recs by (fastforce simp: list_all_iff deduplicate_distinct)+
  have "\<forall>i \<in> set ordered. is_text (ix_content i) \<and> last (ix_content i) \<noteq> ellipsis"
    using hist mark interaction_text by (auto simp: history_ok_def no_mark_def list_all_iff)
  then have u: "list_all is_text ?u" "\<forall>v \<in> set ?u. last v \<noteq> ellipsis"
    using recs nt by (fastforce simp: list_all_iff deduplicate_distinct)+
  note bp = bounded_values_ok [OF g(1) sel(1) p]
  note bn = bounded_values_ok [OF u(1) bp(3) n]
  have dist: "distinct points" "distinct nts"
    using bp(4) bn(4) g(2) u(2) by (simp_all add: deduplicate_distinct)
  let ?c = "\<lparr>cs_through = ix_id (last ordered), cs_count = int (length ordered), cs_exchanges = rev (map fst xs),
    cs_points = points, cs_notes = nts, cs_characters = summary_characters (rev (map fst xs)) points nts, cs_version = 1\<rparr>"
  have total: "summary_characters (rev (map fst xs)) points nts + left' = max_summary_characters"
    using sel(2) bp(2) bn(2) by (simp add: summary_characters_def rev_map [symmetric] comp_def)
  have link: "distinct (map (\<lambda>x. (sx_question x, sx_answer x)) (rev (map fst xs)))"
    using sel(3) by (auto simp: distinct_map rev_map [symmetric] inj_on_def comp_def)
  obtain us ws where "map_res require_text points = Inr us" "map_res require_text nts = Inr ws"
    using list_all_require_text bp(1) bn(1) by blast
  then have "mk_summary ?c = Inr ?c"
    using hist dist link total bn(3) sel(4)
    by (auto simp: mk_summary_def history_ok_def max_summary_characters_def max_recent_exchanges_def summary_characters_def
        Suc_le_eq)
  then show ?thesis using p n total bn(3)
    by (intro exI [of _ ?c]) (simp add: assemble_summary_def rev_map Let_def)
qed

section \<open>Properties\<close>

text \<open>C24. Summaries fit their budget and can always be built: for a valid history whose assistant turns are linked to
  their answers and in which no text ends in the mark of shortened texts, the summary is built, covers the history up to its
  last interaction, keeps at most four exchanges and 2000 characters, and passes verification.\<close>

theorem summary_builds_within_budget:
  assumes hist: "history_ok ordered answers" and mark: "no_mark ordered answers"
    and cands: "is_ok (map_res (candidate ordered answers) (filter (\<lambda>i. ix_kind i = Interaction_ASSISTANT) ordered))"
  shows "\<exists>c. build_continuation_summary ordered answers = Inr c \<and> cs_through c = ix_id (last ordered) \<and>
    cs_count c = int (length ordered) \<and> length (cs_exchanges c) \<le> 4 \<and> cs_characters c \<le> 2000 \<and>
    verify_continuation_summary c ordered answers = Inr ()"
proof -
  obtain cs where cs: "map_res (candidate ordered answers) (filter (\<lambda>i. ix_kind i = Interaction_ASSISTANT) ordered) = Inr cs"
    using cands by (auto simp: is_ok_iff)
  note ok = candidates_ok [OF hist cs]
  let ?cs = "rev (last_items max_recent_exchanges cs)"
  have "list_all source_ok ?cs" using ok(1) set_last_items [of max_recent_exchanges cs] by (auto simp: list_all_iff)
  then obtain xs r where xs: "select_exchanges ?cs max_summary_characters = Inr (xs, r)" "0 \<le> r"
    "int (sum_list (map (exchange_characters \<circ> fst) xs)) + r = max_summary_characters"
    "map (sx_answer \<circ> fst) xs = take (length xs) (map (\<lambda>(l, a, ans). ix_id a) ?cs)"
    "map snd xs = take (length xs) (map (snd \<circ> snd) ?cs)"
    using select_exchanges_ok [of ?cs max_summary_characters] by (auto simp: max_summary_characters_def)
  have "distinct (map (\<lambda>(l, a, ans). ix_id a) ?cs)"
    using ok(2) by (simp add: rev_map [symmetric] last_items_def drop_map [symmetric])
  then have "distinct (map (sx_answer \<circ> fst) xs)" using xs(4) by simp
  moreover have len: "length xs \<le> max_recent_exchanges"
    using arg_cong [OF xs(5), of length] by (simp add: last_items_def)
  moreover have "snd ` set xs \<subseteq> ran answers"
  proof -
    have "snd ` set xs = set (take (length xs) (map (snd \<circ> snd) ?cs))" using xs(5) by (metis set_map)
    also have "\<dots> \<subseteq> snd ` snd ` set ?cs" by (auto simp: image_image dest: in_set_takeD)
    also have "\<dots> \<subseteq> ran answers" using ok(3) set_last_items [of max_recent_exchanges cs] by auto
    finally show ?thesis .
  qed
  ultimately obtain c where c: "assemble_summary ordered xs r = Inr c" "cs_through c = ix_id (last ordered)"
    "cs_count c = int (length ordered)" "cs_exchanges c = rev (map fst xs)" "cs_characters c \<le> max_summary_characters"
    using assemble_summary_ok [OF hist mark xs(2,3)] by blast
  have "build_continuation_summary ordered answers = Inr c"
    using hist cs xs(1) c(1) by (simp add: build_continuation_summary_def history_ok_def)
  then show ?thesis
    using c len by (simp add: verify_continuation_summary_def max_summary_characters_def max_recent_exchanges_def)
qed

definition example_note :: "string \<Rightarrow> string \<Rightarrow> interaction_record" where
  "example_note iid content = \<lparr>ix_id = iid, ix_kind = Interaction_NOTE,
     ix_time = \<lparr>dt_date = \<lparr>year = 2026, month = 1, day = 5\<rparr>, hour = 9, minute = 0, second = 0, microsecond = 0, utcoffset = 0\<rparr>,
     ix_content = content, ix_answer = None, ix_run = None\<rparr>"

theorem summary_builds_within_budget_witness:
  "\<exists>c. build_continuation_summary [example_note ''n1'' ''mitosis''] Map.empty = Inr c \<and> cs_count c = 1"
proof -
  have "history_ok [example_note ''n1'' ''mitosis''] Map.empty" "no_mark [example_note ''n1'' ''mitosis''] Map.empty"
    "is_ok (map_res (candidate [example_note ''n1'' ''mitosis''] Map.empty)
       (filter (\<lambda>i. ix_kind i = Interaction_ASSISTANT) [example_note ''n1'' ''mitosis'']))"
    by (simp_all add: history_ok_def no_mark_def example_note_def built_def mk_interaction_def text_eval ellipsis_def is_ok_def)
  from summary_builds_within_budget [OF this] show ?thesis by auto
qed

text \<open>C25. Without the condition on the mark the builder can refuse a valid history: a note that is the mark itself, a long
  one and a third that is shortened to the mark give two equal notes, which the summary's own check rejects.\<close>

theorem shortened_note_collides:
  "history_ok [example_note ''n1'' ''abc'', example_note ''n2'' (replicate 1998 (CHR ''a'')), example_note ''n3'' [ellipsis]] Map.empty \<and>
   build_continuation_summary
     [example_note ''n1'' ''abc'', example_note ''n2'' (replicate 1998 (CHR ''a'')), example_note ''n3'' [ellipsis]] Map.empty =
   Inl ValueError"
proof -
  let ?h = "[example_note ''n1'' ''abc'', example_note ''n2'' (replicate 1998 (CHR ''a'')), example_note ''n3'' [ellipsis]]"
  have long: "is_text (replicate 1998 (CHR ''a''))" by (simp add: is_text_iff is_space_def py_whitespace_def)
  have ne: "replicate 1998 (CHR ''a'') \<noteq> ''abc''" "replicate 1998 (CHR ''a'') \<noteq> [ellipsis]"
    by (auto dest: arg_cong [where f = length])
  have hist: "history_ok ?h Map.empty"
    using long by (simp add: history_ok_def example_note_def built_def mk_interaction_def text_eval ellipsis_def)
  have nts: "note_texts ?h = [''abc'', replicate 1998 (CHR ''a''), [ellipsis]]"
    by (simp add: note_texts_def last_items_def max_recent_exchanges_def example_note_def)
  have dd: "deduplicate [''abc'', replicate 1998 (CHR ''a''), [ellipsis]] = [''abc'', replicate 1998 (CHR ''a''), [ellipsis]]"
    using ne by (simp add: deduplicate_def)
  have bv: "bounded_values [''abc'', replicate 1998 (CHR ''a''), [ellipsis]] 2000 =
      ([[ellipsis], replicate 1998 (CHR ''a''), [ellipsis]], 0)"
    by (simp add: bounded_values_def bounded_excerpt_def)
  have bg: "bounded_values (deduplicate []) 2000 = ([], 2000)" by (simp add: bounded_values_def deduplicate_def)
  have mark: "is_text [ellipsis]" by (simp add: text_eval ellipsis_def)
  have "assemble_summary ?h [] 2000 = Inl ValueError"
    unfolding assemble_summary_def list.map rev.simps(1) concat.simps append_Nil Let_def nts dd bv bg prod.case
    using long mark by (simp add: mk_summary_def summary_characters_def)
  moreover have "filter (\<lambda>i. ix_kind i = Interaction_ASSISTANT) ?h = []" by (simp add: example_note_def)
  ultimately have "build_continuation_summary ?h Map.empty = Inl ValueError"
    using hist by (simp add: build_continuation_summary_def history_ok_def last_items_def max_summary_characters_def)
  with hist show ?thesis by blast
qed

end
