(* ===== verification/Sessions.thy ===== *)
theory Sessions
  imports Session_Summary
begin

text \<open>
  Session reducers: \<^verbatim>\<open>src/src/study_agent/sessions/projection.py\<close>. The projection of a course holds its
  sessions, the interactions and the answers of all sessions and the assistant turns, each as a dictionary of
  entries. A reducer opens the session of its event (it exists, belongs to the course, and the event is not
  older than the session's last), changes the dictionaries and the session's entry, and writes them back.
\<close>

section \<open>The projected dictionaries\<close>

definition mapping_value :: "json \<Rightarrow> json_object result" where
  "mapping_value v = (case v of JObj kvs \<Rightarrow> Inr kvs | _ \<Rightarrow> Inl ValueError)"

definition string_array :: "json \<Rightarrow> string list result" where
  "string_array v = res_bind (array_value v) (map_res (\<lambda>x. case x of JStr s \<Rightarrow> Inr s | _ \<Rightarrow> Inl ValueError))"

record session_parts =
  sm_sessions :: json_object
  sm_interactions :: json_object
  sm_answers :: json_object

definition session_maps :: "json_object \<Rightarrow> session_parts result" where
  "session_maps state =
     res_bind (mapping_value (get_default state ''sessions'' (JObj []))) (\<lambda>ss.
     res_bind (mapping_value (get_default state ''session_interactions'' (JObj []))) (\<lambda>is.
     res_bind (mapping_value (get_default state ''session_answers'' (JObj []))) (\<lambda>as.
       Inr \<lparr>sm_sessions = ss, sm_interactions = is, sm_answers = as\<rparr>)))"

definition write_maps :: "json_object \<Rightarrow> session_parts \<Rightarrow> json_object" where
  "write_maps state m =
     AList.update ''session_answers'' (JObj (sm_answers m))
       (AList.update ''session_interactions'' (JObj (sm_interactions m))
         (AList.update ''sessions'' (JObj (sm_sessions m)) state))"

definition session_keys :: "string list" where
  "session_keys = [''session_id'', ''course_id'', ''status'', ''started_at'', ''suspended_at'', ''resumed_at'', ''ended_at'',
     ''last_event_at'', ''interaction_ids'', ''run_ids'', ''continuation_summary'']"

definition find_session :: "json_object \<Rightarrow> domain_event \<Rightarrow> (string \<times> json_object) result" where
  "find_session sessions e =
     (case ev_session e of
        None \<Rightarrow> Inl ValueError
      | Some sid \<Rightarrow>
          (case jget sessions sid of
             JObj raw \<Rightarrow>
               if \<not> has_keys raw session_keys then Inl ValueError
               else if jget raw ''session_id'' \<noteq> JStr sid then Inl ValueError
               else if jget raw ''course_id'' \<noteq> JStr (ev_course e) then Inl ValueError
               else Inr (sid, raw)
           | _ \<Rightarrow> Inl ValueError))"

definition chronological :: "json_object \<Rightarrow> domain_event \<Rightarrow> unit result" where
  "chronological session e =
     (case jget session ''last_event_at'' of
        JStr raw \<Rightarrow>
          res_bind (map_error (\<lambda>_. ValueError) (parse_timestamp raw)) (\<lambda>latest.
            if instant (ev_at e) < instant latest then Inl ValueError else Inr ())
      | _ \<Rightarrow> Inl ValueError)"

definition require_active :: "json_object \<Rightarrow> unit result" where
  "require_active session = require (jget session ''status'' = JStr (session_status_value Session_ACTIVE))"

text \<open>What the reducers of an existing session share: opening it, and writing its changed entry back.\<close>

definition open_session :: "json_object \<Rightarrow> domain_event \<Rightarrow> (session_parts \<times> string \<times> json_object) result" where
  "open_session state e =
     res_bind (session_maps state) (\<lambda>m.
     res_bind (find_session (sm_sessions m) e) (\<lambda>(sid, session).
     res_bind (chronological session e) (\<lambda>_. Inr (m, sid, session))))"

definition close_session ::
  "json_object \<Rightarrow> domain_event \<Rightarrow> string \<Rightarrow> session_parts \<times> json_object \<Rightarrow> json_object result" where
  "close_session state e sid ms =
     (let (m, session) = ms in
      res_bind (timestamp (ev_at e)) (\<lambda>now.
        Inr (write_maps state (m\<lparr>sm_sessions :=
          AList.update sid (JObj (AList.update ''last_event_at'' (JStr now) session)) (sm_sessions m)\<rparr>))))"

section \<open>Reducers\<close>

definition session_entry :: "string \<Rightarrow> domain_event \<Rightarrow> string \<Rightarrow> json" where
  "session_entry sid e now = JObj [
     (''session_id'', JStr sid), (''course_id'', JStr (ev_course e)),
     (''status'', JStr (session_status_value Session_ACTIVE)), (''started_at'', JStr now), (''suspended_at'', JNull),
     (''resumed_at'', JNull), (''ended_at'', JNull), (''last_event_at'', JStr now), (''interaction_ids'', JArr []),
     (''run_ids'', JArr []), (''continuation_summary'', JNull)]"

definition reduce_session_started :: "json_object \<Rightarrow> domain_event \<Rightarrow> string \<Rightarrow> json_object result" where
  "reduce_session_started state e sid =
     res_bind (session_maps state) (\<lambda>m.
       if sid \<in> set (keys_of (sm_sessions m)) then Inl ValueError
       else
         res_bind (timestamp (ev_at e)) (\<lambda>now.
           Inr (write_maps state (m\<lparr>sm_sessions := AList.update sid (session_entry sid e now) (sm_sessions m)\<rparr>))))"

definition interaction_entry :: "string \<Rightarrow> interaction_kind \<Rightarrow> string \<Rightarrow> string \<Rightarrow> json \<Rightarrow> json \<Rightarrow> json" where
  "interaction_entry sid k now content answer run = JObj [
     (''session_id'', JStr sid), (''kind'', JStr (interaction_kind_value k)), (''occurred_at'', JStr now),
     (''content'', JStr content), (''answer_id'', answer), (''run_id'', run)]"

definition interaction_step ::
  "domain_event \<Rightarrow> interaction_recorded \<Rightarrow> string \<Rightarrow> session_parts \<times> json_object \<Rightarrow> (session_parts \<times> json_object) result" where
  "interaction_step e p sid ms =
     (let (m, session) = ms in
      res_bind (require_active session) (\<lambda>_.
        if ir_id p \<in> set (keys_of (sm_interactions m)) then Inl ValueError
        else
          res_bind (string_array (jget session ''interaction_ids'')) (\<lambda>ids.
            if ir_id p \<in> set ids then Inl ValueError
            else
              res_bind (timestamp (ev_at e)) (\<lambda>now.
                Inr (m\<lparr>sm_interactions := AList.update (ir_id p)
                       (interaction_entry sid (ir_kind p) now (ir_content p) JNull JNull) (sm_interactions m)\<rparr>,
                     AList.update ''interaction_ids'' (text_items (ids @ [ir_id p])) session)))))"

definition reduce_interaction_recorded :: "json_object \<Rightarrow> domain_event \<Rightarrow> interaction_recorded \<Rightarrow> json_object result" where
  "reduce_interaction_recorded state e p =
     res_bind (open_session state e) (\<lambda>(m, sid, session).
     res_bind (interaction_step e p sid (m, session)) (close_session state e sid))"

text \<open>No entry of a dictionary of answers or turns has the run, or the session and idempotency key, of the new one.\<close>

definition unclaimed :: "string \<Rightarrow> string \<Rightarrow> string \<Rightarrow> string \<times> json \<Rightarrow> bool" where
  "unclaimed run sid key entry =
     (case snd entry of
        JObj raw \<Rightarrow>
          jget raw ''run_id'' \<noteq> JStr run \<and>
          \<not> (jget raw ''session_id'' = JStr sid \<and> jget raw ''idempotency_key'' = JStr key)
      | _ \<Rightarrow> False)"

definition human_in_session :: "string \<Rightarrow> json \<Rightarrow> bool" where
  "human_in_session sid v =
     (case v of JObj raw \<Rightarrow> jget raw ''session_id'' = JStr sid \<and> jget raw ''kind'' = JStr ''human'' | _ \<Rightarrow> False)"

definition answer_content :: "answer_record \<Rightarrow> string result" where
  "answer_content r =
     (let texts = map sg_text (ga_segments (ar_answer r)) in
      if texts \<noteq> [] then Inr (join [CHR 0x0A, CHR 0x0A] texts)
      else case ga_note (ar_answer r) of None \<Rightarrow> Inl ValueError | Some n \<Rightarrow> Inr n)"

definition answer_entry :: "string \<Rightarrow> answer_record \<Rightarrow> json" where
  "answer_entry sid r = JObj [
     (''session_id'', JStr sid), (''answer_id'', JStr (ar_id r)), (''interaction_id'', JStr (ar_interaction r)),
     (''question_interaction_id'', JStr (ar_question r)), (''run_id'', JStr (ar_run r)),
     (''idempotency_key'', JStr (ar_key r)), (''command_fingerprint'', JStr (ar_fingerprint r)),
     (''answer'', answer_json (ar_answer r))]"

definition answer_step ::
  "json_object \<Rightarrow> domain_event \<Rightarrow> answer_record \<Rightarrow> string \<Rightarrow> session_parts \<times> json_object \<Rightarrow> (session_parts \<times> json_object) result" where
  "answer_step turns e r sid ms =
     (let (m, session) = ms in
      if ar_id r \<in> set (keys_of (sm_answers m)) then Inl ValueError
      else if ar_interaction r \<in> set (keys_of (sm_interactions m)) then Inl ValueError
      else if \<not> human_in_session sid (jget (sm_interactions m) (ar_question r)) then Inl ValueError
      else if \<not> list_all (unclaimed (ar_run r) sid (ar_key r)) (sm_answers m) then Inl ValueError
      else if \<not> list_all (unclaimed (ar_run r) sid (ar_key r)) turns then Inl ValueError
      else
        res_bind (string_array (jget session ''interaction_ids'')) (\<lambda>ids.
        res_bind (string_array (jget session ''run_ids'')) (\<lambda>runs.
          if ar_run r \<in> set runs then Inl ValueError
          else
            res_bind (answer_content r) (\<lambda>content.
            res_bind (timestamp (ev_at e)) (\<lambda>now.
              Inr (m\<lparr>sm_interactions := AList.update (ar_interaction r)
                       (interaction_entry sid Interaction_ASSISTANT now content (JStr (ar_id r)) (JStr (ar_run r))) (sm_interactions m),
                     sm_answers := AList.update (ar_id r) (answer_entry sid r) (sm_answers m)\<rparr>,
                   AList.update ''run_ids'' (text_items (runs @ [ar_run r]))
                     (AList.update ''interaction_ids'' (text_items (ids @ [ar_interaction r])) session)))))))"

definition assistant_turns :: "json_object \<Rightarrow> json_object result" where
  "assistant_turns state = mapping_value (get_default state ''session_assistant_turns'' (JObj []))"

text \<open>The source reads the assistant turns after the checks on the answers; every failure before and after is the
  same error.\<close>

definition reduce_answer_recorded :: "json_object \<Rightarrow> domain_event \<Rightarrow> answer_record \<Rightarrow> json_object result" where
  "reduce_answer_recorded state e r =
     res_bind (open_session state e) (\<lambda>(m, sid, session).
     res_bind (require_active session) (\<lambda>_.
     res_bind (assistant_turns state) (\<lambda>turns.
     res_bind (answer_step turns e r sid (m, session)) (close_session state e sid))))"

definition turn_entry :: "string \<Rightarrow> assistant_turn \<Rightarrow> string \<Rightarrow> json" where
  "turn_entry sid t at = JObj [
     (''session_id'', JStr sid), (''status'', JStr (turn_status_value (at_status t))), (''content'', JStr (at_content t)),
     (''in_reply_to_interaction_id'', optional_json JStr (at_reply t)), (''run_id'', JStr (ro_run (at_output t))),
     (''output_key'', JStr (ro_key (at_output t))), (''output_fingerprint'', JStr (ro_fingerprint (at_output t))),
     (''idempotency_key'', JStr (at_key t)), (''command_fingerprint'', JStr (at_fingerprint t)),
     (''event_id'', JStr (at_event t)), (''course_sequence'', JInt (at_sequence t)), (''occurred_at'', JStr at)]"

definition turn_step :: "assistant_turn \<Rightarrow> string \<Rightarrow> session_parts \<Rightarrow> json_object \<Rightarrow> json_object result" where
  "turn_step t sid m turns =
     (if at_id t \<in> set (keys_of (sm_interactions m)) \<or> at_id t \<in> set (keys_of turns) then Inl ValueError
      else if \<not> (case at_reply t of None \<Rightarrow> True | Some iid \<Rightarrow> human_in_session sid (jget (sm_interactions m) iid))
        then Inl ValueError
      else if \<not> list_all (unclaimed (ro_run (at_output t)) sid (at_key t)) (sm_answers m) then Inl ValueError
      else if \<not> list_all (unclaimed (ro_run (at_output t)) sid (at_key t)) turns then Inl ValueError
      else res_bind (timestamp (at_time t)) (\<lambda>at. Inr (AList.update (at_id t) (turn_entry sid t at) turns)))"

definition reduce_assistant_turn_recorded :: "json_object \<Rightarrow> domain_event \<Rightarrow> assistant_turn \<Rightarrow> json_object result" where
  "reduce_assistant_turn_recorded state e t =
     res_bind (open_session state e) (\<lambda>(m, sid, session).
     res_bind (require_active session) (\<lambda>_.
       if Some (at_session t) \<noteq> ev_session e then Inl ValueError
       else
         res_bind (assistant_turns state) (\<lambda>turns.
         res_bind (turn_step t sid m turns) (\<lambda>new.
         res_bind (close_session state e sid (m, session)) (\<lambda>state'.
           Inr (AList.update ''session_assistant_turns'' (JObj new) state'))))))"

section \<open>Summaries of the projected history\<close>

definition interaction_keys :: "string list" where
  "interaction_keys = [''session_id'', ''kind'', ''occurred_at'', ''content'', ''answer_id'', ''run_id'']"

text \<open>\<^verbatim>\<open>value is not None and not isinstance(value, str)\<close> is corrupt; a text must be a valid identifier.\<close>

definition optional_identifier :: "json \<Rightarrow> string option result" where
  "optional_identifier v =
     (case v of JNull \<Rightarrow> Inr None | JStr s \<Rightarrow> res_bind (mk_identifier s) (\<lambda>i. Inr (Some i)) | _ \<Rightarrow> Inl ValueError)"

definition decode_interaction :: "string \<Rightarrow> json_object \<Rightarrow> interaction_record result" where
  "decode_interaction iid raw =
     (if \<not> has_keys raw interaction_keys then Inl ValueError
      else
        (case (jget raw ''kind'', jget raw ''occurred_at'', jget raw ''content'') of
           (JStr kind_raw, JStr occurred_raw, JStr content) \<Rightarrow>
             res_bind (interaction_kind_of kind_raw) (\<lambda>k.
             res_bind (map_error (\<lambda>_. ValueError) (parse_timestamp occurred_raw)) (\<lambda>at.
             res_bind (optional_identifier (jget raw ''answer_id'')) (\<lambda>answer.
             res_bind (optional_identifier (jget raw ''run_id'')) (\<lambda>run.
             res_bind (mk_identifier iid) (\<lambda>i.
               mk_interaction \<lparr>ix_id = i, ix_kind = k, ix_time = at, ix_content = content, ix_answer = answer,
                 ix_run = run\<rparr>)))))
         | _ \<Rightarrow> Inl ValueError))"

definition domain_interaction :: "string \<Rightarrow> json_object \<Rightarrow> string \<Rightarrow> interaction_record result" where
  "domain_interaction sid interactions iid =
     (case jget interactions iid of
        JObj raw \<Rightarrow> if jget raw ''session_id'' \<noteq> JStr sid then Inl ValueError else decode_interaction iid raw
      | _ \<Rightarrow> Inl ValueError)"

definition domain_interactions :: "string \<Rightarrow> json_object \<Rightarrow> json_object \<Rightarrow> interaction_record list result" where
  "domain_interactions sid session interactions =
     res_bind (string_array (jget session ''interaction_ids'')) (map_res (domain_interaction sid interactions))"

definition answer_entry_keys :: "string list" where
  "answer_entry_keys = [''session_id'', ''answer_id'', ''interaction_id'', ''question_interaction_id'', ''run_id'',
     ''idempotency_key'', ''command_fingerprint'', ''answer'']"

definition string_field :: "json_object \<Rightarrow> string \<Rightarrow> string result" where
  "string_field raw k = (case jget raw k of JStr s \<Rightarrow> Inr s | _ \<Rightarrow> Inl ValueError)"

definition decode_answer_entry :: "string \<Rightarrow> json_object \<Rightarrow> answer_record result" where
  "decode_answer_entry aid raw =
     (if \<not> has_keys raw answer_entry_keys \<or> jget raw ''answer_id'' \<noteq> JStr aid then Inl ValueError
      else
        res_bind (string_field raw ''session_id'') (\<lambda>_.
        res_bind (string_field raw ''interaction_id'') (\<lambda>iid_raw.
        res_bind (string_field raw ''question_interaction_id'') (\<lambda>qid_raw.
        res_bind (string_field raw ''run_id'') (\<lambda>run_raw.
        res_bind (string_field raw ''idempotency_key'') (\<lambda>key.
        res_bind (string_field raw ''command_fingerprint'') (\<lambda>fp.
        res_bind (mk_identifier aid) (\<lambda>a.
        res_bind (mk_identifier iid_raw) (\<lambda>iid.
        res_bind (mk_identifier qid_raw) (\<lambda>qid.
        res_bind (mk_identifier run_raw) (\<lambda>run.
        res_bind (decode_answer (jget raw ''answer'')) (\<lambda>answer.
          mk_answer_record \<lparr>ar_id = a, ar_interaction = iid, ar_question = qid, ar_run = run, ar_key = key,
            ar_fingerprint = fp, ar_answer = answer\<rparr>))))))))))))"

text \<open>The answers of one session, by id; entries that are not mappings are passed over.\<close>

definition session_answers :: "string \<Rightarrow> json_object \<Rightarrow> (string \<times> json_object) list" where
  "session_answers sid answers =
     concat (map (\<lambda>(aid, v). case v of JObj raw \<Rightarrow> if jget raw ''session_id'' = JStr sid then [(aid, raw)] else []
       | _ \<Rightarrow> []) answers)"

definition domain_answers :: "string \<Rightarrow> json_object \<Rightarrow> (string \<rightharpoonup> answer_record) result" where
  "domain_answers sid answers =
     res_bind (map_res (\<lambda>(aid, raw). res_bind (decode_answer_entry aid raw) (\<lambda>r. Inr (aid, r))) (session_answers sid answers))
       (\<lambda>rs. Inr (map_of rs))"

definition position :: "string \<Rightarrow> interaction_record list \<Rightarrow> nat option" where
  "position iid ordered = (let n = length (takeWhile (\<lambda>i. ix_id i \<noteq> iid) ordered) in if n < length ordered then Some n else None)"

text \<open>A summary that is already there names an interaction of the history; \<^verbatim>\<open>positions[...]\<close> raises otherwise.\<close>

definition summary_advances :: "interaction_record list \<Rightarrow> json \<Rightarrow> continuation_summary \<Rightarrow> unit result" where
  "summary_advances ordered current_raw c =
     (if current_raw = JNull then Inr ()
      else
        res_bind (decode_summary current_raw) (\<lambda>current.
          (case (position (cs_through c) ordered, position (cs_through current) ordered) of
             (Some new, Some old) \<Rightarrow> require (old < new)
           | _ \<Rightarrow> Inl KeyError)))"

definition summary_step ::
  "continuation_summary \<Rightarrow> string \<Rightarrow> session_parts \<times> json_object \<Rightarrow> (session_parts \<times> json_object) result" where
  "summary_step c sid ms =
     (let (m, session) = ms in
      res_bind (require_active session) (\<lambda>_.
      res_bind (domain_interactions sid session (sm_interactions m)) (\<lambda>ordered.
      res_bind (domain_answers sid (sm_answers m)) (\<lambda>answers.
      res_bind (verify_continuation_summary c ordered answers) (\<lambda>_.
      res_bind (summary_advances ordered (jget session ''continuation_summary'') c) (\<lambda>_.
        Inr (m, AList.update ''continuation_summary'' (summary_json c) session)))))))"

definition reduce_summary_updated :: "json_object \<Rightarrow> domain_event \<Rightarrow> continuation_summary \<Rightarrow> json_object result" where
  "reduce_summary_updated state e c =
     res_bind (open_session state e) (\<lambda>(m, sid, session).
     res_bind (summary_step c sid (m, session)) (close_session state e sid))"

section \<open>Lifecycle\<close>

text \<open>One transition of the lifecycle: from one of the allowed statuses to the target, with its time stamped.\<close>

definition transition_step ::
  "domain_event \<Rightarrow> session_status list \<Rightarrow> session_status \<Rightarrow> string \<Rightarrow> session_parts \<times> json_object \<Rightarrow>
   (session_parts \<times> json_object) result" where
  "transition_step e allowed target stamp ms =
     (let (m, session) = ms in
      if jget session ''status'' \<notin> set (map (JStr \<circ> session_status_value) allowed) then Inl ValueError
      else
        res_bind (timestamp (ev_at e)) (\<lambda>now.
          Inr (m, AList.update stamp (JStr now)
                    (AList.update ''status'' (JStr (session_status_value target)) session))))"

definition reduce_suspended :: "json_object \<Rightarrow> domain_event \<Rightarrow> unit \<Rightarrow> json_object result" where
  "reduce_suspended state e u =
     res_bind (open_session state e) (\<lambda>(m, sid, session).
     res_bind (transition_step e [Session_ACTIVE] Session_SUSPENDED ''suspended_at'' (m, session)) (close_session state e sid))"

definition reduce_resumed :: "json_object \<Rightarrow> domain_event \<Rightarrow> unit \<Rightarrow> json_object result" where
  "reduce_resumed state e u =
     res_bind (open_session state e) (\<lambda>(m, sid, session).
     res_bind (transition_step e [Session_SUSPENDED] Session_ACTIVE ''resumed_at'' (m, session)) (close_session state e sid))"

definition reduce_ended :: "json_object \<Rightarrow> domain_event \<Rightarrow> unit \<Rightarrow> json_object result" where
  "reduce_ended state e u =
     res_bind (open_session state e) (\<lambda>(m, sid, session).
     res_bind (transition_step e [Session_ACTIVE, Session_SUSPENDED] Session_ENDED ''ended_at'' (m, session))
       (close_session state e sid))"

section \<open>Registration\<close>

datatype session_payload =
    Session_started string
  | Interaction_recorded interaction_recorded
  | Answer_recorded answer_record
  | Assistant_turn assistant_turn
  | Summary_updated continuation_summary
  | Lifecycle_transition

fun started_of :: "session_payload \<Rightarrow> string option" where
  "started_of (Session_started s) = Some s" | "started_of _ = None"

fun interaction_of :: "session_payload \<Rightarrow> interaction_recorded option" where
  "interaction_of (Interaction_recorded p) = Some p" | "interaction_of _ = None"

fun answer_of :: "session_payload \<Rightarrow> answer_record option" where
  "answer_of (Answer_recorded r) = Some r" | "answer_of _ = None"

fun turn_of :: "session_payload \<Rightarrow> assistant_turn option" where
  "turn_of (Assistant_turn t) = Some t" | "turn_of _ = None"

fun summary_of :: "session_payload \<Rightarrow> continuation_summary option" where
  "summary_of (Summary_updated c) = Some c" | "summary_of _ = None"

fun lifecycle_of :: "session_payload \<Rightarrow> unit option" where
  "lifecycle_of Lifecycle_transition = Some ()" | "lifecycle_of _ = None"

definition to_lifecycle :: "unit \<Rightarrow> session_payload" where
  "to_lifecycle u = Lifecycle_transition"

definition register_session_events ::
  "(session_payload \<Rightarrow> 'p) \<Rightarrow> ('p \<Rightarrow> session_payload option) \<Rightarrow> 'p registry \<Rightarrow> 'p registry result" where
  "register_session_events wrap unwrap reg =
     res_bind (register_event session_started_type 1 (erase_decoder (wrap \<circ> Session_started) decode_session_started)
       (erase_reducer (\<lambda>p. Option.bind (unwrap p) started_of) reduce_session_started) reg) (\<lambda>reg.
     res_bind (register_event interaction_recorded_type 1 (erase_decoder (wrap \<circ> Interaction_recorded) decode_interaction_recorded)
       (erase_reducer (\<lambda>p. Option.bind (unwrap p) interaction_of) reduce_interaction_recorded) reg) (\<lambda>reg.
     res_bind (register_event answer_recorded_type 1 (erase_decoder (wrap \<circ> Answer_recorded) decode_answer_recorded)
       (erase_reducer (\<lambda>p. Option.bind (unwrap p) answer_of) reduce_answer_recorded) reg) (\<lambda>reg.
     res_bind (register_event assistant_turn_type 1 (erase_decoder (wrap \<circ> Assistant_turn) decode_assistant_turn_recorded)
       (erase_reducer (\<lambda>p. Option.bind (unwrap p) turn_of) reduce_assistant_turn_recorded) reg) (\<lambda>reg.
     res_bind (register_event summary_updated_type 1 (erase_decoder (wrap \<circ> Summary_updated) decode_summary_updated)
       (erase_reducer (\<lambda>p. Option.bind (unwrap p) summary_of) reduce_summary_updated) reg) (\<lambda>reg.
     res_bind (register_event session_suspended_type 1 (erase_decoder (wrap \<circ> to_lifecycle) (decode_lifecycle session_suspended_type))
       (erase_reducer (\<lambda>p. Option.bind (unwrap p) lifecycle_of) reduce_suspended) reg) (\<lambda>reg.
     res_bind (register_event session_resumed_type 1 (erase_decoder (wrap \<circ> to_lifecycle) (decode_lifecycle session_resumed_type))
       (erase_reducer (\<lambda>p. Option.bind (unwrap p) lifecycle_of) reduce_resumed) reg) (\<lambda>reg.
       register_event session_ended_type 1 (erase_decoder (wrap \<circ> to_lifecycle) (decode_lifecycle session_ended_type))
       (erase_reducer (\<lambda>p. Option.bind (unwrap p) lifecycle_of) reduce_ended) reg)))))))"

end
