(* ===== verification/Session_Contract.thy ===== *)
theory Session_Contract
  imports Sessions
begin

text \<open>
  The session reducers meet the contract of the event store: they keep the projected state well-formed and do
  not see the order of keys, so the projection that is written and the replay of the stored events agree. The
  reducers of an open session share their proof: \<open>step_ok\<close> states the two laws of a step, and the lemmas on
  opening and closing a session lift them to the reducer.
\<close>

section \<open>Parts in canonical order\<close>

definition canon_sparts :: "session_parts \<Rightarrow> session_parts" where
  "canon_sparts m = \<lparr>sm_sessions = canon_obj (sm_sessions m), sm_interactions = canon_obj (sm_interactions m),
     sm_answers = canon_obj (sm_answers m)\<rparr>"

definition wf_sparts :: "session_parts \<Rightarrow> bool" where
  "wf_sparts m = (wf_json (JObj (sm_sessions m)) \<and> wf_json (JObj (sm_interactions m)) \<and> wf_json (JObj (sm_answers m)))"

definition canon_ms :: "session_parts \<times> json_object \<Rightarrow> session_parts \<times> json_object" where
  "canon_ms = map_prod canon_sparts canon_obj"

definition wf_ms :: "session_parts \<times> json_object \<Rightarrow> bool" where
  "wf_ms ms = (wf_sparts (fst ms) \<and> wf_json (JObj (snd ms)))"

lemma wf_canon_obj [simp]: "wf_json (JObj (canon_obj s)) \<longleftrightarrow> wf_json (JObj s)"
  using wf_canon [of "JObj s"] by (simp only: canon_JObj)

lemma mapping_value_canon: "mapping_value (canon v) = map_sum id canon_obj (mapping_value v)"
  by (cases v) (simp_all add: mapping_value_def canon_JObj del: canon.simps(6))

lemma mapping_value_Inr: "mapping_value v = Inr kvs \<longleftrightarrow> v = JObj kvs"
  by (cases v) (auto simp: mapping_value_def)

lemma string_array_canon [simp]: "string_array (canon v) = string_array v"
proof -
  have "(case canon x of JStr s \<Rightarrow> Inr s | _ \<Rightarrow> Inl ValueError) = (case x of JStr s \<Rightarrow> Inr s | _ \<Rightarrow> Inl ValueError)" for x
    by (cases x) simp_all
  then show ?thesis by (cases v) (simp_all add: string_array_def array_value_def map_res_map comp_def)
qed

lemma default_canon: "wf_json (JObj s) \<Longrightarrow> get_default (canon_obj s) k (JObj []) = canon (get_default s k (JObj []))"
  using get_default_canon [of s k "JObj []"] by simp

lemma session_maps_canon:
  assumes "wf_json (JObj s)"
  shows "session_maps (canon_obj s) = map_sum id canon_sparts (session_maps s)"
  by (cases "mapping_value (get_default s ''sessions'' (JObj []))";
      cases "mapping_value (get_default s ''session_interactions'' (JObj []))";
      cases "mapping_value (get_default s ''session_answers'' (JObj []))")
    (simp_all add: session_maps_def default_canon [OF assms] mapping_value_canon canon_sparts_def)

lemma session_maps_wf:
  assumes "wf_json (JObj s)" and "session_maps s = Inr m"
  shows "wf_sparts m"
  using assms(2) wf_get_default [OF assms(1) wf_empty(1)]
  by (auto simp: session_maps_def res_bind_eq_Inr mapping_value_Inr wf_sparts_def simp del: wf_json_JObj) metis+

lemma find_session_canon:
  assumes "wf_json (JObj ss)"
  shows "find_session (canon_obj ss) (stored e) = map_sum id (map_prod id canon_obj) (find_session ss e)"
proof (cases "ev_session e")
  case (Some sid)
  have get: "jget (canon_obj ss) sid = canon (jget ss sid)" by (rule jget_wf_canon [OF assms])
  show ?thesis
  proof (cases "jget ss sid")
    case (JObj raw)
    then have "wf_json (JObj raw)" using wf_jget [OF assms, of sid] by simp
    then have "jget (canon_obj raw) k = canon (jget raw k)" for k by (rule jget_wf_canon)
    with get JObj Some show ?thesis by (simp add: find_session_def canon_JObj del: canon.simps(6))
  qed (use get Some in \<open>simp_all add: find_session_def\<close>)
qed (simp add: find_session_def)

lemma find_session_Inr:
  "find_session ss e = Inr (sid, raw) \<Longrightarrow> ev_session e = Some sid \<and> jget ss sid = JObj raw \<and> has_keys raw session_keys \<and>
    jget raw ''session_id'' = JStr sid \<and> jget raw ''course_id'' = JStr (ev_course e)"
  by (auto simp: find_session_def split: option.splits json.splits if_splits)

lemma chronological_canon: "wf_json (JObj s) \<Longrightarrow> chronological (canon_obj s) (stored e) = chronological s e"
  by (cases "jget s ''last_event_at''") (simp_all add: chronological_def jget_wf_canon)

lemma require_active_canon: "wf_json (JObj s) \<Longrightarrow> require_active (canon_obj s) = require_active s"
  by (simp add: require_active_def jget_wf_canon)

lemma open_session_wf:
  assumes "wf_json (JObj s)" and "open_session s e = Inr (m, sid, session)"
  shows "wf_ms (m, session)"
proof -
  have m: "session_maps s = Inr m" "find_session (sm_sessions m) e = Inr (sid, session)"
    using assms(2) by (auto simp: open_session_def res_bind_eq_Inr)
  have wf: "wf_sparts m" by (rule session_maps_wf [OF assms(1) m(1)])
  then have "wf_json (jget (sm_sessions m) sid)" by (intro wf_jget) (simp add: wf_sparts_def)
  then show ?thesis using wf find_session_Inr [OF m(2)] by (simp add: wf_ms_def)
qed

lemma open_session_canon:
  assumes "wf_json (JObj s)"
  shows "open_session (canon_obj s) (stored e) = map_sum id (\<lambda>(m, sid, session). (canon_sparts m, sid, canon_obj session)) (open_session s e)"
proof (cases "session_maps s")
  case (Inr m)
  have wf: "wf_sparts m" by (rule session_maps_wf [OF assms Inr])
  then have find: "find_session (canon_obj (sm_sessions m)) (stored e) = map_sum id (map_prod id canon_obj) (find_session (sm_sessions m) e)"
    by (intro find_session_canon) (simp add: wf_sparts_def)
  show ?thesis
  proof (cases "find_session (sm_sessions m) e")
    case (Inr sr)
    obtain sid raw where sr: "sr = (sid, raw)" by (cases sr)
    have "wf_json (jget (sm_sessions m) sid)" using wf by (intro wf_jget) (simp add: wf_sparts_def)
    then have "wf_json (JObj raw)" using find_session_Inr Inr sr by fastforce
    then have "chronological (canon_obj raw) (stored e) = chronological raw e" by (rule chronological_canon)
    with \<open>session_maps s = _\<close> Inr sr find show ?thesis
      by (cases "chronological raw e") (simp_all add: open_session_def session_maps_canon [OF assms] canon_sparts_def)
  qed (use Inr find in \<open>simp add: open_session_def session_maps_canon [OF assms] canon_sparts_def\<close>)
qed (simp add: open_session_def session_maps_canon [OF assms])

lemma write_maps_wf: "wf_json (JObj s) \<Longrightarrow> wf_sparts m \<Longrightarrow> wf_json (JObj (write_maps s m))"
  unfolding write_maps_def wf_sparts_def by (intro wf_update) simp_all

lemma write_maps_same:
  assumes "wf_json (JObj s)" "wf_json (JObj t)" "same_state s t" "wf_sparts m" "wf_sparts n" "canon_sparts m = canon_sparts n"
  shows "same_state (write_maps s m) (write_maps t n)"
  using assms unfolding write_maps_def wf_sparts_def canon_sparts_def
  by (intro same_state_update wf_update) (simp_all add: canon_JObj del: canon.simps(6) wf_json_JObj)

lemma canon_obj_update:
  assumes "wf_json (JObj s)" "wf_json (JObj t)" "canon_obj s = canon_obj t" "canon v = canon w"
  shows "canon_obj (AList.update k v s) = canon_obj (AList.update k w t)"
  using same_state_update [of s t v w k] assms by (simp add: same_state_def)

lemma close_session_wf:
  assumes "wf_json (JObj s)" and "wf_ms ms" and "close_session s e sid ms = Inr s'"
  shows "wf_json (JObj s')"
  using assms
  by (auto simp: close_session_def wf_ms_def wf_sparts_def res_bind_eq_Inr simp del: wf_json_JObj split: prod.splits
      intro!: write_maps_wf wf_update)

lemma close_session_same:
  assumes s: "wf_json (JObj s)" and ms: "wf_ms ms" "wf_ms ms'" and eq: "canon_ms ms' = canon_ms ms"
  shows "same_result (close_session (canon_obj s) (stored e) sid ms') (close_session s e sid ms)"
proof (cases "timestamp (ev_at e)")
  case (Inr now)
  obtain m x where mx: "ms = (m, x)" by (cases ms)
  obtain n y where ny: "ms' = (n, y)" by (cases ms')
  have wf: "wf_sparts m" "wf_sparts n" "wf_json (JObj x)" "wf_json (JObj y)" using ms mx ny by (simp_all add: wf_ms_def)
  have c: "canon_sparts n = canon_sparts m" "canon_obj y = canon_obj x" using eq mx ny by (simp_all add: canon_ms_def)
  let ?x = "AList.update ''last_event_at'' (JStr now) x" and ?y = "AList.update ''last_event_at'' (JStr now) y"
  have xy: "canon_obj ?y = canon_obj ?x" using wf c by (intro canon_obj_update) simp_all
  have up: "wf_json (JObj ?x)" "wf_json (JObj ?y)" using wf by (simp_all add: wf_update del: wf_json_JObj)
  let ?m = "m\<lparr>sm_sessions := AList.update sid (JObj ?x) (sm_sessions m)\<rparr>"
  let ?n = "n\<lparr>sm_sessions := AList.update sid (JObj ?y) (sm_sessions n)\<rparr>"
  have "wf_sparts ?m" "wf_sparts ?n" using wf up by (simp_all add: wf_sparts_def wf_update del: wf_json_JObj)
  moreover have "canon_sparts ?n = canon_sparts ?m"
    using c(1) wf xy
    by (simp add: canon_sparts_def wf_sparts_def canon_JObj canon_obj_update [of "sm_sessions n" "sm_sessions m"] del: canon.simps(6) wf_json_JObj)
  ultimately have "same_state (write_maps (canon_obj s) ?n) (write_maps s ?m)"
    using s by (intro write_maps_same) (simp_all del: wf_json_JObj)
  then show ?thesis using Inr mx ny by (simp add: close_session_def)
qed (use assms in \<open>simp add: close_session_def split: prod.splits\<close>)

definition same_ms :: "(session_parts \<times> json_object) result \<Rightarrow> (session_parts \<times> json_object) result \<Rightarrow> bool" where
  "same_ms a b = (map_sum id canon_ms a = map_sum id canon_ms b)"

lemma same_ms_simps [simp]:
  "same_ms (Inl x) (Inl y) \<longleftrightarrow> x = y" "same_ms (Inr p) (Inr q) \<longleftrightarrow> canon_ms p = canon_ms q"
  "\<not> same_ms (Inl x) (Inr q)" "\<not> same_ms (Inr p) (Inl y)"
  by (simp_all add: same_ms_def)

lemma same_ms_bind: "(\<And>x. m = Inr x \<Longrightarrow> same_ms (f x) (g x)) \<Longrightarrow> same_ms (res_bind m f) (res_bind m g)"
  by (cases m) simp_all

text \<open>The laws of a step on an open session: it keeps the parts well-formed and does not see the order of keys.\<close>

definition step_ok ::
  "(string \<Rightarrow> session_parts \<times> json_object \<Rightarrow> (session_parts \<times> json_object) result) \<Rightarrow>
   (string \<Rightarrow> session_parts \<times> json_object \<Rightarrow> (session_parts \<times> json_object) result) \<Rightarrow> bool" where
  "step_ok step' step = (\<forall>sid ms. wf_ms ms \<longrightarrow> same_ms (step' sid (canon_ms ms)) (step sid ms) \<and>
     (\<forall>ms'. step sid ms = Inr ms' \<longrightarrow> wf_ms ms') \<and> (\<forall>ms'. step' sid (canon_ms ms) = Inr ms' \<longrightarrow> wf_ms ms'))"

lemma wf_canon_ms [simp]: "wf_ms (canon_ms ms) \<longleftrightarrow> wf_ms ms"
  by (simp add: wf_ms_def canon_ms_def wf_sparts_def canon_sparts_def del: wf_json_JObj)

lemma step_okI:
  assumes "\<And>sid ms. wf_ms ms \<Longrightarrow> same_ms (step' sid (canon_ms ms)) (step sid ms)"
    and "\<And>sid ms ms'. wf_ms ms \<Longrightarrow> step sid ms = Inr ms' \<Longrightarrow> wf_ms ms'"
    and "\<And>sid ms ms'. wf_ms ms \<Longrightarrow> step' sid ms = Inr ms' \<Longrightarrow> wf_ms ms'"
  shows "step_ok step' step"
  unfolding step_ok_def using assms wf_canon_ms by blast

lemma session_step_wf:
  assumes "wf_json (JObj s)" and "step_ok step' step"
    and "res_bind (open_session s e) (\<lambda>(m, sid, session). res_bind (step sid (m, session)) (close_session s e sid)) = Inr s'"
  shows "wf_json (JObj s')"
proof -
  obtain m sid session ms where o: "open_session s e = Inr (m, sid, session)" "step sid (m, session) = Inr ms"
    "close_session s e sid ms = Inr s'"
    using assms(3) by (auto simp: res_bind_eq_Inr)
  have "wf_ms ms" using assms(2) o(2) open_session_wf [OF assms(1) o(1)] unfolding step_ok_def by blast
  then show ?thesis by (rule close_session_wf [OF assms(1) _ o(3)])
qed

lemma session_step_same:
  assumes wf: "wf_json (JObj s)" and ok: "step_ok step' step"
  shows "same_result
    (res_bind (open_session (canon_obj s) (stored e)) (\<lambda>(m, sid, session).
       res_bind (step' sid (m, session)) (close_session (canon_obj s) (stored e) sid)))
    (res_bind (open_session s e) (\<lambda>(m, sid, session). res_bind (step sid (m, session)) (close_session s e sid)))"
proof (cases "open_session s e")
  case (Inr x)
  obtain m sid session where x: "x = (m, sid, session)" by (cases x)
  have wfx: "wf_ms (m, session)" using open_session_wf [OF wf] Inr x by blast
  have law: "same_ms (step' sid (canon_ms (m, session))) (step sid (m, session))"
    "\<And>ms'. step sid (m, session) = Inr ms' \<Longrightarrow> wf_ms ms'" "\<And>ms'. step' sid (canon_ms (m, session)) = Inr ms' \<Longrightarrow> wf_ms ms'"
    using ok wfx unfolding step_ok_def by blast+
  have "same_result (res_bind (step' sid (canon_ms (m, session))) (close_session (canon_obj s) (stored e) sid))
      (res_bind (step sid (m, session)) (close_session s e sid))"
    using law by (cases "step' sid (canon_ms (m, session))"; cases "step sid (m, session)")
      (auto intro!: close_session_same [OF wf])
  then show ?thesis using Inr x by (simp add: open_session_canon [OF wf] canon_ms_def)
qed (simp add: open_session_canon [OF wf])

section \<open>The steps\<close>

lemma canon_ms_simps:
  "canon_ms (m, s) = (canon_sparts m, canon_obj s)" "sm_sessions (canon_sparts m) = canon_obj (sm_sessions m)"
  "sm_interactions (canon_sparts m) = canon_obj (sm_interactions m)" "sm_answers (canon_sparts m) = canon_obj (sm_answers m)"
  by (simp_all add: canon_ms_def canon_sparts_def)

lemma wf_session_entries:
  "wf_json (session_entry sid e now)" "wf_json (answer_entry sid r)" "wf_json (turn_entry sid t at)" "wf_json (text_items xs)"
  "wf_json a \<Longrightarrow> wf_json b \<Longrightarrow> wf_json (interaction_entry sid k now content a b)"
  by (auto simp: session_entry_def answer_entry_def turn_entry_def interaction_entry_def text_items_def optional_json_def
      answer_codec.enc_wf split: option.splits)

lemma steps_wf:
  assumes "wf_ms ms"
  shows "interaction_step e p sid ms = Inr ms' \<Longrightarrow> wf_ms ms'"
    and "answer_step turns e r sid ms = Inr ms' \<Longrightarrow> wf_ms ms'"
    and "summary_step c sid ms = Inr ms' \<Longrightarrow> wf_ms ms'"
    and "transition_step e allowed target stamp ms = Inr ms' \<Longrightarrow> wf_ms ms'"
proof -
  obtain m s where ms: "ms = (m, s)" by (cases ms)
  have w: "wf_json (JObj s)" "wf_json (JObj (sm_sessions m))" "wf_json (JObj (sm_interactions m))" "wf_json (JObj (sm_answers m))"
    using assms ms by (simp_all add: wf_ms_def wf_sparts_def)
  note simps = ms wf_ms_def wf_sparts_def res_bind_eq_Inr Let_def
  show "interaction_step e p sid ms = Inr ms' \<Longrightarrow> wf_ms ms'"
    using w by (auto simp: simps interaction_step_def simp del: wf_json_JObj split: if_splits intro!: wf_update wf_session_entries)
  show "answer_step turns e r sid ms = Inr ms' \<Longrightarrow> wf_ms ms'"
    using w by (auto simp: simps answer_step_def simp del: wf_json_JObj split: if_splits intro!: wf_update wf_session_entries)
  show "summary_step c sid ms = Inr ms' \<Longrightarrow> wf_ms ms'"
    using w by (auto simp: simps summary_step_def summary_codec.enc_wf simp del: wf_json_JObj intro!: wf_update)
  show "transition_step e allowed target stamp ms = Inr ms' \<Longrightarrow> wf_ms ms'"
    using w by (auto simp: simps transition_step_def simp del: wf_json_JObj split: if_splits intro!: wf_update)
qed

lemma interaction_step_ok: "step_ok (interaction_step (stored e) p) (interaction_step e p)"
proof (rule step_okI)
  fix sid and ms :: "session_parts \<times> json_object" assume wf: "wf_ms ms"
  obtain m s where ms: "ms = (m, s)" by (cases ms)
  have w: "wf_json (JObj s)" "wf_json (JObj (sm_interactions m))" using wf ms by (simp_all add: wf_ms_def wf_sparts_def)
  show "same_ms (interaction_step (stored e) p sid (canon_ms ms)) (interaction_step e p sid ms)"
    using w unfolding ms interaction_step_def canon_ms_simps Let_def prod.case require_active_canon [OF w(1)]
    by (auto simp: jget_wf_canon canon_ms_def canon_sparts_def canon_update simp del: wf_json_JObj intro!: same_ms_bind)
qed (erule (1) steps_wf)+

lemma transition_step_ok:
  "step_ok (\<lambda>_. transition_step (stored e) allowed target stamp) (\<lambda>_. transition_step e allowed target stamp)"
proof (rule step_okI)
  fix ms :: "session_parts \<times> json_object" assume wf: "wf_ms ms"
  obtain m s where ms: "ms = (m, s)" by (cases ms)
  have w: "wf_json (JObj s)" using wf ms by (simp add: wf_ms_def)
  have "wf_json (JObj (canon_obj s))" "wf_json (JObj (AList.update k (JStr v) s))" "wf_json (JObj (AList.update k (JStr v) (canon_obj s)))" for k v
    using w by (simp_all add: wf_update del: wf_json_JObj)
  then have up: "canon_obj (AList.update k (JStr now) (AList.update j (JStr v) (canon_obj s))) =
      canon_obj (AList.update k (JStr now) (AList.update j (JStr v) s))" for k j now v
    using w canon_update [OF w, of "JStr v" "JStr v" j] by (intro canon_obj_update) (simp_all del: wf_json_JObj)
  have get: "jget (canon_obj s) ''status'' = canon (jget s ''status'')" by (rule jget_wf_canon [OF w])
  have mem: "canon v \<in> set (map (JStr \<circ> session_status_value) allowed) \<longleftrightarrow> v \<in> set (map (JStr \<circ> session_status_value) allowed)" for v
    by (cases v) auto
  show "same_ms (transition_step (stored e) allowed target stamp (canon_ms ms)) (transition_step e allowed target stamp ms)"
    unfolding ms transition_step_def canon_ms_simps Let_def prod.case get mem stored_fields
    by (auto simp: canon_ms_def canon_sparts_def up intro!: same_ms_bind)
qed (erule (1) steps_wf)+

lemma unclaimed_canon: "wf_json v \<Longrightarrow> unclaimed run sid key (k, canon v) = unclaimed run sid key (k, v)"
proof (cases v)
  case (JObj raw)
  moreover assume "wf_json v"
  ultimately have "wf_json (JObj raw)" by simp
  then have "jget (canon_obj raw) x = canon (jget raw x)" for x by (rule jget_wf_canon)
  with JObj show ?thesis by (simp add: unclaimed_def canon_JObj del: canon.simps(6))
qed (simp_all add: unclaimed_def)

lemma human_in_session_canon: "wf_json v \<Longrightarrow> human_in_session sid (canon v) = human_in_session sid v"
proof (cases v)
  case (JObj raw)
  moreover assume "wf_json v"
  ultimately have "wf_json (JObj raw)" by simp
  then have "jget (canon_obj raw) x = canon (jget raw x)" for x by (rule jget_wf_canon)
  with JObj show ?thesis by (simp add: human_in_session_def canon_JObj del: canon.simps(6))
qed (simp_all add: human_in_session_def)

lemma all_unclaimed_canon:
  "wf_json (JObj kvs) \<Longrightarrow> list_all (unclaimed run sid key) (canon_obj kvs) = list_all (unclaimed run sid key) kvs"
  by (intro list_all_canon_obj unclaimed_canon)

lemma answer_step_ok:
  assumes "wf_json (JObj turns)"
  shows "step_ok (answer_step (canon_obj turns) (stored e) r) (answer_step turns e r)"
proof (rule step_okI)
  fix sid and ms :: "session_parts \<times> json_object" assume wf: "wf_ms ms"
  obtain m s where ms: "ms = (m, s)" by (cases ms)
  have w: "wf_json (JObj s)" "wf_json (JObj (sm_interactions m))" "wf_json (JObj (sm_answers m))"
    using wf ms by (simp_all add: wf_ms_def wf_sparts_def)
  have get: "jget (canon_obj s) k = canon (jget s k)" "jget (canon_obj (sm_interactions m)) k = canon (jget (sm_interactions m) k)" for k
    using w by (simp_all add: jget_wf_canon del: wf_json_JObj)
  have "wf_json (JObj (AList.update k (text_items v) s))" "wf_json (JObj (AList.update k (text_items v) (canon_obj s)))" for k v
    using w by (simp_all add: wf_update wf_session_entries del: wf_json_JObj)
  then have up: "canon_obj (AList.update k (text_items now) (AList.update j (text_items v) (canon_obj s))) =
      canon_obj (AList.update k (text_items now) (AList.update j (text_items v) s))" for k j now v
    using w canon_update [OF w(1), of "text_items v" "text_items v" j] by (intro canon_obj_update) (simp_all del: wf_json_JObj)
  have human: "human_in_session sid (canon (jget (sm_interactions m) k)) = human_in_session sid (jget (sm_interactions m) k)" for k
    by (rule human_in_session_canon [OF wf_jget [OF w(2)]])
  show "same_ms (answer_step (canon_obj turns) (stored e) r sid (canon_ms ms)) (answer_step turns e r sid ms)"
    unfolding ms answer_step_def canon_ms_simps Let_def prod.case get human all_unclaimed_canon [OF w(3)]
      all_unclaimed_canon [OF assms] string_array_canon stored_fields keys_canon_obj set_map
    using w by (auto simp: up canon_ms_def canon_sparts_def canon_update simp del: wf_json_JObj intro!: same_ms_bind)
qed (erule (1) steps_wf)+

lemma assistant_turns_canon:
  "wf_json (JObj s) \<Longrightarrow> assistant_turns (canon_obj s) = map_sum id canon_obj (assistant_turns s)"
  by (simp add: assistant_turns_def default_canon mapping_value_canon del: wf_json_JObj)

lemma assistant_turns_wf: "wf_json (JObj s) \<Longrightarrow> assistant_turns s = Inr turns \<Longrightarrow> wf_json (JObj turns)"
  using wf_get_default [OF _ wf_empty(1), of s "''session_assistant_turns''"]
  by (simp add: assistant_turns_def mapping_value_Inr del: wf_json_JObj)

lemma turn_step_same:
  assumes "wf_sparts m" and "wf_json (JObj turns)"
  shows "map_sum id canon_obj (turn_step t sid (canon_sparts m) (canon_obj turns)) = map_sum id canon_obj (turn_step t sid m turns)"
proof -
  have w: "wf_json (JObj (sm_interactions m))" "wf_json (JObj (sm_answers m))" using assms by (simp_all add: wf_sparts_def)
  have human: "human_in_session sid (jget (canon_obj (sm_interactions m)) k) = human_in_session sid (jget (sm_interactions m) k)" for k
    using human_in_session_canon [OF wf_jget [OF w(1)]] by (simp add: jget_wf_canon [OF w(1)])
  show ?thesis
    unfolding turn_step_def canon_ms_simps human all_unclaimed_canon [OF w(2)] all_unclaimed_canon [OF assms(2)] keys_canon_obj set_map
    using assms(2) by (cases "timestamp (at_time t)") (simp_all add: canon_update del: wf_json_JObj)
qed

lemma turn_step_wf: "wf_json (JObj turns) \<Longrightarrow> turn_step t sid m turns = Inr new \<Longrightarrow> wf_json (JObj new)"
  by (auto simp: turn_step_def res_bind_eq_Inr simp del: wf_json_JObj split: if_splits intro!: wf_update wf_session_entries)

lemma value_error_readers [value_error_intros]:
  "value_error (object_value v ks)" "value_error (text_value v)" "value_error (integer_value v)" "value_error (array_value v)"
  "value_error (boolean_value v)" "value_error (text_array v)" "value_error (optional_text v)" "value_error (require_fingerprint s)"
  "value_error (enum_of val members s)"
  by (auto simp: value_error_def object_value_def text_value_def integer_value_def array_value_def boolean_value_def text_array_def
      optional_text_def require_fingerprint_def require_def require_text_def enum_of_def res_bind_eq_Inl
      split: json.splits if_splits list.splits dest!: value_error_map_res [unfolded value_error_def, rule_format, rotated])

lemma value_error_optional [value_error_intros]: "(\<And>v. value_error (dec v)) \<Longrightarrow> value_error (optional_value dec v)"
  unfolding optional_value_def by (intro value_error_intros)

lemma value_error_mk [value_error_intros]:
  "value_error (mk_citation c)" "value_error (mk_commitment m)" "value_error (mk_prompt p)" "value_error (mk_usage u)"
  "value_error (mk_model n)" "value_error (mk_retrieval r)" "value_error (mk_validator v)" "value_error (mk_pins q)"
  "value_error (mk_provenance a)" "value_error (mk_segment s)" "value_error (mk_answer_record w)"
  unfolding mk_citation_def mk_commitment_def mk_prompt_def mk_usage_def mk_model_def mk_retrieval_def mk_validator_def
    mk_pins_def mk_provenance_def mk_segment_def mk_answer_record_def
  by (intro value_error_intros)+

lemma value_error_answer [value_error_intros]: "value_error (mk_answer g)"
  unfolding mk_answer_def check_evidence_def Let_def
  by (intro value_error_intros) (auto simp: value_error_def require_def split: list.splits)

lemma value_error_decode [value_error_intros]:
  "value_error (decode_citation v)" "value_error (decode_commitment v)" "value_error (decode_prompt v)" "value_error (decode_usage v)"
  "value_error (decode_retrieval v)" "value_error (decode_validator v)" "value_error (decode_pins v)"
  unfolding decode_citation_def decode_commitment_def decode_prompt_def decode_usage_def decode_retrieval_def
    decode_validator_def decode_pins_def
  by (intro value_error_intros)+

lemma value_error_decode_model [value_error_intros]: "value_error (decode_model v)"
  unfolding decode_model_def by (intro value_error_intros)

lemma value_error_decode_provenance [value_error_intros]: "value_error (decode_provenance v)"
  unfolding decode_provenance_def by (intro value_error_intros)

lemma value_error_decode_segment [value_error_intros]: "value_error (decode_segment v)"
  unfolding decode_segment_def segment_kind_of_def claim_origin_of_def by (intro value_error_intros)

lemma value_error_decode_answer [value_error_intros]: "value_error (decode_answer v)"
  unfolding decode_answer_def answer_status_of_def by (intro value_error_intros)

lemma value_error_answer_entry: "value_error (decode_answer_entry aid raw)"
  unfolding decode_answer_entry_def string_field_def
  by (intro value_error_intros) (auto simp: value_error_def split: json.splits)

lemma string_field_canon: "wf_json (JObj raw) \<Longrightarrow> string_field (canon_obj raw) k = string_field raw k"
  by (cases "jget raw k") (simp_all add: string_field_def jget_wf_canon del: wf_json_JObj)

lemma decode_answer_entry_canon:
  assumes "wf_json (JObj raw)"
  shows "decode_answer_entry aid (canon_obj raw) = decode_answer_entry aid raw"
  unfolding decode_answer_entry_def string_field_canon [OF assms] jget_wf_canon [OF assms] has_keys_canon canon_eq_JStr
    answer_codec.dec_canon [OF wf_jget [OF assms]] ..

lemma optional_identifier_canon [simp]: "optional_identifier (canon v) = optional_identifier v"
  by (cases v) (simp_all add: optional_identifier_def)

lemma decode_interaction_canon:
  assumes "wf_json (JObj raw)"
  shows "decode_interaction iid (canon_obj raw) = decode_interaction iid raw"
  using jget_wf_canon [OF assms]
  by (cases "jget raw ''kind''"; cases "jget raw ''occurred_at''"; cases "jget raw ''content''")
    (simp_all add: decode_interaction_def del: wf_json_JObj)

lemma domain_interaction_canon:
  assumes "wf_json (JObj interactions)"
  shows "domain_interaction sid (canon_obj interactions) iid = domain_interaction sid interactions iid"
proof (cases "jget interactions iid")
  case (JObj raw)
  then have "wf_json (JObj raw)" using wf_jget [OF assms, of iid] by (simp del: wf_json_JObj)
  then show ?thesis using JObj jget_wf_canon [OF assms, of iid]
    by (simp add: domain_interaction_def decode_interaction_canon jget_wf_canon canon_JObj del: wf_json_JObj canon.simps(6))
qed (use jget_wf_canon [OF assms, of iid] in \<open>simp_all add: domain_interaction_def\<close>)

lemma domain_interactions_canon:
  assumes "wf_json (JObj session)" and "wf_json (JObj interactions)"
  shows "domain_interactions sid (canon_obj session) (canon_obj interactions) = domain_interactions sid session interactions"
  unfolding domain_interactions_def jget_wf_canon [OF assms(1)] string_array_canon
  by (intro res_bind_cong map_res_cong refl) (rule domain_interaction_canon [OF assms(2)])

lemma session_answers_canon:
  assumes "wf_json (JObj answers)"
  shows "mset (session_answers sid (canon_obj answers)) = image_mset (map_prod id canon_obj) (mset (session_answers sid answers))"
proof -
  define f where "f = (\<lambda>(aid :: string, v). case v of JObj raw \<Rightarrow> if jget raw ''session_id'' = JStr sid then [(aid, raw)] else [] | _ \<Rightarrow> [])"
  have sa: "session_answers sid kvs = concat (map f kvs)" for kvs by (simp add: session_answers_def f_def)
  have f: "f (map_prod id canon kv) = map (map_prod id canon_obj) (f kv)" if "kv \<in> set answers" for kv
  proof -
    obtain k v where kv: "kv = (k, v)" by (cases kv)
    then have "wf_json v" using assms that by auto
    then show ?thesis using kv jget_wf_canon by (cases v) (auto simp: f_def canon_JObj simp del: wf_json_JObj canon.simps(6))
  qed
  have "mset (concat (map f (canon_obj answers))) = mset (concat (map f (map (map_prod id canon) answers)))"
    by (simp add: mset_concat canon_obj_def multiset.map_comp comp_assoc flip: sum_mset_sum_list)
  also have "\<dots> = mset (concat (map (map (map_prod id canon_obj) \<circ> f) answers))" using f by (simp add: comp_def cong: map_cong)
  finally show ?thesis by (simp add: sa map_concat comp_def flip: mset_map)
qed

lemma distinct_session_answers: "distinct (keys_of answers) \<Longrightarrow> distinct (keys_of (session_answers sid answers))"
proof (induction answers)
  case (Cons kv answers)
  have "fst ` set (session_answers sid answers) \<subseteq> fst ` set answers"
    by (force simp: session_answers_def split: json.splits if_splits)
  moreover have "session_answers sid (kv # answers) = session_answers sid answers \<or>
      (\<exists>raw. session_answers sid (kv # answers) = (fst kv, raw) # session_answers sid answers)"
    by (cases kv) (simp add: session_answers_def split: json.splits)
  ultimately show ?case using Cons by auto
qed (simp add: session_answers_def)

lemma session_answers_wf: "wf_json (JObj answers) \<Longrightarrow> (aid, raw) \<in> set (session_answers sid answers) \<Longrightarrow> wf_json (JObj raw)"
  by (fastforce simp: session_answers_def split: json.splits if_splits)

lemma map_res_keys:
  "map_res (\<lambda>(k, v). res_bind (f k v) (\<lambda>r. Inr (k, r))) kvs = Inr rs \<Longrightarrow> keys_of rs = keys_of kvs"
  by (induction kvs arbitrary: rs) (auto simp: res_bind_eq_Inr)

lemma domain_answers_canon:
  assumes wf: "wf_json (JObj answers)"
  shows "domain_answers sid (canon_obj answers) = domain_answers sid answers"
proof -
  let ?f = "\<lambda>(aid, raw). res_bind (decode_answer_entry aid raw) (\<lambda>r. Inr (aid, r))"
  have "(\<exists>us vs. map_res ?f (session_answers sid (canon_obj answers)) = Inr us \<and> map_res ?f (session_answers sid answers) = Inr vs \<and>
      mset us = mset vs) \<or>
    map_res ?f (session_answers sid (canon_obj answers)) = Inl ValueError \<and> map_res ?f (session_answers sid answers) = Inl ValueError"
  proof (rule map_res_mset [OF _ _ session_answers_canon [OF wf]])
    show "e = ValueError" if "?f x = Inl e" for x e
      using that value_error_answer_entry [of "fst x" "snd x"] by (cases x) (auto simp: res_bind_eq_Inl value_error_def)
    show "?f (map_prod id canon_obj x) = ?f x" if mem: "x \<in> set (session_answers sid answers)" for x
    proof -
      obtain aid raw where x: "x = (aid, raw)" by (cases x)
      then have "wf_json (JObj raw)" using session_answers_wf [OF wf] mem by blast
      then show ?thesis by (simp add: x decode_answer_entry_canon del: wf_json_JObj)
    qed
  qed
  then show ?thesis
  proof (elim disjE exE conjE)
    fix us vs
    assume r: "map_res ?f (session_answers sid (canon_obj answers)) = Inr us" "map_res ?f (session_answers sid answers) = Inr vs"
      and m: "mset us = mset vs"
    have "distinct (keys_of vs)" using map_res_keys [OF r(2)] distinct_session_answers [of answers] wf by simp
    moreover have "distinct (keys_of us)" using m calculation by (metis mset_eq_imp_distinct_iff mset_map)
    ultimately have "map_of us = map_of vs" using mset_eq_setD [OF m] by (simp add: map_of_inject_set)
    with r show ?thesis by (simp add: domain_answers_def)
  qed (simp add: domain_answers_def)
qed

lemma summary_advances_canon: "wf_json v \<Longrightarrow> summary_advances ordered (canon v) c = summary_advances ordered v c"
  using summary_codec.dec_canon [of v] by (cases v) (simp_all add: summary_advances_def)

lemma summary_step_ok: "step_ok (summary_step c) (summary_step c)"
proof (rule step_okI)
  fix sid and ms :: "session_parts \<times> json_object" assume wf: "wf_ms ms"
  obtain m s where ms: "ms = (m, s)" by (cases ms)
  have w: "wf_json (JObj s)" "wf_json (JObj (sm_interactions m))" "wf_json (JObj (sm_answers m))"
    using wf ms by (simp_all add: wf_ms_def wf_sparts_def)
  show "same_ms (summary_step c sid (canon_ms ms)) (summary_step c sid ms)"
    unfolding ms summary_step_def canon_ms_simps Let_def prod.case require_active_canon [OF w(1)] domain_interactions_canon [OF w(1,2)]
      domain_answers_canon [OF w(3)] jget_wf_canon [OF w(1)] summary_advances_canon [OF wf_jget [OF w(1)]]
    using w by (auto simp: canon_ms_def canon_sparts_def canon_update simp del: wf_json_JObj intro!: same_ms_bind)
qed (erule (1) steps_wf)+

section \<open>The registrations meet the contract of the store\<close>

lemma started_wf:
  assumes "wf_json (JObj s)" and "reduce_session_started s e sid = Inr s'"
  shows "wf_json (JObj s')"
  using assms session_maps_wf [OF assms(1)]
  by (auto simp: reduce_session_started_def res_bind_eq_Inr wf_sparts_def simp del: wf_json_JObj split: if_splits
      intro!: write_maps_wf wf_update wf_session_entries)

lemma started_same:
  assumes wf: "wf_json (JObj s)"
  shows "same_result (reduce_session_started (canon_obj s) (stored e) sid) (reduce_session_started s e sid)"
proof (cases "session_maps s")
  case (Inr m)
  have w: "wf_sparts m" by (rule session_maps_wf [OF wf Inr])
  have ent: "session_entry sid (stored e) now = session_entry sid e now" for now by (simp add: session_entry_def)
  have "same_state (write_maps (canon_obj s) (canon_sparts m\<lparr>sm_sessions := AList.update sid v (canon_obj (sm_sessions m))\<rparr>))
      (write_maps s (m\<lparr>sm_sessions := AList.update sid v (sm_sessions m)\<rparr>))" if "wf_json v" for v
    using w wf that
    by (intro write_maps_same) (simp_all add: wf_sparts_def canon_sparts_def wf_update canon_update del: wf_json_JObj)
  then show ?thesis using Inr
    by (cases "timestamp (ev_at e)")
      (simp_all add: reduce_session_started_def session_maps_canon [OF wf] canon_ms_simps ent wf_session_entries)
qed (simp add: reduce_session_started_def session_maps_canon [OF wf])

definition answer_full_step ::
  "json_object \<Rightarrow> domain_event \<Rightarrow> answer_record \<Rightarrow> string \<Rightarrow> session_parts \<times> json_object \<Rightarrow> (session_parts \<times> json_object) result" where
  "answer_full_step state e r sid ms =
     res_bind (require_active (snd ms)) (\<lambda>_. res_bind (assistant_turns state) (\<lambda>turns. answer_step turns e r sid ms))"

lemma reduce_answer_recorded_alt:
  "reduce_answer_recorded state e r = res_bind (open_session state e) (\<lambda>(m, sid, session).
     res_bind (answer_full_step state e r sid (m, session)) (close_session state e sid))"
  by (simp add: reduce_answer_recorded_def answer_full_step_def res_bind_assoc)

lemma answer_full_step_ok:
  assumes wf: "wf_json (JObj state)"
  shows "step_ok (answer_full_step (canon_obj state) (stored e) r) (answer_full_step state e r)"
proof (rule step_okI)
  fix sid and ms :: "session_parts \<times> json_object" assume ms: "wf_ms ms"
  have act: "require_active (snd (canon_ms ms)) = require_active (snd ms)"
    using ms by (simp add: canon_ms_def wf_ms_def require_active_canon del: wf_json_JObj)
  have "same_ms (answer_step (canon_obj turns) (stored e) r sid (canon_ms ms)) (answer_step turns e r sid ms)"
    if "assistant_turns state = Inr turns" for turns
    using answer_step_ok [OF assistant_turns_wf [OF wf that]] ms unfolding step_ok_def by blast
  then show "same_ms (answer_full_step (canon_obj state) (stored e) r sid (canon_ms ms)) (answer_full_step state e r sid ms)"
    unfolding answer_full_step_def act assistant_turns_canon [OF wf] res_bind_map_sum by (intro same_ms_bind) simp
qed (auto simp: answer_full_step_def res_bind_eq_Inr intro: steps_wf)

lemma turn_reducer_wf:
  assumes wf: "wf_json (JObj s)" and red: "reduce_assistant_turn_recorded s e t = Inr s'"
  shows "wf_json (JObj s')"
proof -
  obtain m sid session turns new state' where o: "open_session s e = Inr (m, sid, session)" "assistant_turns s = Inr turns"
    "turn_step t sid m turns = Inr new" "close_session s e sid (m, session) = Inr state'"
    "s' = AList.update ''session_assistant_turns'' (JObj new) state'"
    using red by (auto simp: reduce_assistant_turn_recorded_def res_bind_eq_Inr split: if_splits)
  have "wf_json (JObj new)" by (rule turn_step_wf [OF assistant_turns_wf [OF wf o(2)] o(3)])
  moreover have "wf_json (JObj state')" by (rule close_session_wf [OF wf open_session_wf [OF wf o(1)] o(4)])
  ultimately show ?thesis unfolding o(5) by (intro wf_update)
qed

lemma turn_reducer_same:
  assumes wf: "wf_json (JObj s)"
  shows "same_result (reduce_assistant_turn_recorded (canon_obj s) (stored e) t) (reduce_assistant_turn_recorded s e t)"
proof (cases "open_session s e")
  case (Inr x)
  obtain m sid session where x: "x = (m, sid, session)" by (cases x)
  have w: "wf_ms (m, session)" using open_session_wf [OF wf] Inr x by blast
  then have w': "wf_sparts m" "wf_json (JObj session)" by (simp_all add: wf_ms_def)
  let ?close = "\<lambda>new. res_bind (close_session s e sid (m, session)) (\<lambda>st. Inr (AList.update ''session_assistant_turns'' (JObj new) st))"
  let ?close' = "\<lambda>new. res_bind (close_session (canon_obj s) (stored e) sid (canon_sparts m, canon_obj session))
    (\<lambda>st. Inr (AList.update ''session_assistant_turns'' (JObj new) st))"
  have cl: "same_result (close_session (canon_obj s) (stored e) sid (canon_sparts m, canon_obj session)) (close_session s e sid (m, session))"
    using close_session_same [OF wf w, of "canon_ms (m, session)"] w
    by (simp add: canon_ms_def canon_sparts_def wf_ms_def wf_sparts_def del: wf_json_JObj)
  have wfc: "wf_json (JObj st)" if "close_session (canon_obj s) (stored e) sid (canon_sparts m, canon_obj session) = Inr st" for st
    using close_session_wf [OF _ _ that] wf w by (simp add: wf_ms_def wf_sparts_def canon_sparts_def del: wf_json_JObj)
  have wfs: "wf_json (JObj st)" if "close_session s e sid (m, session) = Inr st" for st by (rule close_session_wf [OF wf w that])
  have upd: "same_result (?close' new') (?close new)" if "canon_obj new' = canon_obj new" for new' new
    using cl that wfc wfs
    by (cases "close_session (canon_obj s) (stored e) sid (canon_sparts m, canon_obj session)"; cases "close_session s e sid (m, session)")
      (auto simp: canon_JObj simp del: wf_json_JObj canon.simps(6) intro!: same_state_update)
  have "same_result (res_bind (turn_step t sid (canon_sparts m) (canon_obj turns)) ?close') (res_bind (turn_step t sid m turns) ?close)"
    if "assistant_turns s = Inr turns" for turns
    using turn_step_same [OF w'(1) assistant_turns_wf [OF wf that], of t sid] upd
    by (cases "turn_step t sid (canon_sparts m) (canon_obj turns)"; cases "turn_step t sid m turns") auto
  then have "same_result (res_bind (assistant_turns s) (\<lambda>turns. res_bind (turn_step t sid (canon_sparts m) (canon_obj turns)) ?close'))
      (res_bind (assistant_turns s) (\<lambda>turns. res_bind (turn_step t sid m turns) ?close))"
    by (intro same_result_bind)
  then show ?thesis using Inr x
    unfolding reduce_assistant_turn_recorded_def open_session_canon [OF wf] assistant_turns_canon [OF wf] res_bind_map_sum
    by (auto simp: require_active_canon [OF w'(2)] intro!: same_result_bind)
qed (simp add: reduce_assistant_turn_recorded_def open_session_canon [OF wf])

lemma session_reducers_wf:
  assumes "wf_state s"
  shows "reduce_session_started s e sid = Inr s' \<Longrightarrow> wf_state s'" and "reduce_interaction_recorded s e p = Inr s' \<Longrightarrow> wf_state s'"
    and "reduce_answer_recorded s e r = Inr s' \<Longrightarrow> wf_state s'" and "reduce_assistant_turn_recorded s e t = Inr s' \<Longrightarrow> wf_state s'"
    and "reduce_summary_updated s e c = Inr s' \<Longrightarrow> wf_state s'" and "reduce_suspended s e u = Inr s' \<Longrightarrow> wf_state s'"
    and "reduce_resumed s e u = Inr s' \<Longrightarrow> wf_state s'" and "reduce_ended s e u = Inr s' \<Longrightarrow> wf_state s'"
proof -
  have wf: "wf_json (JObj s)" using assms by (simp add: wf_state_def)
  show "reduce_session_started s e sid = Inr s' \<Longrightarrow> wf_state s'"
    unfolding wf_state_def by (rule started_wf [OF wf])
  show "reduce_interaction_recorded s e p = Inr s' \<Longrightarrow> wf_state s'"
    unfolding wf_state_def reduce_interaction_recorded_def by (rule session_step_wf [OF wf interaction_step_ok])
  show "reduce_answer_recorded s e r = Inr s' \<Longrightarrow> wf_state s'"
    unfolding wf_state_def reduce_answer_recorded_alt by (rule session_step_wf [OF wf answer_full_step_ok [OF wf]])
  show "reduce_assistant_turn_recorded s e t = Inr s' \<Longrightarrow> wf_state s'"
    unfolding wf_state_def by (rule turn_reducer_wf [OF wf])
  show "reduce_summary_updated s e c = Inr s' \<Longrightarrow> wf_state s'"
    unfolding wf_state_def reduce_summary_updated_def by (rule session_step_wf [OF wf summary_step_ok])
  show "reduce_suspended s e u = Inr s' \<Longrightarrow> wf_state s'"
    unfolding wf_state_def reduce_suspended_def by (rule session_step_wf [OF wf transition_step_ok])
  show "reduce_resumed s e u = Inr s' \<Longrightarrow> wf_state s'"
    unfolding wf_state_def reduce_resumed_def by (rule session_step_wf [OF wf transition_step_ok])
  show "reduce_ended s e u = Inr s' \<Longrightarrow> wf_state s'"
    unfolding wf_state_def reduce_ended_def by (rule session_step_wf [OF wf transition_step_ok])
qed

lemma session_reducers_same:
  assumes "wf_state s"
  shows "same_result (reduce_session_started (canon_obj s) (stored e) sid) (reduce_session_started s e sid)"
    and "same_result (reduce_interaction_recorded (canon_obj s) (stored e) p) (reduce_interaction_recorded s e p)"
    and "same_result (reduce_answer_recorded (canon_obj s) (stored e) r) (reduce_answer_recorded s e r)"
    and "same_result (reduce_assistant_turn_recorded (canon_obj s) (stored e) t) (reduce_assistant_turn_recorded s e t)"
    and "same_result (reduce_summary_updated (canon_obj s) (stored e) c) (reduce_summary_updated s e c)"
    and "same_result (reduce_suspended (canon_obj s) (stored e) u) (reduce_suspended s e u)"
    and "same_result (reduce_resumed (canon_obj s) (stored e) u) (reduce_resumed s e u)"
    and "same_result (reduce_ended (canon_obj s) (stored e) u) (reduce_ended s e u)"
proof -
  have wf: "wf_json (JObj s)" using assms by (simp add: wf_state_def)
  show "same_result (reduce_session_started (canon_obj s) (stored e) sid) (reduce_session_started s e sid)"
    by (rule started_same [OF wf])
  show "same_result (reduce_interaction_recorded (canon_obj s) (stored e) p) (reduce_interaction_recorded s e p)"
    unfolding reduce_interaction_recorded_def by (rule session_step_same [OF wf interaction_step_ok])
  show "same_result (reduce_answer_recorded (canon_obj s) (stored e) r) (reduce_answer_recorded s e r)"
    unfolding reduce_answer_recorded_alt by (rule session_step_same [OF wf answer_full_step_ok [OF wf]])
  show "same_result (reduce_assistant_turn_recorded (canon_obj s) (stored e) t) (reduce_assistant_turn_recorded s e t)"
    by (rule turn_reducer_same [OF wf])
  show "same_result (reduce_summary_updated (canon_obj s) (stored e) c) (reduce_summary_updated s e c)"
    unfolding reduce_summary_updated_def by (rule session_step_same [OF wf summary_step_ok])
  show "same_result (reduce_suspended (canon_obj s) (stored e) u) (reduce_suspended s e u)"
    unfolding reduce_suspended_def by (rule session_step_same [OF wf transition_step_ok])
  show "same_result (reduce_resumed (canon_obj s) (stored e) u) (reduce_resumed s e u)"
    unfolding reduce_resumed_def by (rule session_step_same [OF wf transition_step_ok])
  show "same_result (reduce_ended (canon_obj s) (stored e) u) (reduce_ended s e u)"
    unfolding reduce_ended_def by (rule session_step_same [OF wf transition_step_ok])
qed

definition session_registration ::
  "(session_payload \<Rightarrow> 'p) \<Rightarrow> ('p \<Rightarrow> session_payload option) \<Rightarrow> ('a \<Rightarrow> session_payload) \<Rightarrow> (session_payload \<Rightarrow> 'a option) \<Rightarrow>
   (domain_event \<Rightarrow> 'a result) \<Rightarrow> (json_object \<Rightarrow> domain_event \<Rightarrow> 'a \<Rightarrow> json_object result) \<Rightarrow> 'p registration" where
  "session_registration wrap unwrap inj_payload proj_payload dec red =
     \<lparr>reg_decoder = erase_decoder (wrap \<circ> inj_payload) dec,
      reg_reducer = erase_reducer (\<lambda>p. Option.bind (unwrap p) proj_payload) red\<rparr>"

lemma session_registrationI:
  assumes "\<And>x. unwrap (wrap x) = Some x" and "\<And>y. proj_payload (inj_payload y) = Some y"
    and "\<And>e. wf_event e \<Longrightarrow> dec (stored e) = dec e"
    and "\<And>s e x s'. wf_state s \<Longrightarrow> red s e x = Inr s' \<Longrightarrow> wf_state s'"
    and "\<And>s e x. wf_state s \<Longrightarrow> same_result (red (canon_obj s) (stored e) x) (red s e x)"
  shows "registration_ok (session_registration wrap unwrap inj_payload proj_payload dec red)"
  unfolding session_registration_def using assms by (intro erased_registration_ok) auto

lemma session_registrations_ok:
  assumes "\<And>x. unwrap (wrap x) = Some x"
  shows "registration_ok (session_registration wrap unwrap Session_started started_of decode_session_started reduce_session_started)"
    and "registration_ok (session_registration wrap unwrap Interaction_recorded interaction_of decode_interaction_recorded reduce_interaction_recorded)"
    and "registration_ok (session_registration wrap unwrap Answer_recorded answer_of decode_answer_recorded reduce_answer_recorded)"
    and "registration_ok (session_registration wrap unwrap Assistant_turn turn_of decode_assistant_turn_recorded reduce_assistant_turn_recorded)"
    and "registration_ok (session_registration wrap unwrap Summary_updated summary_of decode_summary_updated reduce_summary_updated)"
    and "registration_ok (session_registration wrap unwrap to_lifecycle lifecycle_of (decode_lifecycle ty) reduce_suspended)"
    and "registration_ok (session_registration wrap unwrap to_lifecycle lifecycle_of (decode_lifecycle ty) reduce_resumed)"
    and "registration_ok (session_registration wrap unwrap to_lifecycle lifecycle_of (decode_lifecycle ty) reduce_ended)"
  by (rule session_registrationI, rule assms, simp add: to_lifecycle_def, erule session_decoders_stored,
      erule (1) session_reducers_wf, erule session_reducers_same)+

end
