(* ===== verification/Repository.thy ===== *)
theory Repository
  imports Study_Lifecycle Session_Contract
begin

text \<open>
  The registry the repository composes (\<^verbatim>\<open>src/src/study_agent/cli/repository.py\<close>) as far as its
  event families are modelled, and the interpretations of the library's locales on it: the event
  store's contract and the course contract hold for the composed registry, so the theorems of the
  store and of the course service hold of the program with its own decoders and reducers.
\<close>

section \<open>The composed registry\<close>

datatype payload = Payload_course course_profile | Payload_session session_payload | Payload_study study_payload

fun course_payload :: "payload \<Rightarrow> course_profile option" where
  "course_payload (Payload_course p) = Some p" | "course_payload _ = None"

fun session_payload_of :: "payload \<Rightarrow> session_payload option" where
  "session_payload_of (Payload_session p) = Some p" | "session_payload_of _ = None"

fun study_payload_of :: "payload \<Rightarrow> study_payload option" where
  "study_payload_of (Payload_study p) = Some p" | "study_payload_of _ = None"

definition compose_registry :: "payload registry result" where
  "compose_registry =
     res_bind (register_course_events Payload_course course_payload empty_registry) (\<lambda>reg.
     res_bind (register_session_events Payload_session session_payload_of reg) (\<lambda>reg.
       register_study_context_events Payload_study study_payload_of reg))"

definition repository_registry :: "payload registry" where
  "repository_registry = \<lparr>registrations =
     [((course_created_type, 1), \<lparr>reg_decoder = erase_decoder Payload_course decode_course_created,
        reg_reducer = erase_reducer course_payload reduce_course_created\<rparr>),
      ((session_started_type, 1), session_registration Payload_session session_payload_of Session_started started_of decode_session_started reduce_session_started),
      ((interaction_recorded_type, 1), session_registration Payload_session session_payload_of Interaction_recorded interaction_of decode_interaction_recorded reduce_interaction_recorded),
      ((answer_recorded_type, 1), session_registration Payload_session session_payload_of Answer_recorded answer_of decode_answer_recorded reduce_answer_recorded),
      ((assistant_turn_type, 1), session_registration Payload_session session_payload_of Assistant_turn turn_of decode_assistant_turn_recorded reduce_assistant_turn_recorded),
      ((summary_updated_type, 1), session_registration Payload_session session_payload_of Summary_updated summary_of decode_summary_updated reduce_summary_updated),
      ((session_suspended_type, 1), session_registration Payload_session session_payload_of to_lifecycle lifecycle_of (decode_lifecycle session_suspended_type) reduce_suspended),
      ((session_resumed_type, 1), session_registration Payload_session session_payload_of to_lifecycle lifecycle_of (decode_lifecycle session_resumed_type) reduce_resumed),
      ((session_ended_type, 1), session_registration Payload_session session_payload_of to_lifecycle lifecycle_of (decode_lifecycle session_ended_type) reduce_ended),
      ((statement_recorded_type, 1), \<lparr>reg_decoder = erase_decoder (Payload_study \<circ> Recorded) decode_statement_recorded,
        reg_reducer = erase_reducer (\<lambda>p. Option.bind (study_payload_of p) recorded_of) reduce_statement_recorded\<rparr>),
      ((statement_retracted_type, 1), \<lparr>reg_decoder = erase_decoder (Payload_study \<circ> Retracted) decode_statement_retracted,
        reg_reducer = erase_reducer (\<lambda>p. Option.bind (study_payload_of p) retracted_of) reduce_statement_retracted\<rparr>),
      ((conflict_resolved_type, 1), \<lparr>reg_decoder = erase_decoder (Payload_study \<circ> Resolved) decode_conflict_resolved,
        reg_reducer = erase_reducer (\<lambda>p. Option.bind (study_payload_of p) resolved_of) reduce_conflict_resolved\<rparr>)],
     migrations = []\<rparr>"

lemmas event_types = course_created_type_def statement_recorded_type_def statement_retracted_type_def conflict_resolved_type_def
  session_started_type_def interaction_recorded_type_def answer_recorded_type_def assistant_turn_type_def summary_updated_type_def
  session_suspended_type_def session_resumed_type_def session_ended_type_def

lemma session_type_text [simp]:
  "is_text session_started_type" "is_text interaction_recorded_type" "is_text answer_recorded_type" "is_text assistant_turn_type"
  "is_text summary_updated_type" "is_text session_suspended_type" "is_text session_resumed_type" "is_text session_ended_type"
  by (simp_all add: event_types text_eval)

lemma event_types_distinct:
  "distinct [conflict_resolved_type, statement_retracted_type, statement_recorded_type, session_ended_type, session_resumed_type,
     session_suspended_type, summary_updated_type, assistant_turn_type, answer_recorded_type, interaction_recorded_type,
     session_started_type, course_created_type]"
  by (simp add: event_types)

lemma register_event_fresh:
  "is_text ty \<Longrightarrow> ty \<notin> fst ` fst ` set (registrations reg) \<Longrightarrow>
   register_event ty 1 dec red reg = Inr (reg\<lparr>registrations := registrations reg @ [((ty, 1), \<lparr>reg_decoder = dec, reg_reducer = red\<rparr>)]\<rparr>)"
  by (force simp: register_event_def register_entry_def)

lemma compose_registry_ok: "compose_registry = Inr repository_registry"
  using event_types_distinct
  by (simp add: compose_registry_def register_course_events_def register_session_events_def register_study_context_events_def
      register_event_fresh empty_registry_def repository_registry_def session_registration_def course_type_text study_type_text)

lemma repository_registration_ok: "(k, r) \<in> set (registrations repository_registry) \<Longrightarrow> registration_ok r"
  using course_registration_ok [of course_payload Payload_course] study_registration_ok [of study_payload_of Payload_study]
    session_registrations_ok [of session_payload_of Payload_session]
  by (auto simp: repository_registry_def)

interpretation repo: projection_contract repository_registry wf_state
  by (rule projection_contractI) (auto simp: repository_registration_ok, simp add: repository_registry_def)

text \<open>The study-context reducers touch their own key only.\<close>

lemma map_of_replace_parts: "k \<noteq> ''study_context'' \<Longrightarrow> map_of (replace_parts s new) k = map_of s k"
  by (simp add: replace_parts_def map_of_update)

lemma study_reducers_frame:
  "k \<noteq> ''study_context'' \<Longrightarrow> reduce_statement_recorded s e r = Inr s' \<Longrightarrow> map_of s' k = map_of s k"
  "k \<noteq> ''study_context'' \<Longrightarrow> reduce_statement_retracted s e t = Inr s' \<Longrightarrow> map_of s' k = map_of s k"
  "k \<noteq> ''study_context'' \<Longrightarrow> reduce_conflict_resolved s e c = Inr s' \<Longrightarrow> map_of s' k = map_of s k"
  by (auto simp: reduce_statement_recorded_def reduce_statement_retracted_def reduce_conflict_resolved_def res_bind_eq_Inr
      map_of_replace_parts split: if_splits)

text \<open>What a successful reduction of the repository did, by event type.\<close>

inductive repository_step :: "json_object \<Rightarrow> domain_event \<Rightarrow> json_object \<Rightarrow> bool" where
  step_course_created: "ev_type e = course_created_type \<Longrightarrow> decode_course_created e = Inr x \<Longrightarrow> reduce_course_created s e x = Inr s' \<Longrightarrow> repository_step s e s'"
| step_session_started: "ev_type e = session_started_type \<Longrightarrow> decode_session_started e = Inr x \<Longrightarrow> reduce_session_started s e x = Inr s' \<Longrightarrow> repository_step s e s'"
| step_interaction: "ev_type e = interaction_recorded_type \<Longrightarrow> decode_interaction_recorded e = Inr x \<Longrightarrow> reduce_interaction_recorded s e x = Inr s' \<Longrightarrow> repository_step s e s'"
| step_answer: "ev_type e = answer_recorded_type \<Longrightarrow> decode_answer_recorded e = Inr x \<Longrightarrow> reduce_answer_recorded s e x = Inr s' \<Longrightarrow> repository_step s e s'"
| step_turn: "ev_type e = assistant_turn_type \<Longrightarrow> decode_assistant_turn_recorded e = Inr x \<Longrightarrow> reduce_assistant_turn_recorded s e x = Inr s' \<Longrightarrow> repository_step s e s'"
| step_summary: "ev_type e = summary_updated_type \<Longrightarrow> decode_summary_updated e = Inr x \<Longrightarrow> reduce_summary_updated s e x = Inr s' \<Longrightarrow> repository_step s e s'"
| step_suspended: "ev_type e = session_suspended_type \<Longrightarrow> decode_lifecycle session_suspended_type e = Inr x \<Longrightarrow> reduce_suspended s e x = Inr s' \<Longrightarrow> repository_step s e s'"
| step_resumed: "ev_type e = session_resumed_type \<Longrightarrow> decode_lifecycle session_resumed_type e = Inr x \<Longrightarrow> reduce_resumed s e x = Inr s' \<Longrightarrow> repository_step s e s'"
| step_ended: "ev_type e = session_ended_type \<Longrightarrow> decode_lifecycle session_ended_type e = Inr x \<Longrightarrow> reduce_ended s e x = Inr s' \<Longrightarrow> repository_step s e s'"
| step_recorded: "ev_type e = statement_recorded_type \<Longrightarrow> decode_statement_recorded e = Inr x \<Longrightarrow> reduce_statement_recorded s e x = Inr s' \<Longrightarrow> repository_step s e s'"
| step_retracted: "ev_type e = statement_retracted_type \<Longrightarrow> decode_statement_retracted e = Inr x \<Longrightarrow> reduce_statement_retracted s e x = Inr s' \<Longrightarrow> repository_step s e s'"
| step_resolved: "ev_type e = conflict_resolved_type \<Longrightarrow> decode_conflict_resolved e = Inr x \<Longrightarrow> reduce_conflict_resolved s e x = Inr s' \<Longrightarrow> repository_step s e s'"

lemma erased_reduce:
  "erase_decoder wrap dec e = Inr x \<Longrightarrow> erase_reducer unwrap red s e x = Inr s' \<Longrightarrow> (\<And>y. unwrap (wrap y) = Some y) \<Longrightarrow>
   \<exists>y. dec e = Inr y \<and> red s e y = Inr s'"
  by (auto simp: erase_decoder_def erase_reducer_def res_bind_eq_Inr)

lemma repository_registration_step:
  assumes "((ev_type e, ev_version e), r) \<in> set (registrations repository_registry)"
    and "reg_decoder r e = Inr x" and "reg_reducer r s e x = Inr s'"
  shows "ev_version e = 1 \<and> repository_step s e s'"
  using assms
  by (auto simp: repository_registry_def session_registration_def to_lifecycle_def dest!: erased_reduce intro: repository_step.intros)

lemma repository_reduce:
  assumes "reduce repository_registry s e = Inr s'"
  shows "ev_version e = 1 \<and> repository_step s e s'"
proof -
  obtain r x where "registration_of repository_registry e = Inr r" "reg_decoder r e = Inr x" "reg_reducer r s e x = Inr s'"
    using assms by (auto simp: reduce_def decode_def reduce_decoded_def res_bind_eq_Inr map_error_eq_Inr)
  then show ?thesis
    by (intro repository_registration_step) (auto simp: registration_of_def split: option.splits dest: map_of_SomeD)
qed

text \<open>Each family of reducers touches its own keys only.\<close>

lemma session_reducers_frame:
  assumes "k \<notin> {''sessions'', ''session_interactions'', ''session_answers'', ''session_assistant_turns''}"
  shows "reduce_session_started s e sid = Inr s' \<Longrightarrow> map_of s' k = map_of s k"
    "reduce_interaction_recorded s e p = Inr s' \<Longrightarrow> map_of s' k = map_of s k"
    "reduce_answer_recorded s e r = Inr s' \<Longrightarrow> map_of s' k = map_of s k"
    "reduce_assistant_turn_recorded s e t = Inr s' \<Longrightarrow> map_of s' k = map_of s k"
    "reduce_summary_updated s e c = Inr s' \<Longrightarrow> map_of s' k = map_of s k"
    "reduce_suspended s e u = Inr s' \<Longrightarrow> map_of s' k = map_of s k"
    "reduce_resumed s e u = Inr s' \<Longrightarrow> map_of s' k = map_of s k"
    "reduce_ended s e u = Inr s' \<Longrightarrow> map_of s' k = map_of s k"
proof -
  have w: "map_of (write_maps s m) k = map_of s k" for m using assms by (simp add: write_maps_def map_of_update)
  then have "map_of s' k = map_of s k" if "close_session s e sid ms = Inr s'" for sid ms s'
    using that by (auto simp: close_session_def res_bind_eq_Inr split: prod.splits)
  note facts = this w assms
  show "reduce_session_started s e sid = Inr s' \<Longrightarrow> map_of s' k = map_of s k"
    using facts by (auto simp: reduce_session_started_def res_bind_eq_Inr split: if_splits)
  show "reduce_assistant_turn_recorded s e t = Inr s' \<Longrightarrow> map_of s' k = map_of s k"
    using facts by (auto simp: reduce_assistant_turn_recorded_def res_bind_eq_Inr map_of_update split: if_splits)
  show "reduce_interaction_recorded s e p = Inr s' \<Longrightarrow> map_of s' k = map_of s k"
    "reduce_answer_recorded s e r = Inr s' \<Longrightarrow> map_of s' k = map_of s k"
    "reduce_summary_updated s e c = Inr s' \<Longrightarrow> map_of s' k = map_of s k"
    "reduce_suspended s e u = Inr s' \<Longrightarrow> map_of s' k = map_of s k"
    "reduce_resumed s e u = Inr s' \<Longrightarrow> map_of s' k = map_of s k"
    "reduce_ended s e u = Inr s' \<Longrightarrow> map_of s' k = map_of s k"
    using facts(1)
    by (auto simp: reduce_interaction_recorded_def reduce_answer_recorded_def reduce_summary_updated_def reduce_suspended_def
        reduce_resumed_def reduce_ended_def res_bind_eq_Inr)
qed

interpretation repo_courses: course_registry repository_registry wf_state Payload_course course_payload
proof unfold_locales
  show "course_payload (Payload_course p) = Some p" for p by simp
  show "registration_of repository_registry e = Inr \<lparr>reg_decoder = erase_decoder Payload_course decode_course_created,
      reg_reducer = erase_reducer course_payload reduce_course_created\<rparr>"
    if "ev_type e = course_created_type" "ev_version e = 1" for e
    using that by (simp add: registration_of_def repository_registry_def)
  show "map_of s' ''course'' = map_of s ''course''"
    if "\<not> (ev_type e = course_created_type \<and> ev_version e = 1)" "reduce repository_registry s e = Inr s'" for s e s'
  proof -
    have step: "repository_step s e s'" "ev_type e \<noteq> course_created_type" using repository_reduce [OF that(2)] that(1) by auto
    then show ?thesis
      by (cases rule: repository_step.cases) (auto elim: study_reducers_frame [rotated] session_reducers_frame [rotated])
  qed
qed

end
