(* ===== verification/Session_Lifecycle.thy ===== *)
theory Session_Lifecycle
  imports Repository "HOL-Library.Sublist"
begin

text \<open>
  The session component abstractly: a session has a status, its interactions and its runs, and moves as the
  lifecycle allows. The reducers of \<^verbatim>\<open>src/src/study_agent/sessions/projection.py\<close> refine it, within the registry
  of the whole repository, so the histories of sessions only grow and ended sessions never change.
\<close>

section \<open>The abstract session\<close>

record session_state =
  ss_status :: session_status
  ss_interactions :: "string list"
  ss_runs :: "string list"

text \<open>What a session may do next: the lifecycle, and speaking only while active.\<close>

inductive session_next :: "session_state \<Rightarrow> session_state \<Rightarrow> bool" where
  stay: "session_next a a"
| suspend: "ss_status a = Session_ACTIVE \<Longrightarrow> session_next a (a\<lparr>ss_status := Session_SUSPENDED\<rparr>)"
| resume: "ss_status a = Session_SUSPENDED \<Longrightarrow> session_next a (a\<lparr>ss_status := Session_ACTIVE\<rparr>)"
| finish: "ss_status a \<noteq> Session_ENDED \<Longrightarrow> session_next a (a\<lparr>ss_status := Session_ENDED\<rparr>)"
| speak: "ss_status a = Session_ACTIVE \<Longrightarrow> i \<notin> set (ss_interactions a) \<Longrightarrow>
    session_next a (a\<lparr>ss_interactions := ss_interactions a @ [i]\<rparr>)"
| answer: "ss_status a = Session_ACTIVE \<Longrightarrow> r \<notin> set (ss_runs a) \<Longrightarrow>
    session_next a (a\<lparr>ss_interactions := ss_interactions a @ [i], ss_runs := ss_runs a @ [r]\<rparr>)"

inductive_cases session_nextE: "session_next a b"

definition session_state_of :: "json \<Rightarrow> session_state option" where
  "session_state_of v =
     (case v of
        JObj raw \<Rightarrow>
          (case (jget raw ''status'', string_array (jget raw ''interaction_ids''), string_array (jget raw ''run_ids'')) of
             (JStr st, Inr ids, Inr runs) \<Rightarrow>
               (case session_status_of st of
                  Inr status \<Rightarrow> Some \<lparr>ss_status = status, ss_interactions = ids, ss_runs = runs\<rparr>
                | _ \<Rightarrow> None)
           | _ \<Rightarrow> None)
      | _ \<Rightarrow> None)"

definition sessions_of :: "json_object \<Rightarrow> string \<Rightarrow> session_state option" where
  "sessions_of s sid =
     (case get_default s ''sessions'' (JObj []) of JObj ss \<Rightarrow> session_state_of (jget ss sid) | _ \<Rightarrow> None)"

lemma session_status_read: "session_status_of s = Inr st \<longleftrightarrow> s = session_status_value st"
proof
  show "session_status_of s = Inr st \<Longrightarrow> s = session_status_value st"
    unfolding session_status_of_def by (auto dest: enum_of_Inr)
  show "s = session_status_value st \<Longrightarrow> session_status_of s = Inr st"
    unfolding session_status_of_def by (cases st) (simp_all add: enum_of_def)
qed

lemma session_status_of_value [simp]: "session_status_of (session_status_value st) = Inr st"
  by (simp add: session_status_read)

lemma session_status_active [simp]: "session_status_value a = ''active'' \<longleftrightarrow> a = Session_ACTIVE"
  by (cases a) simp_all

lemma session_status_value_inj [simp]: "session_status_value a = session_status_value b \<longleftrightarrow> a = b"
  by (cases a; cases b) simp_all

lemma session_state_Some:
  "session_state_of v = Some a \<longleftrightarrow> (\<exists>raw. v = JObj raw \<and> jget raw ''status'' = JStr (session_status_value (ss_status a)) \<and>
     string_array (jget raw ''interaction_ids'') = Inr (ss_interactions a) \<and> string_array (jget raw ''run_ids'') = Inr (ss_runs a))"
  by (cases a) (auto simp: session_state_of_def session_status_read split: json.splits sum.splits)

lemma string_array_items: "string_array (text_items xs) = Inr xs"
  by (induction xs) (auto simp: string_array_def text_items_def array_value_def)

lemma get_default_update: "get_default (AList.update k v s) j d = (if j = k then v else get_default s j d)"
  by (simp add: get_default_def map_of_update)

lemma sessions_of_write: "sessions_of (write_maps s m) j = session_state_of (jget (sm_sessions m) j)"
  by (simp add: sessions_of_def write_maps_def get_default_update)

lemma sessions_of_maps: "session_maps s = Inr m \<Longrightarrow> sessions_of s j = session_state_of (jget (sm_sessions m) j)"
  by (auto simp: session_maps_def sessions_of_def res_bind_eq_Inr mapping_value_Inr)

lemma sessions_of_open:
  "open_session s e = Inr (m, sid, raw) \<Longrightarrow> sessions_of s j = session_state_of (jget (sm_sessions m) j) \<and> jget (sm_sessions m) sid = JObj raw"
  by (auto simp: open_session_def res_bind_eq_Inr sessions_of_maps dest!: find_session_Inr)

lemma sessions_of_close:
  assumes "close_session s e sid (m, raw) = Inr s'"
  shows "sessions_of s' j = (if j = sid then session_state_of (JObj raw) else session_state_of (jget (sm_sessions m) j))"
  using assms
  by (auto simp: close_session_def res_bind_eq_Inr sessions_of_write jget_update session_state_of_def)

text \<open>The steps on an open session refine the abstract session and leave the others alone.\<close>

lemma steps_sessions:
  shows "interaction_step e p sid (m, raw) = Inr (m', raw') \<Longrightarrow> sm_sessions m' = sm_sessions m"
    and "answer_step turns e r sid (m, raw) = Inr (m', raw') \<Longrightarrow> sm_sessions m' = sm_sessions m"
    and "summary_step c sid (m, raw) = Inr (m', raw') \<Longrightarrow> sm_sessions m' = sm_sessions m"
    and "transition_step e allowed target stamp (m, raw) = Inr (m', raw') \<Longrightarrow> sm_sessions m' = sm_sessions m"
  by (auto simp: interaction_step_def answer_step_def summary_step_def transition_step_def res_bind_eq_Inr split: if_splits)

lemma interaction_step_next:
  assumes "interaction_step e p sid (m, raw) = Inr (m', raw')" and "session_state_of (JObj raw) = Some a"
  shows "\<exists>b. session_state_of (JObj raw') = Some b \<and> session_next a b"
proof -
  have a: "jget raw ''status'' = JStr (session_status_value (ss_status a))"
    "string_array (jget raw ''interaction_ids'') = Inr (ss_interactions a)" "string_array (jget raw ''run_ids'') = Inr (ss_runs a)"
    using assms(2) by (auto simp: session_state_Some)
  have "ss_status a = Session_ACTIVE" "ir_id p \<notin> set (ss_interactions a)"
    "raw' = AList.update ''interaction_ids'' (text_items (ss_interactions a @ [ir_id p])) raw"
    using assms(1) a by (auto simp: interaction_step_def require_active_def require_def res_bind_eq_Inr split: if_splits)
  then show ?thesis using a
    by (intro exI [of _ "a\<lparr>ss_interactions := ss_interactions a @ [ir_id p]\<rparr>"])
      (simp add: session_state_Some jget_update string_array_items session_next.speak)
qed

lemma answer_step_next:
  assumes "require_active raw = Inr u" and "answer_step turns e r sid (m, raw) = Inr (m', raw')" and "session_state_of (JObj raw) = Some a"
  shows "\<exists>b. session_state_of (JObj raw') = Some b \<and> session_next a b"
proof -
  have a: "jget raw ''status'' = JStr (session_status_value (ss_status a))"
    "string_array (jget raw ''interaction_ids'') = Inr (ss_interactions a)" "string_array (jget raw ''run_ids'') = Inr (ss_runs a)"
    using assms(3) by (auto simp: session_state_Some)
  have "ss_status a = Session_ACTIVE" using assms(1) a by (auto simp: require_active_def require_def split: if_splits)
  moreover have "ar_run r \<notin> set (ss_runs a)" "raw' = AList.update ''run_ids'' (text_items (ss_runs a @ [ar_run r]))
      (AList.update ''interaction_ids'' (text_items (ss_interactions a @ [ar_interaction r])) raw)"
    using assms(2) a by (auto simp: answer_step_def res_bind_eq_Inr split: if_splits)
  ultimately show ?thesis using a
    by (intro exI [of _ "a\<lparr>ss_interactions := ss_interactions a @ [ar_interaction r], ss_runs := ss_runs a @ [ar_run r]\<rparr>"])
      (simp add: session_state_Some jget_update string_array_items session_next.answer)
qed

lemma summary_step_next:
  assumes "summary_step c sid (m, raw) = Inr (m', raw')" and "session_state_of (JObj raw) = Some a"
  shows "\<exists>b. session_state_of (JObj raw') = Some b \<and> session_next a b"
proof -
  have "raw' = AList.update ''continuation_summary'' (summary_json c) raw"
    using assms(1) by (auto simp: summary_step_def res_bind_eq_Inr)
  then have "session_state_of (JObj raw') = Some a" using assms(2) by (auto simp: session_state_Some jget_update)
  then show ?thesis using session_next.stay by blast
qed

lemma transition_step_next:
  assumes "transition_step e allowed target stamp (m, raw) = Inr (m', raw')" and "session_state_of (JObj raw) = Some a"
    and "stamp \<notin> {''status'', ''interaction_ids'', ''run_ids''}"
  shows "session_state_of (JObj raw') = Some (a\<lparr>ss_status := target\<rparr>)" and "ss_status a \<in> set allowed"
proof -
  have a: "jget raw ''status'' = JStr (session_status_value (ss_status a))"
    "string_array (jget raw ''interaction_ids'') = Inr (ss_interactions a)" "string_array (jget raw ''run_ids'') = Inr (ss_runs a)"
    using assms(2) by (auto simp: session_state_Some)
  then obtain now where raw': "raw' = AList.update stamp (JStr now) (AList.update ''status'' (JStr (session_status_value target)) raw)"
    and mem: "ss_status a \<in> set allowed"
    using assms(1) by (auto simp: transition_step_def res_bind_eq_Inr split: if_splits)
  show "session_state_of (JObj raw') = Some (a\<lparr>ss_status := target\<rparr>)"
    using a assms(3) unfolding raw' by (auto simp: session_state_Some jget_update)
  show "ss_status a \<in> set allowed" by (rule mem)
qed

lemma reducer_next:
  assumes "open_session s e = Inr (m, sid, raw)" and "close_session s e sid (m', raw') = Inr s'" and "sm_sessions m' = sm_sessions m"
    and "\<And>a. session_state_of (JObj raw) = Some a \<Longrightarrow> \<exists>b. session_state_of (JObj raw') = Some b \<and> session_next a b"
    and "sessions_of s j = Some a"
  shows "\<exists>b. sessions_of s' j = Some b \<and> session_next a b"
  using assms(3-5) sessions_of_open [OF assms(1), of j] sessions_of_close [OF assms(2), of j] session_next.stay
  by (auto split: if_splits)

lemma session_reducers_next:
  assumes "sessions_of s j = Some a"
  shows "reduce_interaction_recorded s e p = Inr s' \<Longrightarrow> \<exists>b. sessions_of s' j = Some b \<and> session_next a b"
    and "reduce_answer_recorded s e r = Inr s' \<Longrightarrow> \<exists>b. sessions_of s' j = Some b \<and> session_next a b"
    and "reduce_summary_updated s e c = Inr s' \<Longrightarrow> \<exists>b. sessions_of s' j = Some b \<and> session_next a b"
proof -
  show "reduce_interaction_recorded s e p = Inr s' \<Longrightarrow> \<exists>b. sessions_of s' j = Some b \<and> session_next a b"
    using assms reducer_next [OF _ _ steps_sessions(1) interaction_step_next]
    by (fastforce simp: reduce_interaction_recorded_def res_bind_eq_Inr)
  show "reduce_answer_recorded s e r = Inr s' \<Longrightarrow> \<exists>b. sessions_of s' j = Some b \<and> session_next a b"
    using assms reducer_next [OF _ _ steps_sessions(2) answer_step_next]
    by (fastforce simp: reduce_answer_recorded_def res_bind_eq_Inr)
  show "reduce_summary_updated s e c = Inr s' \<Longrightarrow> \<exists>b. sessions_of s' j = Some b \<and> session_next a b"
    using assms reducer_next [OF _ _ steps_sessions(3) summary_step_next]
    by (fastforce simp: reduce_summary_updated_def res_bind_eq_Inr)
qed

lemma transition_next:
  assumes red: "res_bind (open_session s e) (\<lambda>(m, sid, session).
      res_bind (transition_step e allowed target stamp (m, session)) (close_session s e sid)) = Inr s'"
    and stamp: "stamp \<notin> {''status'', ''interaction_ids'', ''run_ids''}"
    and move: "\<And>a. ss_status a \<in> set allowed \<Longrightarrow> session_next a (a\<lparr>ss_status := target\<rparr>)"
    and st: "sessions_of s j = Some a"
  shows "\<exists>b. sessions_of s' j = Some b \<and> session_next a b"
proof -
  obtain m sid raw m' raw' where o: "open_session s e = Inr (m, sid, raw)"
    "transition_step e allowed target stamp (m, raw) = Inr (m', raw')" "close_session s e sid (m', raw') = Inr s'"
    using red by (auto simp: res_bind_eq_Inr)
  show ?thesis
    by (rule reducer_next [OF o(1,3) steps_sessions(4) [OF o(2)] _ st])
      (use transition_step_next [OF o(2) _ stamp] move in blast)
qed

lemma started_next:
  assumes "reduce_session_started s e sid = Inr s'"
  shows "sessions_of s j = Some a \<Longrightarrow> sessions_of s' j = Some a"
    and "sessions_of s' sid = Some \<lparr>ss_status = Session_ACTIVE, ss_interactions = [], ss_runs = []\<rparr>"
proof -
  obtain m now where m: "session_maps s = Inr m" "sid \<notin> set (keys_of (sm_sessions m))"
    "s' = write_maps s (m\<lparr>sm_sessions := AList.update sid (session_entry sid e now) (sm_sessions m)\<rparr>)"
    using assms by (auto simp: reduce_session_started_def res_bind_eq_Inr split: if_splits)
  have s': "sessions_of s' j = session_state_of (if j = sid then session_entry sid e now else jget (sm_sessions m) j)" for j
    unfolding m(3) by (simp add: sessions_of_write jget_update)
  have "jget (sm_sessions m) sid = JNull" using m(2) by (simp add: jget_def map_of_eq_None_iff [symmetric] split: option.splits)
  then show "sessions_of s j = Some a \<Longrightarrow> sessions_of s' j = Some a"
    using s' [of j] sessions_of_maps [OF m(1), of j] by (auto simp: session_state_of_def split: if_splits)
  show "sessions_of s' sid = Some \<lparr>ss_status = Session_ACTIVE, ss_interactions = [], ss_runs = []\<rparr>"
    using s' [of sid] by (simp add: session_entry_def session_state_Some jget_Cons string_array_def array_value_def)
qed

lemma turn_next:
  assumes "reduce_assistant_turn_recorded s e t = Inr s'" and "sessions_of s j = Some a"
  shows "sessions_of s' j = Some a"
proof -
  obtain m sid raw state' new where o: "open_session s e = Inr (m, sid, raw)" "close_session s e sid (m, raw) = Inr state'"
    "s' = AList.update ''session_assistant_turns'' new state'"
    using assms(1) by (auto simp: reduce_assistant_turn_recorded_def res_bind_eq_Inr split: if_splits)
  have "sessions_of s' j = sessions_of state' j" unfolding o(3) by (simp add: sessions_of_def get_default_update)
  then show ?thesis using sessions_of_open [OF o(1), of j] sessions_of_close [OF o(2), of j] assms(2) by (auto split: if_splits)
qed

lemma frame_next:
  "map_of s' ''sessions'' = map_of s ''sessions'' \<Longrightarrow> sessions_of s' j = sessions_of s j"
  by (simp add: sessions_of_def get_default_def)

lemma course_frame: "reduce_course_created s e p = Inr s' \<Longrightarrow> k \<noteq> ''course'' \<Longrightarrow> map_of s' k = map_of s k"
  by (auto simp: reduce_course_created_def map_of_update split: if_splits)

lemma repository_step_next:
  assumes "repository_step s e s'" and "sessions_of s j = Some a"
  shows "\<exists>b. sessions_of s' j = Some b \<and> session_next a b"
  using assms(1)
proof (cases rule: repository_step.cases)
  case (step_suspended x)
  then show ?thesis using assms(2) unfolding reduce_suspended_def
    by (intro transition_next [OF _ _ _ assms(2)]) (auto intro: session_next.suspend)
next
  case (step_resumed x)
  then show ?thesis using assms(2) unfolding reduce_resumed_def
    by (intro transition_next [OF _ _ _ assms(2)]) (auto intro: session_next.resume)
next
  case (step_ended x)
  then show ?thesis using assms(2) unfolding reduce_ended_def
    by (intro transition_next [OF _ _ _ assms(2)]) (auto intro: session_next.finish)
qed (use assms(2) session_reducers_next [OF assms(2)] started_next turn_next session_next.stay frame_next [of s' s j]
      course_frame [of s _ _ s' "''sessions''"] study_reducers_frame [of "''sessions''" s _ _ s'] in auto)

section \<open>Histories\<close>

lemma fold_next:
  assumes "fold_res (apply_event repository_registry) es p = Inr q" and "sessions_of (proj_state p) j = Some a"
  shows "\<exists>b. sessions_of (proj_state q) j = Some b \<and> session_next\<^sup>*\<^sup>* a b"
  using assms
proof (induction es arbitrary: p a)
  case (Cons e es)
  then obtain p' where p': "apply_event repository_registry e p = Inr p'" and rest: "fold_res (apply_event repository_registry) es p' = Inr q"
    by (auto simp: res_simps)
  have "repository_step (proj_state p) e (proj_state p')"
    using p' repository_reduce by (auto simp: apply_event_Inr)
  from repository_step_next [OF this Cons.prems(2)] obtain a' where a': "sessions_of (proj_state p') j = Some a'" "session_next a a'"
    by blast
  from Cons.IH [OF rest a'(1)] a'(2) show ?case by (auto intro: converse_rtranclp_into_rtranclp)
qed auto

lemma session_next_history:
  assumes "session_next\<^sup>*\<^sup>* a b"
  shows "prefix (ss_interactions a) (ss_interactions b)" and "prefix (ss_runs a) (ss_runs b)"
    and "ss_status a = Session_ENDED \<Longrightarrow> b = a"
  using assms
proof (induction rule: rtranclp_induct)
  case (step b c)
  { case 1 show ?case using step by (auto elim!: session_nextE intro: prefix_order.trans) }
  { case 2 show ?case using step by (auto elim!: session_nextE intro: prefix_order.trans) }
  { case 3 show ?case using step 3 by (auto elim!: session_nextE) }
qed auto

lemma session_next_runs_distinct:
  "session_next\<^sup>*\<^sup>* a b \<Longrightarrow> distinct (ss_runs a) \<Longrightarrow> distinct (ss_runs b)"
  by (induction rule: rtranclp_induct) (auto elim!: session_nextE)

section \<open>A session that is started and suspended\<close>

definition session_event :: "int \<Rightarrow> string \<Rightarrow> json_object \<Rightarrow> domain_event" where
  "session_event n ty p = \<lparr>ev_id = ''e'', ev_course = ''bio'', ev_seq = n, ev_type = ty, ev_version = 1,
     ev_actor = \<lparr>act_kind = HUMAN, act_principal = ''ann''\<rparr>, ev_at = example_time, ev_correlation = ''r1'', ev_payload = p,
     ev_session = Some ''s1'', ev_causation = None\<rparr>"

definition now_text :: string where "now_text = projr (timestamp example_time)"

lemma now_text: "timestamp example_time = Inr now_text" "parse_timestamp now_text = Inr example_time"
proof -
  obtain t where "timestamp example_time = Inr t"
    using timestamp_utc [of example_time] by (auto simp: example_time_def)
  then show t: "timestamp example_time = Inr now_text" by (simp add: now_text_def)
  have "astimezone_utc example_time = Inr example_time" by (simp add: astimezone_utc_def example_time_def)
  then show "parse_timestamp now_text = Inr example_time"
    using parse_timestamp_timestamp [OF example_time_valid t] by auto
qed

definition started_state :: json_object where
  "started_state = write_maps [] \<lparr>sm_sessions = [(''s1'', session_entry ''s1'' (session_event 1 session_started_type []) now_text)],
     sm_interactions = [], sm_answers = []\<rparr>"

abbreviation started_event :: domain_event where
  "started_event \<equiv> session_event 1 session_started_type [(''session_id'', JStr ''s1'')]"

abbreviation suspended_event :: domain_event where
  "suspended_event \<equiv> session_event 2 session_suspended_type []"

lemma started_reduces: "reduce repository_registry [] started_event = Inr started_state"
  by (simp add: reduce_def decode_def reduce_decoded_def registration_of_def repository_registry_def session_registration_def
      session_event_def erase_decoder_def erase_reducer_def decode_session_started_def session_envelope_def object_value_def
      text_value_def jget_def has_keys_def reduce_session_started_def session_maps_def mapping_value_def get_default_def
      now_text started_state_def session_entry_def event_types text_eval)

lemma suspended_reduces:
  "\<exists>s. reduce repository_registry started_state suspended_event = Inr s"
  by (simp add: reduce_def decode_def reduce_decoded_def registration_of_def repository_registry_def session_registration_def
      session_event_def erase_decoder_def erase_reducer_def decode_lifecycle_def session_envelope_def object_value_def
      text_value_def jget_def has_keys_def reduce_suspended_def session_maps_def mapping_value_def get_default_def
      to_lifecycle_def open_session_def find_session_def session_keys_def chronological_def transition_step_def close_session_def write_maps_def
      now_text started_state_def session_entry_def event_types text_eval)

lemma started_session:
  "sessions_of started_state ''s1'' = Some \<lparr>ss_status = Session_ACTIVE, ss_interactions = [], ss_runs = []\<rparr>"
  by (simp add: started_state_def sessions_of_write jget_Cons session_entry_def session_state_Some string_array_def array_value_def)

lemma started_replays:
  "replay repository_registry ''bio'' [started_event] = Inr \<lparr>proj_course = ''bio'', proj_seq = 1, proj_state = started_state\<rparr>"
  using started_reduces
  by (simp add: replay_def initial_projection_def res_bind_eq_Inr apply_event_Inr) (simp add: session_event_def)

lemma suspended_replays: "\<exists>q. replay repository_registry ''bio'' ([started_event] @ [suspended_event]) = Inr q"
proof -
  obtain s where "reduce repository_registry started_state suspended_event = Inr s" using suspended_reduces by blast
  then have "apply_event repository_registry suspended_event \<lparr>proj_course = ''bio'', proj_seq = 1, proj_state = started_state\<rparr> =
      Inr \<lparr>proj_course = ''bio'', proj_seq = 2, proj_state = s\<rparr>"
    by (simp add: apply_event_Inr) (simp add: session_event_def)
  then show ?thesis by (simp only: replay_snoc started_replays) simp
qed

section \<open>Properties\<close>

text \<open>C5. Reduction refines the session lifecycle: whatever event of the repository is reduced, a session that is
  readable before stays readable, and it makes a move of the abstract session: active to suspended, suspended
  to active, either to ended, a new interaction or a new run only while active, or none.\<close>

theorem session_step_refines:
  assumes "reduce repository_registry s e = Inr s'" and "sessions_of s sid = Some a"
  shows "\<exists>b. sessions_of s' sid = Some b \<and> session_next a b"
  using repository_reduce [OF assms(1)] assms(2) repository_step_next by blast

theorem session_step_refines_witness:
  "\<exists>s b. reduce repository_registry started_state suspended_event = Inr s \<and> sessions_of s ''s1'' = Some b \<and>
     session_next \<lparr>ss_status = Session_ACTIVE, ss_interactions = [], ss_runs = []\<rparr> b"
  using suspended_reduces session_step_refines [OF _ started_session] by blast

text \<open>C6. The history of a session only grows: replaying more events of the course keeps every session, extends
  its interactions and its runs at the end, never runs one twice, and changes nothing once the session has ended.\<close>

theorem session_history_grows:
  assumes "replay repository_registry c es = Inr p" and "replay repository_registry c (es @ ds) = Inr q"
    and "sessions_of (proj_state p) sid = Some a"
  shows "\<exists>b. sessions_of (proj_state q) sid = Some b \<and> prefix (ss_interactions a) (ss_interactions b) \<and>
    prefix (ss_runs a) (ss_runs b) \<and> (distinct (ss_runs a) \<longrightarrow> distinct (ss_runs b)) \<and>
    (ss_status a = Session_ENDED \<longrightarrow> b = a)"
proof -
  have "fold_res (apply_event repository_registry) ds p = Inr q"
    using assms(2) by (simp add: replay_snoc assms(1))
  from fold_next [OF this assms(3)] show ?thesis
    using session_next_history session_next_runs_distinct by metis
qed

theorem session_history_grows_witness:
  "\<exists>q b. replay repository_registry ''bio'' ([started_event] @ [suspended_event]) = Inr q \<and>
     sessions_of (proj_state q) ''s1'' = Some b"
  using suspended_replays session_history_grows [OF started_replays] started_session by fastforce
end
