(* ===== verification/Session_View.thy ===== *)
theory Session_View
  imports Session_Lifecycle "HOL-Library.Product_Lexorder"
begin

text \<open>
  The session reader: \<^verbatim>\<open>src/src/study_agent/sessions/view.py\<close> and the record \<^verbatim>\<open>StudySessionRecord\<close> of
  \<^verbatim>\<open>src/src/study_agent/domain/session.py\<close>. The pure part decodes the state of a projection; the queries
  load the projection of the course from the store, twice where the source does.
\<close>

section \<open>Session records\<close>

record session_record =
  se_id :: string
  se_course :: string
  se_status :: session_status
  se_started :: datetime
  se_suspended :: "datetime option"
  se_resumed :: "datetime option"
  se_ended :: "datetime option"
  se_interactions :: "string list"
  se_runs :: "string list"
  se_summary :: "continuation_summary option"

definition before :: "datetime option \<Rightarrow> datetime option \<Rightarrow> bool" where
  "before a b = (case (a, b) of (Some x, Some y) \<Rightarrow> instant x < instant y | _ \<Rightarrow> False)"

definition mk_session_record :: "session_record \<Rightarrow> session_record result" where
  "mk_session_record r =
     (if before (se_suspended r) (Some (se_started r)) \<or> before (se_resumed r) (Some (se_started r)) \<or>
         before (se_ended r) (Some (se_started r)) then Inl ValueError
      else if se_ended r \<noteq> None \<and> se_status r \<noteq> Session_ENDED then Inl ValueError
      else if se_ended r = None \<and> se_status r = Session_ENDED then Inl ValueError
      else if se_status r = Session_SUSPENDED \<and> se_suspended r = None then Inl ValueError
      else if se_status r = Session_ACTIVE \<and> before (se_resumed r) (se_suspended r) then Inl ValueError
      else if before (se_ended r) (se_suspended r) \<or> before (se_ended r) (se_resumed r) then Inl ValueError
      else if \<not> distinct (se_interactions r) then Inl ValueError
      else if \<not> distinct (se_runs r) then Inl ValueError
      else
        (case se_summary r of
           None \<Rightarrow> Inr r
         | Some c \<Rightarrow>
             if cs_through c \<notin> set (se_interactions r) then Inl ValueError
             else if cs_count c \<noteq> int (length (se_interactions r)) then Inl ValueError
             else Inr r))"

section \<open>Decoding the projected state\<close>

definition view_stamp :: "json \<Rightarrow> datetime option result" where
  "view_stamp v =
     (case v of
        JNull \<Rightarrow> Inr None
      | JStr s \<Rightarrow> res_bind (map_error (\<lambda>_. ValueError) (parse_timestamp s)) (\<lambda>t. Inr (Some t))
      | _ \<Rightarrow> Inl ValueError)"

definition required_stamp :: "json \<Rightarrow> datetime result" where
  "required_stamp v = res_bind (view_stamp v) (\<lambda>t. case t of None \<Rightarrow> Inl ValueError | Some u \<Rightarrow> Inr u)"

definition view_summary :: "json \<Rightarrow> continuation_summary option result" where
  "view_summary v = (if v = JNull then Inr None else res_bind (decode_summary v) (\<lambda>c. Inr (Some c)))"

definition decode_session :: "string \<Rightarrow> string \<Rightarrow> json \<Rightarrow> session_record result" where
  "decode_session c sid v =
     (case v of
        JObj raw \<Rightarrow>
          if jget raw ''course_id'' \<noteq> JStr c \<or> jget raw ''session_id'' \<noteq> JStr sid then Inl ValueError
          else if \<not> has_keys raw session_keys then Inl ValueError
          else
            res_bind (string_array (jget raw ''interaction_ids'')) (\<lambda>interaction_ids.
            res_bind (string_array (jget raw ''run_ids'')) (\<lambda>run_ids.
            res_bind (view_summary (jget raw ''continuation_summary'')) (\<lambda>summary.
            res_bind (res_bind (view_text (jget raw ''status'')) session_status_of) (\<lambda>status.
            res_bind (required_stamp (jget raw ''started_at'')) (\<lambda>started.
            res_bind (view_stamp (jget raw ''suspended_at'')) (\<lambda>suspended.
            res_bind (view_stamp (jget raw ''resumed_at'')) (\<lambda>resumed.
            res_bind (view_stamp (jget raw ''ended_at'')) (\<lambda>ended.
            res_bind (map_res mk_identifier interaction_ids) (\<lambda>ids.
            res_bind (map_res mk_identifier run_ids) (\<lambda>runs.
              mk_session_record \<lparr>se_id = sid, se_course = c, se_status = status, se_started = started,
                se_suspended = suspended, se_resumed = resumed, se_ended = ended, se_interactions = ids, se_runs = runs,
                se_summary = summary\<rparr>))))))))))
      | _ \<Rightarrow> Inl (SessionNotFoundError c sid))"

fun is_object :: "json \<Rightarrow> bool" where
  "is_object (JObj _) = True" | "is_object _ = False"

definition session_in :: "string \<Rightarrow> string \<Rightarrow> json_object \<Rightarrow> session_record result" where
  "session_in c sid state =
     res_bind (mapping_value (get_default state ''sessions'' (JObj []))) (\<lambda>sessions. decode_session c sid (jget sessions sid))"

definition sessions_in :: "string \<Rightarrow> json_object \<Rightarrow> session_record list result" where
  "sessions_in c state =
     res_bind (mapping_value (get_default state ''sessions'' (JObj []))) (\<lambda>sessions.
     res_bind (map_res (\<lambda>(sid, raw).
         if sid = [] \<or> \<not> is_object raw then Inl ValueError
         else res_bind (mk_identifier sid) (\<lambda>i. decode_session c i raw)) sessions) (\<lambda>result.
       Inr (sort_key (\<lambda>r. (instant (se_started r), se_id r)) result)))"

definition interactions_in :: "string \<Rightarrow> string list \<Rightarrow> json_object \<Rightarrow> interaction_record list result" where
  "interactions_in sid ids state =
     res_bind (mapping_value (get_default state ''session_interactions'' (JObj []))) (\<lambda>interactions.
       map_res (domain_interaction sid interactions) ids)"

definition run_position :: "string list \<Rightarrow> string \<Rightarrow> nat" where
  "run_position runs run = length (takeWhile (\<lambda>r. r \<noteq> run) runs)"

definition answers_in :: "string \<Rightarrow> string list \<Rightarrow> json_object \<Rightarrow> answer_record list result" where
  "answers_in sid runs state =
     res_bind (mapping_value (get_default state ''session_answers'' (JObj []))) (\<lambda>answers.
       if \<not> list_all (is_object \<circ> snd) answers then Inl ValueError
       else
         res_bind (map_res (\<lambda>(aid, raw). decode_answer_entry aid raw) (session_answers sid answers)) (\<lambda>result.
           if length result \<noteq> length runs then Inl ValueError
           else if \<not> list_all (\<lambda>a. ar_run a \<in> set runs) result then Inl KeyError
           else Inr (sort_key (\<lambda>a. run_position runs (ar_run a)) result)))"

definition answer_in :: "string \<Rightarrow> string \<Rightarrow> json_object \<Rightarrow> answer_record result" where
  "answer_in sid aid state =
     res_bind (mapping_value (get_default state ''session_answers'' (JObj []))) (\<lambda>answers.
       (case jget answers aid of
          JObj raw \<Rightarrow>
            if jget raw ''session_id'' \<noteq> JStr sid then Inl (AnswerNotFoundError sid aid) else decode_answer_entry aid raw
        | _ \<Rightarrow> Inl (AnswerNotFoundError sid aid)))"

section \<open>Queries\<close>

definition view_projection :: "'p registry \<Rightarrow> (nat \<Rightarrow> database \<Rightarrow> database) \<Rightarrow> string \<Rightarrow> json_object command" where
  "view_projection reg env c =
     cmd_bind (load_course reg env c) (\<lambda>p.
       cmd_lift (if proj_course p \<noteq> c then Inl ValueError else Inr (proj_state p)))"

definition list_sessions :: "'p registry \<Rightarrow> (nat \<Rightarrow> database \<Rightarrow> database) \<Rightarrow> string \<Rightarrow> session_record list command" where
  "list_sessions reg env c = cmd_bind (view_projection reg env c) (\<lambda>state. cmd_lift (sessions_in c state))"

definition get_session :: "'p registry \<Rightarrow> (nat \<Rightarrow> database \<Rightarrow> database) \<Rightarrow> string \<Rightarrow> string \<Rightarrow> session_record command" where
  "get_session reg env c sid = cmd_bind (view_projection reg env c) (\<lambda>state. cmd_lift (session_in c sid state))"

definition view_interactions :: "'p registry \<Rightarrow> (nat \<Rightarrow> database \<Rightarrow> database) \<Rightarrow> string \<Rightarrow> string \<Rightarrow> interaction_record list command" where
  "view_interactions reg env c sid =
     cmd_bind (get_session reg env c sid) (\<lambda>record.
     cmd_bind (view_projection reg env c) (\<lambda>state. cmd_lift (interactions_in sid (se_interactions record) state)))"

definition view_answers :: "'p registry \<Rightarrow> (nat \<Rightarrow> database \<Rightarrow> database) \<Rightarrow> string \<Rightarrow> string \<Rightarrow> answer_record list command" where
  "view_answers reg env c sid =
     cmd_bind (get_session reg env c sid) (\<lambda>record.
     cmd_bind (view_projection reg env c) (\<lambda>state. cmd_lift (answers_in sid (se_runs record) state)))"

definition get_answer :: "'p registry \<Rightarrow> (nat \<Rightarrow> database \<Rightarrow> database) \<Rightarrow> string \<Rightarrow> string \<Rightarrow> string \<Rightarrow> answer_record command" where
  "get_answer reg env c sid aid = cmd_bind (view_projection reg env c) (\<lambda>state. cmd_lift (answer_in sid aid state))"

definition get_context :: "'p registry \<Rightarrow> (nat \<Rightarrow> database \<Rightarrow> database) \<Rightarrow> string \<Rightarrow> string \<Rightarrow> continuation_summary option command" where
  "get_context reg env c sid = cmd_bind (get_session reg env c sid) (\<lambda>record. cmd_lift (Inr (se_summary record)))"

end
