(* ===== verification/Session_Valid.thy ===== *)
theory Session_Valid
  imports Session_View
begin

text \<open>
  Every state the repository can reach is one the session reader can read. An entry of a session is described by the
  record it decodes to; the reducers of \<^verbatim>\<open>src/src/study_agent/sessions/projection.py\<close> keep the record well formed, its
  interactions and answers linked, and all of that does not depend on the order of keys the store writes.
\<close>

section \<open>Valid sessions\<close>

text \<open>What the entry of a session says, and what the reducers keep of it. The number of interactions a summary counts is
  not among the latter.\<close>

definition entry_reads :: "json_object \<Rightarrow> session_record \<Rightarrow> datetime \<Rightarrow> bool" where
  "entry_reads raw r latest =
     (has_keys raw session_keys \<and> jget raw ''session_id'' = JStr (se_id r) \<and> jget raw ''course_id'' = JStr (se_course r) \<and>
      jget raw ''status'' = JStr (session_status_value (se_status r)) \<and>
      required_stamp (jget raw ''started_at'') = Inr (se_started r) \<and> view_stamp (jget raw ''suspended_at'') = Inr (se_suspended r) \<and>
      view_stamp (jget raw ''resumed_at'') = Inr (se_resumed r) \<and> view_stamp (jget raw ''ended_at'') = Inr (se_ended r) \<and>
      required_stamp (jget raw ''last_event_at'') = Inr latest \<and>
      string_array (jget raw ''interaction_ids'') = Inr (se_interactions r) \<and> string_array (jget raw ''run_ids'') = Inr (se_runs r) \<and>
      view_summary (jget raw ''continuation_summary'') = Inr (se_summary r))"

definition lifecycle_ok :: "session_record \<Rightarrow> bool" where
  "lifecycle_ok r =
     (list_all (\<lambda>t. \<not> before t (Some (se_started r))) [se_suspended r, se_resumed r, se_ended r] \<and>
      (se_ended r \<noteq> None \<longleftrightarrow> se_status r = Session_ENDED) \<and> (se_status r = Session_SUSPENDED \<longrightarrow> se_suspended r \<noteq> None) \<and>
      (se_status r = Session_ACTIVE \<longrightarrow> \<not> before (se_resumed r) (se_suspended r)) \<and>
      \<not> before (se_ended r) (se_suspended r) \<and> \<not> before (se_ended r) (se_resumed r) \<and>
      distinct (se_interactions r) \<and> distinct (se_runs r))"

definition record_ok :: "session_record \<Rightarrow> datetime \<Rightarrow> bool" where
  "record_ok r latest =
     (list_all is_text (se_interactions r) \<and> list_all is_text (se_runs r) \<and>
      lifecycle_ok r \<and>
      list_all (\<lambda>t. \<not> before (Some latest) t) [Some (se_started r), se_suspended r, se_resumed r, se_ended r] \<and>
      (\<forall>c. se_summary r = Some c \<longrightarrow> cs_through c \<in> set (se_interactions r)))"

definition summary_current :: "session_record \<Rightarrow> bool" where
  "summary_current r = (case se_summary r of None \<Rightarrow> True | Some c \<Rightarrow> cs_count c = int (length (se_interactions r)))"

lemma mk_session_record_ok:
  assumes "record_ok r latest"
  shows "mk_session_record r = (if summary_current r then Inr r else Inl ValueError)"
proof -
  have "mk_session_record r = (case se_summary r of None \<Rightarrow> Inr r | Some c \<Rightarrow>
      if cs_through c \<notin> set (se_interactions r) then Inl ValueError
      else if cs_count c \<noteq> int (length (se_interactions r)) then Inl ValueError else Inr r)"
    using assms unfolding record_ok_def lifecycle_ok_def mk_session_record_def by (simp cong: if_cong, intro conjI impI; elim conjE; simp)
  then show ?thesis using assms by (auto simp: record_ok_def summary_current_def split: option.splits)
qed

lemma map_res_identifiers: "list_all is_text xs \<Longrightarrow> map_res mk_identifier xs = Inr xs"
  by (induction xs) (auto simp: mk_identifier_def require_text_def)

lemma decode_session_ok:
  assumes "entry_reads raw r latest" and "record_ok r latest"
  shows "decode_session (se_course r) (se_id r) (JObj raw) = (if summary_current r then Inr r else Inl ValueError)"
proof -
  have "view_text (jget raw ''status'') = Inr (session_status_value (se_status r))"
    using assms(1) by (cases "se_status r") (simp_all add: entry_reads_def view_text_def)
  moreover have "map_res mk_identifier (se_interactions r) = Inr (se_interactions r)" "map_res mk_identifier (se_runs r) = Inr (se_runs r)"
    using assms(2) by (auto simp: record_ok_def intro: map_res_identifiers)
  ultimately show ?thesis
    using assms(1) mk_session_record_ok [OF assms(2)] unfolding entry_reads_def decode_session_def
    by (cases r) simp
qed

text \<open>The moves of a record keep it well formed.\<close>

lemma before_simps [simp]: "\<not> before None t" "\<not> before t None" "before (Some x) (Some y) \<longleftrightarrow> instant x < instant y"
  by (simp_all add: before_def split: option.splits)

lemma record_ok_latest: "record_ok r latest \<Longrightarrow> instant latest \<le> instant now \<Longrightarrow> record_ok r now"
  unfolding record_ok_def by (cases "se_suspended r"; cases "se_resumed r"; cases "se_ended r") auto

lemma record_ok_speak:
  "record_ok r latest \<Longrightarrow> is_text i \<Longrightarrow> i \<notin> set (se_interactions r) \<Longrightarrow>
   record_ok (r\<lparr>se_interactions := se_interactions r @ [i]\<rparr>) latest"
  by (auto simp: record_ok_def lifecycle_ok_def split: if_splits)

lemma record_ok_run:
  "record_ok r latest \<Longrightarrow> is_text i \<Longrightarrow> i \<notin> set (se_runs r) \<Longrightarrow> record_ok (r\<lparr>se_runs := se_runs r @ [i]\<rparr>) latest"
  by (auto simp: record_ok_def lifecycle_ok_def split: if_splits)

lemma record_ok_summary:
  "record_ok r latest \<Longrightarrow> cs_through c \<in> set (se_interactions r) \<Longrightarrow> record_ok (r\<lparr>se_summary := Some c\<rparr>) latest"
  by (auto simp: record_ok_def lifecycle_ok_def)

lemma record_ok_transitions:
  assumes "record_ok r now"
  shows "se_status r = Session_ACTIVE \<Longrightarrow> record_ok (r\<lparr>se_status := Session_SUSPENDED, se_suspended := Some now\<rparr>) now"
    and "se_status r = Session_SUSPENDED \<Longrightarrow> record_ok (r\<lparr>se_status := Session_ACTIVE, se_resumed := Some now\<rparr>) now"
    and "se_status r \<noteq> Session_ENDED \<Longrightarrow> record_ok (r\<lparr>se_status := Session_ENDED, se_ended := Some now\<rparr>) now"
  using assms
  by (cases "se_suspended r"; cases "se_resumed r"; cases "se_ended r";
      auto simp: record_ok_def lifecycle_ok_def not_less split: if_splits)+

definition valid_record :: "string \<Rightarrow> session_parts \<Rightarrow> string \<Rightarrow> datetime \<Rightarrow> session_record \<Rightarrow> bool" where
  "valid_record c m sid now r =
     (is_text sid \<and> se_id r = sid \<and> se_course r = c \<and> record_ok r now \<and>
      (\<forall>i \<in> set (se_interactions r). \<exists>x. domain_interaction sid (sm_interactions m) i = Inr x) \<and>
      (\<exists>as. map_res (\<lambda>(aid, raw). decode_answer_entry aid raw) (session_answers sid (sm_answers m)) = Inr as \<and>
        mset (map ar_run as) = mset (se_runs r)))"

definition session_valid :: "string \<Rightarrow> session_parts \<Rightarrow> string \<Rightarrow> json \<Rightarrow> bool" where
  "session_valid c m sid v = (\<exists>raw r latest. v = JObj raw \<and> entry_reads raw r latest \<and> valid_record c m sid latest r)"

definition answer_linked :: "json_object \<Rightarrow> json \<Rightarrow> bool" where
  "answer_linked sessions v =
     (case v of
        JObj raw \<Rightarrow> (case jget raw ''session_id'' of JStr sid \<Rightarrow> sid \<in> set (keys_of sessions) | _ \<Rightarrow> False)
      | _ \<Rightarrow> False)"

definition sessions_valid :: "string \<Rightarrow> json_object \<Rightarrow> bool" where
  "sessions_valid c s =
     (\<exists>m. session_maps s = Inr m \<and> (\<forall>sid v. map_of (sm_sessions m) sid = Some v \<longrightarrow> session_valid c m sid v) \<and>
        list_all (answer_linked (sm_sessions m) \<circ> snd) (sm_answers m))"

section \<open>The reducers keep sessions valid\<close>

lemma entry_reads_interactions:
  "entry_reads raw r latest \<Longrightarrow> entry_reads (AList.update ''interaction_ids'' (text_items ids) raw) (r\<lparr>se_interactions := ids\<rparr>) latest"
  by (auto simp: entry_reads_def jget_update string_array_items has_keys_def session_keys_def)

lemma entry_reads_runs:
  "entry_reads raw r latest \<Longrightarrow> entry_reads (AList.update ''run_ids'' (text_items ids) raw) (r\<lparr>se_runs := ids\<rparr>) latest"
  by (auto simp: entry_reads_def jget_update string_array_items has_keys_def session_keys_def)

lemma entry_reads_summary:
  "entry_reads raw r latest \<Longrightarrow> view_summary v = Inr (Some c) \<Longrightarrow>
   entry_reads (AList.update ''continuation_summary'' v raw) (r\<lparr>se_summary := Some c\<rparr>) latest"
  by (auto simp: entry_reads_def jget_update has_keys_def session_keys_def)

lemma entry_reads_transition:
  assumes "entry_reads raw r latest" and "parse_timestamp now = Inr t"
  shows "entry_reads (AList.update ''suspended_at'' (JStr now) (AList.update ''status'' (JStr (session_status_value st)) raw))
      (r\<lparr>se_status := st, se_suspended := Some t\<rparr>) latest"
    and "entry_reads (AList.update ''resumed_at'' (JStr now) (AList.update ''status'' (JStr (session_status_value st)) raw))
      (r\<lparr>se_status := st, se_resumed := Some t\<rparr>) latest"
    and "entry_reads (AList.update ''ended_at'' (JStr now) (AList.update ''status'' (JStr (session_status_value st)) raw))
      (r\<lparr>se_status := st, se_ended := Some t\<rparr>) latest"
  using assms by (auto simp: entry_reads_def jget_update has_keys_def session_keys_def view_stamp_def)

lemma entry_reads_latest:
  "entry_reads raw r latest \<Longrightarrow> parse_timestamp now = Inr t \<Longrightarrow> entry_reads (AList.update ''last_event_at'' (JStr now) raw) r t"
  by (auto simp: entry_reads_def jget_update has_keys_def session_keys_def required_stamp_def view_stamp_def)

lemma required_stamp_Inr: "required_stamp v = Inr t \<longleftrightarrow> (\<exists>s. v = JStr s \<and> parse_timestamp s = Inr t)"
  by (cases v) (auto simp: required_stamp_def view_stamp_def res_bind_eq_Inr map_error_eq_Inr)

lemma stored_time:
  assumes "wf_event e" and "is_utc e" and "timestamp (ev_at e) = Inr now"
  shows "parse_timestamp now = Inr (ev_at e)"
proof -
  have "valid_datetime (ev_at e)" using assms(1) by (simp add: wf_event_def)
  moreover have "astimezone_utc (ev_at e) = Inr (ev_at e)" using assms(2) by (simp add: is_utc_def astimezone_utc_def)
  ultimately show ?thesis using parse_timestamp_timestamp [OF _ assms(3)] by auto
qed

text \<open>The frame of a step on one open session: the entries of the dictionaries are extended, other sessions are not touched.\<close>

definition extends :: "string \<Rightarrow> session_parts \<Rightarrow> session_parts \<Rightarrow> bool" where
  "extends sid m m' =
     (sm_sessions m' = sm_sessions m \<and>
      (\<forall>j i x. domain_interaction j (sm_interactions m) i = Inr x \<longrightarrow> domain_interaction j (sm_interactions m') i = Inr x) \<and>
      (\<forall>j. j \<noteq> sid \<longrightarrow> session_answers j (sm_answers m') = session_answers j (sm_answers m)) \<and>
      (sid \<in> set (keys_of (sm_sessions m)) \<longrightarrow> list_all (answer_linked (sm_sessions m) \<circ> snd) (sm_answers m) \<longrightarrow>
       list_all (answer_linked (sm_sessions m) \<circ> snd) (sm_answers m')))"

lemma extends_refl [simp]: "extends sid m m" by (simp add: extends_def)

lemma session_valid_extends:
  "extends sid m m' \<Longrightarrow> j \<noteq> sid \<Longrightarrow> session_valid c m j v \<Longrightarrow> session_valid c m' j v"
proof -
  assume ext: "extends sid m m'" "j \<noteq> sid" and "session_valid c m j v"
  then obtain raw r latest where r: "v = JObj raw" "entry_reads raw r latest" "valid_record c m j latest r"
    by (auto simp: session_valid_def)
  have "session_answers j (sm_answers m') = session_answers j (sm_answers m)" using ext by (simp add: extends_def)
  then have "valid_record c m' j latest r" using r(3) ext(1) by (simp add: valid_record_def extends_def) blast
  then show "session_valid c m' j v" using r(1,2) by (auto simp: session_valid_def)
qed

lemma answer_linked_iff:
  "answer_linked sessions v \<longleftrightarrow> (\<exists>raw sid. v = JObj raw \<and> jget raw ''session_id'' = JStr sid \<and> sid \<in> set (keys_of sessions))"
  by (auto simp: answer_linked_def split: json.splits)

lemma answer_linked_keys: "set (keys_of a) = set (keys_of b) \<Longrightarrow> answer_linked a = answer_linked b"
  by (simp add: answer_linked_iff fun_eq_iff)

definition entry_valid :: "string \<Rightarrow> string \<Rightarrow> datetime \<Rightarrow> session_parts \<times> json_object \<Rightarrow> bool" where
  "entry_valid c sid now ms = (\<exists>r latest. entry_reads (snd ms) r latest \<and> valid_record c (fst ms) sid now r)"

lemma open_session_valid:
  assumes "sessions_valid (ev_course e) s" and "open_session s e = Inr (m, sid, raw)"
  shows "session_maps s = Inr m" and "sid \<in> set (keys_of (sm_sessions m))" and "entry_valid (ev_course e) sid (ev_at e) (m, raw)"
    and "\<And>j v. map_of (sm_sessions m) j = Some v \<Longrightarrow> session_valid (ev_course e) m j v"
    and "list_all (answer_linked (sm_sessions m) \<circ> snd) (sm_answers m)"
proof -
  have m: "session_maps s = Inr m" "find_session (sm_sessions m) e = Inr (sid, raw)" "chronological raw e = Inr ()"
    using assms(2) by (auto simp: open_session_def res_bind_eq_Inr)
  then show "session_maps s = Inr m" by simp
  show all: "session_valid (ev_course e) m j v" if "map_of (sm_sessions m) j = Some v" for j v
    using assms(1) m(1) that by (auto simp: sessions_valid_def)
  show "list_all (answer_linked (sm_sessions m) \<circ> snd) (sm_answers m)" using assms(1) m(1) by (auto simp: sessions_valid_def)
  have entry: "map_of (sm_sessions m) sid = Some (JObj raw)"
    using find_session_Inr [OF m(2)] by (auto simp: jget_def split: option.splits)
  then show "sid \<in> set (keys_of (sm_sessions m))" by (force dest: map_of_SomeD)
  obtain r latest where r: "entry_reads raw r latest" "valid_record (ev_course e) m sid latest r"
    using all [OF entry] by (auto simp: session_valid_def)
  have "required_stamp (jget raw ''last_event_at'') = Inr latest" using r(1) by (simp add: entry_reads_def)
  then obtain t where "jget raw ''last_event_at'' = JStr t" "parse_timestamp t = Inr latest" by (auto simp: required_stamp_Inr)
  then have "instant latest \<le> instant (ev_at e)"
    using m(3) by (simp add: chronological_def map_error_def split: if_splits)
  from record_ok_latest [OF _ this] have "valid_record (ev_course e) m sid (ev_at e) r"
    using r(2) by (simp add: valid_record_def)
  then show "entry_valid (ev_course e) sid (ev_at e) (m, raw)" using r(1) by (auto simp: entry_valid_def)
qed

lemma close_session_valid:
  assumes opened: "sessions_valid (ev_course e) s" "open_session s e = Inr (m, sid, raw)"
    and step: "extends sid m m'" "entry_valid (ev_course e) sid (ev_at e) (m', raw')"
    and e: "wf_event e" "is_utc e" and close: "close_session s e sid (m', raw') = Inr s'"
  shows "sessions_valid (ev_course e) s'"
proof -
  obtain now where now: "timestamp (ev_at e) = Inr now"
    "s' = write_maps s (m'\<lparr>sm_sessions := AList.update sid (JObj (AList.update ''last_event_at'' (JStr now) raw')) (sm_sessions m')\<rparr>)"
    using close by (auto simp: close_session_def res_bind_eq_Inr)
  let ?m = "m'\<lparr>sm_sessions := AList.update sid (JObj (AList.update ''last_event_at'' (JStr now) raw')) (sm_sessions m')\<rparr>"
  have maps: "session_maps s' = Inr ?m"
    unfolding now(2) by (simp add: session_maps_def write_maps_def get_default_update mapping_value_def)
  note o = open_session_valid [OF opened]
  obtain r latest where r: "entry_reads raw' r latest" "valid_record (ev_course e) m' sid (ev_at e) r"
    using step(2) by (auto simp: entry_valid_def)
  have "valid_record (ev_course e) ?m sid (ev_at e) r" using r(2) by (simp add: valid_record_def)
  then have "session_valid (ev_course e) ?m sid (JObj (AList.update ''last_event_at'' (JStr now) raw'))"
    using entry_reads_latest [OF r(1) stored_time [OF e now(1)]] unfolding session_valid_def by blast
  moreover have "session_valid (ev_course e) ?m j v" if "j \<noteq> sid" "map_of (sm_sessions m) j = Some v" for j v
    using session_valid_extends [OF step(1) that(1) o(4) [OF that(2)]] by (simp add: session_valid_def valid_record_def)
  moreover have "answer_linked (sm_sessions ?m) = answer_linked (sm_sessions m)"
    using o(2) step(1) by (intro answer_linked_keys) (simp add: extends_def insert_absorb)
  moreover have "list_all (answer_linked (sm_sessions m) \<circ> snd) (sm_answers m')" using o(2,5) step(1) by (simp add: extends_def)
  ultimately show ?thesis
    using maps step(1) unfolding sessions_valid_def
    by (intro exI [of _ ?m]) (auto simp: map_of_update extends_def split: if_splits)
qed

text \<open>The steps.\<close>

lemma domain_interaction_update:
  assumes "iid \<notin> set (keys_of interactions)" and "domain_interaction j interactions i = Inr x"
  shows "domain_interaction j (AList.update iid v interactions) i = Inr x"
proof -
  have "jget interactions iid = JNull" using assms(1) by (simp add: jget_def map_of_eq_None_iff [symmetric] split: option.splits)
  then have "i \<noteq> iid" using assms(2) by (auto simp: domain_interaction_def)
  then show ?thesis using assms(2) by (simp add: domain_interaction_def jget_update)
qed

lemma interaction_entry_reads:
  assumes "parse_timestamp now = Inr t" and "is_text iid" and "is_text content"
    and "k = Interaction_ASSISTANT \<longleftrightarrow> answer \<noteq> None" and "k = Interaction_ASSISTANT \<longleftrightarrow> run \<noteq> None"
    and "pred_option is_text answer" and "pred_option is_text run"
  shows "domain_interaction sid (AList.update iid (interaction_entry sid k now content (optional_json JStr answer) (optional_json JStr run)) is) iid =
    Inr \<lparr>ix_id = iid, ix_kind = k, ix_time = t, ix_content = content, ix_answer = answer, ix_run = run\<rparr>"
proof -
  have "optional_identifier (optional_json JStr x) = Inr x" if "pred_option is_text x" for x
    using that by (cases x) (simp_all add: optional_identifier_def optional_json_def mk_identifier_def require_text_def)
  moreover have "interaction_kind_of (interaction_kind_value k) = Inr k"
    by (cases k) (simp_all add: interaction_kind_of_def enum_of_def)
  ultimately show ?thesis using assms
    by (cases answer; cases run) (simp_all add: domain_interaction_def jget_update interaction_entry_def decode_interaction_def has_keys_def interaction_keys_def
        jget_Cons mk_identifier_def require_text_def mk_interaction_def)
qed

lemma interaction_step_valid:
  assumes "entry_valid (ev_course e) sid (ev_at e) (m, raw)" and "interaction_step e p sid (m, raw) = Inr (m', raw')"
    and "is_text (ir_id p)" "is_text (ir_content p)" "ir_kind p \<noteq> Interaction_ASSISTANT" and e: "wf_event e" "is_utc e"
  shows "extends sid m m' \<and> entry_valid (ev_course e) sid (ev_at e) (m', raw')"
proof -
  obtain r latest where r: "entry_reads raw r latest" "valid_record (ev_course e) m sid (ev_at e) r"
    using assms(1) by (auto simp: entry_valid_def)
  obtain now where step: "ir_id p \<notin> set (keys_of (sm_interactions m))" "ir_id p \<notin> set (se_interactions r)" "timestamp (ev_at e) = Inr now"
    "m' = m\<lparr>sm_interactions := AList.update (ir_id p) (interaction_entry sid (ir_kind p) now (ir_content p) JNull JNull) (sm_interactions m)\<rparr>"
    "raw' = AList.update ''interaction_ids'' (text_items (se_interactions r @ [ir_id p])) raw"
    using assms(2) r(1) by (auto simp: interaction_step_def entry_reads_def res_bind_eq_Inr split: if_splits)
  have ext: "extends sid m m'" using domain_interaction_update [OF step(1)] by (simp add: extends_def step(4))
  have "valid_record (ev_course e) m' sid (ev_at e) (r\<lparr>se_interactions := se_interactions r @ [ir_id p]\<rparr>)"
    using r(2) record_ok_speak [OF _ assms(3) step(2)] domain_interaction_update [OF step(1)]
      interaction_entry_reads [OF stored_time [OF e step(3)] assms(3,4), of "ir_kind p" None None sid "sm_interactions m"] assms(5)
    unfolding valid_record_def by (auto simp: step(4) optional_json_def)
  then show ?thesis using ext entry_reads_interactions [OF r(1)] unfolding entry_valid_def step(5) by force
qed

lemma map_res_append: "map_res f (xs @ ys) = res_bind (map_res f xs) (\<lambda>as. res_bind (map_res f ys) (\<lambda>bs. Inr (as @ bs)))"
  by (induction xs) (simp_all add: res_bind_assoc, simp add: res_bind_def split: sum.splits)

lemma is_text_join: "texts \<noteq> [] \<Longrightarrow> list_all is_text texts \<Longrightarrow> is_text (join [CHR 0x0A, CHR 0x0A] texts)"
proof (induction texts)
  case (Cons t ts)
  have t: "t \<noteq> []" "\<not> is_space (hd t)" using Cons.prems(2) by (auto simp: is_text_iff)
  show ?case
  proof (cases "ts = []")
    case False
    then have "is_text ((t @ [CHR 0x0A, CHR 0x0A]) @ join [CHR 0x0A, CHR 0x0A] ts)"
      using Cons t by (intro is_text_append) auto
    then show ?thesis using False by (simp add: join_Cons)
  qed (use Cons.prems in simp)
qed simp

lemma answer_content_text:
  assumes "ok_answer (ar_answer r)" and "answer_content r = Inr content"
  shows "is_text content"
  using assms is_text_join [of "map sg_text (ga_segments (ar_answer r))"]
  by (auto simp: answer_content_def ok_answer_def ok_segment_def list_all_iff Let_def split: if_splits option.splits)

lemma answer_entry_reads:
  assumes "ok_answer (ar_answer r)" and "mk_answer_record r = Inr r" and "is_text (ar_id r)" "is_text (ar_interaction r)" "is_text (ar_question r)" "is_text (ar_run r)"
  shows "\<exists>raw. answer_entry sid r = JObj raw \<and> decode_answer_entry (ar_id r) raw = Inr r \<and> jget raw ''session_id'' = JStr sid"
  using assms answer_codec.dec_enc [OF assms(1)]
  by (cases r) (simp add: answer_entry_def decode_answer_entry_def has_keys_def answer_entry_keys_def jget_Cons string_field_def mk_identifier_def require_text_def)

lemma AList_update_fresh: "k \<notin> set (keys_of xs) \<Longrightarrow> AList.update k v xs = xs @ [(k, v)]"
  by (induction xs) auto

lemma session_answers_append: "session_answers sid (xs @ ys) = session_answers sid xs @ session_answers sid ys"
  by (simp add: session_answers_def)

definition ok_answer_record :: "answer_record \<Rightarrow> bool" where
  "ok_answer_record r = (ok_answer (ar_answer r) \<and> mk_answer_record r = Inr r \<and> is_text (ar_id r) \<and> is_text (ar_interaction r) \<and>
     is_text (ar_question r) \<and> is_text (ar_run r))"

lemma answer_step_valid:
  assumes "entry_valid (ev_course e) sid (ev_at e) (m, raw)" and "answer_step turns e r sid (m, raw) = Inr (m', raw')"
    and ok: "ok_answer_record r" and e: "wf_event e" "is_utc e"
  shows "extends sid m m' \<and> entry_valid (ev_course e) sid (ev_at e) (m', raw')"
proof -
  obtain d latest where d: "entry_reads raw d latest" "valid_record (ev_course e) m sid (ev_at e) d"
    using assms(1) by (auto simp: entry_valid_def)
  obtain now content where step: "ar_interaction r \<notin> set (keys_of (sm_interactions m))" "ar_id r \<notin> set (keys_of (sm_answers m))"
    "ar_run r \<notin> set (se_runs d)" "timestamp (ev_at e) = Inr now" "answer_content r = Inr content"
    "m' = m\<lparr>sm_interactions := AList.update (ar_interaction r)
        (interaction_entry sid Interaction_ASSISTANT now content (JStr (ar_id r)) (JStr (ar_run r))) (sm_interactions m),
      sm_answers := AList.update (ar_id r) (answer_entry sid r) (sm_answers m)\<rparr>"
    "raw' = AList.update ''run_ids'' (text_items (se_runs d @ [ar_run r]))
        (AList.update ''interaction_ids'' (text_items (se_interactions d @ [ar_interaction r])) raw)"
    using assms(2) d(1) by (auto simp: answer_step_def entry_reads_def res_bind_eq_Inr split: if_splits)
  let ?d = "d\<lparr>se_interactions := se_interactions d @ [ar_interaction r], se_runs := se_runs d @ [ar_run r]\<rparr>"
  obtain araw where a: "answer_entry sid r = JObj araw" "decode_answer_entry (ar_id r) araw = Inr r" "jget araw ''session_id'' = JStr sid"
    using answer_entry_reads ok unfolding ok_answer_record_def by blast
  have answers: "session_answers j (sm_answers m') = session_answers j (sm_answers m) @ (if j = sid then [(ar_id r, araw)] else [])" for j
    unfolding step(6) by (auto simp: AList_update_fresh [OF step(2)] session_answers_append) (simp_all add: session_answers_def a)
  have new: "domain_interaction sid (sm_interactions m') (ar_interaction r) = Inr \<lparr>ix_id = ar_interaction r, ix_kind = Interaction_ASSISTANT,
      ix_time = ev_at e, ix_content = content, ix_answer = Some (ar_id r), ix_run = Some (ar_run r)\<rparr>"
    using interaction_entry_reads [OF stored_time [OF e step(4)], of "ar_interaction r" content Interaction_ASSISTANT "Some (ar_id r)" "Some (ar_run r)"]
      ok answer_content_text [OF _ step(5)] by (simp add: step(6) ok_answer_record_def optional_json_def)
  have old: "domain_interaction j (sm_interactions m') i = Inr x" if "domain_interaction j (sm_interactions m) i = Inr x" for j i x
    using domain_interaction_update [OF step(1) that] by (simp add: step(6))
  have "ar_interaction r \<notin> set (se_interactions d)"
  proof
    assume "ar_interaction r \<in> set (se_interactions d)"
    then obtain x where "domain_interaction sid (sm_interactions m) (ar_interaction r) = Inr x" using d(2) by (auto simp: valid_record_def)
    then show False using step(1) by (auto simp: domain_interaction_def jget_def split: option.splits dest: map_of_SomeD) (force dest: map_of_SomeD)
  qed
  then have "record_ok ?d (ev_at e)"
    using record_ok_run [OF record_ok_speak] d(2) ok step(3) by (fastforce simp: valid_record_def ok_answer_record_def)
  moreover obtain as where as: "map_res (\<lambda>(aid, raw). decode_answer_entry aid raw) (session_answers sid (sm_answers m)) = Inr as"
    "mset (map ar_run as) = mset (se_runs d)" using d(2) by (auto simp: valid_record_def)
  have "map_res (\<lambda>(aid, raw). decode_answer_entry aid raw) (session_answers sid (sm_answers m')) = Inr (as @ [r])"
    by (simp add: answers map_res_append as a(2))
  ultimately have "valid_record (ev_course e) m' sid (ev_at e) ?d"
    using d(2) as(2) new old unfolding valid_record_def by auto
  moreover have "extends sid m m'"
    using old answers a AList_update_fresh [OF step(2)]
    by (auto simp: extends_def step(6) answer_linked_iff)
  ultimately show ?thesis using entry_reads_runs [OF entry_reads_interactions [OF d(1)]] unfolding entry_valid_def step(7) by force
qed

lemma domain_interaction_id: "domain_interaction sid is iid = Inr x \<Longrightarrow> ix_id x = iid"
  by (auto simp: domain_interaction_def decode_interaction_def mk_interaction_def mk_identifier_def res_bind_eq_Inr split: json.splits if_splits)

lemma domain_interactions_ids:
  "map_res (domain_interaction sid is) ids = Inr xs \<Longrightarrow> map ix_id xs = ids"
  by (induction ids arbitrary: xs) (auto simp: res_bind_eq_Inr dest: domain_interaction_id)

lemma verified_summary:
  assumes "verify_continuation_summary c ordered answers = Inr u"
  shows "ordered \<noteq> [] \<and> cs_through c = ix_id (last ordered) \<and> cs_count c = int (length ordered)"
proof -
  have b: "build_continuation_summary ordered answers = Inr c"
    using assms by (auto simp: verify_continuation_summary_def res_bind_eq_Inr split: if_splits)
  then have "ordered \<noteq> []" by (auto simp: build_continuation_summary_def)
  moreover obtain xs r where "assemble_summary ordered xs r = Inr c"
    using b by (auto simp: build_continuation_summary_def res_bind_eq_Inr split: if_splits prod.splits)
  ultimately show ?thesis by (auto simp: assemble_summary_def Let_def split: prod.splits dest!: mk_session_same(2))
qed

lemma summary_step_valid:
  assumes "entry_valid c sid now (m, raw)" and "summary_step cs sid (m, raw) = Inr (m', raw')" and ok: "ok_summary cs"
  shows "extends sid m m' \<and> entry_valid c sid now (m', raw')"
proof -
  obtain d latest where d: "entry_reads raw d latest" "valid_record c m sid now d"
    using assms(1) by (auto simp: entry_valid_def)
  obtain ordered answers where step: "map_res (domain_interaction sid (sm_interactions m)) (se_interactions d) = Inr ordered"
    "verify_continuation_summary cs ordered answers = Inr ()" "m' = m" "raw' = AList.update ''continuation_summary'' (summary_json cs) raw"
    using assms(2) d(1) by (auto simp: summary_step_def domain_interactions_def entry_reads_def res_bind_eq_Inr)
  have "cs_through cs \<in> set (se_interactions d)"
    using verified_summary [OF step(2)] domain_interactions_ids [OF step(1)] by (metis last_in_set list.set_map image_eqI)
  then have "valid_record c m sid now (d\<lparr>se_summary := Some cs\<rparr>)"
    using d(2) record_ok_summary by (simp add: valid_record_def)
  moreover have "view_summary (summary_json cs) = Inr (Some cs)"
    using summary_codec.dec_enc [OF ok] by (simp add: view_summary_def) (simp add: summary_json_def)
  ultimately show ?thesis using entry_reads_summary [OF d(1)] step(3,4) unfolding entry_valid_def by force
qed

lemma transition_step_valid:
  assumes "entry_valid (ev_course e) sid (ev_at e) (m, raw)" and "transition_step e allowed target stamp (m, raw) = Inr (m', raw')"
    and how: "(allowed, target, stamp) \<in> {([Session_ACTIVE], Session_SUSPENDED, ''suspended_at''),
      ([Session_SUSPENDED], Session_ACTIVE, ''resumed_at''), ([Session_ACTIVE, Session_SUSPENDED], Session_ENDED, ''ended_at'')}"
    and e: "wf_event e" "is_utc e"
  shows "extends sid m m' \<and> entry_valid (ev_course e) sid (ev_at e) (m', raw')"
proof -
  obtain d latest where d: "entry_reads raw d latest" "valid_record (ev_course e) m sid (ev_at e) d"
    using assms(1) by (auto simp: entry_valid_def)
  obtain now where step: "se_status d \<in> set allowed" "timestamp (ev_at e) = Inr now" "m' = m"
    "raw' = AList.update stamp (JStr now) (AList.update ''status'' (JStr (session_status_value target)) raw)"
    using assms(2) d(1) by (auto simp: transition_step_def entry_reads_def res_bind_eq_Inr split: if_splits)
  note reads = entry_reads_transition [OF d(1) stored_time [OF e step(2)]]
  have ok: "record_ok d (ev_at e)" using d(2) by (simp add: valid_record_def)
  have "\<exists>d'. entry_reads raw' d' latest \<and> record_ok d' (ev_at e) \<and> se_id d' = se_id d \<and> se_course d' = se_course d \<and>
      se_interactions d' = se_interactions d \<and> se_runs d' = se_runs d"
    using how
  proof (elim insertE emptyE)
    assume h: "(allowed, target, stamp) = ([Session_ACTIVE], Session_SUSPENDED, ''suspended_at'')"
    show ?thesis
      by (intro exI [of _ "d\<lparr>se_status := Session_SUSPENDED, se_suspended := Some (ev_at e)\<rparr>"])
        (use h reads(1) [of Session_SUSPENDED] record_ok_transitions(1) [OF ok] step in auto)
  next
    assume h: "(allowed, target, stamp) = ([Session_SUSPENDED], Session_ACTIVE, ''resumed_at'')"
    show ?thesis
      by (intro exI [of _ "d\<lparr>se_status := Session_ACTIVE, se_resumed := Some (ev_at e)\<rparr>"])
        (use h reads(2) [of Session_ACTIVE] record_ok_transitions(2) [OF ok] step in auto)
  next
    assume h: "(allowed, target, stamp) = ([Session_ACTIVE, Session_SUSPENDED], Session_ENDED, ''ended_at'')"
    show ?thesis
      by (intro exI [of _ "d\<lparr>se_status := Session_ENDED, se_ended := Some (ev_at e)\<rparr>"])
        (use h reads(3) [of Session_ENDED] record_ok_transitions(3) [OF ok] step in auto)
  qed
  then show ?thesis using d(2) step(3) by (auto simp: entry_valid_def valid_record_def)
qed

text \<open>A new session starts valid.\<close>

lemma session_answers_unlinked:
  "list_all (answer_linked sessions \<circ> snd) answers \<Longrightarrow> sid \<notin> set (keys_of sessions) \<Longrightarrow> session_answers sid answers = []"
proof (induction answers)
  case (Cons kv answers)
  then show ?case by (cases kv) (force simp: session_answers_def answer_linked_iff)
qed (simp add: session_answers_def)

lemma session_entry_reads:
  assumes "wf_event e" and "is_utc e" and "timestamp (ev_at e) = Inr now"
  shows "\<exists>raw. session_entry sid e now = JObj raw \<and> entry_reads raw \<lparr>se_id = sid, se_course = ev_course e, se_status = Session_ACTIVE,
    se_started = ev_at e, se_suspended = None, se_resumed = None, se_ended = None, se_interactions = [], se_runs = [], se_summary = None\<rparr> (ev_at e)"
  using stored_time [OF assms]
  by (simp add: session_entry_def entry_reads_def has_keys_def session_keys_def jget_Cons required_stamp_def view_stamp_def
      string_array_def array_value_def view_summary_def)

lemma started_valid:
  assumes "sessions_valid (ev_course e) s" and "reduce_session_started s e sid = Inr s'" and "is_text sid" and e: "wf_event e" "is_utc e"
  shows "sessions_valid (ev_course e) s'"
proof -
  obtain m now where m: "session_maps s = Inr m" "sid \<notin> set (keys_of (sm_sessions m))" "timestamp (ev_at e) = Inr now"
    "s' = write_maps s (m\<lparr>sm_sessions := AList.update sid (session_entry sid e now) (sm_sessions m)\<rparr>)"
    using assms(2) by (auto simp: reduce_session_started_def res_bind_eq_Inr split: if_splits)
  let ?m = "m\<lparr>sm_sessions := AList.update sid (session_entry sid e now) (sm_sessions m)\<rparr>"
  have maps: "session_maps s' = Inr ?m"
    unfolding m(4) by (simp add: session_maps_def write_maps_def get_default_update mapping_value_def)
  have all: "map_of (sm_sessions m) j = Some v \<Longrightarrow> session_valid (ev_course e) ?m j v" for j v
    using assms(1) m(1) by (fastforce simp: sessions_valid_def session_valid_def valid_record_def)
  have linked: "list_all (answer_linked (sm_sessions m) \<circ> snd) (sm_answers m)" using assms(1) m(1) by (auto simp: sessions_valid_def)
  define r where "r = \<lparr>se_id = sid, se_course = ev_course e, se_status = Session_ACTIVE, se_started = ev_at e, se_suspended = None,
    se_resumed = None, se_ended = None, se_interactions = [], se_runs = [], se_summary = None\<rparr>"
  obtain raw where raw: "session_entry sid e now = JObj raw" "entry_reads raw r (ev_at e)"
    using session_entry_reads [OF e m(3), of sid] unfolding r_def by blast
  have "valid_record (ev_course e) ?m sid (ev_at e) r"
    using assms(3) session_answers_unlinked [OF linked m(2)]
    by (simp add: valid_record_def r_def record_ok_def lifecycle_ok_def)
  then have "session_valid (ev_course e) ?m sid (session_entry sid e now)" using raw by (auto simp: session_valid_def)
  moreover have "list_all (answer_linked (sm_sessions ?m) \<circ> snd) (sm_answers m)"
    using linked by (fastforce simp: list_all_iff answer_linked_iff)
  ultimately show ?thesis using maps all unfolding sessions_valid_def
    by (intro exI [of _ ?m]) (auto simp: map_of_update split: if_splits)
qed

section \<open>Every reduction keeps sessions valid\<close>

lemma decoded_texts:
  shows "decode_session_started e = Inr sid \<Longrightarrow> is_text sid"
    and "decode_interaction_recorded e = Inr p \<Longrightarrow> is_text (ir_id p) \<and> is_text (ir_content p) \<and> ir_kind p \<noteq> Interaction_ASSISTANT"
  by (auto simp: decode_session_started_def decode_interaction_recorded_def res_bind_eq_Inr text_value_Inr split: if_splits)

lemma decoded_answer:
  assumes "decode_answer_recorded e = Inr r" and "wf_event e"
  shows "ok_answer_record r"
proof -
  obtain p answer aid iid qid run key fp where p: "object_value (JObj (ev_payload e)) answer_recorded_keys = Inr p"
    "decode_answer (jget p ''answer'') = Inr answer" "is_text aid" "is_text iid" "is_text qid" "is_text run"
    and mk: "mk_answer_record \<lparr>ar_id = aid, ar_interaction = iid, ar_question = qid, ar_run = run, ar_key = key,
      ar_fingerprint = fp, ar_answer = answer\<rparr> = Inr r"
    using assms(1) by (auto simp: decode_answer_recorded_def res_bind_eq_Inr text_value_Inr split: if_splits)
  note x = mk_session_same(4) [OF mk]
  have "wf_json (jget p ''answer'')" using p(1) assms(2) by (auto simp: object_value_Inr wf_event_def intro: wf_jget)
  then show ?thesis using answer_codec.dec_strict [OF _ p(2)] p mk unfolding ok_answer_record_def by (auto simp: x)
qed

lemma decoded_summary:
  assumes "decode_summary_updated e = Inr c" and "wf_event e"
  shows "ok_summary c"
proof -
  obtain p where p: "object_value (JObj (ev_payload e)) [''summary''] = Inr p" "decode_summary (jget p ''summary'') = Inr c"
    using assms(1) by (auto simp: decode_summary_updated_def res_bind_eq_Inr)
  have "wf_json (jget p ''summary'')" using p(1) assms(2) by (auto simp: object_value_Inr wf_event_def intro: wf_jget)
  then show ?thesis using summary_codec.dec_strict p(2) by blast
qed

lemma session_maps_frame:
  "(\<And>k. k \<in> {''sessions'', ''session_interactions'', ''session_answers''} \<Longrightarrow> map_of s' k = map_of s k) \<Longrightarrow> session_maps s' = session_maps s"
  by (simp add: session_maps_def get_default_def)

lemma sessions_valid_frame:
  "(\<And>k. k \<in> {''sessions'', ''session_interactions'', ''session_answers''} \<Longrightarrow> map_of s' k = map_of s k) \<Longrightarrow>
   sessions_valid c s \<Longrightarrow> sessions_valid c s'"
  using session_maps_frame [of s' s] by (simp add: sessions_valid_def)

lemma turn_valid:
  assumes "sessions_valid (ev_course e) s" and "reduce_assistant_turn_recorded s e t = Inr s'" and e: "wf_event e" "is_utc e"
  shows "sessions_valid (ev_course e) s'"
proof -
  obtain m sid raw state' new where o: "open_session s e = Inr (m, sid, raw)" "close_session s e sid (m, raw) = Inr state'"
    "s' = AList.update ''session_assistant_turns'' new state'"
    using assms(2) by (auto simp: reduce_assistant_turn_recorded_def res_bind_eq_Inr split: if_splits)
  have "sessions_valid (ev_course e) state'"
    by (rule close_session_valid [OF assms(1) o(1) extends_refl open_session_valid(3) [OF assms(1) o(1)] e o(2)])
  then show ?thesis by (rule sessions_valid_frame [rotated]) (auto simp: o(3) map_of_update)
qed

lemma opened_valid:
  assumes "sessions_valid (ev_course e) s" and "wf_event e" "is_utc e"
    and "open_session s e = Inr (m, sid, raw)" and "res = Inr ms" and "close_session s e sid ms = Inr s'"
    and "\<And>m' raw'. res = Inr (m', raw') \<Longrightarrow> entry_valid (ev_course e) sid (ev_at e) (m, raw) \<Longrightarrow>
      extends sid m m' \<and> entry_valid (ev_course e) sid (ev_at e) (m', raw')"
  shows "sessions_valid (ev_course e) s'"
  using close_session_valid [OF assms(1,4) _ _ assms(2,3)] assms(5-7) open_session_valid(3) [OF assms(1,4)] by (cases ms) blast

lemma session_reducers_valid:
  assumes valid: "sessions_valid (ev_course e) s" and e: "wf_event e" "is_utc e"
  shows "decode_interaction_recorded e = Inr p \<Longrightarrow> reduce_interaction_recorded s e p = Inr s' \<Longrightarrow> sessions_valid (ev_course e) s'"
    and "decode_answer_recorded e = Inr r \<Longrightarrow> reduce_answer_recorded s e r = Inr s' \<Longrightarrow> sessions_valid (ev_course e) s'"
    and "decode_summary_updated e = Inr c \<Longrightarrow> reduce_summary_updated s e c = Inr s' \<Longrightarrow> sessions_valid (ev_course e) s'"
    and "reduce_suspended s e u = Inr s' \<Longrightarrow> sessions_valid (ev_course e) s'"
    and "reduce_resumed s e u = Inr s' \<Longrightarrow> sessions_valid (ev_course e) s'"
    and "reduce_ended s e u = Inr s' \<Longrightarrow> sessions_valid (ev_course e) s'"
proof -
  note opened = opened_valid [OF valid e]
  show "sessions_valid (ev_course e) s'" if dec: "decode_interaction_recorded e = Inr p" and red: "reduce_interaction_recorded s e p = Inr s'"
  proof -
    obtain m sid raw ms where o: "open_session s e = Inr (m, sid, raw)" "interaction_step e p sid (m, raw) = Inr ms" "close_session s e sid ms = Inr s'"
      using red by (auto simp: reduce_interaction_recorded_def res_bind_eq_Inr)
    show ?thesis by (rule opened [OF o]) (use interaction_step_valid e decoded_texts(2) [OF dec] in blast)
  qed
  show "sessions_valid (ev_course e) s'" if dec: "decode_answer_recorded e = Inr r" and red: "reduce_answer_recorded s e r = Inr s'"
  proof -
    obtain m sid raw turns ms where o: "open_session s e = Inr (m, sid, raw)" "answer_step turns e r sid (m, raw) = Inr ms" "close_session s e sid ms = Inr s'"
      using red by (auto simp: reduce_answer_recorded_def res_bind_eq_Inr)
    show ?thesis by (rule opened [OF o]) (use answer_step_valid e decoded_answer [OF dec e(1)] in blast)
  qed
  show "sessions_valid (ev_course e) s'" if dec: "decode_summary_updated e = Inr c" and red: "reduce_summary_updated s e c = Inr s'"
  proof -
    obtain m sid raw ms where o: "open_session s e = Inr (m, sid, raw)" "summary_step c sid (m, raw) = Inr ms" "close_session s e sid ms = Inr s'"
      using red by (auto simp: reduce_summary_updated_def res_bind_eq_Inr)
    show ?thesis by (rule opened [OF o]) (use summary_step_valid decoded_summary [OF dec e(1)] in blast)
  qed
  have transition: "sessions_valid (ev_course e) s'"
    if red: "res_bind (open_session s e) (\<lambda>(m, sid, session). res_bind (transition_step e allowed target stamp (m, session)) (close_session s e sid)) = Inr s'"
      and how: "(allowed, target, stamp) \<in> {([Session_ACTIVE], Session_SUSPENDED, ''suspended_at''),
      ([Session_SUSPENDED], Session_ACTIVE, ''resumed_at''), ([Session_ACTIVE, Session_SUSPENDED], Session_ENDED, ''ended_at'')}"
    for allowed target stamp
  proof -
    obtain m sid raw ms where o: "open_session s e = Inr (m, sid, raw)" "transition_step e allowed target stamp (m, raw) = Inr ms" "close_session s e sid ms = Inr s'"
      using red by (auto simp: res_bind_eq_Inr)
    show ?thesis by (rule opened [OF o]) (rule transition_step_valid [OF _ _ how e])
  qed
  show "reduce_suspended s e u = Inr s' \<Longrightarrow> sessions_valid (ev_course e) s'" unfolding reduce_suspended_def by (erule transition) simp
  show "reduce_resumed s e u = Inr s' \<Longrightarrow> sessions_valid (ev_course e) s'" unfolding reduce_resumed_def by (erule transition) simp
  show "reduce_ended s e u = Inr s' \<Longrightarrow> sessions_valid (ev_course e) s'" unfolding reduce_ended_def by (erule transition) simp
qed

lemma repository_step_valid:
  assumes "repository_step s e s'" and "sessions_valid (ev_course e) s" and "wf_event e" "is_utc e"
  shows "sessions_valid (ev_course e) s'"
  using assms(1)
proof (cases rule: repository_step.cases)
  case (step_session_started x)
  then show ?thesis using started_valid assms decoded_texts by blast
next
  case (step_turn x)
  then show ?thesis using turn_valid assms by blast
next
  case (step_course_created x)
  then show ?thesis using course_frame by (intro sessions_valid_frame [OF _ assms(2)]) auto
next
  case (step_recorded x)
  then show ?thesis using study_reducers_frame(1) by (intro sessions_valid_frame [OF _ assms(2)]) auto
next
  case (step_retracted x)
  then show ?thesis using study_reducers_frame(2) by (intro sessions_valid_frame [OF _ assms(2)]) auto
next
  case (step_resolved x)
  then show ?thesis using study_reducers_frame(3) by (intro sessions_valid_frame [OF _ assms(2)]) auto
qed (use session_reducers_valid [OF assms(2-4)] in blast)+

lemma sessions_valid_persistent: "persistent repository_registry c (sessions_valid c)"
  unfolding persistent_def using repository_reduce repository_step_valid by blast

lemma sessions_valid_empty: "sessions_valid c []"
  by (simp add: sessions_valid_def session_maps_def mapping_value_def get_default_def)

section \<open>The reader on valid states\<close>

lemma readers_canon:
  "view_stamp (canon v) = view_stamp v" "required_stamp (canon v) = required_stamp v"
  "wf_json v \<Longrightarrow> view_summary (canon v) = view_summary v"
proof -
  show "view_stamp (canon v) = view_stamp v" by (cases v) (simp_all add: view_stamp_def)
  then show "required_stamp (canon v) = required_stamp v" by (simp add: required_stamp_def)
  show "wf_json v \<Longrightarrow> view_summary (canon v) = view_summary v"
    using summary_codec.dec_canon [of v] by (cases v) (simp_all add: view_summary_def)
qed

lemma entry_reads_canon:
  assumes "wf_json (JObj raw)"
  shows "entry_reads (canon_obj raw) r latest \<longleftrightarrow> entry_reads raw r latest"
  unfolding entry_reads_def jget_wf_canon [OF assms] readers_canon(1,2) readers_canon(3) [OF wf_jget [OF assms]]
  by simp

lemma session_answers_canon_read:
  assumes wf: "wf_json (JObj answers)" and "map_res (\<lambda>(aid, raw). decode_answer_entry aid raw) (session_answers sid answers) = Inr as"
  shows "\<exists>bs. map_res (\<lambda>(aid, raw). decode_answer_entry aid raw) (session_answers sid (canon_obj answers)) = Inr bs \<and> mset bs = mset as"
proof -
  let ?f = "\<lambda>(aid, raw). decode_answer_entry aid raw"
  have "(\<exists>us vs. map_res ?f (session_answers sid (canon_obj answers)) = Inr us \<and> map_res ?f (session_answers sid answers) = Inr vs \<and>
      mset us = mset vs) \<or>
    map_res ?f (session_answers sid (canon_obj answers)) = Inl ValueError \<and> map_res ?f (session_answers sid answers) = Inl ValueError"
  proof (rule map_res_mset [OF _ _ session_answers_canon [OF wf]])
    show "e = ValueError" if "?f x = Inl e" for x e
      using that value_error_answer_entry [of "fst x" "snd x"] by (cases x) (auto simp: value_error_def)
    show "?f (map_prod id canon_obj x) = ?f x" if mem: "x \<in> set (session_answers sid answers)" for x
      using session_answers_wf [OF wf, of "fst x" "snd x" sid] mem by (cases x) (simp add: decode_answer_entry_canon del: wf_json_JObj)
  qed
  then show ?thesis using assms(2) by auto
qed

lemma sessions_valid_canon:
  assumes wf: "wf_json (JObj s)" and valid: "sessions_valid c s"
  shows "sessions_valid c (canon_obj s)"
proof -
  obtain m where m: "session_maps s = Inr m" "\<And>sid v. map_of (sm_sessions m) sid = Some v \<Longrightarrow> session_valid c m sid v"
    "list_all (answer_linked (sm_sessions m) \<circ> snd) (sm_answers m)" using valid by (auto simp: sessions_valid_def)
  have wfm: "wf_json (JObj (sm_sessions m))" "wf_json (JObj (sm_interactions m))" "wf_json (JObj (sm_answers m))"
    using session_maps_wf [OF wf m(1)] by (simp_all add: wf_sparts_def)
  have maps: "session_maps (canon_obj s) = Inr (canon_sparts m)" using session_maps_canon [OF wf] m(1) by simp
  have "session_valid c (canon_sparts m) sid v'" if v': "map_of (canon_obj (sm_sessions m)) sid = Some v'" for sid v'
  proof -
    obtain v where v: "map_of (sm_sessions m) sid = Some v" "v' = canon v"
      using v' map_of_canon_obj [of "sm_sessions m" sid] wfm(1) by (cases "map_of (sm_sessions m) sid") simp_all
    obtain raw r latest where r: "v = JObj raw" "entry_reads raw r latest" "valid_record c m sid latest r"
      using m(2) [OF v(1)] by (auto simp: session_valid_def)
    have "wf_json v" using wfm(1) v(1) by (auto dest: map_of_SomeD)
    then have "entry_reads (canon_obj raw) r latest" using r by (simp add: entry_reads_canon del: wf_json_JObj)
    moreover have "valid_record c (canon_sparts m) sid latest r"
    proof -
      obtain as where as: "map_res (\<lambda>(aid, raw). decode_answer_entry aid raw) (session_answers sid (sm_answers m)) = Inr as"
        "mset (map ar_run as) = mset (se_runs r)" using r(3) by (auto simp: valid_record_def)
      obtain bs where "map_res (\<lambda>(aid, raw). decode_answer_entry aid raw) (session_answers sid (canon_obj (sm_answers m))) = Inr bs"
        "mset bs = mset as" using session_answers_canon_read [OF wfm(3) as(1)] by blast
      then show ?thesis using r(3) as(2) domain_interaction_canon [OF wfm(2)] unfolding valid_record_def canon_sparts_def
        by (auto simp del: wf_json_JObj)
    qed
    ultimately show ?thesis using v(2) r(1) by (auto simp: session_valid_def canon_JObj simp del: canon.simps(6))
  qed
  moreover have "list_all (answer_linked (canon_obj (sm_sessions m)) \<circ> snd) (canon_obj (sm_answers m))"
  proof -
    have "answer_linked (canon_obj (sm_sessions m)) (canon v)" if mem: "(aid, v) \<in> set (sm_answers m)" for aid v
    proof -
      obtain raw sid where a: "v = JObj raw" "jget raw ''session_id'' = JStr sid" "sid \<in> set (keys_of (sm_sessions m))"
        using m(3) mem unfolding list_all_iff comp_def answer_linked_iff by fastforce
      have "wf_json v" using wfm(3) mem by auto
      then have "wf_json (JObj raw)" using a(1) by (simp only:)
      then have "jget (canon_obj raw) ''session_id'' = JStr sid" using a(2) jget_wf_canon [of raw "''session_id''"] by simp
      then show ?thesis using a(1,3) unfolding answer_linked_iff a(1) canon_JObj by simp
    qed
    then show ?thesis by (auto simp: list_all_iff set_canon_obj)
  qed
  ultimately show ?thesis using maps unfolding sessions_valid_def
    by (intro exI [of _ "canon_sparts m"]) (simp add: canon_sparts_def)
qed

text \<open>Sorting by the position of distinct runs puts the answers into the order of the runs.\<close>

lemma run_position_nth: "distinct runs \<Longrightarrow> i < length runs \<Longrightarrow> run_position runs (runs ! i) = i"
  unfolding run_position_def by (subst takeWhile_eq_take_P_nth [of i]) (auto simp: nth_eq_iff_index_eq)

lemma sort_runs:
  assumes "distinct runs" and "mset (map ar_run as) = mset runs"
  shows "map ar_run (sort_key (\<lambda>a. run_position runs (ar_run a)) as) = runs"
proof (rule map_sorted_distinct_set_unique)
  let ?f = "run_position runs" and ?xs = "map ar_run (sort_key (\<lambda>a. run_position runs (ar_run a)) as)"
  have mset: "mset ?xs = mset runs" using assms(2) by simp
  then show set: "set ?xs = set runs" by (metis set_mset_mset)
  have f: "map ?f runs = [0..<length runs]" using assms(1) by (intro nth_equalityI) (auto simp: run_position_nth)
  then show "sorted (map ?f runs)" and dist: "distinct (map ?f runs)" by (simp_all only: sorted_upt distinct_upt)
  then show inj: "inj_on ?f (set ?xs \<union> set runs)" using set by (simp add: distinct_map)
  have "distinct ?xs" using mset_eq_imp_distinct_iff [OF mset] assms(1) by simp
  then show "distinct (map ?f ?xs)" using inj inj_on_subset [OF inj] by (simp only: distinct_map) blast
  show "sorted (map ?f ?xs)" by (simp add: comp_def)
qed

lemma valid_session_read:
  assumes "sessions_valid c s" and "session_maps s = Inr m" and "map_of (sm_sessions m) sid = Some v"
  obtains r as where "session_in c sid s = (if summary_current r then Inr r else Inl ValueError)"
    and "se_id r = sid" "se_course r = c" "sessions_of s sid = Some \<lparr>ss_status = se_status r, ss_interactions = se_interactions r, ss_runs = se_runs r\<rparr>"
    and "\<exists>raw. v = JObj raw \<and> view_summary (jget raw ''continuation_summary'') = Inr (se_summary r)"
    and "\<exists>is. interactions_in sid (se_interactions r) s = Inr is \<and> map ix_id is = se_interactions r"
    and "answers_in sid (se_runs r) s = Inr as" and "map ar_run as = se_runs r"
proof -
  obtain raw r latest where r: "v = JObj raw" "entry_reads raw r latest" "valid_record c m sid latest r"
    using assms by (fastforce simp: sessions_valid_def session_valid_def)
  have get: "jget (sm_sessions m) sid = JObj raw" using assms(3) r(1) by (simp add: jget_def)
  have maps: "mapping_value (get_default s ''sessions'' (JObj [])) = Inr (sm_sessions m)"
    "mapping_value (get_default s ''session_interactions'' (JObj [])) = Inr (sm_interactions m)"
    "mapping_value (get_default s ''session_answers'' (JObj [])) = Inr (sm_answers m)"
    using assms(2) by (auto simp: session_maps_def res_bind_eq_Inr)
  have ok: "record_ok r latest" "se_id r = sid" "se_course r = c" using r(3) by (simp_all add: valid_record_def)
  have 1: "session_in c sid s = (if summary_current r then Inr r else Inl ValueError)"
    using decode_session_ok [OF r(2) ok(1)] ok get maps(1) by (simp add: session_in_def)
  have 2: "sessions_of s sid = Some \<lparr>ss_status = se_status r, ss_interactions = se_interactions r, ss_runs = se_runs r\<rparr>"
    using r(2) sessions_of_maps [OF assms(2), of sid] get by (simp add: session_state_Some entry_reads_def)
  have "\<exists>is. map_res (domain_interaction sid (sm_interactions m)) ids = Inr is"
    if "\<forall>i \<in> set ids. \<exists>x. domain_interaction sid (sm_interactions m) i = Inr x" for ids
    using that by (induction ids) auto
  then obtain "is" where "map_res (domain_interaction sid (sm_interactions m)) (se_interactions r) = Inr is"
    using r(3) unfolding valid_record_def by blast
  then have 3: "\<exists>is. interactions_in sid (se_interactions r) s = Inr is \<and> map ix_id is = se_interactions r"
    using domain_interactions_ids maps(2) by (auto simp: interactions_in_def)
  obtain as where as: "map_res (\<lambda>(aid, raw). decode_answer_entry aid raw) (session_answers sid (sm_answers m)) = Inr as"
    "mset (map ar_run as) = mset (se_runs r)" using r(3) by (auto simp: valid_record_def)
  have len: "length as = length (se_runs r)" using as(2) by (metis length_map mset_eq_length)
  have runs: "list_all (\<lambda>a. ar_run a \<in> set (se_runs r)) as" using mset_eq_setD [OF as(2)] by (auto simp: list_all_iff)
  have "list_all (is_object \<circ> snd) (sm_answers m)"
    using assms(1,2) by (fastforce simp: sessions_valid_def list_all_iff answer_linked_iff)
  then have 4: "answers_in sid (se_runs r) s = Inr (sort_key (\<lambda>a. run_position (se_runs r) (ar_run a)) as)"
    using as(1) len runs maps(3) by (simp add: answers_in_def)
  have 5: "map ar_run (sort_key (\<lambda>a. run_position (se_runs r) (ar_run a)) as) = se_runs r"
    using sort_runs [OF _ as(2)] ok(1) by (simp add: record_ok_def lifecycle_ok_def)
  show thesis using that [OF 1 ok(2,3) 2 _ 3 4 5] r(1,2) by (simp add: entry_reads_def)
qed

section \<open>The queries on the store\<close>

text \<open>The stored summary counts another number of interactions than the session has.\<close>

definition stale_summary :: "json_object \<Rightarrow> string \<Rightarrow> bool" where
  "stale_summary s sid =
     (case (session_maps s, sessions_of s sid) of
        (Inr m, Some a) \<Rightarrow>
          (case jget (sm_sessions m) sid of
             JObj raw \<Rightarrow>
               (case view_summary (jget raw ''continuation_summary'') of
                  Inr (Some c) \<Rightarrow> cs_count c \<noteq> int (length (ss_interactions a))
                | _ \<Rightarrow> False)
           | _ \<Rightarrow> False)
      | _ \<Rightarrow> False)"

lemma load_course_idle:
  assumes "course_state repository_registry db c s"
  shows "\<exists>p. projection_of False repository_registry db c = Inr (p, db) \<and> proj_state p = canon_obj s \<and> proj_course p = c \<and>
    view_projection repository_registry idle c (k, db) = (Inr (canon_obj s), Suc k, db)"
proof -
  obtain es q where q: "stream_ok repository_registry db c es" "replay repository_registry c es = Inr q" "proj_state q = s"
    using assms by (auto simp: course_state_def)
  show ?thesis using repo.projection_of_ok [OF q(1,2), of False] q(3)
    by (simp add: view_projection_def load_course_def cmd_bind_def cmd_lift_def access_def)
qed

lemma course_state_valid:
  assumes "store_ok repository_registry db" and "course_state repository_registry db c s"
  shows "sessions_valid c (canon_obj s)"
proof -
  obtain es q where q: "stream_ok repository_registry db c es" "replay repository_registry c es = Inr q" "proj_state q = s"
    using assms(2) by (auto simp: course_state_def)
  have "sessions_valid c (proj_state q)"
    using repo.fold_persistent [OF sessions_valid_persistent q(2) [unfolded replay_def]] repo.stream_ok_wf [OF q(1)] sessions_valid_empty
    by (simp add: initial_projection_def wf_state_def)
  then show ?thesis using sessions_valid_canon repo.course_state_wf [OF assms(2)] q(3) by blast
qed

lemma view_queries_idle:
  assumes "view_projection repository_registry idle c (k, db) = (Inr s, Suc k, db)"
    and "view_projection repository_registry idle c (Suc k, db) = (Inr s, Suc (Suc k), db)"
  shows "get_session repository_registry idle c sid (k, db) = (session_in c sid s, Suc k, db)"
    and "session_in c sid s = Inr r \<Longrightarrow> view_interactions repository_registry idle c sid (k, db) = (interactions_in sid (se_interactions r) s, Suc (Suc k), db)"
    and "session_in c sid s = Inr r \<Longrightarrow> view_answers repository_registry idle c sid (k, db) = (answers_in sid (se_runs r) s, Suc (Suc k), db)"
  using assms by (simp_all add: get_session_def view_interactions_def view_answers_def cmd_bind_def cmd_lift_def)

text \<open>C32. The reader answers exactly in every reachable database: a session that was never started is not found; a
  started one is read with its status, interactions and runs, its interactions and its answers are all there, in the
  order of the session, unless the stored summary counts another number of interactions than there are, in which
  case the record cannot be built and the reader raises.\<close>

theorem session_view_exact:
  assumes "reachable repository_registry db"
  shows "\<exists>p. projection_of False repository_registry db c = Inr (p, db) \<and>
    (case sessions_of (proj_state p) sid of
       None \<Rightarrow> get_session repository_registry idle c sid (k, db) = (Inl (SessionNotFoundError c sid), Suc k, db)
     | Some a \<Rightarrow>
         if stale_summary (proj_state p) sid
         then get_session repository_registry idle c sid (k, db) = (Inl ValueError, Suc k, db)
         else \<exists>r is as. get_session repository_registry idle c sid (k, db) = (Inr r, Suc k, db) \<and>
           se_status r = ss_status a \<and> se_interactions r = ss_interactions a \<and> se_runs r = ss_runs a \<and>
           view_interactions repository_registry idle c sid (k, db) = (Inr is, Suc (Suc k), db) \<and> map ix_id is = ss_interactions a \<and>
           view_answers repository_registry idle c sid (k, db) = (Inr as, Suc (Suc k), db) \<and> map ar_run as = ss_runs a)"
proof -
  have ok: "store_ok repository_registry db" by (rule repo.reachable_store_ok [OF assms])
  obtain s where s: "course_state repository_registry db c s" using repo.course_state_ex [OF ok] by blast
  obtain p where p: "projection_of False repository_registry db c = Inr (p, db)" "proj_state p = canon_obj s"
    using load_course_idle [OF s] by blast
  have load: "view_projection repository_registry idle c (j, db) = (Inr (canon_obj s), Suc j, db)" for j
    using load_course_idle [OF s, of j] by blast
  note queries = view_queries_idle [OF load load]
  have valid: "sessions_valid c (canon_obj s)" by (rule course_state_valid [OF ok s])
  then obtain m where m: "session_maps (canon_obj s) = Inr m" by (auto simp: sessions_valid_def)
  show ?thesis
  proof (cases "map_of (sm_sessions m) sid")
    case None
    then have "sessions_of (canon_obj s) sid = None" "jget (sm_sessions m) sid = JNull"
      using sessions_of_maps [OF m, of sid] by (simp_all add: jget_def session_state_of_def)
    moreover have "mapping_value (get_default (canon_obj s) ''sessions'' (JObj [])) = Inr (sm_sessions m)"
      using m by (auto simp: session_maps_def res_bind_eq_Inr)
    ultimately have "session_in c sid (canon_obj s) = Inl (SessionNotFoundError c sid)" "sessions_of (canon_obj s) sid = None"
      by (simp_all add: session_in_def decode_session_def)
    then show ?thesis using p queries(1) by simp
  next
    case (Some v)
    obtain r as where r: "session_in c sid (canon_obj s) = (if summary_current r then Inr r else Inl ValueError)"
      "sessions_of (canon_obj s) sid = Some \<lparr>ss_status = se_status r, ss_interactions = se_interactions r, ss_runs = se_runs r\<rparr>"
      "\<exists>raw. v = JObj raw \<and> view_summary (jget raw ''continuation_summary'') = Inr (se_summary r)"
      "\<exists>is. interactions_in sid (se_interactions r) (canon_obj s) = Inr is \<and> map ix_id is = se_interactions r"
      "answers_in sid (se_runs r) (canon_obj s) = Inr as" "map ar_run as = se_runs r"
      using valid_session_read [OF valid m Some] by metis
    have "stale_summary (canon_obj s) sid \<longleftrightarrow> \<not> summary_current r"
      using r(2,3) m Some by (auto simp: stale_summary_def summary_current_def jget_def split: option.splits)
    then show ?thesis using p r queries(1) queries(2,3) [of sid r] by auto
  qed
qed
end
