(* ===== verification/Session_Service.thy ===== *)
theory Session_Service
  imports Session_Valid
begin

text \<open>
  The session commands: \<^verbatim>\<open>SessionService\<close> of \<^verbatim>\<open>src/src/study_agent/sessions/service.py\<close> and the learner turns of
  \<^verbatim>\<open>src/src/study_agent/sessions/turn_service.py\<close>, as commands over the shared store. The argument \<open>now\<close> is the reading of
  the clock.
\<close>

section \<open>Contexts, identities and events\<close>

definition context_session :: "exec_context \<Rightarrow> string result" where
  "context_session ctx = (case ctx_session ctx of None \<Rightarrow> Inl SessionCommandError | Some sid \<Rightarrow> Inr sid)"

definition session_digest :: "string \<Rightarrow> string \<Rightarrow> string \<Rightarrow> string \<Rightarrow> string" where
  "session_digest c sid identity purpose = joined_digest [c, sid, identity, purpose]"

definition command_event_id :: "exec_context \<Rightarrow> string \<Rightarrow> string result" where
  "command_event_id ctx purpose =
     res_bind (context_session ctx) (\<lambda>sid.
       mk_identifier (''event-sha256:'' @ session_digest (ctx_course ctx) sid (ctx_correlation ctx) purpose))"

text \<open>The last sequence of a stream, which has to be contiguous.\<close>

definition stream_sequence :: "string \<Rightarrow> domain_event list \<Rightarrow> int result" where
  "stream_sequence c es =
     (if es = [] then Inr 0
      else if map ev_seq es \<noteq> map (\<lambda>i. 1 + int i) [0..<length es] \<or> \<not> list_all (\<lambda>e. ev_course e = c) es
        then Inl SessionCommandError
      else Inr (ev_seq (last es)))"

definition service_sequence :: "(nat \<Rightarrow> database \<Rightarrow> database) \<Rightarrow> string \<Rightarrow> int command" where
  "service_sequence env c = cmd_bind (read_course env c) (\<lambda>es. cmd_lift (stream_sequence c es))"

definition session_domain_event ::
  "exec_context \<Rightarrow> string \<Rightarrow> json_object \<Rightarrow> int \<Rightarrow> string \<Rightarrow> datetime \<Rightarrow> string option \<Rightarrow> domain_event result" where
  "session_domain_event ctx ty payload sq eid now causation =
     res_bind (context_session ctx) (\<lambda>sid.
       mk_event \<lparr>ev_id = eid, ev_course = ctx_course ctx, ev_seq = sq, ev_type = ty, ev_version = 1,
         ev_actor = \<lparr>act_kind = ctx_kind ctx, act_principal = ctx_principal ctx\<rparr>, ev_at = now,
         ev_correlation = ctx_correlation ctx, ev_payload = payload, ev_session = Some sid, ev_causation = causation\<rparr>)"

section \<open>Reading\<close>

definition course_get :: "'p registry \<Rightarrow> (nat \<Rightarrow> database \<Rightarrow> database) \<Rightarrow> string \<Rightarrow> course_profile command" where
  "course_get reg env c = cmd_bind (load_course reg env c) (\<lambda>p. cmd_lift (course_of_projection c p))"

definition owned_session :: "'p registry \<Rightarrow> (nat \<Rightarrow> database \<Rightarrow> database) \<Rightarrow> exec_context \<Rightarrow> session_record command" where
  "owned_session reg env ctx =
     cmd_bind (cmd_lift (context_session ctx)) (\<lambda>sid.
     cmd_bind (get_session reg env (ctx_course ctx) sid) (\<lambda>session.
       cmd_lift (if se_course session \<noteq> ctx_course ctx \<or> Some (se_id session) \<noteq> ctx_session ctx then Inl SessionCommandError
         else Inr session)))"

definition active_session :: "'p registry \<Rightarrow> (nat \<Rightarrow> database \<Rightarrow> database) \<Rightarrow> exec_context \<Rightarrow> session_record command" where
  "active_session reg env ctx =
     cmd_bind (owned_session reg env ctx) (\<lambda>session.
       cmd_lift (if se_status session \<noteq> Session_ACTIVE then Inl SessionCommandError else Inr session))"

definition find_interaction :: "string \<Rightarrow> interaction_record list \<Rightarrow> interaction_record option" where
  "find_interaction iid = find (\<lambda>i. ix_id i = iid)"

text \<open>An interaction that already has the identity of the command is its result, or a conflict.\<close>

definition same_interaction :: "interaction_kind \<Rightarrow> string \<Rightarrow> interaction_record \<Rightarrow> interaction_record result" where
  "same_interaction k content existing =
     (if ix_kind existing = k \<and> ix_content existing = content then Inr existing else Inl IdempotencyConflictError)"

section \<open>Starting a session\<close>

definition start_race ::
  "'p registry \<Rightarrow> (nat \<Rightarrow> database \<Rightarrow> database) \<Rightarrow> string \<Rightarrow> string \<Rightarrow> error \<Rightarrow> session_record command" where
  "start_race reg env c sid e =
     (case e of
        SequenceConflictError _ _ _ \<Rightarrow>
          cmd_try (get_session reg env c sid)
            (\<lambda>e. cmd_lift (Inl (case e of SessionNotFoundError _ _ \<Rightarrow> RetryableSessionConflictError | _ \<Rightarrow> e)))
            (\<lambda>session. cmd_lift (Inr session))
      | _ \<Rightarrow> cmd_lift (Inl e))"

definition start_new ::
  "'p registry \<Rightarrow> (nat \<Rightarrow> database \<Rightarrow> database) \<Rightarrow> datetime \<Rightarrow> exec_context \<Rightarrow> string \<Rightarrow> session_record command" where
  "start_new reg env now ctx sid =
     cmd_bind (service_sequence env (ctx_course ctx)) (\<lambda>sq.
     cmd_bind (cmd_lift (command_event_id ctx session_started_type)) (\<lambda>eid.
     cmd_bind (cmd_lift (session_domain_event ctx session_started_type (session_started_payload sid) (sq + 1) eid now None)) (\<lambda>ev.
     cmd_try (append_course reg env (ctx_course ctx) sq [ev])
       (start_race reg env (ctx_course ctx) sid)
       (\<lambda>_. get_session reg env (ctx_course ctx) sid))))"

definition start_session ::
  "'p registry \<Rightarrow> (nat \<Rightarrow> database \<Rightarrow> database) \<Rightarrow> datetime \<Rightarrow> exec_context \<Rightarrow> session_record command" where
  "start_session reg env now ctx =
     cmd_bind (course_get reg env (ctx_course ctx)) (\<lambda>_.
     cmd_bind (cmd_lift (context_session ctx)) (\<lambda>sid.
     cmd_try (get_session reg env (ctx_course ctx) sid)
       (\<lambda>e. case e of SessionNotFoundError _ _ \<Rightarrow> start_new reg env now ctx sid | _ \<Rightarrow> cmd_lift (Inl e))
       (\<lambda>session. cmd_lift (Inr session))))"

section \<open>Lifecycle transitions\<close>

definition append_transition ::
  "'p registry \<Rightarrow> (nat \<Rightarrow> database \<Rightarrow> database) \<Rightarrow> datetime \<Rightarrow> exec_context \<Rightarrow> string \<Rightarrow> session_record command" where
  "append_transition reg env now ctx ty =
     cmd_bind (service_sequence env (ctx_course ctx)) (\<lambda>sq.
     cmd_bind (cmd_lift (command_event_id ctx ty)) (\<lambda>eid.
     cmd_bind (cmd_lift (session_domain_event ctx ty [] (sq + 1) eid now None)) (\<lambda>ev.
     cmd_bind (append_course reg env (ctx_course ctx) sq [ev]) (\<lambda>_.
     cmd_bind (cmd_lift (context_session ctx)) (\<lambda>sid.
       get_session reg env (ctx_course ctx) sid)))))"

definition session_transition ::
  "'p registry \<Rightarrow> (nat \<Rightarrow> database \<Rightarrow> database) \<Rightarrow> datetime \<Rightarrow> exec_context \<Rightarrow> string \<Rightarrow> session_status \<Rightarrow> session_status \<Rightarrow> session_record command" where
  "session_transition reg env now ctx ty expected target =
     cmd_bind (owned_session reg env ctx) (\<lambda>session.
       if se_status session = target then cmd_lift (Inr session)
       else if se_status session \<noteq> expected then cmd_lift (Inl SessionCommandError)
       else append_transition reg env now ctx ty)"

definition suspend_session :: "'p registry \<Rightarrow> (nat \<Rightarrow> database \<Rightarrow> database) \<Rightarrow> datetime \<Rightarrow> exec_context \<Rightarrow> session_record command" where
  "suspend_session reg env now ctx = session_transition reg env now ctx session_suspended_type Session_ACTIVE Session_SUSPENDED"

definition resume_session :: "'p registry \<Rightarrow> (nat \<Rightarrow> database \<Rightarrow> database) \<Rightarrow> datetime \<Rightarrow> exec_context \<Rightarrow> session_record command" where
  "resume_session reg env now ctx = session_transition reg env now ctx session_resumed_type Session_SUSPENDED Session_ACTIVE"

definition end_session :: "'p registry \<Rightarrow> (nat \<Rightarrow> database \<Rightarrow> database) \<Rightarrow> datetime \<Rightarrow> exec_context \<Rightarrow> session_record command" where
  "end_session reg env now ctx =
     cmd_bind (owned_session reg env ctx) (\<lambda>session.
       if se_status session = Session_ENDED then cmd_lift (Inr session)
       else append_transition reg env now ctx session_ended_type)"

definition session_get_context ::
  "'p registry \<Rightarrow> (nat \<Rightarrow> database \<Rightarrow> database) \<Rightarrow> exec_context \<Rightarrow> continuation_summary option command" where
  "session_get_context reg env ctx =
     cmd_bind (cmd_lift (context_session ctx)) (\<lambda>sid.
     cmd_bind (owned_session reg env ctx) (\<lambda>_. get_context reg env (ctx_course ctx) sid))"

section \<open>Notes\<close>

definition note_identity :: "exec_context \<Rightarrow> string" where
  "note_identity ctx = (case ctx_key ctx of Some k \<Rightarrow> if k \<noteq> [] then k else ctx_correlation ctx | None \<Rightarrow> ctx_correlation ctx)"

definition note_interaction_id :: "exec_context \<Rightarrow> string \<Rightarrow> string" where
  "note_interaction_id ctx sid = ''interaction-sha256:'' @ session_digest (ctx_course ctx) sid (note_identity ctx) ''note''"

text \<open>After the append has failed. The source tells a failed verification of the summary from another \<^verbatim>\<open>ValueError\<close> by the
  text of the message; messages are not modelled, so \<open>about_summary\<close> says whether it mentions the summary.\<close>

fun is_value_error :: "error \<Rightarrow> bool" where
  "is_value_error ValueError = True"
| "is_value_error EventBatchError = True"
| "is_value_error ProjectionSequenceError = True"
| "is_value_error ReducerRegistrationError = True"
| "is_value_error PayloadValidationError = True"
| "is_value_error CourseCommandError = True"
| "is_value_error CourseConflictError = True"
| "is_value_error SessionCommandError = True"
| "is_value_error IdempotencyConflictError = True"
| "is_value_error StateWritePolicyError = True"
| "is_value_error StudyContextCommandError = True"
| "is_value_error StudyContextConflictError = True"
| "is_value_error _ = False"

definition note_race ::
  "'p registry \<Rightarrow> (nat \<Rightarrow> database \<Rightarrow> database) \<Rightarrow> bool \<Rightarrow> string \<Rightarrow> string \<Rightarrow> string \<Rightarrow> string \<Rightarrow> error \<Rightarrow> interaction_record command" where
  "note_race reg env about_summary c sid iid content e =
     (case e of
        SequenceConflictError _ _ _ \<Rightarrow>
          cmd_bind (view_interactions reg env c sid) (\<lambda>current.
            (case find_interaction iid current of
               Some existing \<Rightarrow> cmd_lift (same_interaction Interaction_NOTE content existing)
             | None \<Rightarrow> cmd_lift (Inl RetryableSessionConflictError)))
      | _ \<Rightarrow> cmd_lift (Inl (if is_value_error e \<and> about_summary then RetryableSessionConflictError else e)))"

definition append_note ::
  "'p registry \<Rightarrow> (nat \<Rightarrow> database \<Rightarrow> database) \<Rightarrow> datetime \<Rightarrow> bool \<Rightarrow> exec_context \<Rightarrow> string \<Rightarrow> string \<Rightarrow> int \<Rightarrow> string \<Rightarrow> interaction_record command" where
  "append_note reg env now about_summary ctx sid content sq iid =
     cmd_bind (cmd_lift (command_event_id ctx (''note:'' @ note_identity ctx))) (\<lambda>eid.
     cmd_bind (cmd_lift (interaction_recorded_payload iid Interaction_NOTE content)) (\<lambda>payload.
     cmd_bind (cmd_lift (session_domain_event ctx interaction_recorded_type payload (sq + 1) eid now None)) (\<lambda>note_event.
     cmd_bind (view_interactions reg env (ctx_course ctx) sid) (\<lambda>current_interactions.
     cmd_bind (view_answers reg env (ctx_course ctx) sid) (\<lambda>current_answers.
     cmd_bind (cmd_lift (mk_interaction \<lparr>ix_id = iid, ix_kind = Interaction_NOTE, ix_time = now, ix_content = content,
         ix_answer = None, ix_run = None\<rparr>)) (\<lambda>note_record.
     cmd_bind (cmd_lift (build_continuation_summary (current_interactions @ [note_record])
         (map_of (map (\<lambda>a. (ar_id a, a)) (rev current_answers))))) (\<lambda>summary.
     cmd_bind (cmd_lift (command_event_id ctx (''note-summary:'' @ note_identity ctx))) (\<lambda>sid_eid.
     cmd_bind (cmd_lift (session_domain_event ctx summary_updated_type (summary_payload summary) (sq + 2) sid_eid now
         (Some (ev_id note_event)))) (\<lambda>summary_event.
     cmd_try (append_course reg env (ctx_course ctx) sq [note_event, summary_event])
       (note_race reg env about_summary (ctx_course ctx) sid iid content)
       (\<lambda>_. cmd_bind (view_interactions reg env (ctx_course ctx) sid) (\<lambda>final.
          cmd_lift (case find_interaction iid final of Some i \<Rightarrow> Inr i | None \<Rightarrow> Inl StopIteration))))))))))))"

definition record_note ::
  "'p registry \<Rightarrow> (nat \<Rightarrow> database \<Rightarrow> database) \<Rightarrow> datetime \<Rightarrow> bool \<Rightarrow> exec_context \<Rightarrow> string \<Rightarrow> interaction_record command" where
  "record_note reg env now about_summary ctx content =
     cmd_bind (service_sequence env (ctx_course ctx)) (\<lambda>sq.
     cmd_bind (active_session reg env ctx) (\<lambda>session.
     cmd_bind (cmd_lift (mk_identifier (note_interaction_id ctx (se_id session)))) (\<lambda>iid.
     cmd_bind (view_interactions reg env (ctx_course ctx) (se_id session)) (\<lambda>current.
       (case find_interaction iid current of
          Some existing \<Rightarrow> cmd_lift (same_interaction Interaction_NOTE content existing)
        | None \<Rightarrow> append_note reg env now about_summary ctx (se_id session) content sq iid)))))"

section \<open>Learner turns\<close>

definition turn_context ::
  "'p registry \<Rightarrow> (nat \<Rightarrow> database \<Rightarrow> database) \<Rightarrow> principal_kind list \<Rightarrow> exec_context \<Rightarrow> (string \<times> string \<times> session_record) command" where
  "turn_context reg env allowed ctx =
     (case (ctx_session ctx, ctx_key ctx) of
        (Some sid, Some key) \<Rightarrow>
          if ctx_kind ctx \<notin> set allowed then cmd_lift (Inl SessionCommandError)
          else
            cmd_bind (get_session reg env (ctx_course ctx) sid) (\<lambda>session.
              cmd_lift (if se_course session \<noteq> ctx_course ctx \<or> se_id session \<noteq> sid then Inl SessionCommandError
                else Inr (sid, key, session)))
      | _ \<Rightarrow> cmd_lift (Inl SessionCommandError))"

definition existing_learner ::
  "'p registry \<Rightarrow> (nat \<Rightarrow> database \<Rightarrow> database) \<Rightarrow> string \<Rightarrow> string \<Rightarrow> string \<Rightarrow> interaction_record option command" where
  "existing_learner reg env c sid iid =
     cmd_bind (view_interactions reg env c sid) (\<lambda>current. cmd_lift (Inr (find_interaction iid current)))"

definition turn_sequence :: "(nat \<Rightarrow> database \<Rightarrow> database) \<Rightarrow> string \<Rightarrow> int \<Rightarrow> unit command" where
  "turn_sequence env c expected =
     cmd_bind (read_course env c) (\<lambda>es.
       cmd_lift (if last_sequence es \<noteq> expected then Inl RetryableSessionConflictError else Inr ()))"

definition append_learner_turn ::
  "'p registry \<Rightarrow> (nat \<Rightarrow> database \<Rightarrow> database) \<Rightarrow> string \<Rightarrow> string \<Rightarrow> string \<Rightarrow> string \<Rightarrow> int \<Rightarrow> domain_event \<Rightarrow> interaction_record command" where
  "append_learner_turn reg env c sid iid content expected ev =
     cmd_try (append_course reg env c expected [ev])
       (\<lambda>e. case e of
          SequenceConflictError _ _ _ \<Rightarrow>
            cmd_bind (existing_learner reg env c sid iid) (\<lambda>raced.
              (case raced of
                 Some existing \<Rightarrow> cmd_lift (same_interaction Interaction_HUMAN content existing)
               | None \<Rightarrow> cmd_lift (Inl RetryableSessionConflictError)))
        | _ \<Rightarrow> cmd_lift (Inl e))
       (\<lambda>_. cmd_bind (existing_learner reg env c sid iid) (\<lambda>result.
          cmd_lift (case result of Some i \<Rightarrow> Inr i | None \<Rightarrow> Inl RuntimeError)))"

definition new_learner_turn ::
  "'p registry \<Rightarrow> (nat \<Rightarrow> database \<Rightarrow> database) \<Rightarrow> datetime \<Rightarrow> string \<Rightarrow> exec_context \<Rightarrow> int \<Rightarrow> string \<Rightarrow> string \<Rightarrow> session_record \<Rightarrow> interaction_record command" where
  "new_learner_turn reg env now content ctx expected sid key session =
     (let iid = learner_interaction_id_for (ctx_course ctx) sid key in
      cmd_bind (cmd_lift (if se_status session \<noteq> Session_ACTIVE then Inl SessionCommandError else Inr ())) (\<lambda>_.
      cmd_bind (turn_sequence env (ctx_course ctx) expected) (\<lambda>_.
      cmd_bind (cmd_lift (interaction_recorded_payload iid Interaction_HUMAN content)) (\<lambda>payload.
      cmd_bind (cmd_lift (session_domain_event ctx interaction_recorded_type payload (expected + 1)
          (session_turn_event_id_for (ctx_course ctx) sid key interaction_recorded_type) now None)) (\<lambda>ev.
        append_learner_turn reg env (ctx_course ctx) sid iid content expected ev)))))"

definition record_learner_turn ::
  "'p registry \<Rightarrow> (nat \<Rightarrow> database \<Rightarrow> database) \<Rightarrow> datetime \<Rightarrow> string \<Rightarrow> exec_context \<Rightarrow> int \<Rightarrow> interaction_record command" where
  "record_learner_turn reg env now content ctx expected =
     cmd_bind (turn_context reg env [HUMAN, SERVICE] ctx) (\<lambda>(sid, key, session).
     cmd_bind (cmd_lift (if expected < 0 then Inl ValueError else Inr ())) (\<lambda>_.
     cmd_bind (cmd_lift (require_text content)) (\<lambda>_.
     cmd_bind (existing_learner reg env (ctx_course ctx) sid (learner_interaction_id_for (ctx_course ctx) sid key)) (\<lambda>prior.
       (case prior of
          Some existing \<Rightarrow> cmd_lift (same_interaction Interaction_HUMAN content existing)
        | None \<Rightarrow> new_learner_turn reg env now content ctx expected sid key session)))))"

end
