(* ===== verification/Session_Safety.thy ===== *)
theory Session_Safety
  imports Session_Service
begin

text \<open>
  What the session commands ensure while others use the store: they only make steps of the store, an interaction
  they return is recorded as requested and stays, a record they return is the state of the session at that moment.
\<close>

section \<open>Queries in the middle of others' steps\<close>

lemma stream_sequence_nonneg: "stream_sequence c es = Inr n \<Longrightarrow> 0 \<le> n"
proof (cases "es = []")
  case False
  assume n: "stream_sequence c es = Inr n"
  then have seqs: "map ev_seq es = map (\<lambda>i. 1 + int i) [0..<length es]" "n = ev_seq (last es)"
    using False by (auto simp: stream_sequence_def split: if_splits)
  have "n \<in> set (map ev_seq es)" using False seqs(2) by simp
  then show ?thesis unfolding seqs(1) by auto
qed (simp add: stream_sequence_def)

context projection_contract
begin

lemma ensures_view_projection:
  assumes env: "interference reg env" and st: "stable reg P"
  shows "ensures reg P (view_projection reg env c) (\<lambda>s db. P db \<and> (\<exists>t. course_state reg db c t \<and> s = canon_obj t))"
  unfolding view_projection_def
  by (rule ensures_bind [OF ensures_load [OF env st, where Q = "\<lambda>p db. P db \<and> (\<exists>t. course_state reg db c t \<and> proj_state p = canon_obj t)"]])
    (auto intro!: ensures_lift split: if_splits)

lemma ensures_get_session:
  assumes env: "interference reg env" and st: "stable reg P"
  shows "ensures reg P (get_session reg env c sid) (\<lambda>r db. P db \<and> (\<exists>t. course_state reg db c t \<and> session_in c sid (canon_obj t) = Inr r))"
  unfolding get_session_def
  by (rule ensures_bind [OF ensures_view_projection [OF env st]]) (auto intro!: ensures_lift)

lemma ensures_view_interactions:
  assumes env: "interference reg env" and st: "stable reg P"
  shows "ensures reg P (view_interactions reg env c sid)
    (\<lambda>is db. P db \<and> (\<exists>t ids. course_state reg db c t \<and> interactions_in sid ids (canon_obj t) = Inr is))"
  unfolding view_interactions_def
proof (rule ensures_bind [OF ensures_pre [OF _ ensures_get_session [OF env st]]])
  fix r
  show "ensures reg (\<lambda>db. P db \<and> (\<exists>t. course_state reg db c t \<and> session_in c sid (canon_obj t) = Inr r))
    (cmd_bind (view_projection reg env c) (\<lambda>state. cmd_lift (interactions_in sid (se_interactions r) state)))
    (\<lambda>is db. P db \<and> (\<exists>t ids. course_state reg db c t \<and> interactions_in sid ids (canon_obj t) = Inr is))"
    by (rule ensures_pre [OF _ ensures_bind [OF ensures_view_projection [OF env st]]]) (auto intro!: ensures_lift)
qed

lemma ensures_view_answers:
  assumes env: "interference reg env" and st: "stable reg P"
  shows "ensures reg P (view_answers reg env c sid) (\<lambda>_. P)"
  unfolding view_answers_def
proof (rule ensures_bind [OF ensures_get_session [OF env st]])
  fix r
  show "ensures reg (\<lambda>db. P db \<and> (\<exists>t. course_state reg db c t \<and> session_in c sid (canon_obj t) = Inr r))
    (cmd_bind (view_projection reg env c) (\<lambda>state. cmd_lift (answers_in sid (se_runs r) state))) (\<lambda>_. P)"
    by (rule ensures_pre [OF _ ensures_bind [OF ensures_view_projection [OF env st]]]) (auto intro!: ensures_lift)
qed

lemma ensures_course_get:
  assumes env: "interference reg env" and st: "stable reg P"
  shows "ensures reg P (course_get reg env c) (\<lambda>_. P)"
  unfolding course_get_def
  by (rule ensures_bind [OF ensures_load [OF env st, where Q = "\<lambda>_. P"]]) (auto intro!: ensures_lift)

lemma ensures_service_sequence:
  assumes env: "interference reg env" and st: "stable reg P"
  shows "ensures reg P (service_sequence env c) (\<lambda>n db. P db \<and> 0 \<le> n)"
  unfolding service_sequence_def
  by (rule ensures_bind [OF ensures_read [OF env st, where Q = "\<lambda>_. P"]]) (auto intro!: ensures_lift dest: stream_sequence_nonneg)

lemma ensures_owned:
  assumes env: "interference reg env" and st: "stable reg P"
  shows "ensures reg P (owned_session reg env ctx) (\<lambda>r db. P db \<and> ctx_session ctx = Some (se_id r) \<and> se_course r = ctx_course ctx)"
  unfolding owned_session_def
proof (rule ensures_bind [OF ensures_lift [where Q = "\<lambda>_. P"]])
  fix sid
  show "ensures reg P (cmd_bind (get_session reg env (ctx_course ctx) sid) (\<lambda>session.
      cmd_lift (if se_course session \<noteq> ctx_course ctx \<or> Some (se_id session) \<noteq> ctx_session ctx then Inl SessionCommandError else Inr session)))
      (\<lambda>r db. P db \<and> ctx_session ctx = Some (se_id r) \<and> se_course r = ctx_course ctx)"
    by (rule ensures_bind [OF ensures_get_session [OF env st]]) (auto intro!: ensures_lift split: if_splits)
qed

lemma ensures_active:
  assumes env: "interference reg env" and st: "stable reg P"
  shows "ensures reg P (active_session reg env ctx) (\<lambda>r db. P db \<and> ctx_session ctx = Some (se_id r) \<and> se_course r = ctx_course ctx)"
  unfolding active_session_def
  by (rule ensures_bind [OF ensures_owned [OF env st]]) (auto intro!: ensures_lift split: if_splits)

end

section \<open>Recorded interactions\<close>

text \<open>The interaction a state holds under an identity; no event changes or removes it.\<close>

definition interaction_at :: "json_object \<Rightarrow> string \<Rightarrow> string \<Rightarrow> interaction_record result" where
  "interaction_at s sid iid = res_bind (session_maps s) (\<lambda>m. domain_interaction sid (sm_interactions m) iid)"

lemma interaction_at_Inr:
  "interaction_at s sid iid = Inr x \<longleftrightarrow> (\<exists>m. session_maps s = Inr m \<and> domain_interaction sid (sm_interactions m) iid = Inr x)"
  by (auto simp: interaction_at_def res_bind_eq_Inr)

lemma maps_write: "session_maps (write_maps s m) = Inr m"
  by (simp add: session_maps_def write_maps_def get_default_update mapping_value_def)

lemma close_interactions:
  "close_session s e sid (m, raw) = Inr s' \<Longrightarrow> interaction_at s' j i = domain_interaction j (sm_interactions m) i"
  by (auto simp: close_session_def res_bind_eq_Inr interaction_at_def maps_write)

lemma steps_interactions:
  assumes "domain_interaction j (sm_interactions m) i = Inr x"
  shows "interaction_step e p sid (m, raw) = Inr (m', raw') \<Longrightarrow> domain_interaction j (sm_interactions m') i = Inr x"
    and "answer_step turns e r sid (m, raw) = Inr (m', raw') \<Longrightarrow> domain_interaction j (sm_interactions m') i = Inr x"
    and "summary_step c sid (m, raw) = Inr (m', raw') \<Longrightarrow> domain_interaction j (sm_interactions m') i = Inr x"
    and "transition_step e allowed target stamp (m, raw) = Inr (m', raw') \<Longrightarrow> domain_interaction j (sm_interactions m') i = Inr x"
  using assms
  by (auto simp: interaction_step_def answer_step_def summary_step_def transition_step_def res_bind_eq_Inr domain_interaction_update
      split: if_splits)

lemma opened_interactions:
  assumes "interaction_at s j i = Inr x" and "open_session s e = Inr (m, sid, raw)" and "res = Inr ms" and "close_session s e sid ms = Inr s'"
    and "\<And>m' raw'. res = Inr (m', raw') \<Longrightarrow> domain_interaction j (sm_interactions m) i = Inr x \<Longrightarrow> domain_interaction j (sm_interactions m') i = Inr x"
  shows "interaction_at s' j i = Inr x"
proof -
  have "session_maps s = Inr m" using assms(2) by (auto simp: open_session_def res_bind_eq_Inr)
  then have "domain_interaction j (sm_interactions m) i = Inr x" using assms(1) by (simp add: interaction_at_def)
  then show ?thesis using assms(3-5) close_interactions by (cases ms) auto
qed

lemma repository_step_interactions:
  assumes step: "repository_step s e s'" and at: "interaction_at s j i = Inr x"
  shows "interaction_at s' j i = Inr x"
proof -
  note opened = opened_interactions [OF at]
  have frame: "interaction_at s' j i = Inr x"
    if "\<And>k. k \<in> {''sessions'', ''session_interactions'', ''session_answers''} \<Longrightarrow> map_of s' k = map_of s k"
    using session_maps_frame [of s' s] that at by (simp add: interaction_at_def)
  have transition: "interaction_at s' j i = Inr x"
    if red: "res_bind (open_session s e) (\<lambda>(m, sid, session). res_bind (transition_step e allowed target stamp (m, session)) (close_session s e sid)) = Inr s'"
    for allowed target stamp
  proof -
    obtain m sid raw ms where o: "open_session s e = Inr (m, sid, raw)" "transition_step e allowed target stamp (m, raw) = Inr ms" "close_session s e sid ms = Inr s'"
      using red by (auto simp: res_bind_eq_Inr)
    show ?thesis by (rule opened [OF o]) (rule steps_interactions(4))
  qed
  show ?thesis using step
  proof (cases rule: repository_step.cases)
    case (step_course_created p)
    then show ?thesis using course_frame by (intro frame) auto
  next
    case (step_session_started sid)
    then show ?thesis using at by (auto simp: reduce_session_started_def interaction_at_Inr res_bind_eq_Inr maps_write split: if_splits)
  next
    case (step_interaction p)
    then obtain m sid raw ms where o: "open_session s e = Inr (m, sid, raw)" "interaction_step e p sid (m, raw) = Inr ms" "close_session s e sid ms = Inr s'"
      by (auto simp: reduce_interaction_recorded_def res_bind_eq_Inr)
    show ?thesis by (rule opened [OF o]) (rule steps_interactions(1))
  next
    case (step_answer r)
    then obtain m sid raw turns ms where o: "open_session s e = Inr (m, sid, raw)" "answer_step turns e r sid (m, raw) = Inr ms" "close_session s e sid ms = Inr s'"
      by (auto simp: reduce_answer_recorded_def res_bind_eq_Inr)
    show ?thesis by (rule opened [OF o]) (rule steps_interactions(2))
  next
    case (step_turn t)
    then obtain m sid raw state' new where o: "open_session s e = Inr (m, sid, raw)" "close_session s e sid (m, raw) = Inr state'"
      "s' = AList.update ''session_assistant_turns'' new state'"
      by (auto simp: reduce_assistant_turn_recorded_def res_bind_eq_Inr split: if_splits)
    have "interaction_at state' j i = Inr x" using opened [OF o(1) refl o(2)] by simp
    moreover have "session_maps s' = session_maps state'" by (rule session_maps_frame) (auto simp: o(3) map_of_update)
    ultimately show ?thesis by (simp add: interaction_at_def)
  next
    case (step_summary c)
    then obtain m sid raw ms where o: "open_session s e = Inr (m, sid, raw)" "summary_step c sid (m, raw) = Inr ms" "close_session s e sid ms = Inr s'"
      by (auto simp: reduce_summary_updated_def res_bind_eq_Inr)
    show ?thesis by (rule opened [OF o]) (rule steps_interactions(3))
  next
    case (step_suspended u)
    then show ?thesis unfolding reduce_suspended_def by (intro transition)
  next
    case (step_resumed u)
    then show ?thesis unfolding reduce_resumed_def by (intro transition)
  next
    case (step_ended u)
    then show ?thesis unfolding reduce_ended_def by (intro transition)
  next
    case (step_recorded x)
    then show ?thesis using study_reducers_frame(1) by (intro frame) auto
  next
    case (step_retracted x)
    then show ?thesis using study_reducers_frame(2) by (intro frame) auto
  next
    case (step_resolved x)
    then show ?thesis using study_reducers_frame(3) by (intro frame) auto
  qed
qed

lemma interaction_persistent: "persistent repository_registry c (\<lambda>s. interaction_at s sid iid = Inr x)"
  unfolding persistent_def using repository_reduce repository_step_interactions by blast

lemma interaction_at_canon: "wf_json (JObj s) \<Longrightarrow> interaction_at (canon_obj s) sid iid = interaction_at s sid iid"
proof (cases "session_maps s")
  case (Inr m)
  assume wf: "wf_json (JObj s)"
  have "wf_json (JObj (sm_interactions m))" using session_maps_wf [OF wf Inr] by (simp add: wf_sparts_def)
  from domain_interaction_canon [OF this] show ?thesis
    using session_maps_canon [OF wf] Inr by (simp add: interaction_at_def canon_sparts_def)
qed (simp add: session_maps_canon interaction_at_def)

text \<open>What the reader finds under an identity is what the state holds.\<close>

lemma find_interaction_at:
  assumes "wf_json (JObj s)" and "sessions_valid c s" and "interactions_in sid ids (canon_obj s) = Inr is" and "find_interaction iid is = Some i"
  shows "ix_id i = iid \<and> interaction_at s sid iid = Inr i"
proof -
  obtain m where m: "session_maps s = Inr m" using assms(2) by (auto simp: sessions_valid_def)
  then have mc: "session_maps (canon_obj s) = Inr (canon_sparts m)" using session_maps_canon [OF assms(1)] by simp
  have i: "i \<in> set is" "ix_id i = iid"
    using assms(4) by (auto simp: find_interaction_def find_Some_iff)
  have "session_maps t = Inr n \<Longrightarrow> mapping_value (get_default t ''session_interactions'' (JObj [])) = Inr (sm_interactions n)" for t n
    by (auto simp: session_maps_def res_bind_eq_Inr)
  from this [OF mc] have "map_res (domain_interaction sid (sm_interactions (canon_sparts m))) ids = Inr is"
    using assms(3) by (simp add: interactions_in_def)
  then have "\<forall>x \<in> set is. domain_interaction sid (sm_interactions (canon_sparts m)) (ix_id x) = Inr x"
    by (induction ids arbitrary: "is") (auto simp: res_bind_eq_Inr, frule domain_interaction_id, simp)
  then have "interaction_at (canon_obj s) sid iid = Inr i" using i mc by (auto simp: interaction_at_def)
  then show ?thesis using i(2) interaction_at_canon [OF assms(1)] by simp
qed

section \<open>Events of the commands\<close>

lemma digest_text: "p \<noteq> [] \<Longrightarrow> \<not> is_space (hd p) \<Longrightarrow> is_text (p @ joined_digest parts)"
  unfolding joined_digest_def by (rule is_text_append) (simp_all add: sha256_hex_shape)

lemma command_event_id_text: "command_event_id ctx purpose = Inr eid \<Longrightarrow> is_text eid"
  by (auto simp: command_event_id_def res_bind_eq_Inr mk_identifier_Inr)

lemma session_domain_event_Inr:
  assumes "session_domain_event ctx ty payload sq eid now causation = Inr ev" and "wf_context ctx" and "is_text eid"
    and "wf_json (JObj payload)" and "text_option causation" and "valid_datetime now" and "utcoffset now = 0"
  shows "\<exists>sid. ctx_session ctx = Some sid \<and> wf_event ev \<and> is_utc ev \<and> ev = \<lparr>ev_id = eid, ev_course = ctx_course ctx, ev_seq = sq, ev_type = ty, ev_version = 1,
         ev_actor = \<lparr>act_kind = ctx_kind ctx, act_principal = ctx_principal ctx\<rparr>, ev_at = now,
         ev_correlation = ctx_correlation ctx, ev_payload = payload, ev_session = Some sid, ev_causation = causation\<rparr>"
  using assms
  by (auto simp: session_domain_event_def context_session_def res_bind_eq_Inr mk_event_Inr wf_event_def wf_context_def text_option_def is_utc_def
      split: option.splits)

text \<open>Reducing a recorded interaction makes it the one the state holds.\<close>

lemma reduce_interaction_at:
  assumes "repository_step s e s'" and "ev_type e = interaction_recorded_type" and e: "wf_event e" "is_utc e"
    and "ev_session e = Some sid" and "decode_interaction_recorded e = Inr p"
  shows "interaction_at s' sid (ir_id p) =
    Inr \<lparr>ix_id = ir_id p, ix_kind = ir_kind p, ix_time = ev_at e, ix_content = ir_content p, ix_answer = None, ix_run = None\<rparr>"
proof -
  have red: "reduce_interaction_recorded s e p = Inr s'"
    using assms(1,2,6) event_types_distinct by (cases rule: repository_step.cases) auto
  then obtain m sid' raw m' raw' where o: "open_session s e = Inr (m, sid', raw)" "interaction_step e p sid' (m, raw) = Inr (m', raw')"
    "close_session s e sid' (m', raw') = Inr s'"
    by (auto simp: reduce_interaction_recorded_def res_bind_eq_Inr)
  have sid: "sid' = sid" using o(1) assms(5) by (auto simp: open_session_def res_bind_eq_Inr dest!: find_session_Inr)
  obtain now where now: "timestamp (ev_at e) = Inr now"
    "sm_interactions m' = AList.update (ir_id p) (interaction_entry sid (ir_kind p) now (ir_content p) JNull JNull) (sm_interactions m)"
    using o(2) sid by (auto simp: interaction_step_def res_bind_eq_Inr split: if_splits)
  have texts: "is_text (ir_id p)" "is_text (ir_content p)" "ir_kind p \<noteq> Interaction_ASSISTANT" using decoded_texts(2) [OF assms(6)] by auto
  show ?thesis
    using interaction_entry_reads [OF stored_time [OF e now(1)] texts(1,2), of "ir_kind p" None None sid "sm_interactions m"] texts(3)
      close_interactions [OF o(3), of sid "ir_id p"] now(2) by (simp add: optional_json_def)
qed

section \<open>Safety of the commands\<close>

lemma course_state_sessions:
  assumes "course_state repository_registry db c s"
  shows "sessions_valid c s"
proof -
  obtain es q where q: "stream_ok repository_registry db c es" "replay repository_registry c es = Inr q" "proj_state q = s"
    using assms by (auto simp: course_state_def)
  show ?thesis
    using repo.fold_persistent [OF sessions_valid_persistent q(2) [unfolded replay_def]] repo.stream_ok_wf [OF q(1)] sessions_valid_empty q(3)
    by (simp add: initial_projection_def wf_state_def)
qed

definition holds_interaction :: "string \<Rightarrow> string \<Rightarrow> string \<Rightarrow> interaction_record \<Rightarrow> database \<Rightarrow> bool" where
  "holds_interaction c sid iid i = holds repository_registry c (\<lambda>s. interaction_at s sid iid = Inr i)"

lemma holds_interaction_stable: "stable repository_registry (holds_interaction c sid iid i)"
  unfolding holds_interaction_def by (rule repo.holds_stable [OF interaction_persistent])

lemma holds_interaction_unique: "holds_interaction c sid iid i db \<Longrightarrow> holds_interaction c sid iid j db \<Longrightarrow> i = j"
  unfolding holds_interaction_def holds_def using repo.course_state_unique by (metis sum.inject(2))

lemma ensures_find:
  assumes env: "interference repository_registry env" and st: "stable repository_registry P"
  shows "ensures repository_registry P (view_interactions repository_registry env c sid)
    (\<lambda>is db. P db \<and> (\<forall>i. find_interaction iid is = Some i \<longrightarrow> ix_id i = iid \<and> holds_interaction c sid iid i db))"
proof -
  have found: "ix_id i = iid \<and> holds_interaction c sid iid i db"
    if "course_state repository_registry db c t" "interactions_in sid ids (canon_obj t) = Inr is" "find_interaction iid is = Some i"
    for db t ids "is" i
    using find_interaction_at [OF repo.course_state_wf [OF that(1)] course_state_sessions [OF that(1)] that(2,3)] that(1)
    unfolding holds_interaction_def holds_def by blast
  show ?thesis
    using repo.ensures_view_interactions [OF env st, of c sid] found unfolding ensures_def by blast
qed

lemma stored_event_decodes:
  assumes "wf_event ev" and "is_utc ev" and "decode_interaction_recorded ev = Inr p" and "ev_type ev = interaction_recorded_type"
    and "ev_session ev = Some sid" and "apply_event repository_registry (stored ev) q0 = Inr q"
  shows "interaction_at (proj_state q) sid (ir_id p) =
    Inr \<lparr>ix_id = ir_id p, ix_kind = ir_kind p, ix_time = ev_at ev, ix_content = ir_content p, ix_answer = None, ix_run = None\<rparr>"
proof -
  have "repository_step (proj_state q0) (stored ev) (proj_state q)"
    using assms(6) repository_reduce by (auto simp: apply_event_Inr)
  from reduce_interaction_at [OF this, of sid p] show ?thesis
    using assms session_decoders_stored(2) [OF assms(1)] by simp
qed

lemma decode_interaction_payload:
  assumes "interaction_recorded_payload iid k content = Inr payload" and "is_text iid" and "is_text content"
    and "ev_type ev = interaction_recorded_type" "ev_version ev = 1" "ev_session ev = Some sid" "ev_payload ev = payload"
  shows "decode_interaction_recorded ev = Inr \<lparr>ir_id = iid, ir_kind = k, ir_content = content\<rparr>" and "wf_json (JObj payload)"
proof -
  have k: "k \<in> {Interaction_HUMAN, Interaction_NOTE}" and p: "payload = [(''interaction_id'', JStr iid), (''kind'', JStr (interaction_kind_value k)), (''content'', JStr content)]"
    using assms(1) by (auto simp: interaction_recorded_payload_def split: if_splits)
  then show "wf_json (JObj payload)" by simp
  have "interaction_kind_of (interaction_kind_value k) = Inr k" "is_text (interaction_kind_value k)"
    by (cases k; simp add: interaction_kind_of_def enum_of_def text_eval)+
  then show "decode_interaction_recorded ev = Inr \<lparr>ir_id = iid, ir_kind = k, ir_content = content\<rparr>"
    using assms k by (auto simp: decode_interaction_recorded_def session_envelope_def p object_value_def has_keys_def jget_Cons text_value_def)
qed

lemma ensures_append_interaction:
  assumes env: "interference repository_registry env" and st: "stable repository_registry P"
    and wf: "wf_event ev" "is_utc ev" and rest: "\<forall>e \<in> set es. wf_event e \<and> is_utc e"
    and ev: "decode_interaction_recorded ev = Inr \<lparr>ir_id = iid, ir_kind = k, ir_content = content\<rparr>" "ev_type ev = interaction_recorded_type" "ev_session ev = Some sid"
  shows "ensures repository_registry P (append_course repository_registry env c n (ev # es))
    (\<lambda>_ db. P db \<and> holds_interaction c sid (iid)
      \<lparr>ix_id = iid, ix_kind = k, ix_time = ev_at ev, ix_content = content, ix_answer = None, ix_run = None\<rparr> db)"
proof (rule repo.ensures_append [OF env st])
  let ?i = "\<lparr>ix_id = iid, ix_kind = k, ix_time = ev_at ev, ix_content = content, ix_answer = None, ix_run = None\<rparr>"
  show wfs: "\<forall>e \<in> set (ev # es). wf_event e \<and> is_utc e" using wf rest by simp
  fix db0 db p0 q m
  assume P: "P db" and fold: "fold_res (apply_event repository_registry) (map stored (ev # es)) p0 = Inr q"
    and p0: "course_state repository_registry db0 c (proj_state p0)" "proj_course p0 = c" and state: "course_state repository_registry db c (proj_state q)"
  obtain p1 where p1: "apply_event repository_registry (stored ev) p0 = Inr p1"
    and rest': "fold_res (apply_event repository_registry) (map stored es) p1 = Inr q" using fold by (auto simp: res_bind_eq_Inr)
  have red: "reduce repository_registry (proj_state p0) (stored ev) = Inr (proj_state p1)" "proj_course p1 = c"
    using p1 p0(2) by (auto simp: apply_event_Inr)
  have "wf_state (proj_state p1)" using repo.reduce_inv [OF _ _ red(1)] repo.course_state_wf [OF p0(1)] wf(1) by (simp add: wf_state_def del: wf_json_JObj)
  moreover have "interaction_at (proj_state p1) sid (iid) = Inr ?i" using stored_event_decodes [OF wf ev p1] by simp
  ultimately have "interaction_at (proj_state q) sid (iid) = Inr ?i"
    using repo.fold_persistent [OF interaction_persistent rest'] red(2) rest by simp
  then show "P db \<and> holds_interaction c sid (iid) ?i db"
    using P state unfolding holds_interaction_def holds_def by blast
qed

definition recorded_as :: "string \<Rightarrow> string \<Rightarrow> string \<Rightarrow> interaction_kind \<Rightarrow> string \<Rightarrow> interaction_record \<Rightarrow> database \<Rightarrow> bool" where
  "recorded_as c sid iid k content i db = (ix_id i = iid \<and> ix_kind i = k \<and> ix_content i = content \<and> holds_interaction c sid iid i db)"

lemma recorded_asE:
  "recorded_as c sid iid kind content i db \<Longrightarrow> ix_id i = iid \<and> ix_kind i = kind \<and> ix_content i = content \<and>
   (\<exists>s. course_state repository_registry db c s \<and> interaction_at s sid (ix_id i) = Inr i)"
  unfolding recorded_as_def holds_interaction_def holds_def by auto

lemma recorded_asI:
  "holds_interaction c sid iid \<lparr>ix_id = iid, ix_kind = k, ix_time = t, ix_content = content, ix_answer = None, ix_run = None\<rparr> db \<Longrightarrow>
   holds_interaction c sid iid i db \<Longrightarrow> recorded_as c sid iid k content i db"
  using holds_interaction_unique [of c sid iid i db] by (fastforce simp: recorded_as_def)

lemma ensures_same_interaction:
  "(\<And>db. P db \<Longrightarrow> ix_id i = iid \<and> holds_interaction c sid iid i db) \<Longrightarrow>
   ensures repository_registry P (cmd_lift (same_interaction k content i)) (recorded_as c sid iid k content)"
  by (rule ensures_lift) (auto simp: same_interaction_def recorded_as_def split: if_splits)

lemma ensures_existing_learner:
  assumes env: "interference repository_registry env" and st: "stable repository_registry P"
  shows "ensures repository_registry P (existing_learner repository_registry env c sid iid)
    (\<lambda>found db. P db \<and> (\<forall>i. found = Some i \<longrightarrow> ix_id i = iid \<and> holds_interaction c sid iid i db))"
  unfolding existing_learner_def by (rule repo.ensures_bind [OF ensures_find [OF env st]]) (auto intro!: ensures_lift)

lemma ensures_append_learner_turn:
  assumes env: "interference repository_registry env" and wf: "wf_event ev" "is_utc ev"
    and ev: "decode_interaction_recorded ev = Inr \<lparr>ir_id = iid, ir_kind = Interaction_HUMAN, ir_content = content\<rparr>"
      "ev_type ev = interaction_recorded_type" "ev_session ev = Some sid"
  shows "ensures repository_registry (\<lambda>_. True) (append_learner_turn repository_registry env c sid iid content n ev)
    (recorded_as c sid iid Interaction_HUMAN content)"
  unfolding append_learner_turn_def
proof (rule repo.ensures_try [OF ensures_append_interaction [OF env _ wf _ ev]])
  let ?i = "\<lparr>ix_id = iid, ix_kind = Interaction_HUMAN, ix_time = ev_at ev, ix_content = content, ix_answer = None, ix_run = None\<rparr>"
  show "ensures repository_registry (\<lambda>_. True) (case e of
      SequenceConflictError _ _ _ \<Rightarrow> cmd_bind (existing_learner repository_registry env c sid iid) (\<lambda>raced.
        (case raced of Some existing \<Rightarrow> cmd_lift (same_interaction Interaction_HUMAN content existing)
         | None \<Rightarrow> cmd_lift (Inl RetryableSessionConflictError)))
    | _ \<Rightarrow> cmd_lift (Inl e)) (recorded_as c sid iid Interaction_HUMAN content)" for e
    by (cases e) (auto intro!: ensures_lift repo.ensures_bind [OF ensures_existing_learner [OF env]] ensures_option ensures_same_interaction)
  show "ensures repository_registry (\<lambda>db. True \<and> holds_interaction c sid iid ?i db)
      (cmd_bind (existing_learner repository_registry env c sid iid) (\<lambda>result. cmd_lift (case result of Some i \<Rightarrow> Inr i | None \<Rightarrow> Inl RuntimeError)))
      (recorded_as c sid iid Interaction_HUMAN content)" for x
  proof (simp, rule repo.ensures_bind [OF ensures_existing_learner [OF env holds_interaction_stable]])
    fix found
    show "ensures repository_registry (\<lambda>db. holds_interaction c sid iid ?i db \<and>
        (\<forall>i. found = Some i \<longrightarrow> ix_id i = iid \<and> holds_interaction c sid iid i db))
      (cmd_lift (case found of None \<Rightarrow> Inl RuntimeError | Some i \<Rightarrow> Inr i)) (recorded_as c sid iid Interaction_HUMAN content)"
      by (rule ensures_lift) (auto split: option.splits intro: recorded_asI)
  qed
qed auto

lemma learner_ids: "is_text (learner_interaction_id_for c sid key)" "is_text (session_turn_event_id_for c sid key ty)"
  unfolding learner_interaction_id_for_def session_turn_event_id_for_def
  by (rule digest_text; simp add: is_space_def py_whitespace_def)+

lemma ensures_turn_context:
  assumes env: "interference repository_registry env"
  shows "ensures repository_registry (\<lambda>_. True) (turn_context repository_registry env allowed ctx)
    (\<lambda>(sid, key, r) db. ctx_session ctx = Some sid \<and> ctx_key ctx = Some key)"
  unfolding turn_context_def
  by (auto split: option.splits intro!: ensures_lift ensures_if repo.ensures_bind [OF repo.ensures_get_session [OF env]] split: if_splits)

lemma ensures_turn_sequence:
  assumes env: "interference repository_registry env" and st: "stable repository_registry P"
  shows "ensures repository_registry P (turn_sequence env c expected) (\<lambda>_. P)"
  unfolding turn_sequence_def
  by (rule repo.ensures_bind [OF repo.ensures_read [OF env st, where Q = "\<lambda>_. P"]]) (auto intro!: ensures_lift)

lemma ensures_new_learner_turn:
  assumes env: "interference repository_registry env" and wf: "wf_context ctx" "valid_datetime now" "utcoffset now = 0"
    and sess: "ctx_session ctx = Some sid" and content: "is_text content"
  shows "ensures repository_registry (\<lambda>_. True) (new_learner_turn repository_registry env now content ctx expected sid key r)
    (recorded_as (ctx_course ctx) sid (learner_interaction_id_for (ctx_course ctx) sid key) Interaction_HUMAN content)"
  unfolding new_learner_turn_def Let_def
proof (intro ensures_bind_lift repo.ensures_bind [OF ensures_turn_sequence [OF env stable_triv]])
  fix payload ev
  let ?iid = "learner_interaction_id_for (ctx_course ctx) sid key"
  assume payload: "interaction_recorded_payload ?iid Interaction_HUMAN content = Inr payload"
    and ev: "session_domain_event ctx interaction_recorded_type payload (expected + 1)
      (session_turn_event_id_for (ctx_course ctx) sid key interaction_recorded_type) now None = Inr ev"
  have json: "wf_json (JObj payload)" using payload by (auto simp: interaction_recorded_payload_def split: if_splits)
  have e: "wf_event ev" "is_utc ev" "ev_type ev = interaction_recorded_type" "ev_version ev = 1" "ev_session ev = Some sid" "ev_payload ev = payload"
    using session_domain_event_Inr [OF ev wf(1) learner_ids(2) json _ wf(2,3)] sess by (auto simp: text_option_def)
  show "ensures repository_registry (\<lambda>_. True) (append_learner_turn repository_registry env (ctx_course ctx) sid ?iid content expected ev)
      (recorded_as (ctx_course ctx) sid ?iid Interaction_HUMAN content)"
    by (rule ensures_append_learner_turn [OF env e(1,2) decode_interaction_payload(1) [OF payload learner_ids(1) content e(3-6)] e(3,5)])
qed

lemma ensures_record_learner_turn:
  assumes env: "interference repository_registry env" and wf: "wf_context ctx" "valid_datetime now" "utcoffset now = 0"
    and sess: "ctx_session ctx = Some sid" "ctx_key ctx = Some key"
  shows "ensures repository_registry (\<lambda>_. True) (record_learner_turn repository_registry env now content ctx expected)
    (recorded_as (ctx_course ctx) sid (learner_interaction_id_for (ctx_course ctx) sid key) Interaction_HUMAN content)"
    (is "ensures _ _ _ ?Q")
  unfolding record_learner_turn_def
proof (rule repo.ensures_bind [OF ensures_turn_context [OF env]], clarify, rule ensures_fact, rule ensures_bind_lift, rule ensures_bind_lift)
  fix sid' key' r u
  assume "ctx_session ctx = Some sid' \<and> ctx_key ctx = Some key'" and "require_text content = Inr u"
  then have same: "sid' = sid" "key' = key" and content: "is_text content" using sess by (simp_all add: require_text_Inr)
  show "ensures repository_registry (\<lambda>_. True)
    (cmd_bind (existing_learner repository_registry env (ctx_course ctx) sid' (learner_interaction_id_for (ctx_course ctx) sid' key')) (\<lambda>prior.
       case prior of None \<Rightarrow> new_learner_turn repository_registry env now content ctx expected sid' key' r
       | Some existing \<Rightarrow> cmd_lift (same_interaction Interaction_HUMAN content existing))) ?Q"
    unfolding same
    by (rule repo.ensures_bind [OF ensures_existing_learner [OF env stable_triv]], rule ensures_option)
      (auto intro: ensures_weaken ensures_new_learner_turn [OF env wf sess(1) content] intro!: ensures_same_interaction)
qed

lemma ensures_note_race:
  assumes env: "interference repository_registry env"
  shows "ensures repository_registry (\<lambda>_. True) (note_race repository_registry env about c sid iid content e) (recorded_as c sid iid Interaction_NOTE content)"
  unfolding note_race_def
  by (cases e) (auto intro!: ensures_lift repo.ensures_bind [OF ensures_find [OF env stable_triv]] ensures_option ensures_same_interaction)

lemma ensures_note_result:
  assumes env: "interference repository_registry env"
  shows "ensures repository_registry (\<lambda>db. True \<and> holds_interaction c sid iid
      \<lparr>ix_id = iid, ix_kind = Interaction_NOTE, ix_time = t, ix_content = content, ix_answer = None, ix_run = None\<rparr> db)
    (cmd_bind (view_interactions repository_registry env c sid) (\<lambda>final.
       cmd_lift (case find_interaction iid final of Some i \<Rightarrow> Inr i | None \<Rightarrow> Inl StopIteration)))
    (recorded_as c sid iid Interaction_NOTE content)"
  unfolding simp_thms
  by (rule repo.ensures_bind [OF ensures_find [OF env holds_interaction_stable]])
    (auto intro!: ensures_lift split: option.splits intro: recorded_asI)

lemma ensures_append_note:
  assumes env: "interference repository_registry env" and wf: "wf_context ctx" "valid_datetime now" "utcoffset now = 0"
    and sess: "ctx_session ctx = Some sid" and iid: "is_text iid"
  shows "ensures repository_registry (\<lambda>_. True) (append_note repository_registry env now about ctx sid content sq iid)
    (recorded_as (ctx_course ctx) sid iid Interaction_NOTE content)"
  unfolding append_note_def
proof (rule ensures_bind_lift, rule ensures_bind_lift, rule ensures_bind_lift,
    rule repo.ensures_bind [OF ensures_find [OF env stable_triv]], rule ensures_weaken,
    rule repo.ensures_bind [OF repo.ensures_view_answers [OF env stable_triv]], rule ensures_bind_lift, rule ensures_bind_lift, rule ensures_bind_lift, rule ensures_bind_lift)
  fix eid payload note_event current answers note_record summary eid2 summary_event
  assume eid: "command_event_id ctx (''note:'' @ note_identity ctx) = Inr eid"
    and payload: "interaction_recorded_payload iid Interaction_NOTE content = Inr payload"
    and first: "session_domain_event ctx interaction_recorded_type payload (sq + 1) eid now None = Inr note_event"
    and mk: "mk_interaction \<lparr>ix_id = iid, ix_kind = Interaction_NOTE, ix_time = now, ix_content = content, ix_answer = None, ix_run = None\<rparr> = Inr note_record"
    and eid2: "command_event_id ctx (''note-summary:'' @ note_identity ctx) = Inr eid2"
    and summary: "session_domain_event ctx summary_updated_type (summary_payload summary) (sq + 2) eid2 now (Some (ev_id note_event)) = Inr summary_event"
  have content: "is_text content" using mk by (auto simp: mk_interaction_def res_bind_eq_Inr require_text_Inr split: if_splits)
  have json: "wf_json (JObj payload)" using payload by (auto simp: interaction_recorded_payload_def split: if_splits)
  have e: "wf_event note_event" "is_utc note_event" "ev_type note_event = interaction_recorded_type" "ev_version note_event = 1"
      "ev_session note_event = Some sid" "ev_payload note_event = payload" "is_text (ev_id note_event)"
    using session_domain_event_Inr [OF first wf(1) command_event_id_text [OF eid] json _ wf(2,3)] sess command_event_id_text [OF eid]
    by (auto simp: text_option_def)
  have "wf_json (JObj (summary_payload summary))" using summary_codec.enc_wf [of summary] by (simp add: summary_payload_def)
  then have e2: "wf_event summary_event" "is_utc summary_event"
    using session_domain_event_Inr [OF summary wf(1) command_event_id_text [OF eid2] _ _ wf(2,3)] e(7) by (auto simp: text_option_def)
  show "ensures repository_registry (\<lambda>_. True)
      (cmd_try (append_course repository_registry env (ctx_course ctx) sq [note_event, summary_event])
        (note_race repository_registry env about (ctx_course ctx) sid iid content)
        (\<lambda>_. cmd_bind (view_interactions repository_registry env (ctx_course ctx) sid) (\<lambda>final.
          cmd_lift (case find_interaction iid final of None \<Rightarrow> Inl StopIteration | Some i \<Rightarrow> Inr i))))
      (recorded_as (ctx_course ctx) sid iid Interaction_NOTE content)"
    by (rule repo.ensures_try [OF ensures_append_interaction [OF env stable_triv e(1,2) _ decode_interaction_payload(1) [OF payload iid content e(3-6)] e(3,5)]
          stable_triv ensures_note_race [OF env] ensures_note_result [OF env]]) (use e2 in simp)
qed

lemma ensures_record_note:
  assumes env: "interference repository_registry env" and wf: "wf_context ctx" "valid_datetime now" "utcoffset now = 0"
    and sess: "ctx_session ctx = Some sid"
  shows "ensures repository_registry (\<lambda>_. True) (record_note repository_registry env now about ctx content)
    (recorded_as (ctx_course ctx) sid (note_interaction_id ctx sid) Interaction_NOTE content)"
  unfolding record_note_def
proof (rule repo.ensures_bind [OF repo.ensures_service_sequence [OF env stable_triv]], rule ensures_weaken,
    rule repo.ensures_bind [OF repo.ensures_active [OF env stable_triv]], unfold simp_thms, rule ensures_fact, rule ensures_bind_lift)
  fix sq r iid
  assume "ctx_session ctx = Some (se_id r) \<and> se_course r = ctx_course ctx" and "mk_identifier (note_interaction_id ctx (se_id r)) = Inr iid"
  then have r: "se_id r = sid" and iid: "iid = note_interaction_id ctx sid" "is_text iid" using sess by (auto simp: mk_identifier_Inr)
  show "ensures repository_registry (\<lambda>_. True)
      (cmd_bind (view_interactions repository_registry env (ctx_course ctx) (se_id r)) (\<lambda>current.
        case find_interaction iid current of None \<Rightarrow> append_note repository_registry env now about ctx (se_id r) content sq iid
        | Some existing \<Rightarrow> cmd_lift (same_interaction Interaction_NOTE content existing)))
      (recorded_as (ctx_course ctx) sid (note_interaction_id ctx sid) Interaction_NOTE content)"
    unfolding r iid(1) [symmetric]
    by (rule repo.ensures_bind [OF ensures_find [OF env stable_triv]], rule ensures_option)
      (auto intro: ensures_weaken ensures_append_note [OF env wf sess iid(2)] intro!: ensures_same_interaction)
qed

section \<open>Lifecycle commands\<close>

definition record_state :: "session_record \<Rightarrow> session_state" where
  "record_state r = \<lparr>ss_status = se_status r, ss_interactions = se_interactions r, ss_runs = se_runs r\<rparr>"

lemma map_res_identifier_same: "map_res mk_identifier xs = Inr ys \<Longrightarrow> ys = xs"
  by (induction xs arbitrary: ys) (auto simp: res_bind_eq_Inr mk_identifier_Inr)

lemma mk_session_record_same: "mk_session_record r = Inr r' \<Longrightarrow> r' = r"
  by (auto simp: mk_session_record_def split: if_splits option.splits)

lemma session_in_Inr:
  assumes "session_in c sid s = Inr r"
  shows "se_id r = sid \<and> se_course r = c \<and> sessions_of s sid = Some (record_state r)"
proof -
  obtain ss where ss: "get_default s ''sessions'' (JObj []) = JObj ss" "decode_session c sid (jget ss sid) = Inr r"
    using assms by (auto simp: session_in_def res_bind_eq_Inr mapping_value_Inr)
  then obtain raw where raw: "jget ss sid = JObj raw" by (auto simp: decode_session_def split: json.splits)
  obtain ids runs summary st started susp res en where d: "string_array (jget raw ''interaction_ids'') = Inr ids" "string_array (jget raw ''run_ids'') = Inr runs"
    "res_bind (view_text (jget raw ''status'')) session_status_of = Inr st"
    "r = \<lparr>se_id = sid, se_course = c, se_status = st, se_started = started, se_suspended = susp, se_resumed = res, se_ended = en,
      se_interactions = ids, se_runs = runs, se_summary = summary\<rparr>"
    using ss(2) unfolding raw decode_session_def
    by (auto simp: res_bind_eq_Inr split: if_splits dest!: map_res_identifier_same mk_session_record_same)
  have "jget raw ''status'' = JStr (session_status_value st)"
    using d(3) by (auto simp: res_bind_eq_Inr view_text_def session_status_read split: json.splits if_splits)
  then have "session_state_of (JObj raw) = Some (record_state r)" using d by (simp add: session_state_Some record_state_def)
  then show ?thesis using ss(1) raw d(4) by (simp add: sessions_of_def)
qed

lemma session_state_canon: "wf_json v \<Longrightarrow> session_state_of (canon v) = session_state_of v"
proof (cases v)
  case (JObj raw)
  assume "wf_json v"
  then have wf: "wf_json (JObj raw)" using JObj by (simp only:)
  have "session_state_of (JObj (canon_obj raw)) = Some a \<longleftrightarrow> session_state_of (JObj raw) = Some a" for a
    unfolding session_state_Some using jget_wf_canon [OF wf] by simp
  then have "session_state_of (JObj (canon_obj raw)) = session_state_of (JObj raw)" by (metis not_Some_eq)
  then show ?thesis unfolding JObj canon_JObj .
qed (simp_all add: session_state_of_def)

lemma sessions_of_canon:
  assumes "wf_json (JObj s)"
  shows "sessions_of (canon_obj s) j = sessions_of s j"
proof -
  have wf: "wf_json (get_default s ''sessions'' (JObj []))" using wf_get_default [OF assms wf_empty(1)] .
  show ?thesis
  proof (cases "get_default s ''sessions'' (JObj [])")
    case (JObj ss)
    then have ws: "wf_json (JObj ss)" using wf by (simp only:)
    then show ?thesis using JObj default_canon [OF assms, of "''sessions''"] session_state_canon [OF wf_jget [OF ws]] jget_wf_canon [OF ws]
      by (simp add: sessions_of_def canon_JObj del: wf_json_JObj canon.simps(6))
  qed (use default_canon [OF assms, of "''sessions''"] in \<open>simp_all add: sessions_of_def\<close>)
qed

text \<open>The record a command returns is the state of the session when it returns.\<close>

definition reads_session :: "string \<Rightarrow> string \<Rightarrow> session_record \<Rightarrow> database \<Rightarrow> bool" where
  "reads_session c sid r db = (se_id r = sid \<and> se_course r = c \<and>
     holds repository_registry c (\<lambda>s. sessions_of s sid = Some (record_state r)) db)"

lemma ensures_reads_session:
  assumes env: "interference repository_registry env" and st: "stable repository_registry P"
  shows "ensures repository_registry P (get_session repository_registry env c sid) (\<lambda>r db. P db \<and> reads_session c sid r db)"
proof -
  have "reads_session c sid r db" if "course_state repository_registry db c t" "session_in c sid (canon_obj t) = Inr r" for db t r
    using session_in_Inr [OF that(2)] sessions_of_canon [OF repo.course_state_wf [OF that(1)], of sid] that(1)
    unfolding reads_session_def holds_def by auto
  then show ?thesis using repo.ensures_get_session [OF env st, of c sid] unfolding ensures_def by blast
qed

lemma ensures_owned_session:
  assumes env: "interference repository_registry env" and sess: "ctx_session ctx = Some sid"
  shows "ensures repository_registry (\<lambda>_. True) (owned_session repository_registry env ctx) (\<lambda>r db. reads_session (ctx_course ctx) sid r db)"
  unfolding owned_session_def
  by (rule ensures_bind_lift, rule repo.ensures_bind [OF ensures_reads_session [OF env stable_triv]])
    (auto simp: context_session_def sess intro!: ensures_lift split: if_splits)

text \<open>An ended session stays ended.\<close>

definition session_ended :: "string \<Rightarrow> json_object \<Rightarrow> bool" where
  "session_ended sid s = (\<exists>a. sessions_of s sid = Some a \<and> ss_status a = Session_ENDED)"

lemma ended_persistent: "persistent repository_registry c (session_ended sid)"
  unfolding persistent_def session_ended_def
  using repository_reduce repository_step_next session_next_history(3) by (metis r_into_rtranclp)

lemma reduce_ended_session:
  assumes "repository_step s e s'" and "ev_type e = session_ended_type" and "ev_session e = Some sid" and "sessions_valid (ev_course e) s"
  shows "session_ended sid s'"
proof -
  obtain u where "reduce_ended s e u = Inr s'" using assms(1,2) event_types_distinct by (cases rule: repository_step.cases) auto
  then obtain m sid' raw m' raw' where o: "open_session s e = Inr (m, sid', raw)"
    "transition_step e [Session_ACTIVE, Session_SUSPENDED] Session_ENDED ''ended_at'' (m, raw) = Inr (m', raw')" "close_session s e sid' (m', raw') = Inr s'"
    by (auto simp: reduce_ended_def res_bind_eq_Inr)
  have sid: "sid' = sid" using o(1) assms(3) by (auto simp: open_session_def res_bind_eq_Inr dest!: find_session_Inr)
  obtain r latest where "entry_reads raw r latest" using open_session_valid(3) [OF assms(4) o(1)] by (auto simp: entry_valid_def)
  then have "session_state_of (JObj raw) = Some (record_state r)" by (simp add: session_state_Some entry_reads_def record_state_def)
  from transition_step_next(1) [OF o(2) this] have "session_state_of (JObj raw') = Some ((record_state r)\<lparr>ss_status := Session_ENDED\<rparr>)" by simp
  then show ?thesis using sessions_of_close [OF o(3), of sid] sid by (simp add: session_ended_def)
qed

lemma transition_event:
  assumes "session_domain_event ctx ty payload sq eid now None = Inr ev" and "command_event_id ctx purpose = Inr eid"
    and wf: "wf_context ctx" "valid_datetime now" "utcoffset now = 0" and "wf_json (JObj payload)" and "ctx_session ctx = Some sid"
  shows "wf_event ev" "is_utc ev" "ev_type ev = ty" "ev_session ev = Some sid" "ev_course ev = ctx_course ctx"
  using session_domain_event_Inr [OF assms(1) wf(1) command_event_id_text [OF assms(2)] assms(6) _ wf(2,3)] assms(7)
  by (auto simp: text_option_def)

lemma ensures_append_session:
  assumes env: "interference repository_registry env" and wf: "wf_event ev" "is_utc ev"
    and ev: "ev_session ev = Some sid" "ev_course ev = c"
  shows "ensures repository_registry (\<lambda>_. True) (append_course repository_registry env c n [ev])
    (\<lambda>_. holds repository_registry c (\<lambda>s. ev_type ev = session_ended_type \<longrightarrow> session_ended sid s))"
proof (rule repo.ensures_append [OF env stable_triv])
  show "\<forall>e \<in> set [ev]. wf_event e \<and> is_utc e" using wf by simp
  fix db0 db p q
  assume fold: "fold_res (apply_event repository_registry) (map stored [ev]) p = Inr q"
    and p: "course_state repository_registry db0 c (proj_state p)" and state: "course_state repository_registry db c (proj_state q)"
  have "repository_step (proj_state p) (stored ev) (proj_state q)"
    using fold repository_reduce by (auto simp: res_bind_eq_Inr apply_event_Inr)
  then have "ev_type ev = session_ended_type \<longrightarrow> session_ended sid (proj_state q)"
    using reduce_ended_session [of "proj_state p" "stored ev" "proj_state q" sid] ev course_state_sessions [OF p] by simp
  then show "holds repository_registry c (\<lambda>s. ev_type ev = session_ended_type \<longrightarrow> session_ended sid s) db"
    using state unfolding holds_def by blast
qed

lemma ended_implied_persistent: "persistent repository_registry c (\<lambda>s. b \<longrightarrow> session_ended sid s)"
  using ended_persistent [of c sid] by (cases b) (simp_all add: persistent_def)

text \<open>What every lifecycle command gives: the current state of the session, and an ended one from ending it.\<close>

definition lifecycle_result :: "string \<Rightarrow> string \<Rightarrow> bool \<Rightarrow> session_record \<Rightarrow> database \<Rightarrow> bool" where
  "lifecycle_result c sid ended r db = (reads_session c sid r db \<and> (ended \<longrightarrow> se_status r = Session_ENDED))"

lemma reads_ended:
  "reads_session c sid r db \<Longrightarrow> holds repository_registry c (session_ended sid) db \<Longrightarrow> se_status r = Session_ENDED"
  unfolding reads_session_def holds_def session_ended_def record_state_def using repo.course_state_unique by fastforce

lemma ensures_append_transition:
  assumes env: "interference repository_registry env" and wf: "wf_context ctx" "valid_datetime now" "utcoffset now = 0"
    and sess: "ctx_session ctx = Some sid"
  shows "ensures repository_registry (\<lambda>_. True) (append_transition repository_registry env now ctx ty)
    (lifecycle_result (ctx_course ctx) sid (ty = session_ended_type))"
  unfolding append_transition_def
proof (rule repo.ensures_bind [OF repo.ensures_service_sequence [OF env stable_triv]], rule ensures_weaken, rule ensures_bind_lift, rule ensures_bind_lift)
  fix sq eid ev
  assume eid: "command_event_id ctx ty = Inr eid" and ev: "session_domain_event ctx ty [] (sq + 1) eid now None = Inr ev"
  note e = transition_event [OF ev eid wf _ sess, simplified]
  show "ensures repository_registry (\<lambda>_. True)
      (cmd_bind (append_course repository_registry env (ctx_course ctx) sq [ev]) (\<lambda>_.
        cmd_bind (cmd_lift (context_session ctx)) (\<lambda>sid. get_session repository_registry env (ctx_course ctx) sid)))
      (lifecycle_result (ctx_course ctx) sid (ty = session_ended_type))"
  proof (rule repo.ensures_bind [OF ensures_append_session [OF env e(1,2,4,5)]], rule ensures_bind_lift)
    fix sid'
    assume "context_session ctx = Inr sid'"
    then have sid': "sid' = sid" using sess by (simp add: context_session_def)
    let ?F = "holds repository_registry (ctx_course ctx) (\<lambda>s. ev_type ev = session_ended_type \<longrightarrow> session_ended sid s)"
    have "ensures repository_registry ?F (get_session repository_registry env (ctx_course ctx) sid) (\<lambda>r db. ?F db \<and> reads_session (ctx_course ctx) sid r db)"
      by (rule ensures_reads_session [OF env repo.holds_stable [OF ended_implied_persistent]])
    moreover have "?F db \<and> reads_session (ctx_course ctx) sid r db \<Longrightarrow> lifecycle_result (ctx_course ctx) sid (ty = session_ended_type) r db" for r db
      using reads_ended [of "ctx_course ctx" sid r db] e(3) unfolding lifecycle_result_def by (auto simp: holds_def)
    ultimately show "ensures repository_registry ?F (get_session repository_registry env (ctx_course ctx) sid') (lifecycle_result (ctx_course ctx) sid (ty = session_ended_type))"
      unfolding sid' ensures_def by blast
  qed
qed

lemma ensures_transition:
  assumes env: "interference repository_registry env" and wf: "wf_context ctx" "valid_datetime now" "utcoffset now = 0"
    and sess: "ctx_session ctx = Some sid" and ty: "ty \<noteq> session_ended_type"
  shows "ensures repository_registry (\<lambda>_. True) (session_transition repository_registry env now ctx ty expected target)
    (lifecycle_result (ctx_course ctx) sid False)"
  unfolding session_transition_def
proof (rule repo.ensures_bind [OF ensures_owned_session [OF env sess]], intro ensures_if)
  fix r
  show "ensures repository_registry (reads_session (ctx_course ctx) sid r) (append_transition repository_registry env now ctx ty)
      (lifecycle_result (ctx_course ctx) sid False)"
    by (rule ensures_weaken) (use ensures_append_transition [OF env wf sess, of ty] ty in simp)
qed (auto intro!: ensures_lift simp: lifecycle_result_def)

lemma ensures_end_session:
  assumes env: "interference repository_registry env" and wf: "wf_context ctx" "valid_datetime now" "utcoffset now = 0"
    and sess: "ctx_session ctx = Some sid"
  shows "ensures repository_registry (\<lambda>_. True) (end_session repository_registry env now ctx) (lifecycle_result (ctx_course ctx) sid True)"
  unfolding end_session_def
proof (rule repo.ensures_bind [OF ensures_owned_session [OF env sess]], intro ensures_if)
  fix r
  show "ensures repository_registry (reads_session (ctx_course ctx) sid r) (append_transition repository_registry env now ctx session_ended_type)
      (lifecycle_result (ctx_course ctx) sid True)"
    by (rule ensures_weaken) (use ensures_append_transition [OF env wf sess, of session_ended_type] in simp)
qed (auto intro!: ensures_lift simp: lifecycle_result_def)

lemma ensures_session_result:
  assumes "interference repository_registry env"
  shows "ensures repository_registry P (get_session repository_registry env c sid) (lifecycle_result c sid False)"
  by (rule ensures_weaken) (use ensures_reads_session [OF assms stable_triv, of True c sid] in \<open>simp add: lifecycle_result_def [abs_def]\<close>)

lemma ensures_start_race:
  assumes env: "interference repository_registry env"
  shows "ensures repository_registry (\<lambda>_. True) (start_race repository_registry env c sid e) (lifecycle_result c sid False)"
proof -
  have "ensures repository_registry (\<lambda>_. True) (cmd_try (get_session repository_registry env c sid)
      (\<lambda>e. cmd_lift (Inl (case e of SessionNotFoundError _ _ \<Rightarrow> RetryableSessionConflictError | _ \<Rightarrow> e))) (\<lambda>session. cmd_lift (Inr session)))
      (lifecycle_result c sid False)"
    by (rule repo.ensures_try [OF ensures_session_result [OF env] stable_triv]) (auto intro: ensures_lift)
  then show ?thesis unfolding start_race_def by (cases e) (auto intro: ensures_lift)
qed

lemma ensures_start_new:
  assumes env: "interference repository_registry env" and wf: "wf_context ctx" "valid_datetime now" "utcoffset now = 0"
    and sess: "ctx_session ctx = Some sid"
  shows "ensures repository_registry (\<lambda>_. True) (start_new repository_registry env now ctx sid) (lifecycle_result (ctx_course ctx) sid False)"
  unfolding start_new_def
proof (rule repo.ensures_bind [OF repo.ensures_service_sequence [OF env stable_triv]], rule ensures_weaken, rule ensures_bind_lift, rule ensures_bind_lift)
  fix sq eid ev
  assume eid: "command_event_id ctx session_started_type = Inr eid"
    and ev: "session_domain_event ctx session_started_type (session_started_payload sid) (sq + 1) eid now None = Inr ev"
  have json: "wf_json (JObj (session_started_payload sid))" by (simp add: session_started_payload_def)
  note e = transition_event [OF ev eid wf json sess]
  show "ensures repository_registry (\<lambda>_. True)
      (cmd_try (append_course repository_registry env (ctx_course ctx) sq [ev]) (start_race repository_registry env (ctx_course ctx) sid)
        (\<lambda>_. get_session repository_registry env (ctx_course ctx) sid)) (lifecycle_result (ctx_course ctx) sid False)"
    by (rule repo.ensures_try [OF ensures_append_session [OF env e(1,2,4,5)] stable_triv ensures_start_race [OF env] ensures_session_result [OF env]])
qed

lemma ensures_start_session:
  assumes env: "interference repository_registry env" and wf: "wf_context ctx" "valid_datetime now" "utcoffset now = 0"
    and sess: "ctx_session ctx = Some sid"
  shows "ensures repository_registry (\<lambda>_. True) (start_session repository_registry env now ctx) (lifecycle_result (ctx_course ctx) sid False)"
  unfolding start_session_def
proof (rule repo.ensures_bind [OF repo.ensures_course_get [OF env stable_triv]], rule ensures_bind_lift)
  fix sid'
  assume "context_session ctx = Inr sid'"
  then have sid': "sid' = sid" using sess by (simp add: context_session_def)
  have handler: "ensures repository_registry (\<lambda>_. True)
      (case e of SessionNotFoundError _ _ \<Rightarrow> start_new repository_registry env now ctx sid | _ \<Rightarrow> cmd_lift (Inl e)) (lifecycle_result (ctx_course ctx) sid False)" for e
    using ensures_start_new [OF env wf sess] by (cases e) (auto intro: ensures_lift)
  show "ensures repository_registry (\<lambda>_. True) (cmd_try (get_session repository_registry env (ctx_course ctx) sid')
      (\<lambda>e. case e of SessionNotFoundError _ _ \<Rightarrow> start_new repository_registry env now ctx sid' | _ \<Rightarrow> cmd_lift (Inl e))
      (\<lambda>session. cmd_lift (Inr session))) (lifecycle_result (ctx_course ctx) sid False)"
    unfolding sid'
    by (rule repo.ensures_try [OF ensures_session_result [OF env] stable_triv handler]) (auto intro: ensures_lift)
qed

end
