(* ===== verification/Session_Liveness.thy ===== *)
theory Session_Liveness
  imports Session_Safety
begin

text \<open>
  What the session commands do when nobody else uses the store: an append of an event that the reducers accept succeeds,
  a session of an existing course can be started, suspended, resumed and ended, and a learner turn of an open session is
  appended; what its reader then makes of a session that has a summary.
\<close>

section \<open>Reading a session\<close>

lemma session_in_read:
  assumes "session_in c sid s = Inr r"
  obtains ss raw where "get_default s ''sessions'' (JObj []) = JObj ss" "jget ss sid = JObj raw"
    "string_array (jget raw ''interaction_ids'') = Inr (se_interactions r)"
    "view_summary (jget raw ''continuation_summary'') = Inr (se_summary r)" "summary_current r"
proof -
  obtain ss where ss: "get_default s ''sessions'' (JObj []) = JObj ss" "decode_session c sid (jget ss sid) = Inr r"
    using assms by (auto simp: session_in_def res_bind_eq_Inr mapping_value_Inr)
  then obtain raw where raw: "jget ss sid = JObj raw" by (auto simp: decode_session_def split: json.splits)
  have "string_array (jget raw ''interaction_ids'') = Inr (se_interactions r) \<and> view_summary (jget raw ''continuation_summary'') = Inr (se_summary r) \<and>
      mk_session_record r = Inr r"
    using ss(2) unfolding raw decode_session_def
    by (auto simp: res_bind_eq_Inr split: if_splits dest!: map_res_identifier_same) (frule mk_session_record_same, simp)+
  moreover have "summary_current r" if "mk_session_record r = Inr r"
    using that by (auto simp: mk_session_record_def summary_current_def split: if_splits option.splits)
  ultimately show thesis using that ss(1) raw by blast
qed

lemma value_error_session: "value_error (decode_session c sid (JObj raw))"
proof -
  have stamp: "value_error (view_stamp v)" for v
    by (cases v) (auto simp: view_stamp_def intro!: value_error_intros)
  then have required: "value_error (required_stamp v)" for v unfolding required_stamp_def by (intro value_error_intros)
  have "value_error (decode_summary v)" for v
    unfolding decode_summary_def decode_exchange_def mk_summary_def mk_exchange_def answer_status_of_def by (intro value_error_intros)
  then have summary: "value_error (view_summary v)" for v unfolding view_summary_def by (intro value_error_intros)
  have mk: "value_error (mk_session_record r)" for r unfolding mk_session_record_def by (intro value_error_intros)
  have "value_error (string_array v)" for v
    unfolding string_array_def by (intro value_error_intros) (auto simp: value_error_def split: json.splits)
  moreover have "value_error (view_text v)" for v by (auto simp: value_error_def view_text_def split: json.splits)
  ultimately show ?thesis using stamp required summary mk
    unfolding decode_session_def json.case session_status_of_def by (intro value_error_intros)
qed

section \<open>Appending succeeds\<close>

context projection_contract
begin

lemma append_succeeds:
  assumes ok: "store_ok reg db" and es: "stream_ok reg db c es" and q: "replay reg c es = Inr q"
    and e: "wf_event e" "is_utc e" "ev_course e = c" "ev_seq e = int (length es) + 1" "ev_version e = 1" and bound: "int (length es) + 1 < 2 ^ 63"
    and fresh: "ev_id e \<notin> row_event_id ` set (db_events db)"
    and red: "reduce reg (canon_obj (proj_state q)) e = Inr s"
  shows "\<exists>db'. append False reg c (int (length es)) [e] db = Inr (int (length es) + 1, db') \<and> store_step reg db db' \<and>
    stream_ok reg db' c (es @ [stored e])"
proof -
  obtain x where x: "decode reg e = Inr x" "reduce_decoded reg (canon_obj (proj_state q)) e x = Inr s"
    using red by (auto simp: reduce_def res_bind_eq_Inr)
  obtain at where at: "timestamp (ev_at e) = Inr at" using timestamp_utc e(2) by (auto simp: is_utc_def)
  then have bytes: "event_to_bytes e = Inr (canonical_json_bytes (event_envelope e at))" by (simp add: event_to_bytes_def)
  have cur: "current_sequence db c = int (length es)" by (rule stream_ok_current [OF es])
  have load: "load_projection False reg db c (int (length es)) =
      Inr (\<lparr>proj_course = c, proj_seq = int (length es), proj_state = canon_obj (proj_state q)\<rparr>, db)"
    by (rule load_projection_ok [OF es q])
  have seqs: "r \<in> set (db_events db) \<Longrightarrow> row_course r = c \<Longrightarrow> row_seq r \<le> int (length es)" for r
  proof -
    assume "r \<in> set (db_events db)" "row_course r = c"
    then have "row_seq r \<in> set (map row_seq (rows_of db c))" by (auto simp: rows_of_def)
    then show ?thesis unfolding stream_ok_seqs [OF es] by auto
  qed
  have "row_seq r \<noteq> int (length es) + 1" if "r \<in> set (db_events db)" "row_course r = c" for r using seqs [OF that] by simp
  moreover have "row_event_id r \<noteq> ev_id e" if "r \<in> set (db_events db)" for r using fresh that by (metis image_eqI)
  ultimately have "insert_event (row_of c e (canonical_json_bytes (event_envelope e at))) db =
      Inr (db\<lparr>db_events := db_events db @ [row_of c e (canonical_json_bytes (event_envelope e at))]\<rparr>)"
    using e(4,5) bound by (auto simp: insert_event_Inr row_of_def sqlite_int_def)
  then obtain db1 where ins: "insert_event (row_of c e (canonical_json_bytes (event_envelope e at))) db = Inr db1" by blast
  have "\<exists>m db'. append False reg c (int (length es)) [e] db = Inr (m, db')"
    using e x bytes cur load ins
    by (auto simp: append_def Let_def append_one_def mk_projection_def)
  then obtain m db' where app: "append False reg c (int (length es)) [e] db = Inr (m, db')" by blast
  then have "m = int (length es) + 1" using append_result by fastforce
  moreover have "store_step reg db db'" using step_append [OF app] e by simp
  moreover have "stream_ok reg db' c (es @ [stored e])"
    using append_stream [OF es _ _ app] ok e by (simp add: store_ok_def)
  ultimately show ?thesis using app by blast
qed

lemma append_used:
  assumes es: "stream_ok reg db c es" and q: "replay reg c es = Inr q"
    and e: "wf_event e" "is_utc e" "ev_course e = c" "ev_seq e = int (length es) + 1" "ev_version e = 1" and bound: "int (length es) + 1 < 2 ^ 63"
    and used: "ev_id e \<in> row_event_id ` set (db_events db)" and red: "reduce reg (canon_obj (proj_state q)) e = Inr s"
  shows "append False reg c (int (length es)) [e] db = Inl IntegrityError"
proof -
  obtain x where x: "decode reg e = Inr x" using red by (auto simp: reduce_def res_bind_eq_Inr)
  obtain at where at: "timestamp (ev_at e) = Inr at" using timestamp_utc e(2) by (auto simp: is_utc_def)
  then have bytes: "event_to_bytes e = Inr (canonical_json_bytes (event_envelope e at))" by (simp add: event_to_bytes_def)
  have "insert_event (row_of c e (canonical_json_bytes (event_envelope e at))) db = Inl IntegrityError"
    using used e(4,5) bound by (auto simp: insert_event_def row_of_def sqlite_int_def)
  then show ?thesis using e x bytes stream_ok_current [OF es] load_projection_ok [OF es q]
    by (auto simp: append_def Let_def append_one_def)
qed

end

section \<open>Starting a session succeeds\<close>

lemma view_text_canon: "view_text (canon v) = view_text v"
  by (cases v) (simp_all add: view_text_def)

lemma session_in_canon:
  assumes wf: "wf_json (JObj s)"
  shows "session_in c sid (canon_obj s) = session_in c sid s"
proof -
  have dec: "decode_session c sid (canon v) = decode_session c sid v" if "wf_json v" for v
  proof (cases v)
    case (JObj raw)
    then have wr: "wf_json (JObj raw)" using that by (simp only:)
    show ?thesis unfolding JObj canon_JObj decode_session_def json.case jget_wf_canon [OF wr] readers_canon(1,2)
        readers_canon(3) [OF wf_jget [OF wr]] by (simp add: view_text_canon)
  qed (simp_all add: decode_session_def)
  have wd: "wf_json (get_default s ''sessions'' (JObj []))" using wf_get_default [OF wf wf_empty(1)] .
  show ?thesis
  proof (cases "get_default s ''sessions'' (JObj [])")
    case (JObj ss)
    then have ws: "wf_json (JObj ss)" using wd by (simp only:)
    show ?thesis unfolding session_in_def default_canon [OF wf] mapping_value_canon JObj
      using dec [OF wf_jget [OF ws]] jget_wf_canon [OF ws] by (simp add: mapping_value_def)
  qed (simp_all add: session_in_def default_canon [OF wf] mapping_value_canon mapping_value_def)
qed

definition started_record :: "string \<Rightarrow> string \<Rightarrow> datetime \<Rightarrow> session_record" where
  "started_record c sid now = \<lparr>se_id = sid, se_course = c, se_status = Session_ACTIVE, se_started = now, se_suspended = None,
    se_resumed = None, se_ended = None, se_interactions = [], se_runs = [], se_summary = None\<rparr>"

lemma started_session_in:
  assumes "reduce_session_started s e sid = Inr s'" and e: "wf_event e" "is_utc e"
  shows "session_in (ev_course e) sid s' = Inr (started_record (ev_course e) sid (ev_at e))"
proof -
  obtain m now where m: "timestamp (ev_at e) = Inr now"
    "s' = write_maps s (m\<lparr>sm_sessions := AList.update sid (session_entry sid e now) (sm_sessions m)\<rparr>)"
    using assms(1) by (auto simp: reduce_session_started_def res_bind_eq_Inr split: if_splits)
  let ?r = "started_record (ev_course e) sid (ev_at e)"
  obtain raw where raw: "session_entry sid e now = JObj raw" "entry_reads raw ?r (ev_at e)"
    using session_entry_reads [OF e m(1), of sid] unfolding started_record_def by blast
  have "record_ok ?r (ev_at e)" by (simp add: started_record_def record_ok_def lifecycle_ok_def)
  from decode_session_ok [OF raw(2) this] have "decode_session (ev_course e) sid (JObj raw) = Inr ?r"
    by (simp add: started_record_def summary_current_def)
  then show ?thesis unfolding m(2) by (simp add: session_in_def write_maps_def get_default_update mapping_value_def jget_update raw(1))
qed

text \<open>What the accesses of a command give when nobody else uses the store.\<close>

lemma idle_accesses:
  assumes es: "stream_ok repository_registry db c es" and q: "replay repository_registry c es = Inr q"
  shows "service_sequence idle c (k, db) = (Inr (int (length es)), Suc k, db)"
    and "read_course idle c (k, db) = (Inr es, Suc k, db)"
    and "get_session repository_registry idle c sid (k, db) = (session_in c sid (proj_state q), Suc k, db)"
    and "course_get repository_registry idle c (k, db) = (fst (course_view_get repository_registry c db), Suc k, db)"
proof -
  show rd: "read_course idle c (k, db) = (Inr es, Suc k, db)"
    using stream_ok_read [OF es] by (simp add: read_course_def access_def)
  have "stream_sequence c es = Inr (int (length es))"
  proof (cases es rule: rev_cases)
    case (snoc ds e)
    then have "ev_seq e = int (length es)" "\<forall>e \<in> set es. ev_course e = c" "map ev_seq es = map (\<lambda>i. 1 + int i) [0..<length es]"
      using replay_contiguous [OF q] by auto
    then show ?thesis using snoc by (simp add: stream_sequence_def list_all_iff)
  qed (simp add: stream_sequence_def)
  then show "service_sequence idle c (k, db) = (Inr (int (length es)), Suc k, db)"
    using rd by (simp add: service_sequence_def cmd_bind_def cmd_lift_def)
  have state: "course_state repository_registry db c (proj_state q)" using es q by (auto simp: course_state_def)
  then have "view_projection repository_registry idle c (k, db) = (Inr (canon_obj (proj_state q)), Suc k, db)" using load_course_idle by blast
  then show "get_session repository_registry idle c sid (k, db) = (session_in c sid (proj_state q), Suc k, db)"
    using session_in_canon [OF repo.course_state_wf [OF state]] by (simp add: get_session_def cmd_bind_def cmd_lift_def)
  show "course_get repository_registry idle c (k, db) = (fst (course_view_get repository_registry c db), Suc k, db)"
    using repo.projection_of_ok [OF es q, of False]
    by (simp add: course_get_def load_course_def access_def cmd_bind_def cmd_lift_def course_view_get_def)
qed

lemma reduce_started_event:
  assumes "ev_type e = session_started_type" "ev_version e = 1" "decode_session_started e = Inr sid"
  shows "reduce repository_registry s e = reduce_session_started s e sid"
proof -
  have "registration_of repository_registry e = Inr (session_registration Payload_session session_payload_of Session_started started_of
      decode_session_started reduce_session_started)"
    using assms(1,2) by (simp add: registration_of_def repository_registry_def event_types)
  then show ?thesis using assms(3)
    by (simp add: reduce_def decode_def reduce_decoded_def session_registration_def erase_decoder_def erase_reducer_def)
qed

lemma reduce_interaction_event:
  assumes "ev_type e = interaction_recorded_type" "ev_version e = 1" "decode_interaction_recorded e = Inr p"
  shows "reduce repository_registry s e = reduce_interaction_recorded s e p"
proof -
  have "registration_of repository_registry e = Inr (session_registration Payload_session session_payload_of Interaction_recorded interaction_of
      decode_interaction_recorded reduce_interaction_recorded)"
    using assms(1,2) by (simp add: registration_of_def repository_registry_def event_types)
  then show ?thesis using assms(3)
    by (simp add: reduce_def decode_def reduce_decoded_def session_registration_def erase_decoder_def erase_reducer_def)
qed

text \<open>The event that starts a session the store does not hold yet, and that the reducers accept it.\<close>

lemma start_event:
  assumes ok: "store_ok repository_registry db" and state: "course_state repository_registry db (ctx_course ctx) t"
    and wf: "wf_context ctx" "valid_datetime now" "utcoffset now = 0" and sess: "ctx_session ctx = Some sid"
    and none: "session_in (ctx_course ctx) sid t = Inl (SessionNotFoundError (ctx_course ctx) sid)"
    and eid: "command_event_id ctx session_started_type = Inr eid" and sq: "1 \<le> sq"
  obtains ev s where "session_domain_event ctx session_started_type (session_started_payload sid) sq eid now None = Inr ev"
    "wf_event ev" "is_utc ev" "ev_type ev = session_started_type" "ev_version ev = 1" "ev_seq ev = sq" "ev_course ev = ctx_course ctx" "ev_id ev = eid"
    "ev_at ev = now" "decode_session_started ev = Inr sid" "reduce repository_registry (canon_obj t) ev = Inr s"
proof -
  let ?c = "ctx_course ctx"
  have json: "wf_json (JObj (session_started_payload sid))" by (simp add: session_started_payload_def)
  obtain ev where ev: "session_domain_event ctx session_started_type (session_started_payload sid) sq eid now None = Inr ev"
    using sess sq by (simp add: session_domain_event_def context_session_def mk_event_def session_started_type_def text_eval)
  have e: "wf_event ev" "is_utc ev" "ev_type ev = session_started_type" "ev_version ev = 1" "ev_seq ev = sq" "ev_session ev = Some sid"
    "ev_course ev = ?c" "ev_id ev = eid" "ev_payload ev = session_started_payload sid" "ev_at ev = now"
    using session_domain_event_Inr [OF ev wf(1) command_event_id_text [OF eid] json _ wf(2,3)] sess by (auto simp: text_option_def)
  have sid: "is_text sid" using wf(1) sess by (auto simp: wf_context_def text_option_def)
  have dec: "decode_session_started ev = Inr sid"
    using e sid by (simp add: decode_session_started_def session_envelope_def session_started_payload_def object_value_def has_keys_def jget_Cons text_value_def)
  obtain m where m: "session_maps (canon_obj t) = Inr m" "\<And>j v. map_of (sm_sessions m) j = Some v \<Longrightarrow> session_valid ?c m j v"
    using course_state_valid [OF ok state] by (auto simp: sessions_valid_def)
  have "decode_session ?c sid (jget (sm_sessions m) sid) = Inl (SessionNotFoundError ?c sid)"
    using none session_in_canon [OF repo.course_state_wf [OF state]] m(1)
    by (auto simp: session_in_def session_maps_def res_bind_eq_Inr mapping_value_def split: json.splits)
  then have "\<not> session_valid ?c m sid v" if "map_of (sm_sessions m) sid = Some v" for v
    using value_error_session [of ?c sid] that by (fastforce simp: session_valid_def jget_def value_error_def)
  then have absent: "sid \<notin> set (keys_of (sm_sessions m))"
    using m(2) by (cases "map_of (sm_sessions m) sid") (auto simp: map_of_eq_None_iff)
  obtain at where "timestamp now = Inr at" using timestamp_utc [OF wf(3)] by blast
  then have "\<exists>s. reduce_session_started (canon_obj t) ev sid = Inr s"
    using m(1) absent e(10) by (simp add: reduce_session_started_def)
  then show thesis using that ev e dec reduce_started_event [OF e(3,4) dec] by metis
qed

lemma start_idle:
  assumes ok: "store_ok repository_registry db" and es: "stream_ok repository_registry db (ctx_course ctx) es" and q: "replay repository_registry (ctx_course ctx) es = Inr q"
    and course: "has_course repository_registry db (ctx_course ctx) p" and sess: "ctx_session ctx = Some sid"
    and none: "session_in (ctx_course ctx) sid (proj_state q) = Inl (SessionNotFoundError (ctx_course ctx) sid)"
    and eid: "command_event_id ctx session_started_type = Inr eid"
    and ev: "session_domain_event ctx session_started_type (session_started_payload sid) (int (length es) + 1) eid now None = Inr ev"
  shows "start_session repository_registry idle now ctx (k, db) =
    (case append False repository_registry (ctx_course ctx) (int (length es)) [ev] db of
       Inl e \<Rightarrow> start_race repository_registry idle (ctx_course ctx) sid e (k + 4, db)
     | Inr (_, db') \<Rightarrow> get_session repository_registry idle (ctx_course ctx) sid (k + 4, db'))"
proof -
  have "course_get repository_registry idle (ctx_course ctx) (k, db) = (Inr p, Suc k, db)"
    using idle_accesses(4) [OF es q] repo_courses.view_get_iff [OF ok] course by (metis fst_conv)
  then show ?thesis using idle_accesses [OF es q] none eid ev sess
    by (auto simp: start_session_def start_new_def cmd_bind_def cmd_try_def cmd_lift_def context_session_def append_course_def access_def numeral_eq_Suc
        split: sum.splits)
qed

lemma start_fresh:
  assumes ok: "store_ok repository_registry db" and es: "stream_ok repository_registry db (ctx_course ctx) es" and q: "replay repository_registry (ctx_course ctx) es = Inr q"
    and course: "has_course repository_registry db (ctx_course ctx) p"
    and wf: "wf_context ctx" "valid_datetime now" "utcoffset now = 0" and sess: "ctx_session ctx = Some sid"
    and none: "session_in (ctx_course ctx) sid (proj_state q) = Inl (SessionNotFoundError (ctx_course ctx) sid)"
    and eid: "command_event_id ctx session_started_type = Inr eid" and bound: "int (length es) + 1 < 2 ^ 63"
  shows "if eid \<in> row_event_id ` set (db_events db) then start_session repository_registry idle now ctx (k, db) = (Inl IntegrityError, k + 4, db)
    else \<exists>db' ev. start_session repository_registry idle now ctx (k, db) = (Inr (started_record (ctx_course ctx) sid now), k + 5, db') \<and>
      store_step repository_registry db db' \<and> stream_ok repository_registry db' (ctx_course ctx) (es @ [stored ev]) \<and>
      ev_type ev = session_started_type \<and> ev_id ev = eid"
proof -
  let ?c = "ctx_course ctx"
  have state: "course_state repository_registry db ?c (proj_state q)" using es q by (auto simp: course_state_def)
  from start_event [OF ok state wf sess none eid, of "int (length es) + 1"] obtain ev s
    where ev: "session_domain_event ctx session_started_type (session_started_payload sid) (int (length es) + 1) eid now None = Inr ev"
    and e: "wf_event ev" "is_utc ev" "ev_type ev = session_started_type" "ev_version ev = 1" "ev_seq ev = int (length es) + 1" "ev_course ev = ?c" "ev_id ev = eid"
      "ev_at ev = now" and dec: "decode_session_started ev = Inr sid" and s: "reduce repository_registry (canon_obj (proj_state q)) ev = Inr s"
    by (metis add_increasing of_nat_0_le_iff order_refl)
  note run = start_idle [OF ok es q course sess none eid ev, of k]
  show ?thesis
  proof (cases "eid \<in> row_event_id ` set (db_events db)")
    case True
    then have "append False repository_registry ?c (int (length es)) [ev] db = Inl IntegrityError"
      using repo.append_used [OF es q e(1,2,6,5,4) bound _ s] e(7) by simp
    then show ?thesis using True run by (simp add: start_race_def cmd_lift_def)
  next
    case False
    with repo.append_succeeds [OF ok es q e(1,2,6,5,4) bound _ s] e(7)
    obtain db' where db': "append False repository_registry ?c (int (length es)) [ev] db = Inr (int (length es) + 1, db')"
      "store_step repository_registry db db'" "stream_ok repository_registry db' ?c (es @ [stored ev])" by auto
    obtain q' where q': "replay repository_registry ?c (es @ [stored ev]) = Inr q'" using db'(3) by (auto simp: stream_ok_def)
    then have "reduce repository_registry (proj_state q) (stored ev) = Inr (proj_state q')"
      using q by (auto simp: replay_snoc res_bind_eq_Inr apply_event_Inr)
    moreover have "decode_session_started (stored ev) = Inr sid" using dec session_decoders_stored(1) [OF e(1)] by simp
    ultimately have "reduce_session_started (proj_state q) (stored ev) sid = Inr (proj_state q')"
      using reduce_started_event [of "stored ev" sid "proj_state q"] e(3,4) by simp
    from started_session_in [OF this] have "session_in ?c sid (proj_state q') = Inr (started_record ?c sid now)" using e by simp
    then have "start_session repository_registry idle now ctx (k, db) = (Inr (started_record ?c sid now), k + 5, db')"
      using run db'(1) idle_accesses(3) [OF db'(3) q'] by (simp add: numeral_eq_Suc)
    then show ?thesis using False db'(2,3) e(3,7) by auto
  qed
qed

section \<open>A learner turn alone\<close>

text \<open>The entry behind a record the reader returns.\<close>

lemma session_in_entry:
  assumes valid: "sessions_valid c s" and "session_in c sid s = Inr r"
  obtains m raw latest where "session_maps s = Inr m" "jget (sm_sessions m) sid = JObj raw" "entry_reads raw r latest" "valid_record c m sid latest r"
    "summary_current r"
proof -
  obtain ss raw where ss: "get_default s ''sessions'' (JObj []) = JObj ss" "jget ss sid = JObj raw" "summary_current r"
    using session_in_read [OF assms(2)] by metis
  obtain m where m: "session_maps s = Inr m" "\<And>j v. map_of (sm_sessions m) j = Some v \<Longrightarrow> session_valid c m j v"
    using valid by (auto simp: sessions_valid_def)
  have sm: "sm_sessions m = ss" using m(1) ss(1) by (auto simp: session_maps_def res_bind_eq_Inr mapping_value_Inr)
  then have "map_of (sm_sessions m) sid = Some (JObj raw)" using ss(2) by (auto simp: jget_def split: option.splits)
  from m(2) [OF this] obtain r' latest where r': "entry_reads raw r' latest" "valid_record c m sid latest r'"
    by (auto simp: session_valid_def)
  then have "decode_session c sid (JObj raw) = (if summary_current r' then Inr r' else Inl ValueError)"
    using decode_session_ok [OF r'(1)] by (auto simp: valid_record_def)
  then have "r' = r" using assms(2) ss by (auto simp: session_in_def mapping_value_def split: if_splits)
  then show thesis using that m(1) sm ss r' by simp
qed

text \<open>The reducer accepts a new interaction of an active session that is not older than its last event.\<close>

definition turn_open :: "json_object \<Rightarrow> string \<Rightarrow> string \<Rightarrow> datetime \<Rightarrow> bool" where
  "turn_open s sid iid now = (\<exists>m raw latest. session_maps s = Inr m \<and> jget (sm_sessions m) sid = JObj raw \<and>
     required_stamp (jget raw ''last_event_at'') = Inr latest \<and> instant latest \<le> instant now \<and> iid \<notin> set (keys_of (sm_interactions m)))"

lemma domain_interaction_key: "domain_interaction sid is i = Inr x \<Longrightarrow> i \<in> set (keys_of is)"
  by (rule ccontr) (auto simp: domain_interaction_def jget_def map_of_eq_None_iff [THEN iffD2] split: option.splits json.splits)

lemma turn_reduces:
  assumes valid: "sessions_valid c s" and r: "session_in c sid s = Inr r" "se_status r = Session_ACTIVE" and "turn_open s sid (ir_id p) (ev_at e)"
    and e: "is_utc e" "ev_course e = c" "ev_session e = Some sid"
  shows "\<exists>s'. reduce_interaction_recorded s e p = Inr s'"
proof -
  obtain m raw latest where m: "session_maps s = Inr m" "jget (sm_sessions m) sid = JObj raw" "entry_reads raw r latest" "valid_record c m sid latest r"
    using session_in_entry [OF valid r(1)] by metis
  have new: "ir_id p \<notin> set (keys_of (sm_interactions m))" "instant latest \<le> instant (ev_at e)"
    using assms(4) m by (auto simp: turn_open_def entry_reads_def)
  then have "ir_id p \<notin> set (se_interactions r)" using m(4) domain_interaction_key unfolding valid_record_def by blast
  moreover obtain now where "timestamp (ev_at e) = Inr now" using timestamp_utc e(1) by (auto simp: is_utc_def)
  moreover have "find_session (sm_sessions m) e = Inr (sid, raw)"
    using m(2-4) e(2,3) by (auto simp: find_session_def entry_reads_def valid_record_def)
  moreover have "chronological raw e = Inr ()"
    using m(3) new(2) by (auto simp: chronological_def entry_reads_def required_stamp_Inr map_error_def)
  ultimately show ?thesis using m(1,3) r(2) new(1)
    by (simp add: reduce_interaction_recorded_def open_session_def interaction_step_def close_session_def require_active_def require_def entry_reads_def)
qed

text \<open>What the reader makes of the session afterwards.\<close>

lemma turn_record:
  assumes valid: "sessions_valid (ev_course e) s" and r: "session_in (ev_course e) sid s = Inr r"
    and red: "reduce_interaction_recorded s e p = Inr s'" and e: "wf_event e" "is_utc e" "ev_session e = Some sid" and iid: "is_text (ir_id p)"
  shows "session_in (ev_course e) sid s' =
    (if se_summary r = None then Inr (r\<lparr>se_interactions := se_interactions r @ [ir_id p]\<rparr>) else Inl ValueError)"
proof -
  let ?r = "r\<lparr>se_interactions := se_interactions r @ [ir_id p]\<rparr>"
  obtain m raw latest where m: "session_maps s = Inr m" "jget (sm_sessions m) sid = JObj raw" "entry_reads raw r latest"
    "valid_record (ev_course e) m sid latest r" "summary_current r" using session_in_entry [OF valid r] by metis
  obtain m0 sid0 raw0 m1 raw1 where o: "open_session s e = Inr (m0, sid0, raw0)" "interaction_step e p sid0 (m0, raw0) = Inr (m1, raw1)"
    "close_session s e sid0 (m1, raw1) = Inr s'"
    using red by (auto simp: reduce_interaction_recorded_def res_bind_eq_Inr)
  have same: "m0 = m" "sid0 = sid" "raw0 = raw" "chronological raw e = Inr ()"
    using o(1) m(1,2) e(3) by (auto simp: open_session_def res_bind_eq_Inr dest!: find_session_Inr)
  obtain now where step: "ir_id p \<notin> set (se_interactions r)" "timestamp (ev_at e) = Inr now"
    "raw1 = AList.update ''interaction_ids'' (text_items (se_interactions r @ [ir_id p])) raw"
    using o(2) m(3) same by (auto simp: interaction_step_def entry_reads_def res_bind_eq_Inr split: if_splits)
  let ?raw = "AList.update ''last_event_at'' (JStr now) raw1"
  have "entry_reads ?raw ?r (ev_at e)" unfolding step(3)
    by (rule entry_reads_latest [OF entry_reads_interactions [OF m(3)] stored_time [OF e(1,2) step(2)]])
  moreover have "instant latest \<le> instant (ev_at e)"
    using same(4) m(3) by (auto simp: chronological_def entry_reads_def required_stamp_Inr map_error_def split: if_splits)
  then have "record_ok ?r (ev_at e)" using record_ok_latest record_ok_speak [OF _ iid step(1)] m(4) unfolding valid_record_def by blast
  moreover have "se_id r = sid" "se_course r = ev_course e" using m(4) by (simp_all add: valid_record_def)
  ultimately have "decode_session (ev_course e) sid (JObj ?raw) = (if summary_current ?r then Inr ?r else Inl ValueError)"
    using decode_session_ok [of ?raw ?r "ev_at e"] by simp
  moreover have "session_in (ev_course e) sid s' = decode_session (ev_course e) sid (JObj ?raw)"
    using o(3) same step(2) by (auto simp: close_session_def session_in_def write_maps_def get_default_update mapping_value_def jget_update)
  moreover have "summary_current ?r \<longleftrightarrow> se_summary r = None" using m(5) by (auto simp: summary_current_def split: option.splits)
  ultimately show ?thesis by simp
qed


lemma view_interactions_idle:
  assumes "course_state repository_registry db c s"
  shows "existing_learner repository_registry idle c sid iid (k, db) =
    (case session_in c sid s of
       Inl e \<Rightarrow> (Inl e, Suc k, db)
     | Inr r \<Rightarrow> (res_bind (interactions_in sid (se_interactions r) (canon_obj s)) (\<lambda>is. Inr (find_interaction iid is)), Suc (Suc k), db))"
proof -
  have load: "view_projection repository_registry idle c (j, db) = (Inr (canon_obj s), Suc j, db)" for j
    using load_course_idle [OF assms] by blast
  show ?thesis using load session_in_canon [OF repo.course_state_wf [OF assms], of c sid]
    by (auto simp: existing_learner_def view_interactions_def get_session_def cmd_bind_def cmd_lift_def res_bind_def split: sum.splits)
qed

lemma found_interaction:
  assumes state: "course_state repository_registry db c s" and r: "session_in c sid s = Inr r"
  obtains "is" where "interactions_in sid (se_interactions r) (canon_obj s) = Inr is" and "map ix_id is = se_interactions r"
    and "find_interaction iid is = (if iid \<in> set (se_interactions r) then Some (projr (interaction_at s sid iid)) else None)"
proof -
  have wf: "wf_json (JObj s)" by (rule repo.course_state_wf [OF state])
  have valid: "sessions_valid c (canon_obj s)" using sessions_valid_canon [OF wf] course_state_sessions [OF state] by blast
  have rc: "session_in c sid (canon_obj s) = Inr r" using session_in_canon [OF wf] r by simp
  obtain m raw latest where m: "session_maps (canon_obj s) = Inr m" "jget (sm_sessions m) sid = JObj raw" using session_in_entry [OF valid rc] by metis
  then have entry: "map_of (sm_sessions m) sid = Some (JObj raw)" by (auto simp: jget_def split: option.splits)
  obtain r' where "session_in c sid (canon_obj s) = (if summary_current r' then Inr r' else Inl ValueError)"
    "\<exists>is. interactions_in sid (se_interactions r') (canon_obj s) = Inr is \<and> map ix_id is = se_interactions r'"
    using valid_session_read [OF valid m(1) entry] by metis
  then obtain "is" where is': "interactions_in sid (se_interactions r) (canon_obj s) = Inr is" "map ix_id is = se_interactions r"
    using rc by (auto split: if_splits)
  have "find_interaction iid is = (if iid \<in> set (se_interactions r) then Some (projr (interaction_at s sid iid)) else None)"
  proof (cases "find_interaction iid is")
    case None
    then have "iid \<notin> set (map ix_id is)" by (auto simp: find_interaction_def find_None_iff)
    then show ?thesis using None is'(2) by simp
  next
    case (Some i)
    then have "iid \<in> set (map ix_id is)" by (auto simp: find_interaction_def find_Some_iff)
    then show ?thesis using Some is'(2) find_interaction_at [OF wf course_state_sessions [OF state] is'(1) Some] by simp
  qed
  then show thesis using that is' by blast
qed

definition turn_result :: "string \<Rightarrow> string \<Rightarrow> datetime \<Rightarrow> interaction_record" where
  "turn_result iid content now =
     \<lparr>ix_id = iid, ix_kind = Interaction_HUMAN, ix_time = now, ix_content = content, ix_answer = None, ix_run = None\<rparr>"

lemma learner_event:
  assumes wf: "wf_context ctx" "valid_datetime now" "utcoffset now = 0" and ctx: "ctx_session ctx = Some sid" and content: "is_text content" and iid: "is_text iid" "is_text eid" and sq: "1 \<le> sq"
  obtains payload ev where "interaction_recorded_payload iid Interaction_HUMAN content = Inr payload"
    "session_domain_event ctx interaction_recorded_type payload sq eid now None = Inr ev"
    "wf_event ev" "is_utc ev" "ev_type ev = interaction_recorded_type" "ev_version ev = 1" "ev_seq ev = sq" "ev_session ev = Some sid"
    "ev_course ev = ctx_course ctx" "ev_id ev = eid" "ev_at ev = now"
    "decode_interaction_recorded ev = Inr \<lparr>ir_id = iid, ir_kind = Interaction_HUMAN, ir_content = content\<rparr>"
proof -
  obtain payload where payload: "interaction_recorded_payload iid Interaction_HUMAN content = Inr payload"
    "payload = [(''interaction_id'', JStr iid), (''kind'', JStr (interaction_kind_value Interaction_HUMAN)), (''content'', JStr content)]"
    by (simp add: interaction_recorded_payload_def)
  have json: "wf_json (JObj payload)" by (simp add: payload(2))
  obtain ev where ev: "session_domain_event ctx interaction_recorded_type payload sq eid now None = Inr ev"
    using ctx sq by (simp add: session_domain_event_def context_session_def mk_event_def interaction_recorded_type_def text_eval)
  have e: "wf_event ev" "is_utc ev" "ev_type ev = interaction_recorded_type" "ev_version ev = 1" "ev_seq ev = sq" "ev_session ev = Some sid"
    "ev_course ev = ctx_course ctx" "ev_id ev = eid" "ev_payload ev = payload" "ev_at ev = now"
    using session_domain_event_Inr [OF ev wf(1) iid(2) json _ wf(2,3)] ctx(1) by (auto simp: text_option_def)
  have "decode_interaction_recorded ev = Inr \<lparr>ir_id = iid, ir_kind = Interaction_HUMAN, ir_content = content\<rparr>"
    using e iid content
    by (simp add: decode_interaction_recorded_def session_envelope_def payload(2) object_value_def has_keys_def jget_Cons text_value_def
        interaction_kind_of_def enum_of_def text_eval)
  then show thesis using that payload(1) ev e by blast
qed

lemma course_last_sequence: "replay reg c es = Inr q \<Longrightarrow> last_sequence es = int (length es)"
proof (cases es rule: rev_cases)
  case (snoc ds e)
  assume "replay reg c es = Inr q"
  then show ?thesis using snoc replay_contiguous by (fastforce simp: last_sequence_def)
qed (simp add: last_sequence_def)

text \<open>Appending the event of an interaction: the reducers accept it, and the reader finds it unless the session has a summary.\<close>

lemma interaction_appends:
  assumes ok: "store_ok repository_registry db" and es: "stream_ok repository_registry db c es" and q: "replay repository_registry c es = Inr q"
    and e: "wf_event ev" "is_utc ev" "ev_type ev = interaction_recorded_type" "ev_version ev = 1" "ev_seq ev = int (length es) + 1" "ev_session ev = Some sid"
      "ev_course ev = c" and fresh: "ev_id ev \<notin> row_event_id ` set (db_events db)" and dec: "decode_interaction_recorded ev = Inr p"
    and r: "session_in c sid (proj_state q) = Inr r" "se_status r = Session_ACTIVE"
    and opened: "turn_open (canon_obj (proj_state q)) sid (ir_id p) (ev_at ev)" and bound: "int (length es) + 1 < 2 ^ 63"
  obtains db' q' where "append False repository_registry c (int (length es)) [ev] db = Inr (int (length es) + 1, db')"
    "store_step repository_registry db db'" "stream_ok repository_registry db' c (es @ [stored ev])"
    "replay repository_registry c (es @ [stored ev]) = Inr q'"
    "session_in c sid (proj_state q') = (if se_summary r = None then Inr (r\<lparr>se_interactions := se_interactions r @ [ir_id p]\<rparr>) else Inl ValueError)"
    "interaction_at (proj_state q') sid (ir_id p) =
      Inr \<lparr>ix_id = ir_id p, ix_kind = ir_kind p, ix_time = ev_at ev, ix_content = ir_content p, ix_answer = None, ix_run = None\<rparr>"
proof -
  have state: "course_state repository_registry db c (proj_state q)" using es q by (auto simp: course_state_def)
  have wfs: "wf_json (JObj (proj_state q))" by (rule repo.course_state_wf [OF state])
  have valid: "sessions_valid c (canon_obj (proj_state q))" using sessions_valid_canon [OF wfs course_state_sessions [OF state]] .
  have "\<exists>s. reduce_interaction_recorded (canon_obj (proj_state q)) ev p = Inr s"
    using turn_reduces [OF valid _ r(2), where p = p and e = ev] session_in_canon [OF wfs] r(1) opened e by simp
  then obtain s where "reduce repository_registry (canon_obj (proj_state q)) ev = Inr s"
    using reduce_interaction_event [OF e(3,4) dec] by auto
  from repo.append_succeeds [OF ok es q e(1,2,7,5,4) bound fresh this]
  obtain db' where db': "append False repository_registry c (int (length es)) [ev] db = Inr (int (length es) + 1, db')"
    "store_step repository_registry db db'" "stream_ok repository_registry db' c (es @ [stored ev])" by auto
  obtain q' where q': "replay repository_registry c (es @ [stored ev]) = Inr q'" using db'(3) by (auto simp: stream_ok_def)
  then have step: "reduce repository_registry (proj_state q) (stored ev) = Inr (proj_state q')"
    using q by (auto simp: replay_snoc res_bind_eq_Inr apply_event_Inr)
  have sdec: "decode_interaction_recorded (stored ev) = Inr p" using dec session_decoders_stored(2) [OF e(1)] by simp
  then have red: "reduce_interaction_recorded (proj_state q) (stored ev) p = Inr (proj_state q')"
    using reduce_interaction_event [of "stored ev" p "proj_state q"] step e(3,4) by simp
  have "session_in c sid (proj_state q') = (if se_summary r = None then Inr (r\<lparr>se_interactions := se_interactions r @ [ir_id p]\<rparr>) else Inl ValueError)"
    using turn_record [OF _ _ red] course_state_sessions [OF state] r(1) e decoded_texts(2) [OF dec] by simp
  moreover have "interaction_at (proj_state q') sid (ir_id p) =
      Inr \<lparr>ix_id = ir_id p, ix_kind = ir_kind p, ix_time = ev_at ev, ix_content = ir_content p, ix_answer = None, ix_run = None\<rparr>"
    using reduce_interaction_at [OF _ _ _ _ _ sdec] repository_reduce [OF step] e by simp
  ultimately show thesis using that db' q' by blast
qed

lemma open_turn_new:
  assumes "course_state repository_registry db c s" and "session_in c sid s = Inr r" and "turn_open (canon_obj s) sid iid now"
  shows "existing_learner repository_registry idle c sid iid (j, db) = (Inr None, Suc (Suc j), db)"
proof -
  note wf = repo.course_state_wf [OF assms(1)]
  have valid: "sessions_valid c (canon_obj s)" using sessions_valid_canon [OF wf course_state_sessions [OF assms(1)]] .
  obtain m latest where "session_maps (canon_obj s) = Inr m" "valid_record c m sid latest r"
    using session_in_entry [OF valid] session_in_canon [OF wf] assms(2) by metis
  then have "iid \<notin> set (se_interactions r)" using assms(3) domain_interaction_key unfolding valid_record_def turn_open_def by fastforce
  then obtain "is" where "interactions_in sid (se_interactions r) (canon_obj s) = Inr is" "find_interaction iid is = None"
    using found_interaction [OF assms(1,2), of iid] by auto
  then show ?thesis using view_interactions_idle [OF assms(1), of sid iid j] assms(2) by simp
qed

lemma turn_read_back:
  assumes state: "course_state repository_registry db c s" and at: "interaction_at s sid iid = Inr i"
    and r: "session_in c sid s = (if b then Inr r else Inl ValueError)" and "iid \<in> set (se_interactions r)"
  shows "existing_learner repository_registry idle c sid iid (j, db) = (if b then (Inr (Some i), Suc (Suc j), db) else (Inl ValueError, Suc j, db))"
proof (cases b)
  case True
  then have r': "session_in c sid s = Inr r" using r by simp
  then obtain "is" where "interactions_in sid (se_interactions r) (canon_obj s) = Inr is" "find_interaction iid is = Some (projr (interaction_at s sid iid))"
    using found_interaction [OF state r', of iid] assms(4) by auto
  then show ?thesis using view_interactions_idle [OF state, of sid iid j] r' at True by simp
qed (use view_interactions_idle [OF state, of sid iid j] r in simp)

lemma learner_turn_alone:
  assumes ok: "store_ok repository_registry db" and es: "stream_ok repository_registry db (ctx_course ctx) es" and q: "replay repository_registry (ctx_course ctx) es = Inr q"
    and wf: "wf_context ctx" "valid_datetime now" "utcoffset now = 0"
    and ctx: "ctx_session ctx = Some sid" "ctx_key ctx = Some key" "ctx_kind ctx \<in> {HUMAN, SERVICE}" and content: "is_text content"
    and r: "session_in (ctx_course ctx) sid (proj_state q) = Inr r" "se_status r = Session_ACTIVE"
    and opened: "turn_open (canon_obj (proj_state q)) sid (learner_interaction_id_for (ctx_course ctx) sid key) now"
    and fresh: "session_turn_event_id_for (ctx_course ctx) sid key interaction_recorded_type \<notin> row_event_id ` set (db_events db)"
    and bound: "int (length es) + 1 < 2 ^ 63"
  shows "\<exists>ev db'. record_learner_turn repository_registry idle now content ctx (int (length es)) (k, db) =
      (if se_summary r = None then (Inr (turn_result (learner_interaction_id_for (ctx_course ctx) sid key) content now), k + 7, db')
       else (Inl ValueError, k + 6, db')) \<and>
    store_step repository_registry db db' \<and> stream_ok repository_registry db' (ctx_course ctx) (es @ [stored ev]) \<and>
    ev_type ev = interaction_recorded_type \<and> get_session repository_registry idle (ctx_course ctx) sid (j, db') =
      (if se_summary r = None then Inr (r\<lparr>se_interactions := se_interactions r @ [learner_interaction_id_for (ctx_course ctx) sid key]\<rparr>)
       else Inl ValueError, Suc j, db')"
proof -
  let ?c = "ctx_course ctx"
  let ?iid = "learner_interaction_id_for ?c sid key"
  let ?eid = "session_turn_event_id_for ?c sid key interaction_recorded_type"
  have ids: "is_text ?iid" "is_text ?eid"
    unfolding learner_interaction_id_for_def session_turn_event_id_for_def
    by (rule digest_text; simp add: is_space_def py_whitespace_def)+
  from learner_event [OF wf ctx(1) content ids, of "int (length es) + 1", simplified] obtain payload ev
    where ev: "interaction_recorded_payload ?iid Interaction_HUMAN content = Inr payload"
      "session_domain_event ctx interaction_recorded_type payload (int (length es) + 1) ?eid now None = Inr ev"
    and e: "wf_event ev" "is_utc ev" "ev_type ev = interaction_recorded_type" "ev_version ev = 1" "ev_seq ev = int (length es) + 1"
      "ev_session ev = Some sid" "ev_course ev = ?c" "ev_id ev = ?eid" "ev_at ev = now"
      "decode_interaction_recorded ev = Inr \<lparr>ir_id = ?iid, ir_kind = Interaction_HUMAN, ir_content = content\<rparr>" by metis
  have new: "ev_id ev \<notin> row_event_id ` set (db_events db)"
    "turn_open (canon_obj (proj_state q)) sid (ir_id \<lparr>ir_id = ?iid, ir_kind = Interaction_HUMAN, ir_content = content\<rparr>) (ev_at ev)"
    using opened fresh e(8,9) by simp_all
  from interaction_appends [OF ok es q e(1-7) new(1) e(10) r new(2) bound, unfolded interaction_recorded.simps e(9) turn_result_def [symmetric]] obtain db' q'
    where db': "append False repository_registry ?c (int (length es)) [ev] db = Inr (int (length es) + 1, db')"
      "store_step repository_registry db db'" "stream_ok repository_registry db' ?c (es @ [stored ev])"
    and q': "replay repository_registry ?c (es @ [stored ev]) = Inr q'"
      "session_in ?c sid (proj_state q') = (if se_summary r = None then Inr (r\<lparr>se_interactions := se_interactions r @ [?iid]\<rparr>) else Inl ValueError)"
      "interaction_at (proj_state q') sid ?iid = Inr (turn_result ?iid content now)" by metis
  have state: "course_state repository_registry db ?c (proj_state q)" "course_state repository_registry db' ?c (proj_state q')"
    using es q db'(3) q'(1) by (auto simp: course_state_def)
  have "record_learner_turn repository_registry idle now content ctx (int (length es)) (k, db) =
      (if se_summary r = None then (Inr (turn_result ?iid content now), k + 7, db') else (Inl ValueError, k + 6, db'))"
    using idle_accesses(2,3) [OF es q] r course_last_sequence [OF q] open_turn_new [OF state(1) r(1) opened] turn_read_back [OF state(2) q'(3,2)]
      ctx content ev db'(1) session_in_Inr [OF r(1)]
    by (auto simp: record_learner_turn_def turn_context_def new_learner_turn_def turn_sequence_def append_learner_turn_def cmd_bind_def cmd_try_def
        cmd_lift_def append_course_def access_def numeral_eq_Suc require_text_def Let_def)
  then show ?thesis using db'(2,3) e(3) idle_accesses(3) [OF db'(3) q'(1), of sid j] q'(2) by auto
qed

lemma turn_open_canon:
  assumes wf: "wf_json (JObj s)" and "turn_open s sid iid now"
  shows "turn_open (canon_obj s) sid iid now"
proof -
  obtain m raw latest where m: "session_maps s = Inr m" "jget (sm_sessions m) sid = JObj raw"
    "required_stamp (jget raw ''last_event_at'') = Inr latest" "instant latest \<le> instant now" "iid \<notin> set (keys_of (sm_interactions m))"
    using assms(2) by (auto simp: turn_open_def)
  have ws: "wf_json (JObj (sm_sessions m))" using session_maps_wf [OF wf m(1)] by (simp add: wf_sparts_def)
  have "wf_json (JObj raw)" using wf_jget [OF ws, of sid] m(2) by (simp only:)
  then have "jget (canon_obj (sm_sessions m)) sid = JObj (canon_obj raw)" "required_stamp (jget (canon_obj raw) ''last_event_at'') = Inr latest"
    using jget_wf_canon [OF ws] jget_wf_canon [of raw] m(2,3) canon_JObj [of raw] by (auto simp: required_stamp_Inr simp del: canon.simps)
  then show ?thesis using session_maps_canon [OF wf] m(1,4,5) unfolding turn_open_def
    by (intro exI [of _ "canon_sparts m"] exI [of _ "canon_obj raw"] exI [of _ latest]) (simp add: canon_sparts_def)
qed

section \<open>A transition alone\<close>

text \<open>A transition of the lifecycle: the statuses it starts from, the one it ends in, the field it stamps, and the record after it.\<close>

definition lifecycle_move ::
  "session_status list \<Rightarrow> session_status \<Rightarrow> string \<Rightarrow> (datetime \<Rightarrow> session_record \<Rightarrow> session_record) \<Rightarrow> bool" where
  "lifecycle_move allowed target stamp f = (\<forall>t r. se_status r \<in> set allowed \<longrightarrow>
     se_id (f t r) = se_id r \<and> se_course (f t r) = se_course r \<and> (summary_current (f t r) \<longleftrightarrow> summary_current r) \<and>
     (record_ok r t \<longrightarrow> record_ok (f t r) t) \<and>
     (\<forall>raw latest now. entry_reads raw r latest \<longrightarrow> parse_timestamp now = Inr t \<longrightarrow>
        entry_reads (AList.update stamp (JStr now) (AList.update ''status'' (JStr (session_status_value target)) raw)) (f t r) latest))"

lemma summary_current_moves:
  "summary_current (r\<lparr>se_status := st, se_suspended := t\<rparr>) = summary_current r"
  "summary_current (r\<lparr>se_status := st, se_resumed := t\<rparr>) = summary_current r"
  "summary_current (r\<lparr>se_status := st, se_ended := t\<rparr>) = summary_current r"
  by (simp_all add: summary_current_def cong: option.case_cong)

lemma lifecycle_moves:
  "lifecycle_move [Session_ACTIVE] Session_SUSPENDED ''suspended_at'' (\<lambda>t r. r\<lparr>se_status := Session_SUSPENDED, se_suspended := Some t\<rparr>)"
  "lifecycle_move [Session_SUSPENDED] Session_ACTIVE ''resumed_at'' (\<lambda>t r. r\<lparr>se_status := Session_ACTIVE, se_resumed := Some t\<rparr>)"
  "lifecycle_move [Session_ACTIVE, Session_SUSPENDED] Session_ENDED ''ended_at'' (\<lambda>t r. r\<lparr>se_status := Session_ENDED, se_ended := Some t\<rparr>)"
proof -
  show "lifecycle_move [Session_ACTIVE] Session_SUSPENDED ''suspended_at'' (\<lambda>t r. r\<lparr>se_status := Session_SUSPENDED, se_suspended := Some t\<rparr>)"
    unfolding lifecycle_move_def using record_ok_transitions(1) entry_reads_transition(1) [where st = Session_SUSPENDED]
    by (auto simp: summary_current_moves simp del: session_status_value.simps)
  show "lifecycle_move [Session_SUSPENDED] Session_ACTIVE ''resumed_at'' (\<lambda>t r. r\<lparr>se_status := Session_ACTIVE, se_resumed := Some t\<rparr>)"
    unfolding lifecycle_move_def using record_ok_transitions(2) entry_reads_transition(2) [where st = Session_ACTIVE]
    by (auto simp: summary_current_moves simp del: session_status_value.simps)
  show "lifecycle_move [Session_ACTIVE, Session_SUSPENDED] Session_ENDED ''ended_at'' (\<lambda>t r. r\<lparr>se_status := Session_ENDED, se_ended := Some t\<rparr>)"
    unfolding lifecycle_move_def using record_ok_transitions(3) entry_reads_transition(3) [where st = Session_ENDED]
    by (auto simp: summary_current_moves simp del: session_status_value.simps)
qed

definition session_open :: "json_object \<Rightarrow> string \<Rightarrow> datetime \<Rightarrow> bool" where
  "session_open s sid now = (\<exists>m raw latest. session_maps s = Inr m \<and> jget (sm_sessions m) sid = JObj raw \<and>
     required_stamp (jget raw ''last_event_at'') = Inr latest \<and> instant latest \<le> instant now)"

lemma session_open_canon:
  assumes wf: "wf_json (JObj s)"
  shows "session_open (canon_obj s) sid now \<longleftrightarrow> session_open s sid now"
proof (cases "session_maps s")
  case (Inr m)
  have ws: "wf_json (JObj (sm_sessions m))" using session_maps_wf [OF wf Inr] by (simp add: wf_sparts_def)
  have "required_stamp (jget raw' ''last_event_at'') = required_stamp (jget raw ''last_event_at'')"
    if "jget (sm_sessions m) sid = JObj raw" "raw' = canon_obj raw" for raw raw'
    using wf_jget [OF ws, of sid] jget_wf_canon [of raw "''last_event_at''"] that readers_canon(2) by (simp del: wf_json_JObj)
  then show ?thesis using session_maps_canon [OF wf] Inr jget_wf_canon [OF ws, of sid]
    by (cases "jget (sm_sessions m) sid") (auto simp: session_open_def canon_sparts_def canon_JObj simp del: canon.simps(6))
qed (simp add: session_open_def session_maps_canon [OF wf])

lemma move_reduces:
  assumes valid: "sessions_valid c s" and r: "session_in c sid s = Inr r" "se_status r \<in> set allowed" and move: "lifecycle_move allowed target stamp f"
    and opened: "session_open s sid (ev_at e)" and e: "wf_event e" "is_utc e" "ev_course e = c" "ev_session e = Some sid"
  shows "\<exists>s'. res_bind (open_session s e) (\<lambda>(m, sid, session). res_bind (transition_step e allowed target stamp (m, session)) (close_session s e sid)) = Inr s' \<and>
    session_in c sid s' = Inr (f (ev_at e) r)"
proof -
  obtain m raw latest where m: "session_maps s = Inr m" "jget (sm_sessions m) sid = JObj raw" "entry_reads raw r latest" "valid_record c m sid latest r"
    "summary_current r" using session_in_entry [OF valid r(1)] by metis
  have time: "instant latest \<le> instant (ev_at e)" using opened m(1-3) by (auto simp: session_open_def entry_reads_def)
  obtain now where now: "timestamp (ev_at e) = Inr now" using timestamp_utc e(2) by (auto simp: is_utc_def)
  let ?raw = "AList.update stamp (JStr now) (AList.update ''status'' (JStr (session_status_value target)) raw)"
  have moved: "se_id (f (ev_at e) r) = sid" "se_course (f (ev_at e) r) = c" "summary_current (f (ev_at e) r)" "record_ok (f (ev_at e) r) (ev_at e)"
    "entry_reads ?raw (f (ev_at e) r) latest"
    using move r(2) m(3-5) record_ok_latest [OF _ time] stored_time [OF e(1,2) now] unfolding lifecycle_move_def valid_record_def by blast+
  have "entry_reads (AList.update ''last_event_at'' (JStr now) ?raw) (f (ev_at e) r) (ev_at e)"
    by (rule entry_reads_latest [OF moved(5) stored_time [OF e(1,2) now]])
  from decode_session_ok [OF this moved(4)]
  have dec: "decode_session c sid (JObj (AList.update ''last_event_at'' (JStr now) ?raw)) = Inr (f (ev_at e) r)" using moved by simp
  have "open_session s e = Inr (m, sid, raw)"
    using m(1-4) e(3,4) time by (auto simp: open_session_def find_session_def entry_reads_def valid_record_def chronological_def required_stamp_Inr map_error_def)
  moreover have "jget raw ''status'' \<in> set (map (JStr \<circ> session_status_value) allowed)" using m(3) r(2) by (auto simp: entry_reads_def)
  ultimately show ?thesis using now dec
    by (simp add: transition_step_def close_session_def session_in_def write_maps_def get_default_update mapping_value_def jget_update)
qed

text \<open>The reducer of an event type that makes a transition.\<close>

definition moves_by :: "string \<Rightarrow> session_status list \<Rightarrow> session_status \<Rightarrow> string \<Rightarrow> bool" where
  "moves_by ty allowed target stamp = (\<forall>s e. ev_type e = ty \<longrightarrow> ev_version e = 1 \<longrightarrow> decode_lifecycle ty e = Inr () \<longrightarrow>
     reduce repository_registry s e =
       res_bind (open_session s e) (\<lambda>(m, sid, session). res_bind (transition_step e allowed target stamp (m, session)) (close_session s e sid)))"

lemma lifecycle_reducers:
  "moves_by session_suspended_type [Session_ACTIVE] Session_SUSPENDED ''suspended_at''"
  "moves_by session_resumed_type [Session_SUSPENDED] Session_ACTIVE ''resumed_at''"
  "moves_by session_ended_type [Session_ACTIVE, Session_SUSPENDED] Session_ENDED ''ended_at''"
  unfolding moves_by_def
  by (simp_all add: reduce_def decode_def reduce_decoded_def registration_of_def repository_registry_def session_registration_def erase_decoder_def erase_reducer_def
      to_lifecycle_def event_types reduce_suspended_def reduce_resumed_def reduce_ended_def)

lemma append_transition_alone:
  assumes ok: "store_ok repository_registry db" and es: "stream_ok repository_registry db (ctx_course ctx) es" and q: "replay repository_registry (ctx_course ctx) es = Inr q"
    and wf: "wf_context ctx" "valid_datetime now" "utcoffset now = 0" and sess: "ctx_session ctx = Some sid"
    and r: "session_in (ctx_course ctx) sid (proj_state q) = Inr r" "se_status r \<in> set allowed"
    and move: "lifecycle_move allowed target stamp f" "moves_by ty allowed target stamp" "is_text ty"
    and opened: "session_open (canon_obj (proj_state q)) sid now"
    and eid: "command_event_id ctx ty = Inr eid" and fresh: "eid \<notin> row_event_id ` set (db_events db)" and bound: "int (length es) + 1 < 2 ^ 63"
  shows "\<exists>ev db'. append_transition repository_registry idle now ctx ty (k, db) = (Inr (f now r), k + 3, db') \<and>
    store_step repository_registry db db' \<and> stream_ok repository_registry db' (ctx_course ctx) (es @ [stored ev]) \<and> ev_type ev = ty \<and>
    (\<forall>j. get_session repository_registry idle (ctx_course ctx) sid (j, db') = (Inr (f now r), Suc j, db'))"
proof -
  let ?c = "ctx_course ctx"
  obtain ev where ev: "session_domain_event ctx ty [] (int (length es) + 1) eid now None = Inr ev"
    using sess move(3) by (simp add: session_domain_event_def context_session_def mk_event_def)
  have e: "wf_event ev" "is_utc ev" "ev_type ev = ty" "ev_version ev = 1" "ev_seq ev = int (length es) + 1" "ev_session ev = Some sid"
    "ev_course ev = ?c" "ev_id ev = eid" "ev_payload ev = []" "ev_at ev = now"
    using session_domain_event_Inr [OF ev wf(1) command_event_id_text [OF eid] _ _ wf(2,3)] sess by (auto simp: text_option_def)
  have dec: "decode_lifecycle ty ev = Inr ()"
    using e by (simp add: decode_lifecycle_def session_envelope_def object_value_def has_keys_def)
  then have sdec: "decode_lifecycle ty (stored ev) = Inr ()" using session_decoders_stored [OF e(1)] by simp
  have state: "course_state repository_registry db ?c (proj_state q)" using es q by (auto simp: course_state_def)
  have wfs: "wf_json (JObj (proj_state q))" by (rule repo.course_state_wf [OF state])
  have valid: "sessions_valid ?c (canon_obj (proj_state q))" using sessions_valid_canon [OF wfs course_state_sessions [OF state]] .
  have "session_in ?c sid (canon_obj (proj_state q)) = Inr r" using session_in_canon [OF wfs] r(1) by simp
  from move_reduces [OF valid this r(2) move(1), of ev] opened e(1,2,6,7,10)
  obtain s where s: "reduce repository_registry (canon_obj (proj_state q)) ev = Inr s" using move(2) e(3,4) dec unfolding moves_by_def by fastforce
  from repo.append_succeeds [OF ok es q e(1,2,7,5,4) bound _ s] fresh e(8)
  obtain db' where db': "append False repository_registry ?c (int (length es)) [ev] db = Inr (int (length es) + 1, db')"
    "store_step repository_registry db db'" "stream_ok repository_registry db' ?c (es @ [stored ev])" by auto
  obtain q' where q': "replay repository_registry ?c (es @ [stored ev]) = Inr q'" using db'(3) by (auto simp: stream_ok_def)
  then have "reduce repository_registry (proj_state q) (stored ev) = Inr (proj_state q')"
    using q by (auto simp: replay_snoc res_bind_eq_Inr apply_event_Inr)
  moreover have "session_open (proj_state q) sid now" using session_open_canon [OF wfs] opened by simp
  ultimately have after: "session_in ?c sid (proj_state q') = Inr (f now r)"
    using move_reduces [OF course_state_sessions [OF state] r move(1), of "stored ev"] e move(2) sdec unfolding moves_by_def by fastforce
  then have "append_transition repository_registry idle now ctx ty (k, db) = (Inr (f now r), k + 3, db')"
    using idle_accesses(1) [OF es q] idle_accesses(3) [OF db'(3) q'] eid ev db'(1) sess
    by (simp add: append_transition_def cmd_bind_def cmd_lift_def context_session_def append_course_def access_def numeral_eq_Suc)
  then show ?thesis using db'(2,3) e(3) idle_accesses(3) [OF db'(3) q'] after by auto
qed

lemma owned_idle:
  assumes "stream_ok repository_registry db (ctx_course ctx) es" and "replay repository_registry (ctx_course ctx) es = Inr q" and "ctx_session ctx = Some sid"
    and "session_in (ctx_course ctx) sid (proj_state q) = Inr r"
  shows "owned_session repository_registry idle ctx (k, db) = (Inr r, Suc k, db)"
  using idle_accesses(3) [OF assms(1,2)] session_in_Inr [OF assms(4)] assms(3,4)
  by (simp add: owned_session_def cmd_bind_def cmd_lift_def context_session_def)

lemma transitions_alone:
  assumes ok: "store_ok repository_registry db" and es: "stream_ok repository_registry db (ctx_course ctx) es" and q: "replay repository_registry (ctx_course ctx) es = Inr q"
    and wf: "wf_context ctx" "valid_datetime now" "utcoffset now = 0" and sess: "ctx_session ctx = Some sid"
    and r: "session_in (ctx_course ctx) sid (proj_state q) = Inr r" and opened: "session_open (canon_obj (proj_state q)) sid now"
    and fresh: "\<forall>ty eid. command_event_id ctx ty = Inr eid \<longrightarrow> eid \<notin> row_event_id ` set (db_events db)" and bound: "int (length es) + 1 < 2 ^ 63"
  shows "se_status r = Session_ACTIVE \<Longrightarrow> \<exists>db'. store_step repository_registry db db' \<and>
      suspend_session repository_registry idle now ctx (k, db) = (Inr (r\<lparr>se_status := Session_SUSPENDED, se_suspended := Some now\<rparr>), k + 4, db') \<and>
      get_session repository_registry idle (ctx_course ctx) sid (j, db') = (Inr (r\<lparr>se_status := Session_SUSPENDED, se_suspended := Some now\<rparr>), Suc j, db')"
    and "se_status r = Session_SUSPENDED \<Longrightarrow> \<exists>db'. store_step repository_registry db db' \<and>
      resume_session repository_registry idle now ctx (k, db) = (Inr (r\<lparr>se_status := Session_ACTIVE, se_resumed := Some now\<rparr>), k + 4, db') \<and>
      get_session repository_registry idle (ctx_course ctx) sid (j, db') = (Inr (r\<lparr>se_status := Session_ACTIVE, se_resumed := Some now\<rparr>), Suc j, db')"
    and "se_status r \<noteq> Session_ENDED \<Longrightarrow> \<exists>db'. store_step repository_registry db db' \<and>
      end_session repository_registry idle now ctx (k, db) = (Inr (r\<lparr>se_status := Session_ENDED, se_ended := Some now\<rparr>), k + 4, db') \<and>
      get_session repository_registry idle (ctx_course ctx) sid (j, db') = (Inr (r\<lparr>se_status := Session_ENDED, se_ended := Some now\<rparr>), Suc j, db')"
proof -
  note owned = owned_idle [OF es q sess r, of k]
  have eid: "\<exists>eid. command_event_id ctx ty = Inr eid" for ty
    using sess digest_text [of "''event-sha256:''"]
    by (simp add: command_event_id_def context_session_def mk_identifier_def session_digest_def require_text_def is_space_def py_whitespace_def)
  have alone: "\<exists>db'. store_step repository_registry db db' \<and> append_transition repository_registry idle now ctx ty (Suc k, db) = (Inr (f now r), k + 4, db') \<and>
      get_session repository_registry idle (ctx_course ctx) sid (j, db') = (Inr (f now r), Suc j, db')"
    if "se_status r \<in> set allowed" "lifecycle_move allowed target stamp f" "moves_by ty allowed target stamp" "is_text ty" for allowed target stamp f ty
  proof -
    obtain eid where "command_event_id ctx ty = Inr eid" using eid by blast
    from append_transition_alone [OF ok es q wf sess r that opened this _ bound, of "Suc k"] fresh this show ?thesis by (auto simp: numeral_eq_Suc)
  qed
  show "\<exists>db'. store_step repository_registry db db' \<and>
      suspend_session repository_registry idle now ctx (k, db) = (Inr (r\<lparr>se_status := Session_SUSPENDED, se_suspended := Some now\<rparr>), k + 4, db') \<and>
      get_session repository_registry idle (ctx_course ctx) sid (j, db') = (Inr (r\<lparr>se_status := Session_SUSPENDED, se_suspended := Some now\<rparr>), Suc j, db')"
    if "se_status r = Session_ACTIVE"
    using alone [OF _ lifecycle_moves(1) lifecycle_reducers(1)] that owned
    by (simp add: suspend_session_def session_transition_def cmd_bind_def)
  show "\<exists>db'. store_step repository_registry db db' \<and>
      resume_session repository_registry idle now ctx (k, db) = (Inr (r\<lparr>se_status := Session_ACTIVE, se_resumed := Some now\<rparr>), k + 4, db') \<and>
      get_session repository_registry idle (ctx_course ctx) sid (j, db') = (Inr (r\<lparr>se_status := Session_ACTIVE, se_resumed := Some now\<rparr>), Suc j, db')"
    if "se_status r = Session_SUSPENDED"
    using alone [OF _ lifecycle_moves(2) lifecycle_reducers(2)] that owned
    by (simp add: resume_session_def session_transition_def cmd_bind_def)
  show "\<exists>db'. store_step repository_registry db db' \<and>
      end_session repository_registry idle now ctx (k, db) = (Inr (r\<lparr>se_status := Session_ENDED, se_ended := Some now\<rparr>), k + 4, db') \<and>
      get_session repository_registry idle (ctx_course ctx) sid (j, db') = (Inr (r\<lparr>se_status := Session_ENDED, se_ended := Some now\<rparr>), Suc j, db')"
    if "se_status r \<noteq> Session_ENDED"
    using alone [OF _ lifecycle_moves(3) lifecycle_reducers(3)] that owned
    by (cases "se_status r") (simp_all add: end_session_def cmd_bind_def)
qed

text \<open>What the stream and the projection of a reachable database are.\<close>

lemma store_view:
  assumes "reachable repository_registry db" and "read db c 0 = Inr es" and "projection_of False repository_registry db c = Inr (p, db)"
  obtains q where "stream_ok repository_registry db c es" "replay repository_registry c es = Inr q" "proj_state p = canon_obj (proj_state q)"
proof -
  obtain es' q where q: "stream_ok repository_registry db c es'" "replay repository_registry c es' = Inr q"
    using repo.reachable_store_ok [OF assms(1)] unfolding store_ok_def stream_ok_def by blast
  then show thesis using that [of q] stream_ok_read [OF q(1)] repo.projection_of_ok [OF q, of False] assms(2,3) by auto
qed

lemma projection_session_in:
  assumes "stream_ok repository_registry db c es" "replay repository_registry c es = Inr q"
  shows "session_in c sid (canon_obj (proj_state q)) = session_in c sid (proj_state q)"
  using session_in_canon [OF repo.course_state_wf] assms unfolding course_state_def by blast

end
