(* ===== verification/Study_Service.thy ===== *)
theory Study_Service
  imports Session_Liveness
begin

text \<open>
  The study-context commands: \<^verbatim>\<open>StudyContextService\<close> of \<^verbatim>\<open>src/src/study_agent/study_context/service.py\<close> over the shared
  store, and what they ensure. The identity of a command is its event id; a command that is already recorded is
  recognised by the fingerprint of its arguments.
\<close>

section \<open>Readers and guards\<close>

definition study_get :: "'p registry \<Rightarrow> (nat \<Rightarrow> database \<Rightarrow> database) \<Rightarrow> string \<Rightarrow> context_snapshot command" where
  "study_get reg env c = cmd_bind (load_course reg env c) (\<lambda>p. cmd_lift (study_view_get c p))"

definition study_fingerprint :: "'p registry \<Rightarrow> (nat \<Rightarrow> database \<Rightarrow> database) \<Rightarrow> string \<Rightarrow> string \<Rightarrow> string option command" where
  "study_fingerprint reg env c eid = cmd_bind (load_course reg env c) (\<lambda>p. cmd_lift (command_fingerprint c eid p))"

fun is_lookup_error :: "error \<Rightarrow> bool" where
  "is_lookup_error LookupError = True"
| "is_lookup_error KeyError = True"
| "is_lookup_error UnknownEventSchemaError = True"
| "is_lookup_error (CourseNotFoundError _) = True"
| "is_lookup_error (SessionNotFoundError _ _) = True"
| "is_lookup_error (AnswerNotFoundError _ _) = True"
| "is_lookup_error _ = False"

definition study_command_context ::
  "'p registry \<Rightarrow> (nat \<Rightarrow> database \<Rightarrow> database) \<Rightarrow> exec_context \<Rightarrow> (string \<times> string) command" where
  "study_command_context reg env ctx =
     (if ctx_kind ctx \<notin> {HUMAN, SERVICE} then cmd_lift (Inl StudyContextCommandError)
      else
        (case (ctx_session ctx, ctx_key ctx) of
           (Some sid, Some key) \<Rightarrow>
             cmd_bind (course_get reg env (ctx_course ctx)) (\<lambda>_.
             cmd_bind (get_session reg env (ctx_course ctx) sid) (\<lambda>session.
               cmd_lift (if se_course session \<noteq> ctx_course ctx \<or> se_id session \<noteq> sid then Inl StudyContextCommandError
                 else Inr (sid, key))))
         | _ \<Rightarrow> cmd_lift (Inl StudyContextCommandError)))"

definition validate_expected_sequence :: "int \<Rightarrow> unit result" where
  "validate_expected_sequence expected = (if expected < 0 then Inl ValueError else Inr ())"

definition existing_command ::
  "'p registry \<Rightarrow> (nat \<Rightarrow> database \<Rightarrow> database) \<Rightarrow> string \<Rightarrow> string \<Rightarrow> string \<Rightarrow> context_snapshot option command" where
  "existing_command reg env c eid fp =
     cmd_bind (study_fingerprint reg env c eid) (\<lambda>prior.
       (case prior of
          None \<Rightarrow> cmd_lift (Inr None)
        | Some stored_fp \<Rightarrow>
            if stored_fp \<noteq> fp then cmd_lift (Inl StudyContextConflictError)
            else cmd_bind (study_get reg env c) (\<lambda>sn. cmd_lift (Inr (Some sn)))))"

definition expect_sequence :: "(nat \<Rightarrow> database \<Rightarrow> database) \<Rightarrow> string \<Rightarrow> int \<Rightarrow> unit command" where
  "expect_sequence env c expected =
     cmd_bind (read_course env c) (\<lambda>es.
       cmd_lift (if expected \<noteq> last_sequence es then Inl RetryableStudyContextConflictError else Inr ()))"

definition study_event :: "exec_context \<Rightarrow> string \<Rightarrow> string \<Rightarrow> int \<Rightarrow> json_object \<Rightarrow> datetime \<Rightarrow> domain_event result" where
  "study_event ctx eid ty sq payload now =
     mk_event \<lparr>ev_id = eid, ev_course = ctx_course ctx, ev_seq = sq, ev_type = ty, ev_version = 1,
       ev_actor = \<lparr>act_kind = ctx_kind ctx, act_principal = ctx_principal ctx\<rparr>, ev_at = now,
       ev_correlation = ctx_correlation ctx, ev_payload = payload, ev_session = ctx_session ctx, ev_causation = None\<rparr>"

definition append_study ::
  "'p registry \<Rightarrow> (nat \<Rightarrow> database \<Rightarrow> database) \<Rightarrow> string \<Rightarrow> int \<Rightarrow> domain_event \<Rightarrow> string \<Rightarrow> context_snapshot command" where
  "append_study reg env c expected ev fp =
     cmd_try (append_course reg env c expected [ev])
       (\<lambda>e. case e of
          SequenceConflictError _ _ _ \<Rightarrow>
            cmd_bind (existing_command reg env c (ev_id ev) fp) (\<lambda>existing.
              cmd_lift (case existing of Some sn \<Rightarrow> Inr sn | None \<Rightarrow> Inl RetryableStudyContextConflictError))
        | _ \<Rightarrow> cmd_lift (Inl e))
       (\<lambda>_. study_get reg env c)"

section \<open>The commands\<close>

definition new_record ::
  "'p registry \<Rightarrow> (nat \<Rightarrow> database \<Rightarrow> database) \<Rightarrow> datetime \<Rightarrow> study_statement \<Rightarrow> string \<Rightarrow> exec_context \<Rightarrow> int \<Rightarrow> string \<Rightarrow> string \<Rightarrow> string \<Rightarrow>
   context_snapshot command" where
  "new_record reg env now statement origin ctx expected sid key eid =
     cmd_bind (expect_sequence env (ctx_course ctx) expected) (\<lambda>_.
     cmd_bind (view_interactions reg env (ctx_course ctx) sid) (\<lambda>interactions.
     cmd_bind (cmd_lift
         (case find_interaction origin interactions of
            Some i \<Rightarrow> if ix_kind i \<noteq> Interaction_HUMAN then Inl StudyContextCommandError else Inr ()
          | None \<Rightarrow> Inl StudyContextCommandError)) (\<lambda>_.
     cmd_bind (cmd_lift (study_event ctx eid statement_recorded_type (expected + 1)
         (statement_recorded_payload (statement_id_for eid) origin statement sid key) now)) (\<lambda>ev.
       append_study reg env (ctx_course ctx) expected ev (record_command_fingerprint statement origin)))))"

definition record_statement ::
  "'p registry \<Rightarrow> (nat \<Rightarrow> database \<Rightarrow> database) \<Rightarrow> datetime \<Rightarrow> study_statement \<Rightarrow> string \<Rightarrow> exec_context \<Rightarrow> int \<Rightarrow> context_snapshot command" where
  "record_statement reg env now statement origin ctx expected =
     cmd_bind (study_command_context reg env ctx) (\<lambda>(sid, key).
     cmd_bind (cmd_lift (validate_expected_sequence expected)) (\<lambda>_.
       let eid = study_context_event_id_for (ctx_course ctx) sid key ''record'' in
       cmd_bind (existing_command reg env (ctx_course ctx) eid (record_command_fingerprint statement origin)) (\<lambda>existing.
         (case existing of
            Some sn \<Rightarrow> cmd_lift (Inr sn)
          | None \<Rightarrow> new_record reg env now statement origin ctx expected sid key eid))))"

definition new_retraction ::
  "'p registry \<Rightarrow> (nat \<Rightarrow> database \<Rightarrow> database) \<Rightarrow> datetime \<Rightarrow> string \<Rightarrow> exec_context \<Rightarrow> int \<Rightarrow> string \<Rightarrow> string \<Rightarrow> string \<Rightarrow> context_snapshot command" where
  "new_retraction reg env now statement_id ctx expected sid key eid =
     cmd_bind (expect_sequence env (ctx_course ctx) expected) (\<lambda>_.
     cmd_try (cmd_bind (study_get reg env (ctx_course ctx)) (\<lambda>sn. cmd_lift (snapshot_statement sn statement_id)))
       (\<lambda>e. cmd_lift (Inl (if is_lookup_error e then StudyContextCommandError else e)))
       (\<lambda>target.
          cmd_bind (cmd_lift (if st_status target \<noteq> ACTIVE then Inl StudyContextConflictError else Inr ())) (\<lambda>_.
          cmd_bind (cmd_lift (study_event ctx eid statement_retracted_type (expected + 1)
              (statement_retracted_payload statement_id sid key) now)) (\<lambda>ev.
            append_study reg env (ctx_course ctx) expected ev (retract_command_fingerprint statement_id)))))"

definition retract_statement ::
  "'p registry \<Rightarrow> (nat \<Rightarrow> database \<Rightarrow> database) \<Rightarrow> datetime \<Rightarrow> string \<Rightarrow> exec_context \<Rightarrow> int \<Rightarrow> context_snapshot command" where
  "retract_statement reg env now statement_id ctx expected =
     cmd_bind (study_command_context reg env ctx) (\<lambda>(sid, key).
     cmd_bind (cmd_lift (validate_expected_sequence expected)) (\<lambda>_.
       let eid = study_context_event_id_for (ctx_course ctx) sid key ''retract'' in
       cmd_bind (existing_command reg env (ctx_course ctx) eid (retract_command_fingerprint statement_id)) (\<lambda>existing.
         (case existing of
            Some sn \<Rightarrow> cmd_lift (Inr sn)
          | None \<Rightarrow> new_retraction reg env now statement_id ctx expected sid key eid))))"

text \<open>The losers of a resolution, as the service computes them from the snapshot.\<close>

definition resolution_plan :: "statement_kind \<Rightarrow> string \<Rightarrow> context_snapshot \<Rightarrow> string list result" where
  "resolution_plan kind selected_id sn =
     (if find (\<lambda>cf. cf_kind cf = kind) (sn_conflicts sn) = None then Inl StudyContextConflictError
      else
        (case snapshot_statement sn selected_id of
           Inl e \<Rightarrow> Inl (if is_lookup_error e then StudyContextCommandError else e)
         | Inr selected \<Rightarrow>
             if st_kind selected \<noteq> kind \<or> st_status selected \<noteq> ACTIVE then Inl StudyContextConflictError
             else Inr (sort (map st_id (filter (\<lambda>item. st_value item \<noteq> st_value selected) (snapshot_active sn kind))))))"

definition new_resolution ::
  "'p registry \<Rightarrow> (nat \<Rightarrow> database \<Rightarrow> database) \<Rightarrow> datetime \<Rightarrow> statement_kind \<Rightarrow> string \<Rightarrow> exec_context \<Rightarrow> int \<Rightarrow> string \<Rightarrow> string \<Rightarrow> string \<Rightarrow>
   context_snapshot command" where
  "new_resolution reg env now kind selected_id ctx expected sid key eid =
     cmd_bind (expect_sequence env (ctx_course ctx) expected) (\<lambda>_.
     cmd_bind (study_get reg env (ctx_course ctx)) (\<lambda>sn.
     cmd_bind (cmd_lift (resolution_plan kind selected_id sn)) (\<lambda>losers.
     cmd_bind (cmd_lift (study_event ctx eid conflict_resolved_type (expected + 1)
         (conflict_resolved_payload kind selected_id losers sid key) now)) (\<lambda>ev.
       append_study reg env (ctx_course ctx) expected ev (resolve_command_fingerprint kind selected_id)))))"

definition resolve_conflict ::
  "'p registry \<Rightarrow> (nat \<Rightarrow> database \<Rightarrow> database) \<Rightarrow> datetime \<Rightarrow> statement_kind \<Rightarrow> string \<Rightarrow> exec_context \<Rightarrow> int \<Rightarrow> context_snapshot command" where
  "resolve_conflict reg env now kind selected_id ctx expected =
     cmd_bind (study_command_context reg env ctx) (\<lambda>(sid, key).
     cmd_bind (cmd_lift (validate_expected_sequence expected)) (\<lambda>_.
     cmd_bind (cmd_lift (if \<not> is_scalar kind then Inl StudyContextCommandError else Inr ())) (\<lambda>_.
       let eid = study_context_event_id_for (ctx_course ctx) sid key ''resolve'' in
       cmd_bind (existing_command reg env (ctx_course ctx) eid (resolve_command_fingerprint kind selected_id)) (\<lambda>existing.
         (case existing of
            Some sn \<Rightarrow> cmd_lift (Inr sn)
          | None \<Rightarrow> new_resolution reg env now kind selected_id ctx expected sid key eid)))))"

section \<open>Recorded commands\<close>

text \<open>The fingerprint a state holds for a command; no event changes or removes it.\<close>

definition recorded_command :: "json_object \<Rightarrow> string \<Rightarrow> string \<Rightarrow> bool" where
  "recorded_command s eid fp =
     (case get_default s ''study_context'' (JObj []) of
        JObj raw \<Rightarrow>
          (case get_default raw ''commands'' (JObj []) of
             JObj commands \<Rightarrow> (case jget commands eid of JObj entry \<Rightarrow> jget entry ''command_fingerprint'' = JStr fp | _ \<Rightarrow> False)
           | _ \<Rightarrow> False)
      | _ \<Rightarrow> False)"

lemma recorded_command_iff:
  "recorded_command s eid fp \<longleftrightarrow> (\<exists>raw commands entry. get_default s ''study_context'' (JObj []) = JObj raw \<and>
     get_default raw ''commands'' (JObj []) = JObj commands \<and> jget commands eid = JObj entry \<and> jget entry ''command_fingerprint'' = JStr fp)"
  by (auto simp: recorded_command_def split: json.splits)

lemma recorded_command_canon:
  assumes wf: "wf_json (JObj s)"
  shows "recorded_command (canon_obj s) eid fp \<longleftrightarrow> recorded_command s eid fp"
proof (cases "get_default s ''study_context'' (JObj [])")
  case raw: (JObj raw)
  have wr: "wf_json (JObj raw)" using wf_get_default [OF wf wf_empty(1), of "''study_context''"] raw by (simp only:)
  show ?thesis
  proof (cases "get_default raw ''commands'' (JObj [])")
    case cs: (JObj cs)
    have wc: "wf_json (JObj cs)" using wf_get_default [OF wr wf_empty(1), of "''commands''"] cs by (simp only:)
    show ?thesis
    proof (cases "jget cs eid")
      case en: (JObj en)
      have we: "wf_json (JObj en)" using wf_jget [OF wc, of eid] en by (simp only:)
      show ?thesis unfolding recorded_command_def default_canon [OF wf] raw canon_JObj json.case default_canon [OF wr] cs jget_wf_canon [OF wc] en
          jget_wf_canon [OF we] by simp
    qed (simp_all add: recorded_command_def default_canon [OF wf] raw canon_JObj default_canon [OF wr] cs jget_wf_canon [OF wc] del: canon.simps(6))
  qed (simp_all add: recorded_command_def default_canon [OF wf] raw canon_JObj default_canon [OF wr] del: canon.simps(6))
qed (simp_all add: recorded_command_def default_canon [OF wf])

lemma recorded_command_frame: "map_of s' ''study_context'' = map_of s ''study_context'' \<Longrightarrow> recorded_command s' eid fp = recorded_command s eid fp"
  by (simp add: recorded_command_def get_default_def)

lemma recorded_command_replace: "recorded_command (replace_parts s new) eid fp \<longleftrightarrow>
   (\<exists>entry. jget (sp_commands new) eid = JObj entry \<and> jget entry ''command_fingerprint'' = JStr fp)"
  by (simp add: recorded_command_iff replace_parts_def get_default_def map_of_update)

lemma recorded_command_parts:
  "study_parts_of s e = Inr parts \<Longrightarrow> recorded_command s eid fp \<longleftrightarrow>
   (\<exists>entry. jget (sp_commands parts) eid = JObj entry \<and> jget entry ''command_fingerprint'' = JStr fp)"
  by (auto simp: study_parts_of_def collections_def recorded_command_iff res_bind_eq_Inr split: if_splits json.splits)

text \<open>What each reducer of the study context does to the commands.\<close>

lemma study_commands:
  "record_parts e p parts = Inr new \<Longrightarrow> ev_id e \<notin> set (keys_of (sp_commands parts)) \<and>
     sp_commands new = AList.update (ev_id e) (command_entry (sr_fingerprint p) (sr_id p)) (sp_commands parts)"
  "retract_parts e t parts = Inr new \<Longrightarrow> ev_id e \<notin> set (keys_of (sp_commands parts)) \<and>
     sp_commands new = AList.update (ev_id e) (command_entry (rt_fingerprint t) (rt_id t)) (sp_commands parts)"
  "resolve_parts e r parts = Inr new \<Longrightarrow> ev_id e \<notin> set (keys_of (sp_commands parts)) \<and>
     sp_commands new = AList.update (ev_id e) (command_entry (cr_fingerprint r) (cr_selected r)) (sp_commands parts)"
  by (auto simp: record_parts_def retract_parts_def resolve_parts_def Let_def res_bind_eq_Inr split: if_splits json.splits)

lemma command_added:
  assumes "study_parts_of s e = Inr parts" and "ev_id e \<notin> set (keys_of (sp_commands parts)) \<and> sp_commands new = AList.update (ev_id e) (command_entry fp sid) (sp_commands parts)"
  shows "recorded_command (replace_parts s new) (ev_id e) fp" and "recorded_command s eid' fp' \<Longrightarrow> recorded_command (replace_parts s new) eid' fp'"
proof -
  show "recorded_command (replace_parts s new) (ev_id e) fp"
    unfolding recorded_command_replace using assms(2) by (auto simp: jget_update command_entry_def jget_Cons)
  assume r: "recorded_command s eid' fp'"
  then have "eid' \<noteq> ev_id e"
    using assms by (auto simp: recorded_command_parts [OF assms(1)] jget_def split: option.splits) (metis domI dom_map_of_conv_image_fst)
  then show "recorded_command (replace_parts s new) eid' fp'"
    using r assms(2) unfolding recorded_command_replace recorded_command_parts [OF assms(1)] by (auto simp: jget_update)
qed

lemma study_reducers_parts:
  "reduce_statement_recorded s e p = Inr s' \<Longrightarrow> \<exists>parts new. study_parts_of s e = Inr parts \<and> record_parts e p parts = Inr new \<and> s' = replace_parts s new"
  "reduce_statement_retracted s e t = Inr s' \<Longrightarrow> \<exists>parts new. study_parts_of s e = Inr parts \<and> retract_parts e t parts = Inr new \<and> s' = replace_parts s new"
  "reduce_conflict_resolved s e r = Inr s' \<Longrightarrow> \<exists>parts new. study_parts_of s e = Inr parts \<and> resolve_parts e r parts = Inr new \<and> s' = replace_parts s new"
  by (auto simp: reduce_statement_recorded_def reduce_statement_retracted_def reduce_conflict_resolved_def res_bind_eq_Inr split: if_splits)

lemma repository_step_commands:
  assumes step: "repository_step s e s'" and r: "recorded_command s eid fp"
  shows "recorded_command s' eid fp"
proof -
  note frame = recorded_command_frame [THEN iffD2, OF _ r]
  note sessions = session_reducers_frame [where k = "''study_context''", simplified]
  show ?thesis using step
  proof (cases rule: repository_step.cases)
    case (step_course_created x)
    then show ?thesis using course_frame by (intro frame) auto
  next
    case (step_recorded x)
    then show ?thesis using study_reducers_parts(1) study_commands(1) command_added(2) [OF _ _ r] by blast
  next
    case (step_retracted x)
    then show ?thesis using study_reducers_parts(2) study_commands(2) command_added(2) [OF _ _ r] by blast
  next
    case (step_resolved x)
    then show ?thesis using study_reducers_parts(3) study_commands(3) command_added(2) [OF _ _ r] by blast
  qed (use sessions in \<open>auto intro!: frame\<close>)
qed

lemma command_persistent: "persistent repository_registry c (\<lambda>s. recorded_command s eid fp)"
  unfolding persistent_def using repository_reduce repository_step_commands by blast

lemma repository_step_records:
  assumes step: "repository_step s e s'" and ty: "ev_type e \<in> {statement_recorded_type, statement_retracted_type, conflict_resolved_type}"
    and fp: "jget (ev_payload e) ''command_fingerprint'' = JStr fp"
  shows "recorded_command s' (ev_id e) fp"
proof -
  have dec: "decode_statement_recorded e = Inr x \<Longrightarrow> sr_fingerprint x = fp" "decode_statement_retracted e = Inr y \<Longrightarrow> rt_fingerprint y = fp"
    "decode_conflict_resolved e = Inr z \<Longrightarrow> cr_fingerprint z = fp" for x y z
    using fp by (auto simp: decode_statement_recorded_def decode_statement_retracted_def decode_conflict_resolved_def study_envelope_def fingerprint_value_def
        res_bind_eq_Inr text_value_def Let_def split: if_splits option.splits)
  show ?thesis using step
  proof (cases rule: repository_step.cases)
    case (step_recorded x)
    then show ?thesis using study_reducers_parts(1) study_commands(1) command_added(1) dec(1) by blast
  next
    case (step_retracted x)
    then show ?thesis using study_reducers_parts(2) study_commands(2) command_added(1) dec(2) by blast
  next
    case (step_resolved x)
    then show ?thesis using study_reducers_parts(3) study_commands(3) command_added(1) dec(3) by blast
  qed (use ty event_types_distinct in auto)
qed


section \<open>Safety of the commands\<close>

text \<open>What a returned snapshot says: the command is recorded with its fingerprint, and the snapshot is the one of the database.\<close>

definition reads_context :: "string \<Rightarrow> context_snapshot \<Rightarrow> database \<Rightarrow> bool" where
  "reads_context c sn db = (\<exists>p. projection_of False repository_registry db c = Inr (p, db) \<and> study_view_get c p = Inr sn)"

definition command_done :: "string \<Rightarrow> string \<Rightarrow> string \<Rightarrow> context_snapshot \<Rightarrow> database \<Rightarrow> bool" where
  "command_done c eid fp sn db = (reads_context c sn db \<and> holds repository_registry c (\<lambda>s. recorded_command s eid fp) db)"

lemma ensures_study_get:
  assumes env: "interference repository_registry env" and st: "stable repository_registry P"
  shows "ensures repository_registry P (study_get repository_registry env c) (\<lambda>sn db. P db \<and> reads_context c sn db)"
proof -
  have "ensures repository_registry P (load_course repository_registry env c) (\<lambda>p db. P db \<and> projection_of False repository_registry db c = Inr (p, db))"
    unfolding load_course_def
  proof (rule repo.ensures_access [OF env st])
    fix db p db'
    assume ok: "store_ok repository_registry db" and P: "P db" and run: "projection_of False repository_registry db c = Inr (p, db')"
    obtain es q where "stream_ok repository_registry db c es" "replay repository_registry c es = Inr q"
      using ok unfolding store_ok_def stream_ok_def by blast
    then have "db' = db" using repo.projection_of_ok run by fastforce
    then show "(store_step repository_registry)\<^sup>*\<^sup>* db db' \<and> P db' \<and> projection_of False repository_registry db' c = Inr (p, db')" using P run by simp
  qed
  then show ?thesis unfolding study_get_def
    by (rule repo.ensures_bind) (auto intro!: ensures_lift simp: reads_context_def)
qed

lemma command_fingerprint_recorded:
  assumes "course_state repository_registry db c s" and "proj_state p = canon_obj s" and "command_fingerprint c eid p = Inr (Some fp)"
  shows "recorded_command s eid fp"
proof -
  have "recorded_command (proj_state p) eid fp"
    using assms(3) by (auto simp: command_fingerprint_def study_projection_def recorded_command_def res_bind_eq_Inr split: if_splits json.splits)
  then show ?thesis using recorded_command_canon [OF repo.course_state_wf [OF assms(1)]] assms(2) by simp
qed

lemma ensures_existing_command:
  assumes env: "interference repository_registry env"
  shows "ensures repository_registry (\<lambda>_. True) (existing_command repository_registry env c eid fp)
    (\<lambda>found db. \<forall>sn. found = Some sn \<longrightarrow> command_done c eid fp sn db)"
  unfolding existing_command_def
proof (rule repo.ensures_bind)
  let ?F = "\<lambda>prior db. \<forall>x. prior = Some x \<longrightarrow> holds repository_registry c (\<lambda>s. recorded_command s eid x) db"
  show "ensures repository_registry (\<lambda>_. True) (study_fingerprint repository_registry env c eid) ?F"
    unfolding study_fingerprint_def
    by (rule repo.ensures_bind [OF repo.ensures_load [OF env stable_triv, where Q = "\<lambda>p db. \<exists>s. course_state repository_registry db c s \<and> proj_state p = canon_obj s"]])
      (auto intro!: ensures_lift command_fingerprint_recorded simp: holds_def)
  fix prior
  show "ensures repository_registry (?F prior)
      (case prior of None \<Rightarrow> cmd_lift (Inr None)
       | Some stored_fp \<Rightarrow> if stored_fp \<noteq> fp then cmd_lift (Inl StudyContextConflictError)
           else cmd_bind (study_get repository_registry env c) (\<lambda>sn. cmd_lift (Inr (Some sn))))
      (\<lambda>found db. \<forall>sn. found = Some sn \<longrightarrow> command_done c eid fp sn db)"
  proof (intro ensures_option ensures_if)
    fix x
    assume x: "prior = Some x" "\<not> x \<noteq> fp"
    have "ensures repository_registry (?F prior) (study_get repository_registry env c)
        (\<lambda>sn db. holds repository_registry c (\<lambda>s. recorded_command s eid fp) db \<and> reads_context c sn db)"
      by (rule ensures_pre [OF _ ensures_study_get [OF env repo.holds_stable [OF command_persistent]]]) (use x in simp)
    then show "ensures repository_registry (?F prior) (cmd_bind (study_get repository_registry env c) (\<lambda>sn. cmd_lift (Inr (Some sn))))
        (\<lambda>found db. \<forall>sn. found = Some sn \<longrightarrow> command_done c eid fp sn db)"
      by (rule repo.ensures_bind) (auto intro!: ensures_lift simp: command_done_def)
  qed (auto intro!: ensures_lift)
qed

lemma ensures_append_study:
  assumes env: "interference repository_registry env" and wf: "wf_event ev" "is_utc ev"
    and ty: "ev_type ev \<in> {statement_recorded_type, statement_retracted_type, conflict_resolved_type}"
    and fp: "jget (ev_payload ev) ''command_fingerprint'' = JStr fp"
  shows "ensures repository_registry (\<lambda>_. True) (append_study repository_registry env c expected ev fp) (command_done c (ev_id ev) fp)"
  unfolding append_study_def
proof (rule repo.ensures_try [OF _ stable_triv])
  let ?F = "holds repository_registry c (\<lambda>s. recorded_command s (ev_id ev) fp)"
  show "ensures repository_registry (\<lambda>_. True) (append_course repository_registry env c expected [ev]) (\<lambda>_. ?F)"
  proof (rule repo.ensures_append [OF env stable_triv])
    show "\<forall>e \<in> set [ev]. wf_event e \<and> is_utc e" using wf by simp
    fix db p q
    assume fold: "fold_res (apply_event repository_registry) (map stored [ev]) p = Inr q" and state: "course_state repository_registry db c (proj_state q)"
    have "repository_step (proj_state p) (stored ev) (proj_state q)"
      using fold repository_reduce by (auto simp: res_bind_eq_Inr apply_event_Inr)
    moreover have "jget (ev_payload (stored ev)) ''command_fingerprint'' = JStr fp"
      using fp wf(1) jget_wf_canon [of "ev_payload ev"] by (simp add: wf_event_def del: wf_json_JObj)
    ultimately have "recorded_command (proj_state q) (ev_id ev) fp" using repository_step_records ty by fastforce
    then show "?F db" using state unfolding holds_def by blast
  qed
  show "ensures repository_registry ?F (study_get repository_registry env c) (command_done c (ev_id ev) fp)"
    using ensures_study_get [OF env repo.holds_stable [OF command_persistent]] unfolding ensures_def command_done_def by blast
  have "ensures repository_registry (\<lambda>_. True)
      (cmd_bind (existing_command repository_registry env c (ev_id ev) fp) (\<lambda>existing.
         cmd_lift (case existing of Some sn \<Rightarrow> Inr sn | None \<Rightarrow> Inl RetryableStudyContextConflictError)))
      (command_done c (ev_id ev) fp)"
    by (rule repo.ensures_bind [OF ensures_existing_command [OF env]]) (auto intro!: ensures_lift split: option.splits)
  then show "ensures repository_registry (\<lambda>_. True)
      (case e of SequenceConflictError _ _ _ \<Rightarrow>
         cmd_bind (existing_command repository_registry env c (ev_id ev) fp) (\<lambda>existing.
           cmd_lift (case existing of Some sn \<Rightarrow> Inr sn | None \<Rightarrow> Inl RetryableStudyContextConflictError))
       | _ \<Rightarrow> cmd_lift (Inl e)) (command_done c (ev_id ev) fp)" for e
    by (cases e) (auto intro: ensures_lift)
qed

lemma study_event_Inr:
  assumes "study_event ctx eid ty sq payload now = Inr ev" and "wf_context ctx" and "is_text eid"
    and "wf_json (JObj payload)" and "valid_datetime now" and "utcoffset now = 0"
  shows "wf_event ev" "is_utc ev" "ev_type ev = ty" "ev_payload ev = payload" "ev_id ev = eid" "ev_course ev = ctx_course ctx"
    "ev_session ev = ctx_session ctx" "ev_at ev = now" "ev_seq ev = sq" "ev_version ev = 1" "act_kind (ev_actor ev) = ctx_kind ctx"
  using assms by (auto simp: study_event_def mk_event_Inr wf_event_def wf_context_def text_option_def is_utc_def split: option.splits)

lemma study_event_id_text: "is_text (study_context_event_id_for c sid key purpose)"
  unfolding study_context_event_id_for_def
  by (rule is_text_append) (simp_all add: is_space_def py_whitespace_def sha256_hex_shape)

lemma study_payloads_wf:
  "wf_json (JObj (statement_recorded_payload sid origin st sess key))"
  "wf_json (JObj (statement_retracted_payload sid sess key))"
  "wf_json (JObj (conflict_resolved_payload k selected superseded sess key))"
proof -
  have "wf_json (statement_value_manifest st)" by (cases "in_value st") (simp_all add: statement_value_manifest_def)
  then show "wf_json (JObj (statement_recorded_payload sid origin st sess key))" by (auto simp: statement_recorded_payload_def)
qed (auto simp: statement_retracted_payload_def conflict_resolved_payload_def text_items_def)

lemma study_payload_fingerprints:
  "jget (statement_recorded_payload sid origin st sess key) ''command_fingerprint'' = JStr (record_command_fingerprint st origin)"
  "jget (statement_retracted_payload sid sess key) ''command_fingerprint'' = JStr (retract_command_fingerprint sid)"
  "jget (conflict_resolved_payload k selected superseded sess key) ''command_fingerprint'' = JStr (resolve_command_fingerprint k selected)"
  by (simp_all add: statement_recorded_payload_def statement_retracted_payload_def conflict_resolved_payload_def jget_Cons)

lemma ensures_study_new:
  assumes env: "interference repository_registry env" and wf: "wf_context ctx" "valid_datetime now" "utcoffset now = 0" and eid: "is_text eid"
    and ty: "ty \<in> {statement_recorded_type, statement_retracted_type, conflict_resolved_type}" and payload: "wf_json (JObj payload)"
      "jget payload ''command_fingerprint'' = JStr fp"
  shows "ensures repository_registry (\<lambda>_. True)
    (cmd_bind (cmd_lift (study_event ctx eid ty sq payload now)) (\<lambda>ev. append_study repository_registry env (ctx_course ctx) expected ev fp))
    (command_done (ctx_course ctx) eid fp)"
proof (rule ensures_bind_lift)
  fix ev
  assume "study_event ctx eid ty sq payload now = Inr ev"
  note e = study_event_Inr [OF this wf(1) eid payload(1) wf(2,3)]
  show "ensures repository_registry (\<lambda>_. True) (append_study repository_registry env (ctx_course ctx) expected ev fp) (command_done (ctx_course ctx) eid fp)"
    using ensures_append_study [OF env e(1,2), of fp] e(3-5) ty payload(2) by simp
qed

lemma ensures_study_context:
  assumes env: "interference repository_registry env"
  shows "ensures repository_registry (\<lambda>_. True) (study_command_context repository_registry env ctx)
    (\<lambda>sk _. ctx_session ctx = Some (fst sk) \<and> ctx_key ctx = Some (snd sk) \<and> ctx_kind ctx \<noteq> MODEL)"
proof -
  consider (refused) "study_command_context repository_registry env ctx = cmd_lift (Inl StudyContextCommandError)"
    | (checked) sid key where "ctx_session ctx = Some sid" "ctx_key ctx = Some key" "ctx_kind ctx \<noteq> MODEL"
        "study_command_context repository_registry env ctx =
           cmd_bind (course_get repository_registry env (ctx_course ctx)) (\<lambda>_.
           cmd_bind (get_session repository_registry env (ctx_course ctx) sid) (\<lambda>session.
             cmd_lift (if se_course session \<noteq> ctx_course ctx \<or> se_id session \<noteq> sid then Inl StudyContextCommandError else Inr (sid, key))))"
    unfolding study_command_context_def by (cases "ctx_session ctx"; cases "ctx_key ctx"; cases "ctx_kind ctx") simp_all
  then show ?thesis
  proof cases
    case checked
    show ?thesis unfolding checked(4)
      by (rule repo.ensures_bind [OF repo.ensures_course_get [OF env stable_triv]],
          rule repo.ensures_bind [OF repo.ensures_get_session [OF env stable_triv]])
        (use checked(1-3) in \<open>auto intro!: ensures_lift split: if_splits\<close>)
  qed (simp add: ensures_def cmd_lift_def)
qed

lemma ensures_expect_sequence:
  assumes env: "interference repository_registry env"
  shows "ensures repository_registry (\<lambda>_. True) (expect_sequence env c expected) (\<lambda>_ _. True)"
  unfolding expect_sequence_def
  by (rule repo.ensures_bind [OF repo.ensures_read [OF env stable_triv, where Q = "\<lambda>_ _. True"]]) (auto intro!: ensures_lift)

text \<open>A command of the service: recognise a recorded one, else carry out the new one.\<close>

lemma ensures_existing_or:
  assumes env: "interference repository_registry env"
    and new: "ensures repository_registry (\<lambda>_. True) new (command_done c eid fp)"
  shows "ensures repository_registry (\<lambda>_. True)
    (cmd_bind (existing_command repository_registry env c eid fp) (\<lambda>existing. case existing of Some sn \<Rightarrow> cmd_lift (Inr sn) | None \<Rightarrow> new))
    (command_done c eid fp)"
  by (rule repo.ensures_bind [OF ensures_existing_command [OF env]], rule ensures_option)
    (auto intro: ensures_weaken [OF new] intro!: ensures_lift)

lemma ensures_new_record:
  assumes env: "interference repository_registry env" and wf: "wf_context ctx" "valid_datetime now" "utcoffset now = 0" and eid: "is_text eid"
  shows "ensures repository_registry (\<lambda>_. True) (new_record repository_registry env now statement origin ctx expected sid key eid)
    (command_done (ctx_course ctx) eid (record_command_fingerprint statement origin))"
  unfolding new_record_def
proof (rule repo.ensures_bind [OF ensures_expect_sequence [OF env]], rule repo.ensures_bind [OF repo.ensures_view_interactions [OF env stable_triv]],
    rule ensures_weaken, rule ensures_bind_lift)
qed (rule ensures_study_new [OF env wf eid], simp_all add: study_payloads_wf study_payload_fingerprints del: wf_json_JObj)

lemma ensures_new_retraction:
  assumes env: "interference repository_registry env" and wf: "wf_context ctx" "valid_datetime now" "utcoffset now = 0" and eid: "is_text eid"
  shows "ensures repository_registry (\<lambda>_. True) (new_retraction repository_registry env now statement_id ctx expected sid key eid)
    (command_done (ctx_course ctx) eid (retract_command_fingerprint statement_id))"
  unfolding new_retraction_def
proof (rule repo.ensures_bind [OF ensures_expect_sequence [OF env]], rule repo.ensures_try [OF _ stable_triv])
  show "ensures repository_registry (\<lambda>_. True)
      (cmd_bind (study_get repository_registry env (ctx_course ctx)) (\<lambda>sn. cmd_lift (snapshot_statement sn statement_id))) (\<lambda>_ _. True)"
    by (rule repo.ensures_bind [OF ensures_study_get [OF env stable_triv]]) (auto intro!: ensures_lift)
  show "ensures repository_registry (\<lambda>_. True)
      (cmd_bind (cmd_lift (if st_status target \<noteq> ACTIVE then Inl StudyContextConflictError else Inr ())) (\<lambda>_.
       cmd_bind (cmd_lift (study_event ctx eid statement_retracted_type (expected + 1) (statement_retracted_payload statement_id sid key) now)) (\<lambda>ev.
         append_study repository_registry env (ctx_course ctx) expected ev (retract_command_fingerprint statement_id))))
      (command_done (ctx_course ctx) eid (retract_command_fingerprint statement_id))" for target
    by (rule ensures_bind_lift, rule ensures_study_new [OF env wf eid]) (simp_all add: study_payloads_wf study_payload_fingerprints del: wf_json_JObj)
qed (auto intro!: ensures_lift)

lemma ensures_new_resolution:
  assumes env: "interference repository_registry env" and wf: "wf_context ctx" "valid_datetime now" "utcoffset now = 0" and eid: "is_text eid"
  shows "ensures repository_registry (\<lambda>_. True) (new_resolution repository_registry env now kind selected_id ctx expected sid key eid)
    (command_done (ctx_course ctx) eid (resolve_command_fingerprint kind selected_id))"
  unfolding new_resolution_def
proof (rule repo.ensures_bind [OF ensures_expect_sequence [OF env]], rule repo.ensures_bind [OF ensures_study_get [OF env stable_triv]],
    rule ensures_weaken, rule ensures_bind_lift)
qed (rule ensures_study_new [OF env wf eid], simp_all add: study_payloads_wf study_payload_fingerprints del: wf_json_JObj)

lemma ensures_with_context:
  assumes env: "interference repository_registry env" and sess: "ctx_session ctx = Some sid" "ctx_key ctx = Some key"
    and f: "ensures repository_registry (\<lambda>_. True) (f (sid, key)) Q"
  shows "ensures repository_registry (\<lambda>_. True) (cmd_bind (study_command_context repository_registry env ctx) f) Q"
proof (rule repo.ensures_bind [OF ensures_study_context [OF env]], rule ensures_fact)
  fix sk
  assume "ctx_session ctx = Some (fst sk) \<and> ctx_key ctx = Some (snd sk) \<and> ctx_kind ctx \<noteq> MODEL"
  then have "sk = (sid, key)" using sess by (cases sk) simp
  then show "ensures repository_registry (\<lambda>_. True) (f sk) Q" using f by simp
qed

lemma ensures_study_commands:
  assumes env: "interference repository_registry env" and wf: "wf_context ctx" "valid_datetime now" "utcoffset now = 0"
    and sess: "ctx_session ctx = Some sid" "ctx_key ctx = Some key"
  shows "ensures repository_registry (\<lambda>_. True) (record_statement repository_registry env now statement origin ctx expected)
      (command_done (ctx_course ctx) (study_context_event_id_for (ctx_course ctx) sid key ''record'') (record_command_fingerprint statement origin))"
    and "ensures repository_registry (\<lambda>_. True) (retract_statement repository_registry env now statement_id ctx expected)
      (command_done (ctx_course ctx) (study_context_event_id_for (ctx_course ctx) sid key ''retract'') (retract_command_fingerprint statement_id))"
    and "ensures repository_registry (\<lambda>_. True) (resolve_conflict repository_registry env now kind selected_id ctx expected)
      (command_done (ctx_course ctx) (study_context_event_id_for (ctx_course ctx) sid key ''resolve'') (resolve_command_fingerprint kind selected_id))"
  unfolding record_statement_def retract_statement_def resolve_conflict_def Let_def
  by (rule ensures_with_context [OF env sess], simp only: split, (rule ensures_bind_lift)+, rule ensures_existing_or [OF env],
      rule ensures_new_record [OF env wf study_event_id_text] ensures_new_retraction [OF env wf study_event_id_text]
        ensures_new_resolution [OF env wf study_event_id_text])+

end
