(* ===== verification/Study_Commands.thy ===== *)
theory Study_Commands
  imports Study_Service
begin

text \<open>
  The study-context commands by themselves: the invariant of the context in every reachable store, a calculus for commands that run
  alone, and the proof that each command makes the step of the abstract context it stands for or leaves the database as it was.
\<close>

section \<open>The abstract context does not see the order of keys\<close>

lemma entry_abs_canon:
  assumes "wf_json v"
  shows "entry_abs (canon v) = entry_abs v"
proof (cases v)
  case (JObj raw)
  then have wr: "wf_json (JObj raw)" using assms by (simp only:)
  show ?thesis unfolding JObj canon_JObj entry_abs_def json.case jget_wf_canon [OF wr] kind_field_canon status_field_canon projected_value_canon ..
qed (simp_all add: entry_abs_def)

lemma abs_statements_canon:
  assumes "wf_json (JObj sts)"
  shows "abs_statements (canon_obj sts) = abs_statements sts"
proof
  fix sid
  have wv: "wf_json v" if "map_of sts sid = Some v" for v using assms map_of_SomeD [OF that] by (simp only: wf_json_JObj)
  have dist: "distinct (keys_of sts)" using assms by (simp only: wf_json_JObj)
  show "abs_statements (canon_obj sts) sid = abs_statements sts sid"
    unfolding abs_statements_def map_of_canon_obj [OF dist] using wv by (cases "map_of sts sid") (simp_all add: entry_abs_canon)
qed

lemma resolution_linked_canon:
  assumes "wf_json v"
  shows "resolution_linked A (canon v) = resolution_linked A v"
proof (cases v)
  case (JObj raw)
  then have wr: "wf_json (JObj raw)" using assms by (simp only:)
  show ?thesis unfolding JObj canon_JObj resolution_linked_def json.case jget_wf_canon [OF wr] kind_field_canon text_value_canon text_array_canon ..
qed (simp_all add: resolution_linked_def)

lemma parts_ok_canon:
  assumes "parts_ok c parts"
  shows "parts_ok c (canon_parts parts)"
proof -
  have wf: "wf_json (JObj (sp_statements parts))" "wf_json (JArr (sp_resolutions parts))" "wf_json (JObj (sp_commands parts))"
    using assms by (simp_all add: parts_ok_def wf_parts_def del: wf_json_JObj wf_json_JArr)
  have res: "wf_json v" if "v \<in> set (sp_resolutions parts)" for v using wf(2) that by auto
  have "wf_parts (canon_parts parts)"
    using wf wf_canon [of "JArr (sp_resolutions parts)"] by (simp add: wf_parts_def canon_parts_def del: wf_json_JObj wf_json_JArr)
  moreover have "list_all (valid_statement c) (canon_obj (sp_statements parts))"
    using assms list_all_canon_obj [of "sp_statements parts" "valid_statement c", OF wf(1) valid_statement_canon] by (simp add: parts_ok_def)
  moreover have "list_all (\<lambda>kv. is_text (fst kv)) (canon_obj (sp_statements parts))"
    using assms list_all_canon_obj [OF wf(1), of "\<lambda>kv. is_text (fst kv)"] by (simp add: parts_ok_def)
  moreover have "list_all valid_command (canon_obj (sp_commands parts))"
    using assms list_all_canon_obj [OF wf(3) valid_command_canon] by (simp add: parts_ok_def)
  moreover have "list_all valid_resolution (map canon (sp_resolutions parts))"
    "list_all (resolution_linked (abs_statements (sp_statements parts))) (map canon (sp_resolutions parts))"
    using assms res valid_resolution_canon resolution_linked_canon by (auto simp: parts_ok_def list_all_iff)
  ultimately show ?thesis unfolding parts_ok_def by (simp add: canon_parts_def abs_statements_canon [OF wf(1)])
qed

lemma context_canon:
  assumes wf: "wf_json (JObj s)"
  shows "context_ok c s \<Longrightarrow> context_ok c (canon_obj s)" and "abs_context_of (canon_obj s) = abs_context_of s"
proof -
  show "context_ok c (canon_obj s)" if ok: "context_ok c s"
  proof -
    obtain raw parts where raw: "get_default s ''study_context'' (JObj []) = JObj raw" "raw = [] \<or> has_keys raw [''statements'', ''resolutions'', ''commands'']"
      "collections raw = Inr parts" "parts_ok c parts" using context_ok_iff [THEN iffD1, OF ok] by blast
    have wr: "wf_json (JObj raw)" using wf_get_default [OF wf wf_empty(1), of "''study_context''"] raw(1) by (simp only:)
    have keys: "canon_obj raw = [] \<or> has_keys (canon_obj raw) [''statements'', ''resolutions'', ''commands'']"
    proof (cases "raw = []")
      case False
      then show ?thesis using raw(2) by (simp add: has_keys_def)
    qed (simp add: canon_obj_def)
    have "collections (canon_obj raw) = Inr (canon_parts parts)" using collections_canon [OF wr] raw(3) by simp
    then show ?thesis unfolding context_ok_iff default_canon [OF wf] raw(1) canon_JObj using keys parts_ok_canon [OF raw(4)] by blast
  qed
  show "abs_context_of (canon_obj s) = abs_context_of s"
  proof (cases "get_default s ''study_context'' (JObj [])")
    case (JObj raw)
    then have wr: "wf_json (JObj raw)" using wf_get_default [OF wf wf_empty(1), of "''study_context''"] by (simp only:)
    show ?thesis unfolding abs_context_of_def default_canon [OF wf] JObj canon_JObj json.case collections_canon [OF wr]
      using collections_wf [OF wr] by (cases "collections raw") (auto simp: canon_parts_def wf_parts_def abs_statements_canon simp del: wf_json_JObj wf_json_JArr)
  qed (simp_all add: abs_context_of_def default_canon [OF wf])
qed

text \<open>The context of every course of a store satisfies the invariant of the reducers.\<close>

lemma repository_step_context:
  assumes "repository_step s e s'" and "wf_event e" and "context_ok (ev_course e) s"
  shows "context_ok (ev_course e) s'"
proof -
  have frame: "map_of s' ''study_context'' = map_of s ''study_context'' \<Longrightarrow> context_ok (ev_course e) s'"
    using assms(3) by (simp add: context_ok_def get_default_def)
  note sessions = session_reducers_frame [where k = "''study_context''", simplified]
  show ?thesis using assms(1)
  proof (cases rule: repository_step.cases)
    case (step_course_created x)
    then show ?thesis using course_frame by (intro frame) auto
  next
    case (step_recorded x)
    then show ?thesis using reducers_context_ok(1) [OF assms(3,2)] by blast
  next
    case (step_retracted x)
    then show ?thesis using reducers_context_ok(2) [OF assms(3,2)] by blast
  next
    case (step_resolved x)
    then show ?thesis using reducers_context_ok(3) [OF assms(3,2)] by blast
  qed (use sessions in \<open>auto intro!: frame\<close>)
qed

lemma context_persistent: "persistent repository_registry c (context_ok c)"
  unfolding persistent_def using repository_reduce repository_step_context by blast

lemma course_state_context:
  assumes "course_state repository_registry db c s"
  shows "context_ok c s"
proof -
  obtain es q where q: "stream_ok repository_registry db c es" "replay repository_registry c es = Inr q" "proj_state q = s"
    using assms by (auto simp: course_state_def)
  show ?thesis
    using repo.fold_persistent [OF context_persistent q(2) [unfolded replay_def]] repo.stream_ok_wf [OF q(1)] context_ok_empty q(3)
    by (simp add: initial_projection_def wf_state_def)
qed

section \<open>Commands alone\<close>

text \<open>What a command does when nobody else uses the store: an error leaves the database as it was.\<close>

definition alone :: "(database \<Rightarrow> bool) \<Rightarrow> 'a command \<Rightarrow> (database \<Rightarrow> 'a \<Rightarrow> database \<Rightarrow> bool) \<Rightarrow> bool" where
  "alone P m Q = (\<forall>k db r k' db'. store_ok repository_registry db \<longrightarrow> P db \<longrightarrow> m (k, db) = (r, k', db') \<longrightarrow>
     (case r of Inl _ \<Rightarrow> db' = db | Inr x \<Rightarrow> Q db x db'))"

lemma alone_lift: "(\<And>x db. r = Inr x \<Longrightarrow> store_ok repository_registry db \<Longrightarrow> P db \<Longrightarrow> Q db x db) \<Longrightarrow> alone P (cmd_lift r) Q"
  by (auto simp: alone_def cmd_lift_def split: sum.splits)

lemma alone_bind:
  assumes "alone P m (\<lambda>db x db'. db' = db \<and> R x db)" and "\<And>x. alone (R x) (f x) Q"
  shows "alone P (cmd_bind m f) Q"
  unfolding alone_def
proof (intro allI impI)
  fix k db r k' db'
  assume ok: "store_ok repository_registry db" and P: "P db" and run: "cmd_bind m f (k, db) = (r, k', db')"
  obtain r1 k1 db1 where m: "m (k, db) = (r1, k1, db1)" by (rule prod_cases3)
  then have one: "case r1 of Inl _ \<Rightarrow> db1 = db | Inr x \<Rightarrow> db1 = db \<and> R x db" using assms(1) ok P unfolding alone_def by blast
  show "case r of Inl _ \<Rightarrow> db' = db | Inr x \<Rightarrow> Q db x db'"
  proof (cases r1)
    case (Inr x)
    then have "f x (k1, db) = (r, k', db')" "R x db" using run m one by (simp_all add: cmd_bind_def)
    then show ?thesis using assms(2) [of x] ok unfolding alone_def by blast
  qed (use run m one in \<open>auto simp: cmd_bind_def\<close>)
qed

lemma alone_bind_lift: "(\<And>x. r = Inr x \<Longrightarrow> alone P (f x) Q) \<Longrightarrow> alone P (cmd_bind (cmd_lift r) f) Q"
  by (cases r) (auto simp: alone_def cmd_bind_def cmd_lift_def)

lemma alone_try:
  assumes "alone P m (\<lambda>db x db'. db' = db \<and> R x db)" and "\<And>e. alone P (h e) Q" and "\<And>x. alone (R x) (f x) Q"
  shows "alone P (cmd_try m h f) Q"
  unfolding alone_def
proof (intro allI impI)
  fix k db r k' db'
  assume ok: "store_ok repository_registry db" and P: "P db" and run: "cmd_try m h f (k, db) = (r, k', db')"
  obtain r1 k1 db1 where m: "m (k, db) = (r1, k1, db1)" by (rule prod_cases3)
  then have one: "case r1 of Inl _ \<Rightarrow> db1 = db | Inr x \<Rightarrow> db1 = db \<and> R x db" using assms(1) ok P unfolding alone_def by blast
  show "case r of Inl _ \<Rightarrow> db' = db | Inr x \<Rightarrow> Q db x db'"
  proof (cases r1)
    case (Inl e)
    then show ?thesis using assms(2) [of e] run m one ok P unfolding alone_def by (fastforce simp: cmd_try_def)
  next
    case (Inr x)
    then show ?thesis using assms(3) [of x] run m one ok unfolding alone_def by (fastforce simp: cmd_try_def)
  qed
qed

lemma alone_weaken: "alone (\<lambda>_. True) m Q \<Longrightarrow> alone P m Q"
  by (simp add: alone_def)

lemma alone_option:
  "(v = None \<Longrightarrow> alone P m Q) \<Longrightarrow> (\<And>x. v = Some x \<Longrightarrow> alone P (f x) Q) \<Longrightarrow> alone P (case v of None \<Rightarrow> m | Some x \<Rightarrow> f x) Q"
  by (cases v) simp_all

lemma alone_load: "alone P (load_course repository_registry idle c)
  (\<lambda>db p db'. db' = db \<and> P db \<and> (\<exists>s. course_state repository_registry db c s \<and> proj_state p = canon_obj s \<and> proj_course p = c))"
  unfolding alone_def
proof (intro allI impI)
  fix k db r k' db'
  assume ok: "store_ok repository_registry db" and P: "P db" and run: "load_course repository_registry idle c (k, db) = (r, k', db')"
  obtain s where s: "course_state repository_registry db c s" using repo.course_state_ex [OF ok] by blast
  obtain p where "projection_of False repository_registry db c = Inr (p, db)" "proj_state p = canon_obj s" "proj_course p = c"
    using load_course_idle [OF s] by blast
  then show "case r of Inl _ \<Rightarrow> db' = db | Inr p \<Rightarrow> db' = db \<and> P db \<and> (\<exists>s. course_state repository_registry db c s \<and> proj_state p = canon_obj s \<and> proj_course p = c)"
    using run s P by (auto simp: load_course_def access_def)
qed

lemma alone_read: "alone P (read_course idle c) (\<lambda>db es db'. db' = db \<and> P db)"
  by (auto simp: alone_def read_course_def access_def Let_def res_bind_def split: sum.splits)

definition abs_state :: "database \<Rightarrow> string \<Rightarrow> abs_context \<Rightarrow> bool" where
  "abs_state db c A = (\<exists>s. course_state repository_registry db c s \<and> abs_context_of s = A)"

definition course_known :: "string \<Rightarrow> database \<Rightarrow> bool" where
  "course_known c = holds repository_registry c (\<lambda>s. ''course'' \<in> set (keys_of s))"

text \<open>A snapshot shows the statements of the abstract context, and exactly its conflicts.\<close>

definition shows_context :: "string \<Rightarrow> context_snapshot \<Rightarrow> database \<Rightarrow> bool" where
  "shows_context c sn db = (\<exists>A. abs_state db c A \<and> represents (sn_statements sn) A \<and>
     cf_kind ` set (sn_conflicts sn) = {k. is_scalar k \<and> spec_conflict k A})"

lemma study_view_shows:
  assumes state: "course_state repository_registry db c s" and p: "proj_state p = canon_obj s" "proj_course p = c"
  shows "study_view_get c p = Inr sn \<Longrightarrow> shows_context c sn db \<and> ''course'' \<in> set (keys_of s)"
    and "''course'' \<in> set (keys_of s) \<Longrightarrow> 1 \<le> proj_seq p \<Longrightarrow> \<exists>sn. study_view_get c p = Inr sn"
proof -
  note wf = repo.course_state_wf [OF state]
  have ok: "context_ok c (proj_state p)" using context_canon(1) [OF wf course_state_context [OF state]] p(1) by simp
  have keys: "''course'' \<in> set (keys_of (proj_state p)) \<longleftrightarrow> ''course'' \<in> set (keys_of s)" by (simp add: p(1))
  note total = study_view_total [OF ok _ p(2)]
  show "shows_context c sn db \<and> ''course'' \<in> set (keys_of s)" if sn: "study_view_get c p = Inr sn"
  proof -
    have in': "''course'' \<in> set (keys_of (proj_state p))" "1 \<le> proj_seq p"
      using sn by (auto simp: study_view_get_def study_projection_def mk_snapshot_def res_bind_eq_Inr Let_def split: if_splits json.splits)
    have "represents (sn_statements sn) (abs_context_of s)" "cf_kind ` set (sn_conflicts sn) = {k. is_scalar k \<and> spec_conflict k (abs_context_of s)}"
      using total [OF in'] sn context_canon(2) [OF wf] p(1) by auto
    then show ?thesis using state keys in'(1) unfolding shows_context_def abs_state_def by blast
  qed
  show "\<exists>sn. study_view_get c p = Inr sn" if "''course'' \<in> set (keys_of s)" "1 \<le> proj_seq p"
    using total that keys by blast
qed

lemma alone_study_get:
  "alone P (study_get repository_registry idle c) (\<lambda>db sn db'. db' = db \<and> P db \<and> shows_context c sn db)"
  unfolding study_get_def
  by (rule alone_bind [OF alone_load]) (auto intro!: alone_lift dest: study_view_shows(1))

lemma alone_existing_command:
  "alone P (existing_command repository_registry idle c eid fp) (\<lambda>db found db'. db' = db \<and> P db \<and>
     (\<forall>sn. found = Some sn \<longrightarrow> shows_context c sn db \<and> holds repository_registry c (\<lambda>s. recorded_command s eid fp) db))"
  unfolding existing_command_def
proof (rule alone_bind)
  let ?F = "\<lambda>prior db. P db \<and> (\<forall>x. prior = Some x \<longrightarrow> holds repository_registry c (\<lambda>s. recorded_command s eid x) db)"
  show "alone P (study_fingerprint repository_registry idle c eid) (\<lambda>db prior db'. db' = db \<and> ?F prior db)"
    unfolding study_fingerprint_def
    by (rule alone_bind [OF alone_load]) (auto intro!: alone_lift command_fingerprint_recorded simp: holds_def)
  fix prior
  show "alone (?F prior)
      (case prior of None \<Rightarrow> cmd_lift (Inr None)
       | Some stored_fp \<Rightarrow> if stored_fp \<noteq> fp then cmd_lift (Inl StudyContextConflictError)
           else cmd_bind (study_get repository_registry idle c) (\<lambda>sn. cmd_lift (Inr (Some sn))))
      (\<lambda>db found db'. db' = db \<and> P db \<and> (\<forall>sn. found = Some sn \<longrightarrow> shows_context c sn db \<and> holds repository_registry c (\<lambda>s. recorded_command s eid fp) db))"
  proof (cases prior)
    case (Some x)
    have "alone (?F (Some fp)) (cmd_bind (study_get repository_registry idle c) (\<lambda>sn. cmd_lift (Inr (Some sn))))
        (\<lambda>db found db'. db' = db \<and> P db \<and> (\<forall>sn. found = Some sn \<longrightarrow> shows_context c sn db \<and> holds repository_registry c (\<lambda>s. recorded_command s eid fp) db))"
      by (rule alone_bind [OF alone_study_get]) (auto intro!: alone_lift)
    then show ?thesis using Some by (auto intro!: alone_lift)
  qed (auto intro!: alone_lift)
qed

text \<open>What a returned command has done: it was recorded before, or it made its step of the abstract context.\<close>

definition study_outcome :: "string \<Rightarrow> string \<Rightarrow> string \<Rightarrow> (abs_context \<Rightarrow> abs_context option) \<Rightarrow> database \<Rightarrow> context_snapshot \<Rightarrow> database \<Rightarrow> bool" where
  "study_outcome c eid fp spec db sn db' = (shows_context c sn db' \<and>
     (db' = db \<and> holds repository_registry c (\<lambda>s. recorded_command s eid fp) db \<or>
      (\<exists>A A'. abs_state db c A \<and> abs_state db' c A' \<and> spec A = Some A')))"

lemma append_one_step:
  assumes ok: "store_ok repository_registry db" and wf: "wf_event ev" "is_utc ev" and app: "append False repository_registry c n [ev] db = Inr (m, db')"
  obtains s s' p where "course_state repository_registry db c s" "course_state repository_registry db' c s'" "repository_step s (stored ev) s'"
    "projection_of False repository_registry db' c = Inr (p, db')" "proj_state p = canon_obj s'" "proj_course p = c" "1 \<le> proj_seq p"
proof -
  obtain old where old: "stream_ok repository_registry db c old" using ok by (auto simp: store_ok_def)
  have new: "stream_ok repository_registry db' c (old @ [stored ev])"
    using repo.append_stream [OF old _ _ app] ok wf by (simp add: store_ok_def)
  obtain q where q: "replay repository_registry c old = Inr q" using old by (auto simp: stream_ok_def)
  obtain q' where q': "replay repository_registry c (old @ [stored ev]) = Inr q'" using new by (auto simp: stream_ok_def)
  have "reduce repository_registry (proj_state q) (stored ev) = Inr (proj_state q')"
    using q q' by (auto simp: replay_snoc res_bind_eq_Inr apply_event_Inr)
  then have "repository_step (proj_state q) (stored ev) (proj_state q')" using repository_reduce by blast
  moreover have "course_state repository_registry db c (proj_state q)" "course_state repository_registry db' c (proj_state q')"
    using old q new q' unfolding course_state_def by blast+
  ultimately show thesis using that repo.projection_of_ok [OF new q', of False] by simp
qed

lemma study_step_course:
  assumes "repository_step s e s'" and "ev_type e \<in> {statement_recorded_type, statement_retracted_type, conflict_resolved_type}"
    and "''course'' \<in> set (keys_of s)"
  shows "''course'' \<in> set (keys_of s')"
proof -
  have "map_of s' ''course'' = map_of s ''course''"
    using assms(1) by (cases rule: repository_step.cases) (use assms(2) event_types_distinct study_reducers_frame [of "''course''"] in auto)
  then show ?thesis using assms(3) by (metis dom_map_of_conv_image_fst domIff list.set_map)
qed

lemma alone_append_study:
  assumes wf: "wf_event ev" "is_utc ev" and ty: "ev_type ev \<in> {statement_recorded_type, statement_retracted_type, conflict_resolved_type}"
    and spec: "\<And>s s'. wf_state s \<Longrightarrow> repository_step s (stored ev) s' \<Longrightarrow> spec (abs_context_of s) = Some (abs_context_of s')"
  shows "alone (course_known c) (append_study repository_registry idle c expected ev fp) (study_outcome c (ev_id ev) fp spec)"
  unfolding alone_def
proof (intro allI impI)
  fix k db r k' db'
  assume ok: "store_ok repository_registry db" and known: "course_known c db"
    and run: "append_study repository_registry idle c expected ev fp (k, db) = (r, k', db')"
  show "case r of Inl _ \<Rightarrow> db' = db | Inr x \<Rightarrow> study_outcome c (ev_id ev) fp spec db x db'"
  proof (cases "append False repository_registry c expected [ev] db")
    case (Inl e)
    let ?h = "cmd_bind (existing_command repository_registry idle c (ev_id ev) fp) (\<lambda>existing.
          cmd_lift (case existing of Some sn \<Rightarrow> Inr sn | None \<Rightarrow> Inl RetryableStudyContextConflictError))"
    have h: "alone (\<lambda>_. True) ?h (study_outcome c (ev_id ev) fp spec)"
      by (rule alone_bind [OF alone_existing_command]) (auto intro!: alone_lift simp: study_outcome_def split: option.splits)
    have "(case e of SequenceConflictError _ _ _ \<Rightarrow> ?h | _ \<Rightarrow> cmd_lift (Inl e)) (Suc k, db) = (r, k', db')"
      using run Inl by (simp add: append_study_def cmd_try_def append_course_def access_def)
    then show ?thesis using h ok unfolding alone_def by (cases e) (auto simp: cmd_lift_def)
  next
    case (Inr md)
    then obtain m db1 where app: "append False repository_registry c expected [ev] db = Inr (m, db1)" by (cases md) auto
    obtain s s' p' where st: "course_state repository_registry db c s" "course_state repository_registry db1 c s'" "repository_step s (stored ev) s'"
      and p': "projection_of False repository_registry db1 c = Inr (p', db1)" "proj_state p' = canon_obj s'" "proj_course p' = c" "1 \<le> proj_seq p'"
      using append_one_step [OF ok wf app] by blast
    have "''course'' \<in> set (keys_of s)" using known st(1) repo.course_state_unique unfolding course_known_def holds_def by blast
    then have course: "''course'' \<in> set (keys_of s')" using study_step_course [OF st(3)] ty by simp
    have "wf_state s" using repo.course_state_wf [OF st(1)] by (simp add: wf_state_def)
    then have abs: "\<exists>A A'. abs_state db c A \<and> abs_state db1 c A' \<and> spec A = Some A'" using spec st unfolding abs_state_def by blast
    obtain sn where sn: "study_view_get c p' = Inr sn" using study_view_shows(2) [OF st(2) p'(2,3) course p'(4)] by blast
    have "(r, k', db') = (Inr sn, Suc (Suc k), db1)"
      using run app p'(1) sn by (simp add: append_study_def cmd_try_def append_course_def access_def study_get_def cmd_bind_def load_course_def cmd_lift_def)
    then show ?thesis using abs study_view_shows(1) [OF st(2) p'(2,3) sn] by (simp add: study_outcome_def)
  qed
qed

section \<open>The commands refine the abstract context\<close>

lemma alone_view_projection: "alone P (view_projection repository_registry idle c) (\<lambda>db r db'. db' = db \<and> P db)"
  unfolding view_projection_def by (rule alone_bind [OF alone_load]) (auto intro!: alone_lift split: if_splits)

lemma alone_get_session: "alone P (get_session repository_registry idle c sid) (\<lambda>db r db'. db' = db \<and> P db)"
  unfolding get_session_def by (rule alone_bind [OF alone_view_projection]) (auto intro!: alone_lift)

lemma alone_study_context:
  "alone (\<lambda>_. True) (study_command_context repository_registry idle ctx) (\<lambda>db sk db'. db' = db \<and>
     ctx_session ctx = Some (fst sk) \<and> ctx_key ctx = Some (snd sk) \<and> course_known (ctx_course ctx) db)"
proof -
  have get: "alone (\<lambda>_. True) (course_get repository_registry idle c) (\<lambda>db p db'. db' = db \<and> course_known c db)" for c
    unfolding course_get_def
  proof (rule alone_bind [OF alone_load], rule alone_lift)
    fix p x db
    assume p: "course_of_projection c p = Inr x" and st: "True \<and> (\<exists>s. course_state repository_registry db c s \<and> proj_state p = canon_obj s \<and> proj_course p = c)"
    then obtain s where s: "course_state repository_registry db c s" "proj_state p = canon_obj s" by blast
    have "''course'' \<in> set (keys_of (proj_state p))"
      using p by (auto simp: course_of_projection_def jget_def split: if_splits option.splits) (metis domI dom_map_of_conv_image_fst)
    then show "db = db \<and> course_known c db" using s by (auto simp: course_known_def holds_def)
  qed
  consider (refused) "study_command_context repository_registry idle ctx = cmd_lift (Inl StudyContextCommandError)"
    | (checked) sid key where "ctx_session ctx = Some sid" "ctx_key ctx = Some key"
        "study_command_context repository_registry idle ctx =
           cmd_bind (course_get repository_registry idle (ctx_course ctx)) (\<lambda>_.
           cmd_bind (get_session repository_registry idle (ctx_course ctx) sid) (\<lambda>session.
             cmd_lift (if se_course session \<noteq> ctx_course ctx \<or> se_id session \<noteq> sid then Inl StudyContextCommandError else Inr (sid, key))))"
    unfolding study_command_context_def by (cases "ctx_session ctx"; cases "ctx_key ctx"; cases "ctx_kind ctx") simp_all
  then show ?thesis
  proof cases
    case checked
    show ?thesis unfolding checked(3)
      by (rule alone_bind [OF get], rule alone_bind [OF alone_get_session]) (use checked(1,2) in \<open>auto intro!: alone_lift split: if_splits\<close>)
  qed (simp add: alone_def cmd_lift_def)
qed

lemma alone_expect_sequence: "alone P (expect_sequence idle c expected) (\<lambda>db u db'. db' = db \<and> P db)"
  unfolding expect_sequence_def
  by (rule alone_bind [OF alone_read]) (auto intro!: alone_lift split: if_splits)

lemma alone_view_interactions: "alone P (view_interactions repository_registry idle c sid) (\<lambda>db is db'. db' = db \<and> P db)"
  unfolding view_interactions_def
  by (rule alone_bind [OF alone_get_session], rule alone_bind [OF alone_view_projection]) (auto intro!: alone_lift)

lemma alone_study_new:
  assumes wf: "wf_context ctx" "valid_datetime now" "utcoffset now = 0" and eid: "is_text eid" and payload: "wf_json (JObj payload)"
    and ty: "ty \<in> {statement_recorded_type, statement_retracted_type, conflict_resolved_type}"
    and spec: "\<And>ev s s'. study_event ctx eid ty sq payload now = Inr ev \<Longrightarrow> wf_event ev \<Longrightarrow> wf_state s \<Longrightarrow> repository_step s (stored ev) s' \<Longrightarrow>
      spec (abs_context_of s) = Some (abs_context_of s')"
  shows "alone (course_known (ctx_course ctx))
    (cmd_bind (cmd_lift (study_event ctx eid ty sq payload now)) (\<lambda>ev. append_study repository_registry idle (ctx_course ctx) expected ev fp))
    (study_outcome (ctx_course ctx) eid fp spec)"
proof (rule alone_bind_lift)
  fix ev
  assume ev: "study_event ctx eid ty sq payload now = Inr ev"
  note e = study_event_Inr [OF this wf(1) eid payload wf(2,3)]
  show "alone (course_known (ctx_course ctx)) (append_study repository_registry idle (ctx_course ctx) expected ev fp) (study_outcome (ctx_course ctx) eid fp spec)"
    using alone_append_study [OF e(1,2), of spec "ctx_course ctx" expected fp] spec [OF ev e(1)] e(3,5) ty by simp
qed

lemma alone_existing_or:
  assumes "alone P new (study_outcome c eid fp spec)"
  shows "alone P
    (cmd_bind (existing_command repository_registry idle c eid fp) (\<lambda>existing. case existing of Some sn \<Rightarrow> cmd_lift (Inr sn) | None \<Rightarrow> new))
    (study_outcome c eid fp spec)"
proof (rule alone_bind [OF alone_existing_command])
  fix found
  show "alone (\<lambda>db. P db \<and> (\<forall>sn. found = Some sn \<longrightarrow> shows_context c sn db \<and> holds repository_registry c (\<lambda>s. recorded_command s eid fp) db))
      (case found of Some sn \<Rightarrow> cmd_lift (Inr sn) | None \<Rightarrow> new) (study_outcome c eid fp spec)"
  proof (cases found)
    case None
    then show ?thesis using assms by (simp add: alone_def)
  qed (auto intro!: alone_lift simp: study_outcome_def)
qed

lemma alone_with_context:
  assumes "ctx_session ctx = Some sid" "ctx_key ctx = Some key" and "alone (course_known (ctx_course ctx)) (f (sid, key)) Q"
  shows "alone (\<lambda>_. True) (cmd_bind (study_command_context repository_registry idle ctx) f) Q"
proof (rule alone_bind [OF alone_study_context])
  fix sk
  show "alone (\<lambda>db. ctx_session ctx = Some (fst sk) \<and> ctx_key ctx = Some (snd sk) \<and> course_known (ctx_course ctx) db) (f sk) Q"
  proof (cases "sk = (sid, key)")
    case True
    then show ?thesis using assms(3) by (auto simp: alone_def)
  next
    case False
    then show ?thesis using assms(1,2) by (cases sk) (auto simp: alone_def)
  qed
qed

lemma abs_state_unique: "abs_state db c A \<Longrightarrow> abs_state db c B \<Longrightarrow> A = B"
  unfolding abs_state_def using repo.course_state_unique by blast

lemma alone_pre: "alone P m Q \<Longrightarrow> (\<And>db. P' db \<Longrightarrow> P db) \<Longrightarrow> alone P' m Q"
  unfolding alone_def by blast

lemma decode_statement_manifest:
  assumes "canonical_statement st" and "jget payload ''kind'' = JStr (kind_value (in_kind st))" and "jget payload ''value'' = statement_value_manifest st"
  shows "decode_statement payload = Inr st"
proof -
  have "decode_statement payload = (if in_kind st = DEADLINE then res_bind (iso_date (statement_value_manifest st)) (\<lambda>d. mk_statement (in_kind st) (V_date d))
      else res_bind (scalar_value (statement_value_manifest st)) (mk_statement (in_kind st)))"
    using assms(2,3) by (simp add: decode_statement_def)
  then show ?thesis using projected_manifest [OF assms(1)] by (auto simp: projected_value_def mk_statement_def res_bind_eq_Inr map_error_eq_Inr intro: study_statement.equality split: if_splits)
qed

text \<open>What the decoder of an event reads from the payload the command wrote.\<close>

lemma study_payloads_decoded:
  assumes wf: "wf_event ev"
  shows "ev_payload ev = statement_recorded_payload stid origin st sess key \<Longrightarrow> canonical_statement st \<Longrightarrow>
      decode_statement_recorded (stored ev) = Inr r \<Longrightarrow> sr_id r = stid \<and> sr_statement r = st"
    and "ev_payload ev = statement_retracted_payload stid sess key \<Longrightarrow>
      decode_statement_retracted (stored ev) = Inr t \<Longrightarrow> rt_id t = stid"
    and "ev_payload ev = conflict_resolved_payload kind selected losers sess key \<Longrightarrow>
      decode_conflict_resolved (stored ev) = Inr c \<Longrightarrow> cr_kind c = kind \<and> cr_selected c = selected"
proof -
  show "sr_id r = stid \<and> sr_statement r = st"
    if pay: "ev_payload ev = statement_recorded_payload stid origin st sess key" and can: "canonical_statement st"
      and dec: "decode_statement_recorded (stored ev) = Inr r"
  proof -
    have get: "jget (ev_payload ev) ''kind'' = JStr (kind_value (in_kind st))" "jget (ev_payload ev) ''value'' = statement_value_manifest st"
      "jget (ev_payload ev) ''statement_id'' = JStr stid"
      by (simp_all add: pay statement_recorded_payload_def jget_Cons)
    show ?thesis using dec [unfolded decode_stored [OF wf]] get(3) decode_statement_manifest [OF can get(1,2)]
      by (auto simp: decode_statement_recorded_def res_bind_eq_Inr text_value_Inr Let_def dest!: study_envelope_Inr split: if_splits)
  qed
  show "rt_id t = stid" if pay: "ev_payload ev = statement_retracted_payload stid sess key" and dec: "decode_statement_retracted (stored ev) = Inr t"
  proof -
    have get: "jget (ev_payload ev) ''statement_id'' = JStr stid" by (simp add: pay statement_retracted_payload_def jget_Cons)
    show ?thesis using dec [unfolded decode_stored [OF wf]] get
      by (auto simp: decode_statement_retracted_def res_bind_eq_Inr text_value_Inr dest!: study_envelope_Inr split: if_splits)
  qed
  show "cr_kind c = kind \<and> cr_selected c = selected"
    if pay: "ev_payload ev = conflict_resolved_payload kind selected losers sess key" and dec: "decode_conflict_resolved (stored ev) = Inr c"
  proof -
    have get: "jget (ev_payload ev) ''kind'' = JStr (kind_value kind)" "jget (ev_payload ev) ''selected_statement_id'' = JStr selected"
      by (simp_all add: pay conflict_resolved_payload_def jget_Cons)
    show ?thesis using dec [unfolded decode_stored [OF wf]] get
      by (auto simp: decode_conflict_resolved_def res_bind_eq_Inr text_value_Inr kind_field_Inr dest!: study_envelope_Inr split: if_splits)
  qed
qed

lemma study_steps_refine:
  assumes ev: "study_event ctx eid ty sq payload now = Inr ev" "wf_event ev" and s: "wf_state s" "repository_step s (stored ev) s'"
  shows "ty = statement_recorded_type \<Longrightarrow> payload = statement_recorded_payload stid origin st sess key \<Longrightarrow> canonical_statement st \<Longrightarrow>
      spec_record stid st (abs_context_of s) = Some (abs_context_of s')"
    and "ty = statement_retracted_type \<Longrightarrow> payload = statement_retracted_payload stid sess key \<Longrightarrow>
      spec_retract stid (abs_context_of s) = Some (abs_context_of s')"
    and "ty = conflict_resolved_type \<Longrightarrow> payload = conflict_resolved_payload kind selected losers sess key \<Longrightarrow>
      spec_resolve kind selected (abs_context_of s) = Some (abs_context_of s')"
proof -
  have e: "ev_type ev = ty" "ev_payload ev = payload" using ev(1) by (auto simp: study_event_def mk_event_Inr)
  show "spec_record stid st (abs_context_of s) = Some (abs_context_of s')"
    if new: "ty = statement_recorded_type" "payload = statement_recorded_payload stid origin st sess key" "canonical_statement st"
    using s(2)
  proof (cases rule: repository_step.cases)
    case (step_recorded x)
    then show ?thesis using reducers_refine(1) [OF s(1) step_recorded(2,3)] study_payloads_decoded(1) [OF ev(2), of stid origin st sess key x] new e(2) by simp
  qed (use new(1) e(1) event_types_distinct in auto)
  show "spec_retract stid (abs_context_of s) = Some (abs_context_of s')"
    if new: "ty = statement_retracted_type" "payload = statement_retracted_payload stid sess key"
    using s(2)
  proof (cases rule: repository_step.cases)
    case (step_retracted x)
    then show ?thesis using reducers_refine(2) [OF s(1) step_retracted(2,3)] study_payloads_decoded(2) [OF ev(2), of stid sess key x] new e(2) by simp
  qed (use new(1) e(1) event_types_distinct in auto)
  show "spec_resolve kind selected (abs_context_of s) = Some (abs_context_of s')"
    if new: "ty = conflict_resolved_type" "payload = conflict_resolved_payload kind selected losers sess key"
    using s(2)
  proof (cases rule: repository_step.cases)
    case (step_resolved x)
    then show ?thesis using reducers_refine(3) [OF s(1) step_resolved(2,3)] study_payloads_decoded(3) [OF ev(2), of kind selected losers sess key x] new e(2) by simp
  qed (use new(1) e(1) event_types_distinct in auto)
qed

lemma alone_new_record:
  assumes wf: "wf_context ctx" "valid_datetime now" "utcoffset now = 0" and eid: "is_text eid" and st: "canonical_statement st"
  shows "alone (course_known (ctx_course ctx)) (new_record repository_registry idle now st origin ctx expected sid key eid)
    (study_outcome (ctx_course ctx) eid (record_command_fingerprint st origin) (spec_record (statement_id_for eid) st))"
  unfolding new_record_def
  by (rule alone_bind [OF alone_expect_sequence], rule alone_bind [OF alone_view_interactions], rule alone_bind_lift,
      rule alone_study_new [OF wf eid study_payloads_wf(1)])
    (simp_all add: study_steps_refine(1) st)

lemma alone_new_retraction:
  assumes wf: "wf_context ctx" "valid_datetime now" "utcoffset now = 0" and eid: "is_text eid"
  shows "alone (course_known (ctx_course ctx)) (new_retraction repository_registry idle now stid ctx expected sid key eid)
    (study_outcome (ctx_course ctx) eid (retract_command_fingerprint stid) (spec_retract stid))"
  unfolding new_retraction_def
proof (rule alone_bind [OF alone_expect_sequence], rule alone_try)
  show "alone (course_known (ctx_course ctx)) (cmd_bind (study_get repository_registry idle (ctx_course ctx)) (\<lambda>sn. cmd_lift (snapshot_statement sn stid)))
      (\<lambda>db target db'. db' = db \<and> course_known (ctx_course ctx) db)"
    by (rule alone_bind [OF alone_study_get]) (auto intro!: alone_lift)
  show "alone (course_known (ctx_course ctx))
      (cmd_bind (cmd_lift (if st_status target \<noteq> ACTIVE then Inl StudyContextConflictError else Inr ())) (\<lambda>_.
       cmd_bind (cmd_lift (study_event ctx eid statement_retracted_type (expected + 1) (statement_retracted_payload stid sid key) now)) (\<lambda>ev.
         append_study repository_registry idle (ctx_course ctx) expected ev (retract_command_fingerprint stid))))
      (study_outcome (ctx_course ctx) eid (retract_command_fingerprint stid) (spec_retract stid))" for target
    by (rule alone_bind_lift, rule alone_study_new [OF wf eid study_payloads_wf(2)]) (simp_all add: study_steps_refine(2))
qed (auto intro!: alone_lift)

lemma alone_new_resolution:
  assumes wf: "wf_context ctx" "valid_datetime now" "utcoffset now = 0" and eid: "is_text eid"
  shows "alone (course_known (ctx_course ctx)) (new_resolution repository_registry idle now kind selected ctx expected sid key eid)
    (study_outcome (ctx_course ctx) eid (resolve_command_fingerprint kind selected) (spec_resolve kind selected))"
  unfolding new_resolution_def
proof (rule alone_bind [OF alone_expect_sequence], rule alone_bind [OF alone_study_get], rule alone_bind_lift)
  fix sn losers
  show "alone (\<lambda>db. course_known (ctx_course ctx) db \<and> shows_context (ctx_course ctx) sn db)
      (cmd_bind (cmd_lift (study_event ctx eid conflict_resolved_type (expected + 1) (conflict_resolved_payload kind selected losers sid key) now)) (\<lambda>ev.
         append_study repository_registry idle (ctx_course ctx) expected ev (resolve_command_fingerprint kind selected)))
      (study_outcome (ctx_course ctx) eid (resolve_command_fingerprint kind selected) (spec_resolve kind selected))"
    by (rule alone_pre [OF alone_study_new [OF wf eid study_payloads_wf(3)]]) (simp_all add: study_steps_refine(3))
qed

text \<open>The three commands: what each of them makes of the abstract context.\<close>

lemma alone_study_commands:
  assumes wf: "wf_context ctx" "valid_datetime now" "utcoffset now = 0" and sess: "ctx_session ctx = Some sid" "ctx_key ctx = Some key"
  shows "canonical_statement st \<Longrightarrow> alone (\<lambda>_. True) (record_statement repository_registry idle now st origin ctx expected)
      (study_outcome (ctx_course ctx) (study_context_event_id_for (ctx_course ctx) sid key ''record'') (record_command_fingerprint st origin)
        (spec_record (statement_id_for (study_context_event_id_for (ctx_course ctx) sid key ''record'')) st))"
    and "alone (\<lambda>_. True) (retract_statement repository_registry idle now stid ctx expected)
      (study_outcome (ctx_course ctx) (study_context_event_id_for (ctx_course ctx) sid key ''retract'') (retract_command_fingerprint stid) (spec_retract stid))"
    and "alone (\<lambda>_. True) (resolve_conflict repository_registry idle now kind selected ctx expected)
      (study_outcome (ctx_course ctx) (study_context_event_id_for (ctx_course ctx) sid key ''resolve'') (resolve_command_fingerprint kind selected)
        (spec_resolve kind selected))"
  unfolding record_statement_def retract_statement_def resolve_conflict_def Let_def
  by (rule alone_with_context [OF sess], simp only: split, (rule alone_bind_lift)+, rule alone_existing_or,
      rule alone_new_record [OF wf study_event_id_text] alone_new_retraction [OF wf study_event_id_text] alone_new_resolution [OF wf study_event_id_text];
      assumption?)+

end
