(* ===== verification/Study_Completion.thy ===== *)
theory Study_Completion
  imports Study_Commands
begin

text \<open>
  When the study-context commands succeed: the reducers accept the event of a command whose step the abstract context allows, its
  payload decodes to what the command means, and the command then appends it and returns the new view.
\<close>

section \<open>Reading the state\<close>

lemma state_parts:
  assumes "context_ok (ev_course e) s"
  obtains raw parts where "get_default s ''study_context'' (JObj []) = JObj raw" "collections raw = Inr parts" "parts_ok (ev_course e) parts"
    "study_parts_of s e = Inr parts" "abs_context_of s = abs_statements (sp_statements parts)"
proof -
  obtain raw parts where raw: "get_default s ''study_context'' (JObj []) = JObj raw" "raw = [] \<or> has_keys raw [''statements'', ''resolutions'', ''commands'']"
    "collections raw = Inr parts" "parts_ok (ev_course e) parts" using context_ok_iff [THEN iffD1, OF assms] by blast
  then have "study_parts_of s e = Inr parts" by (auto simp: study_parts_of_def require_def parts_ok_def)
  then show thesis using that raw abs_parts by blast
qed

lemma unrecorded_command:
  assumes ok: "parts_ok c parts" and coll: "collections raw = Inr parts" and raw: "get_default s ''study_context'' (JObj []) = JObj raw"
    and none: "\<forall>fp. \<not> recorded_command s eid fp"
  shows "eid \<notin> set (keys_of (sp_commands parts))"
proof
  assume "eid \<in> set (keys_of (sp_commands parts))"
  then obtain v where v: "map_of (sp_commands parts) eid = Some v" by (metis map_of_eq_None_iff not_None_eq list.set_map)
  then have "valid_command (eid, v)" using ok map_of_SomeD [OF v] by (auto simp: parts_ok_def list_all_iff)
  then obtain en fp where "v = JObj en" "jget en ''command_fingerprint'' = JStr fp" by (auto simp: valid_command_def split: json.splits)
  moreover have "get_default raw ''commands'' (JObj []) = JObj (sp_commands parts)" using coll by (auto simp: collections_def split: json.splits)
  ultimately have "recorded_command s eid fp" using raw v by (simp add: recorded_command_def jget_def)
  then show False using none by blast
qed

lemma absent_statement:
  assumes "parts_ok c parts" and "abs_statements (sp_statements parts) sid = None"
  shows "sid \<notin> set (keys_of (sp_statements parts))"
proof
  assume "sid \<in> set (keys_of (sp_statements parts))"
  then obtain v where v: "map_of (sp_statements parts) sid = Some v" by (metis map_of_eq_None_iff not_None_eq list.set_map)
  then have "valid_statement c (sid, v)" using assms(1) map_of_SomeD [OF v] by (auto simp: parts_ok_def list_all_iff)
  then show False using valid_statement_abs [of c sid v] assms(2) v by (auto simp: abs_statements_def)
qed

lemma readable_session_required:
  assumes "session_in (ev_course e) sid s = Inr r" and "ev_session e = Some sid"
  shows "require_session s e = Inr sid"
proof -
  obtain ss where ss: "get_default s ''sessions'' (JObj []) = JObj ss" "decode_session (ev_course e) sid (jget ss sid) = Inr r"
    using assms(1) by (auto simp: session_in_def res_bind_eq_Inr mapping_value_Inr)
  then obtain raw where raw: "jget ss sid = JObj raw" "jget raw ''course_id'' = JStr (ev_course e)" "jget raw ''session_id'' = JStr sid"
    by (auto simp: decode_session_def split: json.splits if_splits)
  have "jget s ''sessions'' = JObj ss" using ss(1) raw(1) by (auto simp: get_default_def jget_def split: option.splits)
  then show ?thesis using raw assms(2) by (simp add: require_session_def session_text_def)
qed

lemma human_interaction_required:
  assumes "interactions_in sid ids s = Inr is" and "find_interaction origin is = Some i" and "ix_kind i = Interaction_HUMAN" and "sr_origin p = origin"
  shows "require_human_origin s sid p = Inr ()"
proof -
  obtain ints where ints: "get_default s ''session_interactions'' (JObj []) = JObj ints" "map_res (domain_interaction sid ints) ids = Inr is"
    using assms(1) by (auto simp: interactions_in_def res_bind_eq_Inr mapping_value_Inr)
  have i: "i \<in> set is" "ix_id i = origin" using assms(2) by (auto simp: find_interaction_def find_Some_iff)
  then obtain iid where "domain_interaction sid ints iid = Inr i" using ints(2) unfolding map_res_Inr_iff list_all2_conv_all_nth by (auto simp: in_set_conv_nth)
  then obtain raw where raw: "jget ints iid = JObj raw" "jget raw ''session_id'' = JStr sid" "decode_interaction iid raw = Inr i"
    by (auto simp: domain_interaction_def split: json.splits if_splits)
  then have "iid = origin" "jget raw ''kind'' = JStr ''human''"
    using i(2) assms(3) by (auto simp: decode_interaction_def res_bind_eq_Inr interaction_kind_of_def enum_of_def mk_identifier_Inr mk_interaction_def split: json.splits if_splits)
  moreover have "jget s ''session_interactions'' = JObj ints" using ints(1) raw(1) by (auto simp: get_default_def jget_def split: option.splits)
  ultimately show ?thesis using raw assms(4) by (simp add: require_human_origin_def require_def)
qed

section \<open>Events the reducers accept\<close>

lemma record_accepted:
  assumes ok: "context_ok (ev_course e) s" and course: "''course'' \<in> set (keys_of s)" and sess: "session_in (ev_course e) sid s = Inr r" "ev_session e = Some sid"
    and origin: "interactions_in sid (se_interactions r) s = Inr is" "find_interaction (sr_origin p) is = Some i" "ix_kind i = Interaction_HUMAN"
    and fresh: "\<forall>fp. \<not> recorded_command s (ev_id e) fp" and new: "abs_context_of s (sr_id p) = None"
  shows "\<exists>s'. reduce_statement_recorded s e p = Inr s'"
proof -
  obtain raw parts where parts: "get_default s ''study_context'' (JObj []) = JObj raw" "collections raw = Inr parts" "parts_ok (ev_course e) parts"
    "study_parts_of s e = Inr parts" "abs_context_of s = abs_statements (sp_statements parts)" by (rule state_parts [OF ok])
  have "ev_id e \<notin> set (keys_of (sp_commands parts))" "sr_id p \<notin> set (keys_of (sp_statements parts))"
    using unrecorded_command [OF parts(3,2,1) fresh] absent_statement [OF parts(3)] new parts(5) by simp_all
  then show ?thesis using course parts(4) readable_session_required [OF sess] human_interaction_required [OF origin refl]
    by (simp add: reduce_statement_recorded_def record_parts_def)
qed

lemma retract_accepted:
  assumes ok: "context_ok (ev_course e) s" and sess: "session_in (ev_course e) sid s = Inr r" "ev_session e = Some sid"
    and fresh: "\<forall>fp. \<not> recorded_command s (ev_id e) fp" and active: "abs_context_of s (rt_id p) = Some (k, x, ACTIVE)"
  shows "\<exists>s'. reduce_statement_retracted s e p = Inr s'"
proof -
  obtain raw parts where parts: "get_default s ''study_context'' (JObj []) = JObj raw" "collections raw = Inr parts" "parts_ok (ev_course e) parts"
    "study_parts_of s e = Inr parts" "abs_context_of s = abs_statements (sp_statements parts)" by (rule state_parts [OF ok])
  obtain entry where "map_of (sp_statements parts) (rt_id p) = Some (JObj entry)" "entry_abs (JObj entry) = Some (k, x, ACTIVE)"
    using active unfolding parts(5) abs_statements_Some by blast
  then have "jget (sp_statements parts) (rt_id p) = JObj entry" "jget entry ''status'' = JStr (status_value ACTIVE)"
    by (auto simp: jget_def entry_abs_JObj)
  then show ?thesis using parts(4) readable_session_required [OF sess] unrecorded_command [OF parts(3,2,1) fresh]
    by (simp add: reduce_statement_retracted_def retract_parts_def del: status_value.simps)
qed

lemma active_value_keys:
  assumes "distinct (keys_of sts)" and valid: "list_all (valid_statement c) sts" and "is_scalar k"
  obtains vks where "value_keys (active_entries k sts) = Inr vks"
proof -
  have "\<exists>vk. value_key (jget raw ''value'') = Inr vk" if "(sid, raw) \<in> set (active_entries k sts)" for sid raw
  proof -
    have "valid_statement c (sid, JObj raw)" "jget raw ''kind'' = JStr (kind_value k)"
      using that valid by (auto simp: set_active_entries list_all_iff)
    then show ?thesis using valid_statement_abs [of c sid "JObj raw"] projected_scalar [OF assms(3)] by (fastforce simp: entry_abs_JObj)
  qed
  then have "\<forall>x \<in> set (active_entries k sts). \<exists>y. (\<lambda>(sid, raw). res_bind (value_key (jget raw ''value'')) (\<lambda>vk. Inr (sid, vk))) x = Inr y"
    by fastforce
  from bchoice [OF this] obtain g where "\<forall>x \<in> set (active_entries k sts). (\<lambda>(sid, raw). res_bind (value_key (jget raw ''value'')) (\<lambda>vk. Inr (sid, vk))) x = Inr (g x)"
    by blast
  then have "value_keys (active_entries k sts) = Inr (map g (active_entries k sts))" unfolding value_keys_def by (intro map_res_all_Inr) blast
  then show thesis by (rule that)
qed

text \<open>The losers the command computes from the snapshot are the ones the reducer computes from the entries.\<close>

lemma resolve_accepted:
  assumes ok: "context_ok (ev_course e) s" and sess: "session_in (ev_course e) sid s = Inr r" "ev_session e = Some sid"
    and fresh: "\<forall>fp. \<not> recorded_command s (ev_id e) fp" and scalar: "is_scalar (cr_kind p)" and spec: "spec_resolve (cr_kind p) (cr_selected p) (abs_context_of s) = Some A'"
    and x: "abs_context_of s (cr_selected p) = Some (cr_kind p, x, ACTIVE)"
    and losers: "sorted (cr_superseded p)" "distinct (cr_superseded p)"
      "set (cr_superseded p) = {i. \<exists>y. abs_context_of s i = Some (cr_kind p, y, ACTIVE) \<and> y \<noteq> x}"
  shows "\<exists>s'. reduce_conflict_resolved s e p = Inr s'"
proof -
  obtain raw parts where parts: "get_default s ''study_context'' (JObj []) = JObj raw" "collections raw = Inr parts" "parts_ok (ev_course e) parts"
    "study_parts_of s e = Inr parts" "abs_context_of s = abs_statements (sp_statements parts)" by (rule state_parts [OF ok])
  let ?sts = "sp_statements parts" and ?k = "cr_kind p" and ?A = "abs_statements (sp_statements parts)"
  have wf: "distinct (keys_of ?sts)" and valid: "list_all (valid_statement (ev_course e)) ?sts" using parts(3) by (simp_all add: parts_ok_def wf_parts_def)
  obtain vks where vks: "value_keys (active_entries ?k ?sts) = Inr vks" by (rule active_value_keys [OF wf valid scalar])
  note keys = value_keys_abs [OF wf valid scalar vks]
  have key: "scalar_key y = scalar_key z \<longleftrightarrow> y = z" if "?A i = Some (?k, y, ACTIVE)" "?A j = Some (?k, z, ACTIVE)" for i j y z
    using that scalar_key_inj [OF scalar] by (auto simp: abs_statements_Some entry_abs_JObj)
  obtain sel where "map_of ?sts (cr_selected p) = Some (JObj sel)" "entry_abs (JObj sel) = Some (?k, x, ACTIVE)"
    using x unfolding parts(5) abs_statements_Some by blast
  then have sel: "jget ?sts (cr_selected p) = JObj sel" "jget sel ''status'' = JStr (status_value ACTIVE)" "jget sel ''kind'' = JStr (kind_value ?k)"
    "value_key (jget sel ''value'') = Inr (scalar_key x)"
    using projected_scalar [OF scalar, of _ x] by (auto simp: jget_def entry_abs_JObj)
  have "i \<in> set (map fst (filter (\<lambda>sv. snd sv \<noteq> scalar_key x) vks)) \<longleftrightarrow> i \<in> set (cr_superseded p)" for i
    using key [OF _ x [unfolded parts(5)]] by (force simp: losers(3) parts(5) keys(1))
  moreover have "distinct (map fst (filter (\<lambda>sv. snd sv \<noteq> scalar_key x) vks))"
    using keys(2) distinct_active_entries [OF wf] by (metis distinct_map_filter)
  ultimately have eq: "cr_superseded p = sort (map fst (filter (\<lambda>sv. snd sv \<noteq> scalar_key x) vks))"
    using losers(1,2) by (intro sorted_distinct_set_unique) auto
  obtain i j v w where two: "?A i = Some (?k, v, ACTIVE)" "?A j = Some (?k, w, ACTIVE)" "v \<noteq> w"
    using spec_resolve_conflict [OF spec] unfolding spec_conflict_def parts(5) by blast
  then have "{scalar_key v, scalar_key w} \<subseteq> set (map snd vks)" "card {scalar_key v, scalar_key w} = 2"
    using key [OF two(1,2)] by (force simp: keys(1), auto)
  then have "\<not> card (set (map snd vks)) < 2" using card_mono [of "set (map snd vks)" "{scalar_key v, scalar_key w}"] by simp
  then show ?thesis using parts(4) readable_session_required [OF sess] unrecorded_command [OF parts(3,2,1) fresh] sel vks eq
    by (simp add: reduce_conflict_resolved_def resolve_parts_def Let_def del: status_value.simps)
qed

lemma snapshot_finds:
  assumes "represents (sn_statements sn) A" and "A sid = Some t"
  obtains target where "snapshot_statement sn sid = Inr target" "triple target = t"
proof -
  have "find (\<lambda>st. st_id st = sid) (sn_statements sn) \<noteq> None" using assms unfolding represents_def find_None_iff by blast
  then obtain target where target: "find (\<lambda>st. st_id st = sid) (sn_statements sn) = Some target" by blast
  then have "target \<in> set (sn_statements sn)" "st_id target = sid" by (auto simp: find_Some_iff)
  then have "A sid = Some (triple target)" using assms(1) unfolding represents_def by blast
  then show thesis using that target assms(2) by (simp add: snapshot_statement_def)
qed

lemma plan_losers:
  assumes rep: "represents (sn_statements sn) A" and conf: "cf_kind ` set (sn_conflicts sn) = {k. is_scalar k \<and> spec_conflict k A}"
    and scalar: "is_scalar kind" and spec: "spec_resolve kind selected A = Some A'"
  obtains x losers where "A selected = Some (kind, x, ACTIVE)" "resolution_plan kind selected sn = Inr losers" "sorted losers" "distinct losers"
    "set losers = {i. \<exists>y. A i = Some (kind, y, ACTIVE) \<and> y \<noteq> x}"
proof -
  obtain x where x: "A selected = Some (kind, x, ACTIVE)" "spec_conflict kind A"
    using spec by (auto simp: spec_resolve_def split: option.splits statement_status.splits if_splits)
  have "kind \<in> cf_kind ` set (sn_conflicts sn)" using conf scalar x(2) by simp
  then have found: "find (\<lambda>cf. cf_kind cf = kind) (sn_conflicts sn) \<noteq> None" by (auto simp: find_None_iff)
  obtain target where target: "snapshot_statement sn selected = Inr target" "triple target = (kind, x, ACTIVE)"
    by (rule snapshot_finds [OF rep x(1)])
  let ?losers = "sort (map st_id (filter (\<lambda>item. st_value item \<noteq> st_value target) (snapshot_active sn kind)))"
  have "resolution_plan kind selected sn = Inr ?losers"
    using found target by (simp add: resolution_plan_def triple_def)
  moreover have "distinct ?losers" using rep by (simp add: represents_def snapshot_active_def distinct_map_filter)
  moreover have "set ?losers = {i. \<exists>y. A i = Some (kind, y, ACTIVE) \<and> y \<noteq> x}"
  proof -
    have "A i = Some (kind, y, ACTIVE) \<longleftrightarrow> (\<exists>st \<in> set (sn_statements sn). st_id st = i \<and> triple st = (kind, y, ACTIVE))" for i y
      using rep unfolding represents_def by blast
    then show ?thesis using target(2) by (auto simp: snapshot_active_def triple_def)
  qed
  ultimately show thesis using that [of x ?losers] x(1) by simp
qed

section \<open>The commands alone\<close>

lemma study_registrations:
  assumes "ev_version e = 1"
  shows "ev_type e = statement_recorded_type \<Longrightarrow> decode_statement_recorded e = Inr p \<Longrightarrow> reduce repository_registry s e = reduce_statement_recorded s e p"
    and "ev_type e = statement_retracted_type \<Longrightarrow> decode_statement_retracted e = Inr t \<Longrightarrow> reduce repository_registry s e = reduce_statement_retracted s e t"
    and "ev_type e = conflict_resolved_type \<Longrightarrow> decode_conflict_resolved e = Inr r \<Longrightarrow> reduce repository_registry s e = reduce_conflict_resolved s e r"
  using assms
  by (simp_all add: registration_of_def repository_registry_def event_types reduce_def decode_def reduce_decoded_def erase_decoder_def erase_reducer_def)

text \<open>Appending an event the reducers accept: the stream grows by it and the view reads the new state, unless its identity is used.\<close>

definition landed :: "string \<Rightarrow> nat \<Rightarrow> database \<Rightarrow> context_snapshot result \<times> nat \<times> database \<Rightarrow> bool" where
  "landed eid k db w = (if eid \<in> row_event_id ` set (db_events db) then w = (Inl IntegrityError, Suc k, db)
     else (\<exists>sn db'. w = (Inr sn, Suc (Suc k), db') \<and> store_step repository_registry db db'))"

lemma append_study_alone:
  assumes ok: "store_ok repository_registry db" and es: "stream_ok repository_registry db c es" and q: "replay repository_registry c es = Inr q"
    and e: "wf_event ev" "is_utc ev" "ev_course ev = c" "ev_seq ev = int (length es) + 1" "ev_version ev = 1" and bound: "int (length es) + 1 < 2 ^ 63"
    and red: "reduce repository_registry (canon_obj (proj_state q)) ev = Inr s"
    and ty: "ev_type ev \<in> {statement_recorded_type, statement_retracted_type, conflict_resolved_type}" and course: "''course'' \<in> set (keys_of (proj_state q))"
  shows "landed (ev_id ev) k db (append_study repository_registry idle c (int (length es)) ev fp (k, db))"
proof (cases "ev_id ev \<in> row_event_id ` set (db_events db)")
  case True
  then show ?thesis using repo.append_used [OF es q e bound True red]
    by (simp add: landed_def append_study_def cmd_try_def append_course_def access_def cmd_lift_def)
next
  case fresh: False
  obtain db' where db': "append False repository_registry c (int (length es)) [ev] db = Inr (int (length es) + 1, db')" "store_step repository_registry db db'"
    using repo.append_succeeds [OF ok es q e bound fresh red] by blast
  obtain s0 s' p where st: "course_state repository_registry db c s0" "course_state repository_registry db' c s'" "repository_step s0 (stored ev) s'"
    and p: "projection_of False repository_registry db' c = Inr (p, db')" "proj_state p = canon_obj s'" "proj_course p = c" "1 \<le> proj_seq p"
    using append_one_step [OF ok e(1,2) db'(1)] by blast
  have "s0 = proj_state q" using repo.course_state_unique [OF st(1)] es q unfolding course_state_def by blast
  then have "''course'' \<in> set (keys_of s')" using study_step_course [OF st(3)] ty course by simp
  then obtain sn where "study_view_get c p = Inr sn" using study_view_shows(2) [OF st(2) p(2,3)] p(4) by blast
  then have "append_study repository_registry idle c (int (length es)) ev fp (k, db) = (Inr sn, Suc (Suc k), db')"
    using db'(1) p(1) by (simp add: append_study_def cmd_try_def append_course_def access_def study_get_def cmd_bind_def load_course_def cmd_lift_def)
  then show ?thesis using db'(2) fresh by (simp add: landed_def)
qed

text \<open>What the guards of a command make of a course with a readable session and a command that is not recorded.\<close>

lemma study_guards_alone:
  assumes ok: "store_ok repository_registry db" and es: "stream_ok repository_registry db (ctx_course ctx) es" and q: "replay repository_registry (ctx_course ctx) es = Inr q"
    and course: "has_course repository_registry db (ctx_course ctx) profile" and r: "session_in (ctx_course ctx) sid (proj_state q) = Inr r"
    and ctx: "ctx_session ctx = Some sid" "ctx_key ctx = Some key" "ctx_kind ctx \<in> {HUMAN, SERVICE}"
  shows "study_command_context repository_registry idle ctx (k, db) = (Inr (sid, key), Suc (Suc k), db)"
    and "''course'' \<in> set (keys_of (proj_state q))" and "1 \<le> length es"
    and "expect_sequence idle (ctx_course ctx) (int (length es)) (k, db) = (Inr (), Suc k, db)"
    and "\<exists>sn. study_get repository_registry idle (ctx_course ctx) (k, db) = (Inr sn, Suc k, db) \<and> represents (sn_statements sn) (abs_context_of (proj_state q)) \<and>
      cf_kind ` set (sn_conflicts sn) = {j. is_scalar j \<and> spec_conflict j (abs_context_of (proj_state q))}"
    and "\<forall>fp. \<not> recorded_command (proj_state q) eid fp \<Longrightarrow> existing_command repository_registry idle (ctx_course ctx) eid fp (k, db) = (Inr None, Suc k, db)"
proof -
  let ?c = "ctx_course ctx"
  have state: "course_state repository_registry db ?c (proj_state q)" using es q by (auto simp: course_state_def)
  note wf = repo.course_state_wf [OF state]
  have view: "course_view_get repository_registry ?c db = (Inr profile, db)" using repo_courses.view_get_iff [OF ok] course by blast
  obtain p where p: "projection_of False repository_registry db ?c = Inr (p, db)" "proj_state p = canon_obj (proj_state q)" "proj_course p = ?c" "proj_seq p = int (length es)"
    by (rule that [OF repo.projection_of_ok [OF es q, of False]]) simp_all
  have "course_of_projection (ctx_course ctx) p = Inr profile" using view p(1) by (simp add: course_view_get_def)
  then have "map_of (proj_state p) ''course'' \<noteq> None" by (cases "map_of (proj_state p) ''course''") (auto simp: course_of_projection_def split: if_splits)
  then have "''course'' \<in> set (keys_of (proj_state p))" by (simp add: map_of_eq_None_iff)
  then show key_in: "''course'' \<in> set (keys_of (proj_state q))" by (simp add: p(2))
  show "study_command_context repository_registry idle ctx (k, db) = (Inr (sid, key), Suc (Suc k), db)"
    using ctx idle_accesses(3,4) [OF es q] view r session_in_Inr [OF r] by (simp add: study_command_context_def cmd_bind_def cmd_lift_def)
  show "expect_sequence idle ?c (int (length es)) (k, db) = (Inr (), Suc k, db)"
    using idle_accesses(2) [OF es q] course_last_sequence [OF q] by (simp add: expect_sequence_def cmd_bind_def cmd_lift_def)
  show len: "1 \<le> length es"
    using key_in q by (cases es) (auto simp: replay_def initial_projection_def)
  have load: "load_course repository_registry idle ?c (k, db) = (Inr p, Suc k, db)" using p(1) by (simp add: load_course_def access_def)
  obtain sn where sn: "study_view_get ?c p = Inr sn" using study_view_shows(2) [OF state p(2,3) key_in] p(4) len by auto
  obtain A where "abs_state db ?c A" "represents (sn_statements sn) A" "cf_kind ` set (sn_conflicts sn) = {j. is_scalar j \<and> spec_conflict j A}"
    using study_view_shows(1) [OF state p(2,3) sn] unfolding shows_context_def by blast
  moreover from this(1) have "A = abs_context_of (proj_state q)" using abs_state_unique state unfolding abs_state_def by blast
  ultimately show "\<exists>sn. study_get repository_registry idle ?c (k, db) = (Inr sn, Suc k, db) \<and> represents (sn_statements sn) (abs_context_of (proj_state q)) \<and>
      cf_kind ` set (sn_conflicts sn) = {j. is_scalar j \<and> spec_conflict j (abs_context_of (proj_state q))}"
    using load sn by (auto simp: study_get_def cmd_bind_def cmd_lift_def)
  show "existing_command repository_registry idle ?c eid fp (k, db) = (Inr None, Suc k, db)" if new: "\<forall>fp. \<not> recorded_command (proj_state q) eid fp"
  proof -
    have none: "\<forall>fp. \<not> recorded_command (proj_state p) eid fp"
      using new recorded_command_canon [OF wf] p(2) by simp
    have "context_ok ?c (proj_state p)" using context_canon(1) [OF wf course_state_context [OF state]] p(2) by simp
    then obtain raw parts where raw: "get_default (proj_state p) ''study_context'' (JObj []) = JObj raw" "collections raw = Inr parts" "parts_ok ?c parts"
      using context_ok_iff by blast
    have "jget (sp_commands parts) eid = JNull"
      using unrecorded_command [OF raw(3,2,1) none] by (simp add: jget_def map_of_eq_None_iff [THEN iffD2])
    moreover have "get_default raw ''commands'' (JObj []) = JObj (sp_commands parts)" using raw(2) by (auto simp: collections_def split: json.splits)
    ultimately have "command_fingerprint ?c eid p = Inr None"
      using raw(1) p(2,3) key_in by (simp add: command_fingerprint_def study_projection_def)
    then show ?thesis using load by (simp add: existing_command_def study_fingerprint_def cmd_bind_def cmd_lift_def)
  qed
qed

lemma study_event_ok:
  assumes "wf_context ctx" "valid_datetime now" "utcoffset now = 0" and "is_text eid" and "wf_json (JObj payload)" and "is_text ty" and "1 \<le> sq"
  obtains ev where "study_event ctx eid ty sq payload now = Inr ev" "wf_event ev" "is_utc ev" "ev_type ev = ty" "ev_payload ev = payload" "ev_id ev = eid"
    "ev_course ev = ctx_course ctx" "ev_session ev = ctx_session ctx" "ev_seq ev = sq" "ev_version ev = 1" "act_kind (ev_actor ev) = ctx_kind ctx"
proof -
  obtain ev where ev: "study_event ctx eid ty sq payload now = Inr ev" using assms(6,7) by (simp add: study_event_def mk_event_def)
  show thesis by (rule that [OF ev]) (use study_event_Inr [OF ev assms(1,4,5,2,3)] in auto)
qed

text \<open>The events the commands write decode to what the commands mean.\<close>

lemma study_events_decode:
  assumes ev: "ev_id ev = study_context_event_id_for (ev_course ev) sid key purpose" "ev_session ev = Some sid" "2 \<le> ev_seq ev" "ev_version ev = 1"
    "trusted_kind (act_kind (ev_actor ev))" and sid: "is_text sid" "is_text key"
  shows "purpose = ''record'' \<Longrightarrow> ev_type ev = statement_recorded_type \<Longrightarrow> ev_payload ev = statement_recorded_payload (statement_id_for (ev_id ev)) origin st sid key \<Longrightarrow>
      canonical_statement st \<Longrightarrow> is_text origin \<Longrightarrow> decode_statement_recorded ev =
        Inr \<lparr>sr_id = statement_id_for (ev_id ev), sr_origin = origin, sr_statement = st, sr_key = key, sr_fingerprint = record_command_fingerprint st origin\<rparr>"
    and "purpose = ''retract'' \<Longrightarrow> ev_type ev = statement_retracted_type \<Longrightarrow> ev_payload ev = statement_retracted_payload stid sid key \<Longrightarrow> is_text stid \<Longrightarrow>
      decode_statement_retracted ev = Inr \<lparr>rt_id = stid, rt_key = key, rt_fingerprint = retract_command_fingerprint stid\<rparr>"
    and "purpose = ''resolve'' \<Longrightarrow> ev_type ev = conflict_resolved_type \<Longrightarrow> ev_payload ev = conflict_resolved_payload kind selected losers sid key \<Longrightarrow>
      is_scalar kind \<Longrightarrow> is_text selected \<Longrightarrow> list_all is_text losers \<Longrightarrow> losers \<noteq> [] \<Longrightarrow> selected \<notin> set losers \<Longrightarrow> distinct losers \<Longrightarrow> sorted losers \<Longrightarrow>
      decode_conflict_resolved ev = Inr \<lparr>cr_kind = kind, cr_selected = selected, cr_superseded = losers, cr_key = key,
        cr_fingerprint = resolve_command_fingerprint kind selected\<rparr>"
proof -
  have sha: "is_sha256 (record_command_fingerprint st origin)" "is_sha256 (retract_command_fingerprint stid)" "is_sha256 (resolve_command_fingerprint kind selected)"
    "is_text (record_command_fingerprint st origin)" "is_text (retract_command_fingerprint stid)" "is_text (resolve_command_fingerprint kind selected)" for st origin stid kind selected
    by (simp_all add: record_command_fingerprint_def retract_command_fingerprint_def resolve_command_fingerprint_def sha_json_def sha256_hex_shape)
  note eval = study_envelope_def has_keys_eval jget_Cons text_value_def key_value_def fingerprint_value_def session_text_def
  show "decode_statement_recorded ev = Inr \<lparr>sr_id = statement_id_for (ev_id ev), sr_origin = origin, sr_statement = st, sr_key = key,
      sr_fingerprint = record_command_fingerprint st origin\<rparr>"
    if new: "purpose = ''record''" "ev_type ev = statement_recorded_type" "ev_payload ev = statement_recorded_payload (statement_id_for (ev_id ev)) origin st sid key"
      "canonical_statement st" "is_text origin"
  proof -
    have dec: "decode_statement (ev_payload ev) = Inr st"
      by (rule decode_statement_manifest [OF new(4)]) (simp_all add: new(3) statement_recorded_payload_def jget_Cons)
    have env: "study_envelope ev statement_recorded_type recorded_keys ''record'' = Inr (ev_payload ev)"
      using ev sid new(1,2) by (simp add: eval new(3) statement_recorded_payload_def recorded_keys_def)
    show ?thesis unfolding decode_statement_recorded_def env res_bind_Inr dec
      using ev sid new sha study_id_text by (simp add: eval new(3) statement_recorded_payload_def Let_def)
  qed
  show "decode_statement_retracted ev = Inr \<lparr>rt_id = stid, rt_key = key, rt_fingerprint = retract_command_fingerprint stid\<rparr>"
    if new: "purpose = ''retract''" "ev_type ev = statement_retracted_type" "ev_payload ev = statement_retracted_payload stid sid key" "is_text stid"
    using ev sid new sha by (simp add: decode_statement_retracted_def eval new(3) statement_retracted_payload_def retracted_keys_def)
  show "decode_conflict_resolved ev = Inr \<lparr>cr_kind = kind, cr_selected = selected, cr_superseded = losers, cr_key = key,
        cr_fingerprint = resolve_command_fingerprint kind selected\<rparr>"
    if new: "purpose = ''resolve''" "ev_type ev = conflict_resolved_type" "ev_payload ev = conflict_resolved_payload kind selected losers sid key" "is_scalar kind"
      "is_text selected" "list_all is_text losers" "losers \<noteq> []" "selected \<notin> set losers" "distinct losers" "sorted losers"
  proof -
    have arr: "text_array (text_items losers) = Inr losers" using text_items_array new(6) by simp
    have env: "study_envelope ev conflict_resolved_type resolved_keys ''resolve'' = Inr (ev_payload ev)"
      using ev sid new(1,2) by (simp add: eval new(3) conflict_resolved_payload_def resolved_keys_def)
    show ?thesis unfolding decode_conflict_resolved_def env res_bind_Inr
      using ev sid new(4-) sha arr sorted_sort_id [of losers] by (simp add: eval new(3) conflict_resolved_payload_def)
  qed
qed

lemma cmd_bind_step: "m w = (Inr x, w') \<Longrightarrow> cmd_bind m f w = f x w'" "cmd_bind (cmd_lift (Inr x)) f w = f x w"
  by (cases w; cases w'; simp add: cmd_bind_def cmd_lift_def)+

lemma cmd_try_step: "m w = (Inr x, w') \<Longrightarrow> cmd_try m h f w = f x w'"
  by (cases w; cases w'; simp add: cmd_try_def)

lemma expected_ok: "validate_expected_sequence (int n) = Inr ()"
  by (simp add: validate_expected_sequence_def)

lemma context_texts:
  assumes "wf_context ctx"
  shows "ctx_session ctx = Some sid \<Longrightarrow> is_text sid" and "ctx_key ctx = Some key \<Longrightarrow> is_text key"
  using assms by (auto simp: wf_context_def text_option_def)

lemma statement_key_text:
  assumes "context_ok c s" and "abs_context_of s sid = Some t"
  shows "is_text sid"
proof -
  obtain raw parts where raw: "get_default s ''study_context'' (JObj []) = JObj raw" "collections raw = Inr parts" "parts_ok c parts"
    using assms(1) context_ok_iff by blast
  then have "abs_statements (sp_statements parts) sid = Some t" using assms(2) by (simp add: abs_context_of_def)
  then obtain v where "map_of (sp_statements parts) sid = Some v" by (cases "map_of (sp_statements parts) sid") (auto simp: abs_statements_def)
  then show ?thesis using raw(3) map_of_SomeD [of "sp_statements parts" sid] by (fastforce simp: parts_ok_def list_all_iff)
qed

lemma interaction_id_text:
  assumes "interactions_in sid ids s = Inr is" and "find_interaction iid is = Some i"
  shows "is_text iid"
proof -
  obtain ints where ints: "map_res (domain_interaction sid ints) ids = Inr is"
    using assms(1) by (auto simp: interactions_in_def res_bind_eq_Inr)
  have i: "i \<in> set is" "ix_id i = iid" using assms(2) by (auto simp: find_interaction_def find_Some_iff)
  then obtain j where "domain_interaction sid ints j = Inr i"
    using ints unfolding map_res_Inr_iff list_all2_conv_all_nth by (auto simp: in_set_conv_nth)
  then show ?thesis using i(2)
    by (auto simp: domain_interaction_def decode_interaction_def res_bind_eq_Inr mk_identifier_Inr mk_interaction_def split: json.splits if_splits)
qed

text \<open>The last part of every command: an event the reducers accept is appended and read back.\<close>

lemma study_new_alone:
  assumes ok: "store_ok repository_registry db" and es: "stream_ok repository_registry db (ctx_course ctx) es" and q: "replay repository_registry (ctx_course ctx) es = Inr q"
    and course: "''course'' \<in> set (keys_of (proj_state q))" and wf: "wf_context ctx" "valid_datetime now" "utcoffset now = 0"
    and bound: "int (length es) + 1 < 2 ^ 63" and eid: "is_text eid"
    and ty: "ty \<in> {statement_recorded_type, statement_retracted_type, conflict_resolved_type}" and payload: "wf_json (JObj payload)"
    and accepted: "\<And>ev. wf_event ev \<Longrightarrow> ev_type ev = ty \<Longrightarrow> ev_payload ev = payload \<Longrightarrow> ev_id ev = eid \<Longrightarrow> ev_course ev = ctx_course ctx \<Longrightarrow>
      ev_session ev = ctx_session ctx \<Longrightarrow> ev_seq ev = int (length es) + 1 \<Longrightarrow> ev_version ev = 1 \<Longrightarrow> act_kind (ev_actor ev) = ctx_kind ctx \<Longrightarrow>
      \<exists>s. reduce repository_registry (canon_obj (proj_state q)) ev = Inr s"
  shows "landed eid k db (cmd_bind (cmd_lift (study_event ctx eid ty (int (length es) + 1) payload now))
      (\<lambda>ev. append_study repository_registry idle (ctx_course ctx) (int (length es)) ev fp) (k, db))"
proof -
  have sq: "1 \<le> int (length es) + 1" and "is_text ty" using ty study_type_text by auto
  then obtain ev where ev: "study_event ctx eid ty (int (length es) + 1) payload now = Inr ev"
    and e: "wf_event ev" "is_utc ev" "ev_type ev = ty" "ev_payload ev = payload" "ev_id ev = eid"
      "ev_course ev = ctx_course ctx" "ev_session ev = ctx_session ctx" "ev_seq ev = int (length es) + 1" "ev_version ev = 1" "act_kind (ev_actor ev) = ctx_kind ctx"
    using study_event_ok [OF wf eid payload _ sq, of ty] by blast
  obtain s where "reduce repository_registry (canon_obj (proj_state q)) ev = Inr s" using accepted e by blast
  from append_study_alone [OF ok es q e(1,2,6,8,9) bound this _ course, of k fp] ty e(3,5) ev
  show ?thesis by (simp add: cmd_bind_def cmd_lift_def)
qed

text \<open>A command whose step the abstract context allows is carried out.\<close>

lemma record_statement_alone:
  assumes ok: "store_ok repository_registry db" and es: "stream_ok repository_registry db (ctx_course ctx) es" and q: "replay repository_registry (ctx_course ctx) es = Inr q"
    and course: "has_course repository_registry db (ctx_course ctx) profile" and r: "session_in (ctx_course ctx) sid (proj_state q) = Inr r"
    and wf: "wf_context ctx" "valid_datetime now" "utcoffset now = 0"
    and ctx: "ctx_session ctx = Some sid" "ctx_key ctx = Some key" "ctx_kind ctx \<in> {HUMAN, SERVICE}"
    and bound: "int (length es) + 1 < 2 ^ 63" and fresh: "\<forall>fp. \<not> recorded_command (proj_state q) (study_context_event_id_for (ctx_course ctx) sid key ''record'') fp"
    and st: "canonical_statement st" and origin: "interactions_in sid (se_interactions r) (canon_obj (proj_state q)) = Inr is" "find_interaction origin is = Some i" "ix_kind i = Interaction_HUMAN"
    and new: "abs_context_of (proj_state q) (statement_id_for (study_context_event_id_for (ctx_course ctx) sid key ''record'')) = None"
  shows "landed (study_context_event_id_for (ctx_course ctx) sid key ''record'') (k + 6) db (record_statement repository_registry idle now st origin ctx (int (length es)) (k, db))"
proof -
  let ?c = "ctx_course ctx" and ?eid = "study_context_event_id_for (ctx_course ctx) sid key ''record''"
  let ?payload = "statement_recorded_payload (statement_id_for ?eid) origin st sid key"
  note guards = study_guards_alone [OF ok es q course r ctx]
  have state: "course_state repository_registry db ?c (proj_state q)" using es q by (auto simp: course_state_def)
  note wfs = repo.course_state_wf [OF state]
  have "\<exists>s. reduce repository_registry (canon_obj (proj_state q)) ev = Inr s"
    if e: "wf_event ev" "ev_type ev = statement_recorded_type" "ev_payload ev = ?payload" "ev_id ev = ?eid" "ev_course ev = ?c" "ev_session ev = ctx_session ctx"
      "ev_seq ev = int (length es) + 1" "ev_version ev = 1" "act_kind (ev_actor ev) = ctx_kind ctx" for ev
  proof -
    let ?p = "\<lparr>sr_id = statement_id_for ?eid, sr_origin = origin, sr_statement = st, sr_key = key, sr_fingerprint = record_command_fingerprint st origin\<rparr>"
    have dec: "decode_statement_recorded ev = Inr ?p"
      using study_events_decode(1) [of ev sid key "''record''" origin st] e ctx guards(3) context_texts [OF wf(1)] st interaction_id_text [OF origin(1,2)] by (auto simp: trusted_kind_def)
    have "\<exists>s'. reduce_statement_recorded (canon_obj (proj_state q)) ev ?p = Inr s'"
      by (rule record_accepted [where sid = sid and r = r])
        (use context_canon [OF wfs] course_state_context [OF state] guards(2) session_in_canon [OF wfs] r e ctx origin new
          fresh recorded_command_canon [OF wfs] in simp_all)
    then show ?thesis using study_registrations(1) [OF e(8,2) dec] by auto
  qed
  from study_new_alone [OF ok es q guards(2) wf bound study_event_id_text insertI1 study_payloads_wf(1) this, where fp = "record_command_fingerprint st origin" and k = "k + 6"]
  obtain w where run: "cmd_bind (cmd_lift (study_event ctx ?eid statement_recorded_type (int (length es) + 1) ?payload now))
      (\<lambda>ev. append_study repository_registry idle ?c (int (length es)) ev (record_command_fingerprint st origin)) (k + 6, db) = w" "landed ?eid (k + 6) db w" by blast
  have six: "k + 6 = Suc (Suc (Suc (Suc (Suc (Suc k)))))" by simp
  have load: "view_projection repository_registry idle ?c (j, db) = (Inr (canon_obj (proj_state q)), Suc j, db)" for j using load_course_idle [OF state] by blast
  have inter: "view_interactions repository_registry idle ?c sid (j, db) = (Inr is, Suc (Suc j), db)" for j
    using load session_in_canon [OF wfs, of ?c sid] r origin(1) by (simp add: view_interactions_def get_session_def cmd_bind_def cmd_lift_def)
  have human: "(case find_interaction origin is of Some i \<Rightarrow> if ix_kind i \<noteq> Interaction_HUMAN then Inl StudyContextCommandError else Inr () | None \<Rightarrow> Inl StudyContextCommandError) = Inr ()"
    using origin(2,3) by simp
  show ?thesis
    using guards(1,4) guards(6) [OF fresh] inter run(2) run(1) [unfolded six]
    by (simp add: record_statement_def new_record_def expected_ok human cmd_bind_step Let_def)
qed

lemma retract_statement_alone:
  assumes ok: "store_ok repository_registry db" and es: "stream_ok repository_registry db (ctx_course ctx) es" and q: "replay repository_registry (ctx_course ctx) es = Inr q"
    and course: "has_course repository_registry db (ctx_course ctx) profile" and r: "session_in (ctx_course ctx) sid (proj_state q) = Inr r"
    and wf: "wf_context ctx" "valid_datetime now" "utcoffset now = 0"
    and ctx: "ctx_session ctx = Some sid" "ctx_key ctx = Some key" "ctx_kind ctx \<in> {HUMAN, SERVICE}"
    and bound: "int (length es) + 1 < 2 ^ 63" and fresh: "\<forall>fp. \<not> recorded_command (proj_state q) (study_context_event_id_for (ctx_course ctx) sid key ''retract'') fp"
    and active: "abs_context_of (proj_state q) stid = Some (j, x, ACTIVE)"
  shows "landed (study_context_event_id_for (ctx_course ctx) sid key ''retract'') (k + 5) db (retract_statement repository_registry idle now stid ctx (int (length es)) (k, db))"
proof -
  let ?c = "ctx_course ctx" and ?eid = "study_context_event_id_for (ctx_course ctx) sid key ''retract''"
  let ?payload = "statement_retracted_payload stid sid key"
  note guards = study_guards_alone [OF ok es q course r ctx]
  have state: "course_state repository_registry db ?c (proj_state q)" using es q by (auto simp: course_state_def)
  note wfs = repo.course_state_wf [OF state]
  have "\<exists>s. reduce repository_registry (canon_obj (proj_state q)) ev = Inr s"
    if e: "wf_event ev" "ev_type ev = statement_retracted_type" "ev_payload ev = ?payload" "ev_id ev = ?eid" "ev_course ev = ?c" "ev_session ev = ctx_session ctx"
      "ev_seq ev = int (length es) + 1" "ev_version ev = 1" "act_kind (ev_actor ev) = ctx_kind ctx" for ev
  proof -
    let ?p = "\<lparr>rt_id = stid, rt_key = key, rt_fingerprint = retract_command_fingerprint stid\<rparr>"
    have dec: "decode_statement_retracted ev = Inr ?p"
      using study_events_decode(2) [of ev sid key "''retract''" stid] e ctx guards(3) context_texts [OF wf(1)] statement_key_text [OF course_state_context [OF state] active]
      by (auto simp: trusted_kind_def)
    have "\<exists>s'. reduce_statement_retracted (canon_obj (proj_state q)) ev ?p = Inr s'"
      by (rule retract_accepted [where sid = sid and r = r])
        (use context_canon [OF wfs] course_state_context [OF state] session_in_canon [OF wfs] r e ctx active
          fresh recorded_command_canon [OF wfs] in simp_all)
    then show ?thesis using study_registrations(2) [OF e(8,2) dec] by auto
  qed
  from study_new_alone [OF ok es q guards(2) wf bound study_event_id_text insertI2 [OF insertI1] study_payloads_wf(2) this, where fp = "retract_command_fingerprint stid" and k = "k + 5"]
  obtain w where run: "cmd_bind (cmd_lift (study_event ctx ?eid statement_retracted_type (int (length es) + 1) ?payload now))
      (\<lambda>ev. append_study repository_registry idle ?c (int (length es)) ev (retract_command_fingerprint stid)) (k + 5, db) = w" "landed ?eid (k + 5) db w" by blast
  have five: "k + 5 = Suc (Suc (Suc (Suc (Suc k))))" by simp
  obtain view where view: "study_get repository_registry idle ?c (Suc (Suc (Suc (Suc k))), db) = (Inr view, Suc (Suc (Suc (Suc (Suc k)))), db)"
    "represents (sn_statements view) (abs_context_of (proj_state q))" using guards(5) by blast
  obtain target where "snapshot_statement view stid = Inr target" "triple target = (j, x, ACTIVE)" by (rule snapshot_finds [OF view(2) active])
  then have "cmd_bind (study_get repository_registry idle ?c) (\<lambda>sn. cmd_lift (snapshot_statement sn stid)) (Suc (Suc (Suc (Suc k))), db) = (Inr target, Suc (Suc (Suc (Suc (Suc k)))), db)"
    and active': "(if st_status target \<noteq> ACTIVE then Inl StudyContextConflictError else Inr ()) = Inr ()"
    using view(1) by (simp_all add: cmd_bind_def cmd_lift_def triple_def)
  then show ?thesis
    using guards(1,4) guards(6) [OF fresh] run(2) run(1) [unfolded five] active'
    by (simp add: retract_statement_def new_retraction_def expected_ok cmd_bind_step cmd_try_step Let_def)
qed

lemma resolve_conflict_alone:
  assumes ok: "store_ok repository_registry db" and es: "stream_ok repository_registry db (ctx_course ctx) es" and q: "replay repository_registry (ctx_course ctx) es = Inr q"
    and course: "has_course repository_registry db (ctx_course ctx) profile" and r: "session_in (ctx_course ctx) sid (proj_state q) = Inr r"
    and wf: "wf_context ctx" "valid_datetime now" "utcoffset now = 0"
    and ctx: "ctx_session ctx = Some sid" "ctx_key ctx = Some key" "ctx_kind ctx \<in> {HUMAN, SERVICE}"
    and bound: "int (length es) + 1 < 2 ^ 63" and fresh: "\<forall>fp. \<not> recorded_command (proj_state q) (study_context_event_id_for (ctx_course ctx) sid key ''resolve'') fp"
    and scalar: "is_scalar kind" and spec: "spec_resolve kind selected (abs_context_of (proj_state q)) = Some A'"
  shows "landed (study_context_event_id_for (ctx_course ctx) sid key ''resolve'') (k + 5) db (resolve_conflict repository_registry idle now kind selected ctx (int (length es)) (k, db))"
proof -
  let ?c = "ctx_course ctx" and ?eid = "study_context_event_id_for (ctx_course ctx) sid key ''resolve''" and ?A = "abs_context_of (proj_state q)"
  note guards = study_guards_alone [OF ok es q course r ctx]
  have state: "course_state repository_registry db ?c (proj_state q)" using es q by (auto simp: course_state_def)
  note wfs = repo.course_state_wf [OF state]
  obtain view where view: "study_get repository_registry idle ?c (Suc (Suc (Suc (Suc k))), db) = (Inr view, Suc (Suc (Suc (Suc (Suc k)))), db)"
    "represents (sn_statements view) ?A" "cf_kind ` set (sn_conflicts view) = {j. is_scalar j \<and> spec_conflict j ?A}" using guards(5) by blast
  obtain x losers where plan: "?A selected = Some (kind, x, ACTIVE)" "resolution_plan kind selected view = Inr losers" "sorted losers" "distinct losers"
    "set losers = {i. \<exists>y. ?A i = Some (kind, y, ACTIVE) \<and> y \<noteq> x}" by (rule plan_losers [OF view(2,3) scalar spec])
  have "\<exists>i. i \<in> set losers" using spec_resolve_conflict [OF spec] unfolding plan(5) spec_conflict_def mem_Collect_eq by metis
  then have proper: "losers \<noteq> []" by (cases losers) simp_all
  have proper': "selected \<notin> set losers" unfolding plan(5) using plan(1) by simp
  have texts: "is_text selected" "list_all is_text losers"
    using statement_key_text [OF course_state_context [OF state]] plan(1,5) by (auto simp: list_all_iff)
  let ?payload = "conflict_resolved_payload kind selected losers sid key"
  have "\<exists>s. reduce repository_registry (canon_obj (proj_state q)) ev = Inr s"
    if e: "wf_event ev" "ev_type ev = conflict_resolved_type" "ev_payload ev = ?payload" "ev_id ev = ?eid" "ev_course ev = ?c" "ev_session ev = ctx_session ctx"
      "ev_seq ev = int (length es) + 1" "ev_version ev = 1" "act_kind (ev_actor ev) = ctx_kind ctx" for ev
  proof -
    let ?p = "\<lparr>cr_kind = kind, cr_selected = selected, cr_superseded = losers, cr_key = key, cr_fingerprint = resolve_command_fingerprint kind selected\<rparr>"
    have dec: "decode_conflict_resolved ev = Inr ?p"
      using study_events_decode(3) [of ev sid key "''resolve''" kind selected losers] e ctx guards(3) context_texts [OF wf(1)] scalar plan(3,4) texts proper proper' by (auto simp: trusted_kind_def)
    have "\<exists>s'. reduce_conflict_resolved (canon_obj (proj_state q)) ev ?p = Inr s'"
      by (rule resolve_accepted [where sid = sid and r = r and x = x and A' = A'])
        (use context_canon [OF wfs] course_state_context [OF state] session_in_canon [OF wfs] r e ctx plan scalar spec
          fresh recorded_command_canon [OF wfs] in simp_all)
    then show ?thesis using study_registrations(3) [OF e(8,2) dec] by auto
  qed
  from study_new_alone [OF ok es q guards(2) wf bound study_event_id_text insertI2 [OF insertI2 [OF insertI1]] study_payloads_wf(3) this,
      where fp = "resolve_command_fingerprint kind selected" and k = "k + 5"]
  obtain w where run: "cmd_bind (cmd_lift (study_event ctx ?eid conflict_resolved_type (int (length es) + 1) ?payload now))
      (\<lambda>ev. append_study repository_registry idle ?c (int (length es)) ev (resolve_command_fingerprint kind selected)) (k + 5, db) = w" "landed ?eid (k + 5) db w" by blast
  have five: "k + 5 = Suc (Suc (Suc (Suc (Suc k))))" by simp
  have kind: "(if \<not> is_scalar kind then Inl StudyContextCommandError else Inr ()) = Inr ()" using scalar by simp
  show ?thesis
    using guards(1,4) guards(6) [OF fresh] view(1) plan(2) run(2) run(1) [unfolded five]
    by (simp add: resolve_conflict_def new_resolution_def expected_ok kind cmd_bind_step Let_def)
qed

end
