(* ===== verification/Samples.thy ===== *)
theory Samples
  imports Session_Liveness
begin

text \<open>
  Concrete databases of the repository: a course, a session, a course with a session and a learner turn, built by appending their events. The
  properties of the commands are applied to them.
\<close>

section \<open>A course\<close>

text \<open>The concrete course, context and clock the witnesses use.\<close>

definition sample_profile :: course_profile where
  "sample_profile = \<lparr>cp_id = ''bio'', cp_title = ''Biology'', cp_language = ''en'', cp_exam_date = None,
     cp_assessment_styles = [''oral''], cp_learning_goals = [''pass''],
     cp_source_policy = \<lparr>allowed_roles = [], minimum_trust_level = 50\<rparr>,
     cp_terminology = [\<lparr>concept = ''cell'', preferred_term = ''cell''\<rparr>]\<rparr>"

definition other_profile :: course_profile where
  "other_profile = sample_profile\<lparr>cp_title := ''Botany''\<rparr>"

definition sample_context :: exec_context where
  "sample_context = \<lparr>ctx_kind = HUMAN, ctx_principal = ''ann'', ctx_course = ''bio'', ctx_correlation = ''r1'',
     ctx_capabilities = [], ctx_session = None, ctx_model_run = None, ctx_key = None\<rparr>"

lemma sample_wf: "wf_profile sample_profile" "wf_profile other_profile" "wf_context sample_context"
  by (simp_all add: wf_profile_def other_profile_def sample_profile_def sample_context_def wf_context_def unique_texts_def
      text_option_def text_eval)

lemma sample_guards: "ctx_course sample_context = cp_id sample_profile" "ctx_course sample_context = cp_id other_profile"
  "ctx_session sample_context = None" "trusted_kind (ctx_kind sample_context)"
  by (simp_all add: sample_context_def sample_profile_def other_profile_def trusted_kind_def)

lemma empty_ok: "store_ok repository_registry empty_database" by (rule store_ok_empty)

lemma sample_utc: "utcoffset example_time = 0" by (simp add: example_time_def)

lemma sample_database:
  "\<exists>db. reachable repository_registry db \<and> has_course repository_registry db ''bio'' sample_profile \<and>
     read db ''bio'' 0 = Inr [stored (course_event sample_profile sample_context example_time 1)]"
proof -
  obtain db where db: "course_create repository_registry (\<lambda>_ db. db) example_time sample_profile sample_context None empty_database = (Inr sample_profile, db)"
    "has_course repository_registry db (cp_id sample_profile) sample_profile"
    "read db (cp_id sample_profile) 0 = Inr [stored (course_event sample_profile sample_context example_time 1)]"
    using repo_courses.create_fresh [OF empty_ok sample_guards(1,3,4) sample_wf(1,3) example_time_valid sample_utc, of None]
    by (auto simp: rows_of_def empty_database_def)
  have "(store_step repository_registry)\<^sup>*\<^sup>* empty_database db"
    using repo_courses.create_safe [OF empty_ok _ sample_wf(1,3) example_time_valid sample_utc db(1)]
    by (auto simp: interference_def)
  then have "reachable repository_registry db"
    by (induction rule: rtranclp_induct) (auto intro: reachable.intros)
  then show ?thesis using db(2,3) by (auto simp: sample_profile_def)
qed

lemma course_only_session:
  assumes "reachable repository_registry db" and "read db c 0 = Inr [e]" and "ev_type e = course_created_type" and "projection_of False repository_registry db c = Inr (p, db)"
  shows "session_in c sid (proj_state p) = Inl (SessionNotFoundError c sid)"
proof -
  obtain q where q: "stream_ok repository_registry db c [e]" "replay repository_registry c [e] = Inr q" "proj_state p = canon_obj (proj_state q)"
    using store_view [OF assms(1,2,4)] by blast
  have "repository_step [] e (proj_state q)"
    using q(2) repository_reduce by (auto simp: replay_def initial_projection_def res_bind_eq_Inr apply_event_Inr)
  then obtain pr where "reduce_course_created [] e pr = Inr (proj_state q)"
    using assms(3) event_types_distinct by (cases rule: repository_step.cases) auto
  from course_frame [OF this, of "''sessions''"] have "get_default (proj_state q) ''sessions'' (JObj []) = JObj []"
    by (simp add: get_default_def)
  then have "session_in c sid (proj_state q) = Inl (SessionNotFoundError c sid)"
    by (simp add: session_in_def mapping_value_def jget_def decode_session_def)
  then show ?thesis using projection_session_in [OF q(1,2)] q(3) by simp
qed

section \<open>A database with a session\<close>

lemma started_facts:
  "wf_event started_event" "is_utc started_event" "ev_version started_event = 1" "ev_type started_event = session_started_type"
  "ev_seq started_event = 1" "ev_course started_event = ''bio''" "ev_at started_event = example_time" "decode_session_started started_event = Inr ''s1''"
  by (simp_all add: session_event_def wf_event_def is_utc_def text_option_def text_eval decode_session_started_def session_envelope_def
      object_value_def has_keys_def jget_Cons text_value_def event_types)
    (use example_time_valid in \<open>simp_all add: example_time_def\<close>)

lemma started_state_open: "turn_open started_state ''s1'' iid example_time"
  unfolding turn_open_def started_state_def maps_write
  by (auto simp: session_entry_def jget_Cons required_stamp_Inr now_text)

lemma session_database:
  obtains db es q where "reachable repository_registry db" "stream_ok repository_registry db ''bio'' es" "replay repository_registry ''bio'' es = Inr q"
    "session_in ''bio'' ''s1'' (proj_state q) = Inr (started_record ''bio'' ''s1'' example_time)"
    "\<forall>iid. turn_open (canon_obj (proj_state q)) ''s1'' iid example_time" "length es = 1" "row_event_id ` set (db_events db) = {''e''}"
proof -
  have nil: "stream_ok repository_registry empty_database ''bio'' []"
    by (simp add: stream_ok_def empty_database_def rows_of_def replay_def)
  have q: "replay repository_registry ''bio'' [] = Inr \<lparr>proj_course = ''bio'', proj_seq = 0, proj_state = []\<rparr>"
    by (simp add: replay_def initial_projection_def)
  obtain db where db: "append False repository_registry ''bio'' 0 [started_event] empty_database = Inr (1, db)"
    "store_step repository_registry empty_database db" "stream_ok repository_registry db ''bio'' [stored started_event]"
    using repo.append_succeeds [OF store_ok_empty nil q started_facts(1,2,6) _ started_facts(3), of started_state] started_facts(5) started_reduces
    by (auto simp: empty_database_def canon_obj_def)
  obtain q' where q': "replay repository_registry ''bio'' [stored started_event] = Inr q'" using db(3) by (auto simp: stream_ok_def)
  have dec: "decode_session_started (stored started_event) = Inr ''s1''" using started_facts(8) session_decoders_stored(1) [OF started_facts(1)] by simp
  have "reduce repository_registry [] (stored started_event) = Inr (proj_state q')"
    using q' by (auto simp: replay_def initial_projection_def res_bind_eq_Inr apply_event_Inr)
  then have red: "reduce_session_started [] (stored started_event) ''s1'' = Inr (proj_state q')"
    using reduce_started_event [OF _ _ dec, of "[]"] started_facts(3,4) by simp
  moreover have "reduce_session_started [] (stored started_event) ''s1'' = Inr started_state"
    using reduce_started_event [OF started_facts(4,3,8), of "[]"] started_reduces
    unfolding reduce_session_started_def session_entry_def stored_fields by simp
  ultimately have st: "proj_state q' = started_state" by simp
  have "session_in ''bio'' ''s1'' (proj_state q') = Inr (started_record ''bio'' ''s1'' example_time)"
    using started_session_in [OF red] started_facts by simp
  moreover have "wf_json (JObj (proj_state q'))" using repo.course_state_wf db(3) q' unfolding course_state_def by blast
  then have "turn_open (canon_obj (proj_state q')) ''s1'' iid example_time" for iid
    using turn_open_canon [OF _ started_state_open] st by simp
  moreover have "row_event_id ` set (db_events db) = {''e''}"
    using append_rows [OF db(1)] by (auto simp: empty_database_def session_event_def map_eq_Cons_conv)
  ultimately show thesis using that [OF reach_step [OF reach_empty db(2)] db(3) q'] by simp
qed

lemma turn_ids_fresh: "session_turn_event_id_for c sid key ty \<notin> {''e''}"
  by (simp add: session_turn_event_id_for_def)

definition turn_sample :: exec_context where
  "turn_sample = \<lparr>ctx_kind = HUMAN, ctx_principal = ''ann'', ctx_course = ''bio'', ctx_correlation = ''r2'',
     ctx_capabilities = [], ctx_session = Some ''s1'', ctx_model_run = None, ctx_key = Some ''k1''\<rparr>"

lemma turn_sample_facts:
  "wf_context turn_sample" "ctx_session turn_sample = Some ''s1''" "ctx_key turn_sample = Some ''k1''" "ctx_kind turn_sample \<in> {HUMAN, SERVICE}"
  "ctx_course turn_sample = ''bio''" "utcoffset example_time = 0" "is_text ''why?''"
  by (simp_all add: turn_sample_def wf_context_def text_option_def text_eval example_time_def)

section \<open>A course with a session and a learner turn\<close>

lemma replay_without_study:
  assumes "replay repository_registry c es = Inr q" and "\<forall>e \<in> set es. ev_type e \<notin> {statement_recorded_type, statement_retracted_type, conflict_resolved_type}"
  shows "map_of (proj_state q) ''study_context'' = None"
  using assms
proof (induction es arbitrary: q rule: rev_induct)
  case Nil
  then show ?case by (auto simp: replay_def initial_projection_def)
next
  case (snoc e es)
  then obtain p where p: "replay repository_registry c es = Inr p" "repository_step (proj_state p) e (proj_state q)"
    using repository_reduce by (auto simp: replay_snoc res_bind_eq_Inr apply_event_Inr)
  note sessions = session_reducers_frame [where k = "''study_context''", simplified]
  have "map_of (proj_state q) ''study_context'' = map_of (proj_state p) ''study_context''"
    using p(2) by (cases rule: repository_step.cases) (use snoc.prems(2) course_frame sessions in auto)
  then show ?case using snoc.IH [OF p(1)] snoc.prems(2) by simp
qed

lemma append_row_ids:
  assumes "append ro reg c n [e] db = Inr (m, db')"
  shows "row_event_id ` set (db_events db') = insert (ev_id e) (row_event_id ` set (db_events db))"
  using append_rows [OF assms] by (auto simp: map_eq_Cons_conv)

lemma course_appended:
  obtains db where "append False repository_registry ''bio'' 0 [course_event sample_profile sample_context example_time 1] empty_database = Inr (1, db)"
    "store_step repository_registry empty_database db" "stream_ok repository_registry db ''bio'' [stored (course_event sample_profile sample_context example_time 1)]"
    "has_course repository_registry db ''bio'' sample_profile" "row_event_id ` set (db_events db) = {course_event_id_for sample_profile}"
proof -
  let ?e = "course_event sample_profile sample_context example_time 1"
  have e: "wf_event ?e" "is_utc ?e" "ev_course ?e = ''bio''" "ev_seq ?e = int (length ([] :: domain_event list)) + 1" "ev_version ?e = 1"
    using wf_course_event [OF sample_wf(1,3) example_time_valid, of 1] sample_utc by (simp_all add: course_event_def is_utc_def sample_profile_def)
  have nil: "stream_ok repository_registry empty_database ''bio'' []" by (simp add: stream_ok_def empty_database_def rows_of_def replay_def)
  have q: "replay repository_registry ''bio'' [] = Inr \<lparr>proj_course = ''bio'', proj_seq = 0, proj_state = []\<rparr>" by (simp add: replay_def initial_projection_def)
  have dec: "decode_course_created ?e = Inr sample_profile"
    using decode_manifest [OF sample_wf(1)] by (simp add: decode_course_created_def course_event_def sample_context_def trusted_kind_def)
  have "reduce_course_created (canon_obj []) ?e sample_profile = Inr (AList.update ''course'' (JObj (course_profile_manifest sample_profile)) [])"
    by (simp add: reduce_course_created_def canon_obj_def jget_def)
  then obtain s where "reduce repository_registry (canon_obj []) ?e = Inr s"
    using repo_courses.reduce_course [of ?e] dec by (metis course_event_def domain_event.select_convs(4,5))
  with repo.append_succeeds [OF store_ok_empty nil q e] obtain db where
    db: "append False repository_registry ''bio'' 0 [?e] empty_database = Inr (1, db)" "store_step repository_registry empty_database db" "stream_ok repository_registry db ''bio'' [stored ?e]"
    by (auto simp: empty_database_def)
  moreover have "has_course repository_registry db ''bio'' sample_profile"
    using repo_courses.append_course_event [OF store_ok_empty sample_wf(1,3) example_time_valid sample_utc, of 0 1 db] db(1) by (simp add: sample_profile_def)
  moreover have "row_event_id ` set (db_events db) = {course_event_id_for sample_profile}"
    using append_rows [OF db(1)] by (auto simp: empty_database_def course_event_def map_eq_Cons_conv)
  ultimately show thesis using that by blast
qed

text \<open>The course, a session and a learner turn, appended one by one.\<close>

lemma session_appended:
  obtains db q where "reachable repository_registry db" "stream_ok repository_registry db ''bio'' [stored (course_event sample_profile sample_context example_time 1), stored (session_event 2 session_started_type [(''session_id'', JStr ''s1'')])]"
    "replay repository_registry ''bio'' [stored (course_event sample_profile sample_context example_time 1), stored (session_event 2 session_started_type [(''session_id'', JStr ''s1'')])] = Inr q"
    "has_course repository_registry db ''bio'' sample_profile" "row_event_id ` set (db_events db) = {course_event_id_for sample_profile, ''e''}"
    "session_in ''bio'' ''s1'' (proj_state q) = Inr (started_record ''bio'' ''s1'' example_time)" "turn_open (canon_obj (proj_state q)) ''s1'' ''i1'' example_time"
proof -
  let ?course = "course_event sample_profile sample_context example_time 1" and ?start = "session_event 2 session_started_type [(''session_id'', JStr ''s1'')]"
  obtain db1 where db1: "append False repository_registry ''bio'' 0 [?course] empty_database = Inr (1, db1)" "store_step repository_registry empty_database db1"
    "stream_ok repository_registry db1 ''bio'' [stored ?course]" "has_course repository_registry db1 ''bio'' sample_profile"
    "row_event_id ` set (db_events db1) = {course_event_id_for sample_profile}" by (rule course_appended)
  have reach1: "reachable repository_registry db1" by (rule reach_step [OF reach_empty db1(2)])
  obtain q1 where q1: "replay repository_registry ''bio'' [stored ?course] = Inr q1" using db1(3) by (auto simp: stream_ok_def)
  have start: "wf_event ?start" "is_utc ?start" "ev_course ?start = ''bio''" "ev_seq ?start = int (length [stored ?course]) + 1" "ev_version ?start = 1"
    "ev_type ?start = session_started_type" "decode_session_started ?start = Inr ''s1''" "ev_id ?start = ''e''" "ev_at ?start = example_time"
    using started_facts by (simp_all add: session_event_def wf_event_def is_utc_def decode_session_started_def session_envelope_def)
  have step1: "repository_step [] (stored ?course) (proj_state q1)"
    using q1 repository_reduce by (auto simp: replay_def initial_projection_def res_bind_eq_Inr apply_event_Inr)
  have none: "map_of (proj_state q1) k = None" if "k \<noteq> ''course''" for k
    using step1 by (cases rule: repository_step.cases) (use that course_frame event_types_distinct in \<open>auto simp: course_event_def\<close>)
  have state1: "course_state repository_registry db1 ''bio'' (proj_state q1)" using db1(3) q1 by (auto simp: course_state_def)
  have "map_of (canon_obj (proj_state q1)) k = None" if "k \<noteq> ''course''" for k
    using none that repo.course_state_wf [OF state1] map_of_canon_obj [of "proj_state q1" k] by simp
  then have maps: "session_maps (canon_obj (proj_state q1)) = Inr \<lparr>sm_sessions = [], sm_interactions = [], sm_answers = []\<rparr>"
    by (simp add: session_maps_def get_default_def mapping_value_def)
  obtain s where "reduce repository_registry (canon_obj (proj_state q1)) ?start = Inr s"
    using reduce_started_event [OF start(6,5,7)] maps now_text(1) start(9) by (auto simp: reduce_session_started_def)
  from repo.append_succeeds [OF repo.reachable_store_ok [OF reach1] db1(3) q1 start(1-5) _ _ this] obtain db2 where
    db2: "append False repository_registry ''bio'' 1 [?start] db1 = Inr (2, db2)" "store_step repository_registry db1 db2" "stream_ok repository_registry db2 ''bio'' [stored ?course, stored ?start]"
    unfolding start(8) db1(5) by (auto simp: course_event_id_for_def)
  have reach2: "reachable repository_registry db2" by (rule reach_step [OF reach1 db2(2)])
  have rows2: "row_event_id ` set (db_events db2) = {course_event_id_for sample_profile, ''e''}"
    using append_row_ids [OF db2(1)] unfolding start(8) db1(5) by auto
  obtain q2 where q2: "replay repository_registry ''bio'' [stored ?course, stored ?start] = Inr q2" using db2(3) by (auto simp: stream_ok_def)
  have "replay repository_registry ''bio'' ([stored ?course] @ [stored ?start]) = Inr q2" using q2 by simp
  then have "reduce repository_registry (proj_state q1) (stored ?start) = Inr (proj_state q2)"
    using q1 by (auto simp only: replay_snoc res_bind_Inr fold_res.simps res_bind_eq_Inr apply_event_Inr sum.inject)
  then have red: "reduce_session_started (proj_state q1) (stored ?start) ''s1'' = Inr (proj_state q2)"
    using reduce_started_event [of "stored ?start" "''s1''" "proj_state q1"] start session_decoders_stored(1) [OF start(1)] by simp
  have r2: "session_in ''bio'' ''s1'' (proj_state q2) = Inr (started_record ''bio'' ''s1'' example_time)" using started_session_in [OF red] start by simp
  have state2: "course_state repository_registry db2 ''bio'' (proj_state q2)" using db2(3) q2 by (auto simp: course_state_def)
  have "session_maps (proj_state q1) = Inr \<lparr>sm_sessions = [], sm_interactions = [], sm_answers = []\<rparr>"
    using none by (simp add: session_maps_def get_default_def mapping_value_def)
  then have "proj_state q2 = write_maps (proj_state q1) \<lparr>sm_sessions = [(''s1'', session_entry ''s1'' (stored ?start) now_text)], sm_interactions = [], sm_answers = []\<rparr>"
    using red now_text(1) start(9) by (auto simp: reduce_session_started_def)
  then have "turn_open (proj_state q2) ''s1'' ''i1'' example_time"
    unfolding turn_open_def by (simp add: maps_write session_entry_def jget_Cons required_stamp_Inr now_text)
  then have opened: "turn_open (canon_obj (proj_state q2)) ''s1'' ''i1'' example_time" by (rule turn_open_canon [OF repo.course_state_wf [OF state2]])
  have "has_course repository_registry db2 ''bio'' sample_profile"
    using repo_courses.has_course_kept [OF repo.reachable_store_ok [OF reach1] _ db1(4)] db2(2) by blast
  then show thesis using that reach2 db2(3) q2 rows2 r2 opened by blast
qed

lemma study_database:
  obtains db es q r "is" i where "reachable repository_registry db" "stream_ok repository_registry db ''bio'' es" "replay repository_registry ''bio'' es = Inr q"
    "has_course repository_registry db ''bio'' sample_profile" "length es = 3"
    "session_in ''bio'' ''s1'' (proj_state q) = Inr r" "interactions_in ''s1'' (se_interactions r) (canon_obj (proj_state q)) = Inr is"
    "find_interaction ''i1'' is = Some i" "ix_kind i = Interaction_HUMAN" "map_of (proj_state q) ''study_context'' = None"
proof -
  let ?course = "course_event sample_profile sample_context example_time 1" and ?start = "session_event 2 session_started_type [(''session_id'', JStr ''s1'')]"
  note f = turn_sample_facts
  obtain db2 q2 where reach2: "reachable repository_registry db2" and db2: "stream_ok repository_registry db2 ''bio'' [stored ?course, stored ?start]"
    and q2: "replay repository_registry ''bio'' [stored ?course, stored ?start] = Inr q2" and course2: "has_course repository_registry db2 ''bio'' sample_profile"
    and rows2: "row_event_id ` set (db_events db2) = {course_event_id_for sample_profile, ''e''}"
    and r2: "session_in ''bio'' ''s1'' (proj_state q2) = Inr (started_record ''bio'' ''s1'' example_time)" and opened: "turn_open (canon_obj (proj_state q2)) ''s1'' ''i1'' example_time"
    by (rule session_appended)
  have texts: "is_text ''why?''" "is_text ''i1''" "is_text ''t''" "1 \<le> (3 :: int)" by (simp_all add: text_eval)
  obtain payload ev where ev: "wf_event ev" "is_utc ev" "ev_type ev = interaction_recorded_type" "ev_version ev = 1" "ev_seq ev = 3" "ev_session ev = Some ''s1''"
    "ev_course ev = ''bio''" "ev_id ev = ''t''" "ev_at ev = example_time" "decode_interaction_recorded ev = Inr \<lparr>ir_id = ''i1'', ir_kind = Interaction_HUMAN, ir_content = ''why?''\<rparr>"
    using learner_event [OF f(1) example_time_valid f(6,2) texts] unfolding f(5) by metis
  have "ev_seq ev = int (length [stored ?course, stored ?start]) + 1" "ev_id ev \<notin> row_event_id ` set (db_events db2)"
    "se_status (started_record ''bio'' ''s1'' example_time) = Session_ACTIVE"
    "turn_open (canon_obj (proj_state q2)) ''s1'' (ir_id \<lparr>ir_id = ''i1'', ir_kind = Interaction_HUMAN, ir_content = ''why?''\<rparr>) (ev_at ev)"
    "int (length [stored ?course, stored ?start]) + 1 < 2 ^ 63"
    using opened by (simp_all add: ev rows2 course_event_id_for_def started_record_def)
  note new = this
  let ?es = "[stored ?course, stored ?start]" and ?p = "\<lparr>ir_id = ''i1'', ir_kind = Interaction_HUMAN, ir_content = ''why?''\<rparr>" and ?r = "started_record ''bio'' ''s1'' example_time"
  obtain db3 q3 where db: "append False repository_registry ''bio'' (int (length ?es)) [ev] db2 = Inr (int (length ?es) + 1, db3)" "store_step repository_registry db2 db3"
      "stream_ok repository_registry db3 ''bio'' (?es @ [stored ev])"
    and q: "replay repository_registry ''bio'' (?es @ [stored ev]) = Inr q3"
      "session_in ''bio'' ''s1'' (proj_state q3) = (if se_summary ?r = None then Inr (?r\<lparr>se_interactions := se_interactions ?r @ [ir_id ?p]\<rparr>) else Inl ValueError)"
      "interaction_at (proj_state q3) ''s1'' (ir_id ?p) =
        Inr \<lparr>ix_id = ir_id ?p, ix_kind = ir_kind ?p, ix_time = ev_at ev, ix_content = ir_content ?p, ix_answer = None, ix_run = None\<rparr>"
    by (rule interaction_appends [OF repo.reachable_store_ok [OF reach2] db2 q2 ev(1-4) new(1) ev(6,7) new(2) ev(10) r2 new(3-5)])
  have db3: "append False repository_registry ''bio'' 2 [ev] db2 = Inr (3, db3)" "store_step repository_registry db2 db3" "stream_ok repository_registry db3 ''bio'' (?es @ [stored ev])"
    and q3: "replay repository_registry ''bio'' (?es @ [stored ev]) = Inr q3" "session_in ''bio'' ''s1'' (proj_state q3) = Inr (?r\<lparr>se_interactions := [''i1'']\<rparr>)"
      "\<exists>i. interaction_at (proj_state q3) ''s1'' ''i1'' = Inr i \<and> ix_kind i = Interaction_HUMAN"
    using db q by (simp_all add: started_record_def)
  have state3: "course_state repository_registry db3 ''bio'' (proj_state q3)" using db3(3) q3(1) by (auto simp: course_state_def)
  obtain "is" where is': "interactions_in ''s1'' [''i1''] (canon_obj (proj_state q3)) = Inr is"
    "find_interaction ''i1'' is = Some (projr (interaction_at (proj_state q3) ''s1'' ''i1''))"
    using found_interaction [OF state3 q3(2), of "''i1''"] by auto
  have empty: "map_of (proj_state q3) ''study_context'' = None"
    by (rule replay_without_study [OF q3(1)]) (use event_types_distinct in \<open>auto simp: course_event_def session_event_def ev(3)\<close>)
  have reach3: "reachable repository_registry db3" by (rule reach_step [OF reach2 db3(2)])
  have course3: "has_course repository_registry db3 ''bio'' sample_profile"
    using repo_courses.has_course_kept [OF repo.reachable_store_ok [OF reach2] _ course2] db3(2) by blast
  show thesis by (rule that [OF reach3 db3(3) q3(1) course3 _ q3(2) _ is'(2) _ empty]) (use is'(1) q3(3) in auto)
qed

end
