(* ===== verification/Session_Properties.thy ===== *)
theory Session_Properties
  imports Samples
begin

text \<open>
  The properties of the session commands and readers on the whole repository: safety with other users of the store between any
  two accesses, and success when nobody else uses it.
\<close>

section \<open>Properties\<close>

lemma sample_turn:
  obtains db i db' where "reachable repository_registry db"
    "record_learner_turn repository_registry idle example_time ''why?'' turn_sample 1 (0, db) = (Inr i, 7, db')"
proof -
  obtain db es q where db: "reachable repository_registry db" "stream_ok repository_registry db ''bio'' es"
    "replay repository_registry ''bio'' es = Inr q" "session_in ''bio'' ''s1'' (proj_state q) = Inr (started_record ''bio'' ''s1'' example_time)"
    "\<forall>iid. turn_open (canon_obj (proj_state q)) ''s1'' iid example_time" "length es = 1" "row_event_id ` set (db_events db) = {''e''}"
    by (rule session_database)
  note f = turn_sample_facts
  have new: "session_turn_event_id_for ''bio'' ''s1'' ''k1'' interaction_recorded_type \<notin> row_event_id ` set (db_events db)"
    unfolding db(7) by (rule turn_ids_fresh)
  obtain ev db' where "record_learner_turn repository_registry idle example_time ''why?'' turn_sample 1 (0, db) =
      (Inr (turn_result (learner_interaction_id_for ''bio'' ''s1'' ''k1'') ''why?'' example_time), 7, db')"
    using learner_turn_alone [OF repo.reachable_store_ok [OF db(1)], of turn_sample, unfolded f(5), OF db(2,3) f(1) example_time_valid f(6,2,3,4,7) db(4) _ db(5) [rule_format] new, of 0 0]
    by (auto simp: db(6) started_record_def)
  then show thesis using that db(1) by blast
qed

text \<open>C26. Recording a learner turn is safe under arbitrary concurrent use of the store: the command only makes steps of the
  store, and when it returns an interaction, that is the turn as requested, under the identity derived from course,
  session and key, and the course holds exactly it. A retry therefore gives the same turn or a conflict.\<close>

theorem learner_turn_recorded:
  assumes "reachable repository_registry db" and "interference repository_registry env"
    and "wf_context ctx" and "valid_datetime now" and "utcoffset now = 0" and "ctx_session ctx = Some sid" and "ctx_key ctx = Some key"
    and "record_learner_turn repository_registry env now content ctx expected (k, db) = (r, k', db')"
  shows "(store_step repository_registry)\<^sup>*\<^sup>* db db' \<and>
    (\<forall>i. r = Inr i \<longrightarrow> ix_id i = learner_interaction_id_for (ctx_course ctx) sid key \<and> ix_kind i = Interaction_HUMAN \<and> ix_content i = content \<and>
       (\<exists>s. course_state repository_registry db' (ctx_course ctx) s \<and> interaction_at s sid (ix_id i) = Inr i))"
  using ensuresD [OF ensures_record_learner_turn [OF assms(2-7)] repo.reachable_store_ok [OF assms(1)] assms(8)] recorded_asE by blast

theorem learner_turn_recorded_witness:
  "\<exists>db db' i. reachable repository_registry db \<and>
    record_learner_turn repository_registry idle example_time ''why?'' turn_sample 1 (0, db) = (Inr i, 7, db') \<and> ix_content i = ''why?'' \<and>
    (\<exists>s. course_state repository_registry db' ''bio'' s \<and> interaction_at s ''s1'' (ix_id i) = Inr i)"
proof -
  obtain db i db' where db: "reachable repository_registry db"
    and run: "record_learner_turn repository_registry idle example_time ''why?'' turn_sample 1 (0, db) = (Inr i, 7, db')" by (rule sample_turn)
  from learner_turn_recorded [OF db interference_idle turn_sample_facts(1) example_time_valid turn_sample_facts(6,2,3) run] db run
  show ?thesis by (auto simp: turn_sample_facts)
qed

text \<open>Recording a note is safe under arbitrary concurrent use of the store: a returned note is the one requested, and the
  course holds it under the identity of the command.\<close>

theorem note_recorded:
  assumes "reachable repository_registry db" and "interference repository_registry env"
    and "wf_context ctx" and "valid_datetime now" and "utcoffset now = 0" and "ctx_session ctx = Some sid"
    and "record_note repository_registry env now about_summary ctx content (k, db) = (r, k', db')"
  shows "(store_step repository_registry)\<^sup>*\<^sup>* db db' \<and>
    (\<forall>i. r = Inr i \<longrightarrow> ix_id i = note_interaction_id ctx sid \<and> ix_kind i = Interaction_NOTE \<and> ix_content i = content \<and>
       (\<exists>s. course_state repository_registry db' (ctx_course ctx) s \<and> interaction_at s sid (ix_id i) = Inr i))"
  using ensuresD [OF ensures_record_note [OF assms(2-6)] repo.reachable_store_ok [OF assms(1)] assms(7)] recorded_asE by blast

theorem note_recorded_witness:
  "\<exists>db r k' db'. reachable repository_registry db \<and> record_note repository_registry idle example_time False turn_sample ''mind the gap'' (0, db) = (r, k', db') \<and>
    (store_step repository_registry)\<^sup>*\<^sup>* db db' \<and> (\<forall>i. r = Inr i \<longrightarrow> ix_content i = ''mind the gap'')"
proof -
  obtain db where db: "reachable repository_registry db" by (rule session_database)
  obtain r k' db' where run: "record_note repository_registry idle example_time False turn_sample ''mind the gap'' (0, db) = (r, k', db')" by (rule prod_cases3)
  from note_recorded [OF db interference_idle turn_sample_facts(1) example_time_valid turn_sample_facts(6,2) run] db run show ?thesis by blast
qed

text \<open>C27. The lifecycle commands are linearizable: starting, suspending, resuming and ending a session, with other writers between
  any two accesses, only make steps of the store, and a record they return belongs to the session and is its state at the
  moment the command returns.\<close>

theorem lifecycle_commands_linearizable:
  assumes "reachable repository_registry db" and "interference repository_registry env"
    and "wf_context ctx" and "valid_datetime now" and "utcoffset now = 0" and "ctx_session ctx = Some sid"
    and "command \<in> {start_session repository_registry env now ctx, suspend_session repository_registry env now ctx,
      resume_session repository_registry env now ctx, end_session repository_registry env now ctx}"
    and "command (k, db) = (r, k', db')"
  shows "(store_step repository_registry)\<^sup>*\<^sup>* db db' \<and>
    (\<forall>x. r = Inr x \<longrightarrow> se_id x = sid \<and> se_course x = ctx_course ctx \<and>
       (\<exists>s. course_state repository_registry db' (ctx_course ctx) s \<and>
          sessions_of s sid = Some \<lparr>ss_status = se_status x, ss_interactions = se_interactions x, ss_runs = se_runs x\<rparr>))"
proof -
  have ty: "session_suspended_type \<noteq> session_ended_type" "session_resumed_type \<noteq> session_ended_type" by (simp_all add: event_types)
  have "\<exists>b. ensures repository_registry (\<lambda>_. True) command (lifecycle_result (ctx_course ctx) sid b)"
    using assms(7) ensures_start_session [OF assms(2-6)] ensures_end_session [OF assms(2-6)] ensures_transition [OF assms(2-6) ty(1)]
      ensures_transition [OF assms(2-6) ty(2)] unfolding suspend_session_def resume_session_def by blast
  then obtain b where "ensures repository_registry (\<lambda>_. True) command (lifecycle_result (ctx_course ctx) sid b)" by blast
  from ensuresD [OF this repo.reachable_store_ok [OF assms(1)] assms(8)] show ?thesis
    unfolding lifecycle_result_def reads_session_def holds_def record_state_def by blast
qed

theorem lifecycle_commands_linearizable_witness:
  "\<exists>db r k' db'. reachable repository_registry db \<and> suspend_session repository_registry idle example_time turn_sample (0, db) = (r, k', db') \<and>
    (store_step repository_registry)\<^sup>*\<^sup>* db db' \<and> (\<forall>x. r = Inr x \<longrightarrow> se_id x = ''s1'')"
proof -
  obtain db where db: "reachable repository_registry db" by (rule session_database)
  obtain r k' db' where run: "suspend_session repository_registry idle example_time turn_sample (0, db) = (r, k', db')" by (rule prod_cases3)
  from lifecycle_commands_linearizable [where command = "suspend_session repository_registry idle example_time turn_sample",
      OF db interference_idle turn_sample_facts(1) example_time_valid turn_sample_facts(6,2) _ run] db run
  show ?thesis by blast
qed

text \<open>C28. Ending a session is final: whatever happens after the command has returned, the reader never again shows the session
  with another status.\<close>

theorem session_end_final:
  assumes "reachable repository_registry db" and "interference repository_registry env"
    and "wf_context ctx" and "valid_datetime now" and "utcoffset now = 0" and "ctx_session ctx = Some sid"
    and "end_session repository_registry env now ctx (k, db) = (Inr r, k', db')" and "(store_step repository_registry)\<^sup>*\<^sup>* db' db''"
    and "get_session repository_registry idle (ctx_course ctx) sid (j, db'') = (Inr r', j', db3)"
  shows "se_status r = Session_ENDED \<and> se_status r' = Session_ENDED"
proof -
  let ?ended = "holds repository_registry (ctx_course ctx) (session_ended sid)"
  note ok = repo.reachable_store_ok [OF assms(1)]
  have "(store_step repository_registry)\<^sup>*\<^sup>* db db' \<and> reads_session (ctx_course ctx) sid r db' \<and> se_status r = Session_ENDED"
    using ensuresD [OF ensures_end_session [OF assms(2-6)] ok assms(7)] unfolding lifecycle_result_def by blast
  then have r: "(store_step repository_registry)\<^sup>*\<^sup>* db db'" "se_status r = Session_ENDED" "?ended db'"
    unfolding reads_session_def holds_def session_ended_def record_state_def by auto
  have ok': "store_ok repository_registry db'" "store_ok repository_registry db''"
    using repo.store_ok_steps r(1) assms(8) ok by blast+
  have "?ended db''" using repo.holds_stable [OF ended_persistent] ok'(1) r(3) assms(8) unfolding stable_def by blast
  moreover from ensures_reads_session [OF interference_idle repo.holds_stable [OF ended_persistent], of "ctx_course ctx" sid "ctx_course ctx" sid]
  have "?ended db3 \<and> reads_session (ctx_course ctx) sid r' db3" using ok'(2) calculation assms(9) unfolding ensures_def by blast
  ultimately show ?thesis using reads_ended r(2) by blast
qed



text \<open>C30. The lifecycle commands by themselves succeed: on a session that can be read and whose last event is not after the clock, suspending an
  active session, resuming a suspended one and ending any that has not ended return the record with the new status and its time.\<close>

theorem lifecycle_commands_complete:
  assumes "reachable repository_registry db" and "read db (ctx_course ctx) 0 = Inr es" and "projection_of False repository_registry db (ctx_course ctx) = Inr (p, db)"
    and "wf_context ctx" and "valid_datetime now" and "utcoffset now = 0" and "ctx_session ctx = Some sid"
    and "session_in (ctx_course ctx) sid (proj_state p) = Inr r" and "session_open (proj_state p) sid now"
    and "\<forall>ty eid. command_event_id ctx ty = Inr eid \<longrightarrow> eid \<notin> row_event_id ` set (db_events db)" and "int (length es) + 1 < 2 ^ 63"
  shows "(se_status r = Session_ACTIVE \<longrightarrow> (\<exists>db'. store_step repository_registry db db' \<and>
      suspend_session repository_registry idle now ctx (k, db) = (Inr (r\<lparr>se_status := Session_SUSPENDED, se_suspended := Some now\<rparr>), k + 4, db') \<and>
      get_session repository_registry idle (ctx_course ctx) sid (j, db') = (Inr (r\<lparr>se_status := Session_SUSPENDED, se_suspended := Some now\<rparr>), Suc j, db'))) \<and>
    (se_status r = Session_SUSPENDED \<longrightarrow> (\<exists>db'. store_step repository_registry db db' \<and>
      resume_session repository_registry idle now ctx (k, db) = (Inr (r\<lparr>se_status := Session_ACTIVE, se_resumed := Some now\<rparr>), k + 4, db') \<and>
      get_session repository_registry idle (ctx_course ctx) sid (j, db') = (Inr (r\<lparr>se_status := Session_ACTIVE, se_resumed := Some now\<rparr>), Suc j, db'))) \<and>
    (se_status r \<noteq> Session_ENDED \<longrightarrow> (\<exists>db'. store_step repository_registry db db' \<and>
      end_session repository_registry idle now ctx (k, db) = (Inr (r\<lparr>se_status := Session_ENDED, se_ended := Some now\<rparr>), k + 4, db') \<and>
      get_session repository_registry idle (ctx_course ctx) sid (j, db') = (Inr (r\<lparr>se_status := Session_ENDED, se_ended := Some now\<rparr>), Suc j, db')))"
proof -
  obtain q where q: "stream_ok repository_registry db (ctx_course ctx) es" "replay repository_registry (ctx_course ctx) es = Inr q" "proj_state p = canon_obj (proj_state q)"
    using store_view [OF assms(1-3)] by blast
  have r: "session_in (ctx_course ctx) sid (proj_state q) = Inr r" using projection_session_in [OF q(1,2)] assms(8) q(3) by simp
  note alone = transitions_alone [OF repo.reachable_store_ok [OF assms(1)] q(1,2) assms(4-7) r assms(9) [unfolded q(3)] assms(10,11), of k j]
  show ?thesis using alone by blast
qed

lemma sample_session:
  obtains db es p where "reachable repository_registry db" "read db ''bio'' 0 = Inr es" "projection_of False repository_registry db ''bio'' = Inr (p, db)"
    "session_in ''bio'' ''s1'' (proj_state p) = Inr (started_record ''bio'' ''s1'' example_time)" "session_open (proj_state p) ''s1'' example_time"
    "\<forall>ty eid. command_event_id turn_sample ty = Inr eid \<longrightarrow> eid \<notin> row_event_id ` set (db_events db)" "int (length es) + 1 < 2 ^ 63"
proof -
  obtain db es q where db: "reachable repository_registry db" "stream_ok repository_registry db ''bio'' es"
    "replay repository_registry ''bio'' es = Inr q" "session_in ''bio'' ''s1'' (proj_state q) = Inr (started_record ''bio'' ''s1'' example_time)"
    "\<forall>iid. turn_open (canon_obj (proj_state q)) ''s1'' iid example_time" "length es = 1" "row_event_id ` set (db_events db) = {''e''}"
    by (rule session_database)
  obtain p where p: "projection_of False repository_registry db ''bio'' = Inr (p, db)" "proj_state p = canon_obj (proj_state q)"
    using repo.projection_of_ok [OF db(2,3), of False] by auto
  have "\<forall>ty eid. command_event_id turn_sample ty = Inr eid \<longrightarrow> eid \<notin> row_event_id ` set (db_events db)"
    unfolding db(7) by (auto simp: command_event_id_def res_bind_eq_Inr mk_identifier_Inr)
  moreover have "session_open (proj_state p) ''s1'' example_time" using db(5) p(2) unfolding turn_open_def session_open_def by metis
  moreover have "session_in ''bio'' ''s1'' (proj_state p) = Inr (started_record ''bio'' ''s1'' example_time)"
    using projection_session_in [OF db(2,3)] db(4) p(2) by simp
  ultimately show thesis using that [OF db(1) stream_ok_read [OF db(2)] p(1)] db(6) by simp
qed

theorem lifecycle_commands_complete_witness:
  "\<exists>db db' r. reachable repository_registry db \<and> suspend_session repository_registry idle example_time turn_sample (0, db) = (Inr r, 4, db') \<and>
    se_status r = Session_SUSPENDED \<and> se_suspended r = Some example_time"
proof -
  obtain db es p where db: "reachable repository_registry db" "read db ''bio'' 0 = Inr es" "projection_of False repository_registry db ''bio'' = Inr (p, db)"
    "session_in ''bio'' ''s1'' (proj_state p) = Inr (started_record ''bio'' ''s1'' example_time)" "session_open (proj_state p) ''s1'' example_time"
    "\<forall>ty eid. command_event_id turn_sample ty = Inr eid \<longrightarrow> eid \<notin> row_event_id ` set (db_events db)" "int (length es) + 1 < 2 ^ 63"
    by (rule sample_session)
  note f = turn_sample_facts
  from lifecycle_commands_complete [of db turn_sample, unfolded f(5), OF db(1-3) f(1) example_time_valid f(6,2) db(4-7), of 0 0]
  obtain db' where "suspend_session repository_registry idle example_time turn_sample (0, db) =
      (Inr ((started_record ''bio'' ''s1'' example_time)\<lparr>se_status := Session_SUSPENDED, se_suspended := Some example_time\<rparr>), 4, db')"
    by (auto simp: started_record_def)
  then show ?thesis using db(1) by fastforce
qed

theorem session_end_final_witness:
  "\<exists>db db' r. reachable repository_registry db \<and> end_session repository_registry idle example_time turn_sample (0, db) = (Inr r, 4, db') \<and> se_status r = Session_ENDED"
proof -
  obtain db es p where db: "reachable repository_registry db" "read db ''bio'' 0 = Inr es" "projection_of False repository_registry db ''bio'' = Inr (p, db)"
    "session_in ''bio'' ''s1'' (proj_state p) = Inr (started_record ''bio'' ''s1'' example_time)" "session_open (proj_state p) ''s1'' example_time"
    "\<forall>ty eid. command_event_id turn_sample ty = Inr eid \<longrightarrow> eid \<notin> row_event_id ` set (db_events db)" "int (length es) + 1 < 2 ^ 63"
    by (rule sample_session)
  note f = turn_sample_facts
  obtain q where q: "stream_ok repository_registry db ''bio'' es" "replay repository_registry ''bio'' es = Inr q" "proj_state p = canon_obj (proj_state q)"
    using store_view [OF db(1-3)] by blast
  let ?r = "started_record ''bio'' ''s1'' example_time"
  have r: "session_in ''bio'' ''s1'' (proj_state q) = Inr ?r" "se_status ?r \<noteq> Session_ENDED"
    using projection_session_in [OF q(1,2)] db(4) q(3) by (simp_all add: started_record_def)
  let ?ended = "?r\<lparr>se_status := Session_ENDED, se_ended := Some example_time\<rparr>"
  obtain db' where run: "end_session repository_registry idle example_time turn_sample (0, db) = (Inr ?ended, 4, db')"
    "get_session repository_registry idle (ctx_course turn_sample) ''s1'' (0, db') = (Inr ?ended, Suc 0, db')"
    using transitions_alone(3) [OF repo.reachable_store_ok [OF db(1)], of turn_sample, unfolded f(5), OF q(1,2) f(1) example_time_valid f(6,2) r(1) db(5) [unfolded q(3)] db(6,7) r(2), of 0 0]
    unfolding f(5) by auto
  from session_end_final [OF db(1) interference_idle f(1) example_time_valid f(6,2) run(1) rtranclp.rtrancl_refl run(2)] db(1) run(1)
  show ?thesis by blast
qed

theorem session_view_exact_witness:
  "\<exists>db r. reachable repository_registry db \<and> get_session repository_registry idle ''bio'' ''s1'' (0, db) = (Inr r, 1, db) \<and> se_status r = Session_ACTIVE"
proof -
  obtain db es p where db: "reachable repository_registry db" "read db ''bio'' 0 = Inr es" "projection_of False repository_registry db ''bio'' = Inr (p, db)"
    "session_in ''bio'' ''s1'' (proj_state p) = Inr (started_record ''bio'' ''s1'' example_time)" by (rule sample_session)
  have a: "sessions_of (proj_state p) ''s1'' = Some \<lparr>ss_status = Session_ACTIVE, ss_interactions = [], ss_runs = []\<rparr>"
    using session_in_Inr [OF db(4)] by (simp add: record_state_def started_record_def)
  have none: "se_summary (started_record ''bio'' ''s1'' example_time) = None" by (simp add: started_record_def)
  obtain ss raw where raw: "get_default (proj_state p) ''sessions'' (JObj []) = JObj ss" "jget ss ''s1'' = JObj raw"
    "view_summary (jget raw ''continuation_summary'') = Inr None" using session_in_read [OF db(4)] by (metis none)
  have "\<not> stale_summary (proj_state p) ''s1''"
    using raw by (auto simp: stale_summary_def session_maps_def mapping_value_def res_bind_def split: sum.splits option.splits)
  then show ?thesis using session_view_exact [OF db(1), of "''bio''" "''s1''" 0] db(1,3) a by auto
qed

text \<open>C31. Starting a session of an existing course by itself succeeds: when the session is not there yet, the command returns the new
  active record and the stream is extended by the one start event, which the reader then shows; the only obstacle is an event identity that is already
  used in the store, which raises and leaves the database as it is.\<close>

theorem session_start_completes:
  assumes "reachable repository_registry db" and "read db (ctx_course ctx) 0 = Inr es" and "projection_of False repository_registry db (ctx_course ctx) = Inr (p, db)"
    and "has_course repository_registry db (ctx_course ctx) profile"
    and "wf_context ctx" and "valid_datetime now" and "utcoffset now = 0" and "ctx_session ctx = Some sid"
    and "session_in (ctx_course ctx) sid (proj_state p) = Inl (SessionNotFoundError (ctx_course ctx) sid)"
    and "command_event_id ctx session_started_type = Inr eid" and "int (length es) + 1 < 2 ^ 63"
  shows "if eid \<in> row_event_id ` set (db_events db)
    then start_session repository_registry idle now ctx (k, db) = (Inl IntegrityError, k + 4, db)
    else \<exists>db' ev. start_session repository_registry idle now ctx (k, db) = (Inr (started_record (ctx_course ctx) sid now), k + 5, db') \<and>
      read db' (ctx_course ctx) 0 = Inr (es @ [stored ev]) \<and> ev_type ev = session_started_type \<and> ev_id ev = eid"
proof -
  obtain q where q: "stream_ok repository_registry db (ctx_course ctx) es" "replay repository_registry (ctx_course ctx) es = Inr q" "proj_state p = canon_obj (proj_state q)"
    using store_view [OF assms(1-3)] by blast
  have none: "session_in (ctx_course ctx) sid (proj_state q) = Inl (SessionNotFoundError (ctx_course ctx) sid)"
    using projection_session_in [OF q(1,2)] assms(9) q(3) by simp
  show ?thesis
    using start_fresh [OF repo.reachable_store_ok [OF assms(1)] q(1,2) assms(4-8) none assms(10,11), of k] stream_ok_read by (cases "eid \<in> row_event_id ` set (db_events db)") (simp, simp, blast)
qed

theorem session_start_completes_witness:
  "\<exists>db eid. has_course repository_registry db ''bio'' sample_profile \<and> command_event_id turn_sample session_started_type = Inr eid \<and>
    (if eid \<in> row_event_id ` set (db_events db)
     then start_session repository_registry idle example_time turn_sample (0, db) = (Inl IntegrityError, 4, db)
     else \<exists>db'. start_session repository_registry idle example_time turn_sample (0, db) = (Inr (started_record ''bio'' ''s1'' example_time), 5, db'))"
proof -
  obtain db where db: "reachable repository_registry db" "has_course repository_registry db ''bio'' sample_profile"
    "read db ''bio'' 0 = Inr [stored (course_event sample_profile sample_context example_time 1)]" using sample_database by blast
  obtain p where p: "projection_of False repository_registry db ''bio'' = Inr (p, db)"
    using repo.reachable_store_ok [OF db(1)] repo.projection_of_ok unfolding store_ok_def stream_ok_def by metis
  have none: "session_in ''bio'' ''s1'' (proj_state p) = Inl (SessionNotFoundError ''bio'' ''s1'')"
    by (rule course_only_session [OF db(1,3) _ p]) (simp add: course_event_def)
  obtain eid where eid: "command_event_id turn_sample session_started_type = Inr eid"
    using digest_text [of "''event-sha256:''"] turn_sample_facts(2)
    by (simp add: command_event_id_def context_session_def mk_identifier_def session_digest_def require_text_def is_space_def py_whitespace_def)
  note f = turn_sample_facts
  from session_start_completes [of db turn_sample, unfolded f(5), OF db(1,3) p db(2) f(1) example_time_valid f(6,2) none eid, of 0]
  show ?thesis using db(2) eid by (auto split: if_splits)
qed

end
