(* ===== verification/Study_Properties.thy ===== *)
theory Study_Properties
  imports Study_Completion Session_Properties
begin

text \<open>
  The properties of the study-context commands on the whole repository: safety with other users of the store between any two accesses,
  the refinement of the abstract context and success when nobody else uses it.
\<close>

definition sample_statement :: study_statement where
  "sample_statement = \<lparr>in_kind = WEEKLY_TIME_BUDGET, in_value = V_int 300\<rparr>"

lemma sample_statement_canonical: "canonical_statement sample_statement"
  by (simp add: canonical_statement_def sample_statement_def canonical_statement_value_def)

lemma study_outcome_step:
  assumes "study_outcome c eid fp spec db sn db'"
  shows "\<exists>A A'. abs_state db c A \<and> abs_state db' c A' \<and>
    (spec A = Some A' \<or> db' = db \<and> holds repository_registry c (\<lambda>s. recorded_command s eid fp) db) \<and>
    represents (sn_statements sn) A' \<and> cf_kind ` set (sn_conflicts sn) = {k. is_scalar k \<and> spec_conflict k A'}"
  using assms abs_state_unique unfolding study_outcome_def shows_context_def by blast



text \<open>C34. The study-context commands refine the abstract context: by itself, a command that raises leaves the database as it was; one that
  returns was recorded before and changes nothing, or makes exactly the step of the abstract context its name says (the new statement is
  active under the identity derived from the command; the statement is retracted; the conflict is settled). The snapshot it returns
  shows the statements of the abstract context and exactly its conflicts.\<close>

theorem study_commands_refine:
  assumes "reachable repository_registry db" and "wf_context ctx" and "valid_datetime now" and "utcoffset now = 0"
    and "ctx_session ctx = Some sid" and "ctx_key ctx = Some key" and "canonical_statement statement"
    and "(command, purpose, fp, spec) \<in> {
      (record_statement repository_registry idle now statement origin ctx expected, ''record'', record_command_fingerprint statement origin,
        spec_record (statement_id_for (study_context_event_id_for (ctx_course ctx) sid key ''record'')) statement),
      (retract_statement repository_registry idle now statement_id ctx expected, ''retract'', retract_command_fingerprint statement_id,
        spec_retract statement_id),
      (resolve_conflict repository_registry idle now kind selected ctx expected, ''resolve'', resolve_command_fingerprint kind selected,
        spec_resolve kind selected)}"
    and "command (k, db) = (r, k', db')"
  shows "case r of
      Inl _ \<Rightarrow> db' = db
    | Inr sn \<Rightarrow> \<exists>A A'. abs_state db (ctx_course ctx) A \<and> abs_state db' (ctx_course ctx) A' \<and>
        (spec A = Some A' \<or>
         db' = db \<and> holds repository_registry (ctx_course ctx) (\<lambda>s. recorded_command s (study_context_event_id_for (ctx_course ctx) sid key purpose) fp) db) \<and>
        represents (sn_statements sn) A' \<and> cf_kind ` set (sn_conflicts sn) = {k. is_scalar k \<and> spec_conflict k A'}"
proof -
  have "alone (\<lambda>_. True) command (study_outcome (ctx_course ctx) (study_context_event_id_for (ctx_course ctx) sid key purpose) fp spec)"
    using assms(8) alone_study_commands(1) [OF assms(2-7)] alone_study_commands(2,3) [OF assms(2-6)] by auto
  then have "case r of Inl _ \<Rightarrow> db' = db | Inr sn \<Rightarrow>
      study_outcome (ctx_course ctx) (study_context_event_id_for (ctx_course ctx) sid key purpose) fp spec db sn db'"
    using repo.reachable_store_ok [OF assms(1)] assms(9) unfolding alone_def by blast
  then show ?thesis by (cases r) (simp, simp only: sum.case, rule study_outcome_step)
qed

theorem study_commands_refine_witness:
  "\<exists>db r k' db'. reachable repository_registry db \<and>
    record_statement repository_registry idle example_time sample_statement ''i1'' turn_sample 1 (0, db) = (r, k', db') \<and>
    (\<forall>e. r = Inl e \<longrightarrow> db' = db)"
proof -
  obtain db where db: "reachable repository_registry db" by (rule session_database)
  obtain r k' db' where run: "record_statement repository_registry idle example_time sample_statement ''i1'' turn_sample 1 (0, db) = (r, k', db')"
    by (rule prod_cases3)
  from study_commands_refine [OF db turn_sample_facts(1) example_time_valid turn_sample_facts(6,2,3) sample_statement_canonical insertI1 run] db run
  show ?thesis by (auto split: sum.splits)
qed

text \<open>What a command that was not recorded before returns: the view of its abstract step.\<close>

lemma study_result:
  assumes outcome: "alone (\<lambda>_. True) m (study_outcome c eid fp spec)" and run: "m (k, db) = (Inr sn, k', db')"
    and ok: "store_ok repository_registry db" and es: "stream_ok repository_registry db c es" and q: "replay repository_registry c es = Inr q"
    and fresh: "\<not> recorded_command (proj_state q) eid fp" and spec: "spec (abs_context_of (proj_state q)) = Some A'"
  shows "abs_state db' c A' \<and> represents (sn_statements sn) A'"
proof -
  have state: "course_state repository_registry db c (proj_state q)" using es q by (auto simp: course_state_def)
  have "study_outcome c eid fp spec db sn db'" using outcome ok run unfolding alone_def by fastforce
  moreover have "\<not> holds repository_registry c (\<lambda>s. recorded_command s eid fp) db"
    using fresh repo.course_state_unique [OF state] unfolding holds_def by blast
  ultimately obtain A B where "abs_state db c A" "abs_state db' c B" "spec A = Some B" "represents (sn_statements sn) B"
    using study_outcome_step by blast
  moreover from this(1) have "A = abs_context_of (proj_state q)" using abs_state_unique state unfolding abs_state_def by blast
  ultimately show ?thesis using spec by simp
qed

lemma landed_result:
  assumes land: "landed eid k db (m (j, db))" and outcome: "alone (\<lambda>_. True) m (study_outcome c eid fp spec)"
    and ok: "store_ok repository_registry db" and es: "stream_ok repository_registry db c es" and q: "replay repository_registry c es = Inr q"
    and fresh: "\<forall>fp. \<not> recorded_command (proj_state q) eid fp" and spec: "spec (abs_context_of (proj_state q)) = Some A'"
  shows "if eid \<in> row_event_id ` set (db_events db) then m (j, db) = (Inl IntegrityError, Suc k, db)
    else \<exists>sn db'. m (j, db) = (Inr sn, Suc (Suc k), db') \<and> abs_state db' c A' \<and> represents (sn_statements sn) A'"
proof (cases "eid \<in> row_event_id ` set (db_events db)")
  case False
  then obtain sn db' where "m (j, db) = (Inr sn, Suc (Suc k), db')" using land by (auto simp: landed_def)
  then show ?thesis using study_result [OF outcome _ ok es q _ spec] fresh False by auto
qed (use land in \<open>simp add: landed_def\<close>)



end
