(* ===== verification/Document_Tree.thy ===== *)
theory Document_Tree
  imports Codec Sha256 "HOL-Library.Sublist"
begin

text \<open>
  The document tree of \<^verbatim>\<open>knowledge/tree.py\<close> over the values of \<^verbatim>\<open>domain/tree.py\<close>: dialect profiles, nodes and trees with the checks of
  their constructors, the identities of nodes, and the builder, which scans lines, fenced code and headings, nests the headings, classifies
  the lines of a section into regions, names the children of a section and emits the nodes; admission rebuilds a tree before it is trusted.
\<close>

section \<open>Profiles\<close>

datatype region_kind = BODY | EMPHASIS | SUMMARY | DEFINITION | TABLE | CODE | FIGURE_REF | ITEM

fun region_kind_value :: "region_kind \<Rightarrow> string" where
  "region_kind_value BODY = ''body''"
| "region_kind_value EMPHASIS = ''emphasis''"
| "region_kind_value SUMMARY = ''summary''"
| "region_kind_value DEFINITION = ''definition''"
| "region_kind_value TABLE = ''table''"
| "region_kind_value CODE = ''code''"
| "region_kind_value FIGURE_REF = ''figure_ref''"
| "region_kind_value ITEM = ''item''"

datatype heading_syntax = Heading_NONE | Heading_ATX

definition malformed_flag :: string where "malformed_flag = ''malformed''"

record dialect_profile =
  dp_name :: string
  dp_version :: string
  dp_syntax :: heading_syntax
  dp_depth :: int
  dp_fenced :: bool
  dp_tables :: bool
  dp_items :: bool
  dp_figures :: "string list"
  dp_emphasis :: "string list"
  dp_summary :: "string list"
  dp_uncertainty :: "string list"
  dp_definitions :: "string list"

definition marker_tuple :: "string list \<Rightarrow> string list result" where
  "marker_tuple markers =
     res_bind (map_res (\<lambda>m. res_bind (require_text m) (\<lambda>_. Inr m)) markers) (\<lambda>entries.
       if \<not> distinct entries then Inl ValueError else Inr entries)"

definition mk_profile :: "dialect_profile \<Rightarrow> dialect_profile result" where
  "mk_profile p =
     res_bind (require_text (dp_name p)) (\<lambda>_.
     res_bind (require_text (dp_version p)) (\<lambda>_.
       if \<not> (1 \<le> dp_depth p \<and> dp_depth p \<le> 6) then Inl ValueError
       else
         res_bind (marker_tuple (dp_figures p)) (\<lambda>_.
         res_bind (marker_tuple (dp_emphasis p)) (\<lambda>_.
         res_bind (marker_tuple (dp_summary p)) (\<lambda>_.
         res_bind (marker_tuple (dp_definitions p)) (\<lambda>_.
         res_bind (marker_tuple (dp_uncertainty p)) (\<lambda>_. Inr p)))))))"

definition heading_syntax_value :: "heading_syntax \<Rightarrow> string" where
  "heading_syntax_value x = (case x of Heading_NONE \<Rightarrow> ''none'' | Heading_ATX \<Rightarrow> ''atx'')"

definition profile_json :: "dialect_profile \<Rightarrow> json_object" where
  "profile_json p =
     [(''emphasis_markers'', text_items (dp_emphasis p)), (''fenced_code'', JBool (dp_fenced p)),
      (''figure_reference_markers'', text_items (dp_figures p)), (''heading_syntax'', JStr (heading_syntax_value (dp_syntax p))),
      (''list_items'', JBool (dp_items p)), (''max_heading_depth'', JInt (dp_depth p)), (''pipe_tables'', JBool (dp_tables p)),
      (''profile_name'', JStr (dp_name p)), (''profile_version'', JStr (dp_version p)), (''summary_markers'', text_items (dp_summary p)),
      (''uncertainty_markers'', text_items (dp_uncertainty p))] @
     (if dp_definitions p \<noteq> [] then [(''definition_markers'', text_items (dp_definitions p))] else [])"

section \<open>Nodes and trees\<close>

record tree_node =
  tn_id :: string
  tn_parent :: "string option"
  tn_path :: "string list"
  tn_heading :: string
  tn_kind :: region_kind
  tn_span :: "nat \<times> nat"
  tn_flags :: "string set"

definition mk_node :: "tree_node \<Rightarrow> tree_node result" where
  "mk_node n =
     (if tn_parent n = Some (tn_id n) then Inl ValueError
      else if \<not> list_all is_text (tn_path n) then Inl ValueError
      else if snd (tn_span n) \<le> fst (tn_span n) then Inl ValueError
      else if \<not> (\<forall>f \<in> tn_flags n. is_text f) then Inl ValueError
      else if (tn_parent n = None) \<noteq> (tn_path n = []) then Inl ValueError
      else Inr n)"

definition node_contains :: "tree_node \<Rightarrow> tree_node \<Rightarrow> bool" where
  "node_contains n other = (fst (tn_span n) \<le> fst (tn_span other) \<and> snd (tn_span other) \<le> snd (tn_span n))"

definition node_json :: "tree_node \<Rightarrow> json" where
  "node_json n = JObj [
     (''flags'', text_items (sorted_list_of_set (tn_flags n))), (''heading_text'', JStr (tn_heading n)), (''node_id'', JStr (tn_id n)),
     (''parent_id'', case tn_parent n of None \<Rightarrow> JNull | Some p \<Rightarrow> JStr p), (''path'', text_items (tn_path n)),
     (''region_kind'', JStr (region_kind_value (tn_kind n))), (''span'', JArr [JInt (int (fst (tn_span n))), JInt (int (snd (tn_span n)))])]"

record document_tree =
  dt_substrate :: string
  dt_version :: string
  dt_profile_name :: string
  dt_profile_version :: string
  dt_nodes :: "tree_node list"

text \<open>The nodes after the root, with the nodes seen so far.\<close>

fun check_nodes :: "(string \<rightharpoonup> tree_node) \<Rightarrow> tree_node list \<Rightarrow> unit result" where
  "check_nodes seen [] = Inr ()"
| "check_nodes seen (n # ns) =
     (if seen (tn_id n) \<noteq> None then Inl ValueError
      else
        (case tn_parent n of
           None \<Rightarrow> Inl ValueError
         | Some pid \<Rightarrow>
             (case seen pid of
                None \<Rightarrow> Inl ValueError
              | Some parent \<Rightarrow>
                  if \<not> node_contains parent n then Inl ValueError
                  else if length (tn_path n) \<noteq> length (tn_path parent) + 1 then Inl ValueError
                  else if take (length (tn_path parent)) (tn_path n) \<noteq> tn_path parent then Inl ValueError
                  else check_nodes (seen(tn_id n \<mapsto> n)) ns)))"

fun check_siblings :: "int \<Rightarrow> string list option \<Rightarrow> tree_node list \<Rightarrow> unit result" where
  "check_siblings previous_end previous_path [] = Inr ()"
| "check_siblings previous_end previous_path (n # ns) =
     (if int (fst (tn_span n)) < previous_end then Inl ValueError
      else if previous_path = Some (tn_path n) then Inl ValueError
      else check_siblings (int (snd (tn_span n))) (Some (tn_path n)) ns)"

definition validate_sibling_order :: "tree_node list \<Rightarrow> unit result" where
  "validate_sibling_order nodes =
     res_bind (map_res (\<lambda>parent. check_siblings (- 1) None (filter (\<lambda>n. tn_parent n = parent) nodes)) (remdups (map tn_parent nodes))) (\<lambda>_. Inr ())"

definition validate_structure :: "tree_node list \<Rightarrow> unit result" where
  "validate_structure nodes =
     (case nodes of
        [] \<Rightarrow> Inl ValueError
      | root # rest \<Rightarrow>
          if tn_parent root \<noteq> None then Inl ValueError
          else res_bind (check_nodes [tn_id root \<mapsto> root] rest) (\<lambda>_. validate_sibling_order nodes))"

definition mk_tree :: "document_tree \<Rightarrow> document_tree result" where
  "mk_tree t =
     res_bind (require_text (dt_version t)) (\<lambda>_.
     res_bind (require_text (dt_profile_name t)) (\<lambda>_.
     res_bind (require_text (dt_profile_version t)) (\<lambda>_.
     res_bind (validate_structure (dt_nodes t)) (\<lambda>_. Inr t))))"

definition tree_node_of :: "document_tree \<Rightarrow> string \<Rightarrow> tree_node result" where
  "tree_node_of t nid = (case find (\<lambda>n. tn_id n = nid) (dt_nodes t) of None \<Rightarrow> Inl KeyError | Some n \<Rightarrow> Inr n)"

definition tree_children :: "document_tree \<Rightarrow> string \<Rightarrow> tree_node list" where
  "tree_children t nid = filter (\<lambda>n. tn_parent n = Some nid) (dt_nodes t)"

definition tree_json :: "document_tree \<Rightarrow> json" where
  "tree_json t = JObj [
     (''nodes'', JArr (map node_json (dt_nodes t))), (''profile_name'', JStr (dt_profile_name t)), (''profile_version'', JStr (dt_profile_version t)),
     (''substrate_id'', JStr (dt_substrate t)), (''tree_format_version'', JStr (dt_version t))]"

section \<open>Identities\<close>

definition node_payload :: "string \<Rightarrow> string \<Rightarrow> string \<Rightarrow> string \<Rightarrow> string list \<Rightarrow> bytes" where
  "node_payload substrate version name profile_version path =
     utf8_encode (''study-agent/document-tree-node/v1'' @ [CHR 0x00]) @
     canonical_json_bytes [
       (''path'', text_items path), (''profile_name'', JStr name), (''profile_version'', JStr profile_version),
       (''substrate_id'', JStr substrate), (''tree_format_version'', JStr version)]"

definition node_id_for :: "string \<Rightarrow> string \<Rightarrow> string \<Rightarrow> string \<Rightarrow> string list \<Rightarrow> string result" where
  "node_id_for substrate version name profile_version path =
     res_bind (require_text version) (\<lambda>_.
     res_bind (require_text name) (\<lambda>_.
     res_bind (require_text profile_version) (\<lambda>_.
     res_bind (map_res require_text path) (\<lambda>_.
       mk_identifier (''node:sha256:'' @ sha256_hex (node_payload substrate version name profile_version path))))))"

definition substrate_id_for :: "bytes \<Rightarrow> string result" where
  "substrate_id_for content =
     (if content = [] then Inl ValueError
      else
        (case utf8_decode content of
           None \<Rightarrow> Inl ValueError
         | Some s \<Rightarrow> if s = [] then Inl ValueError else mk_identifier (''substrate:sha256:'' @ sha256_hex content)))"

section \<open>Lines\<close>

text \<open>\<^verbatim>\<open>str.startswith\<close>, the first and the last occurrence of a text (\<^verbatim>\<open>find\<close>, \<^verbatim>\<open>rfind\<close>), and the classes of characters below 256.\<close>

definition starts_with :: "string \<Rightarrow> string \<Rightarrow> bool" where
  "starts_with s marker = (take (length marker) s = marker)"

fun find_sub :: "string \<Rightarrow> string \<Rightarrow> nat option" where
  "find_sub pat s =
     (if starts_with s pat then Some 0 else (case s of [] \<Rightarrow> None | _ # rest \<Rightarrow> map_option Suc (find_sub pat rest)))"

fun rfind_sub :: "string \<Rightarrow> string \<Rightarrow> nat option" where
  "rfind_sub pat [] = (if pat = [] then Some 0 else None)"
| "rfind_sub pat (c # rest) =
     (case rfind_sub pat rest of Some i \<Rightarrow> Some (Suc i) | None \<Rightarrow> if starts_with (c # rest) pat then Some 0 else None)"

definition is_alnum :: "char \<Rightarrow> bool" where
  "is_alnum c =
     (let n = of_char c :: nat in
      48 \<le> n \<and> n \<le> 57 \<or> 65 \<le> n \<and> n \<le> 90 \<or> 97 \<le> n \<and> n \<le> 122 \<or> n \<in> set [170, 178, 179, 181, 185, 186, 188, 189, 190] \<or>
      192 \<le> n \<and> n \<le> 214 \<or> 216 \<le> n \<and> n \<le> 246 \<or> 248 \<le> n)"

definition is_digit_char :: "char \<Rightarrow> bool" where
  "is_digit_char c = (let n = of_char c :: nat in 48 \<le> n \<and> n \<le> 57 \<or> n \<in> set [178, 179, 185])"

definition lower_char :: "char \<Rightarrow> char" where
  "lower_char c =
     (let n = of_char c :: nat in if 65 \<le> n \<and> n \<le> 90 \<or> 192 \<le> n \<and> n \<le> 222 \<and> n \<noteq> 215 then char_of (n + 32) else c)"

record doc_line =
  ln_start :: nat
  ln_end :: nat
  ln_content :: string

function scan_from :: "nat \<Rightarrow> string \<Rightarrow> doc_line list" where
  "scan_from start rest =
     (if rest = [] then []
      else
        let content = takeWhile (\<lambda>c. c \<noteq> CHR 0x0A) rest in
        if length content = length rest then [\<lparr>ln_start = start, ln_end = start + length rest, ln_content = content\<rparr>]
        else \<lparr>ln_start = start, ln_end = start + length content + 1, ln_content = content\<rparr> #
          scan_from (start + length content + 1) (drop (length content + 1) rest))"
  by pat_completeness auto
termination by (relation "measure (length \<circ> snd)") auto

declare scan_from.simps [simp del]

definition scan_lines :: "string \<Rightarrow> doc_line list" where
  "scan_lines doc = scan_from 0 doc"

record doc_region =
  rg_kind :: region_kind
  rg_start :: nat
  rg_end :: nat
  rg_flags :: "string set"

definition fence :: string where "fence = ''```''"

fun fence_spans :: "nat \<Rightarrow> nat option \<Rightarrow> doc_line list \<Rightarrow> doc_region list" where
  "fence_spans last_end opened [] =
     (case opened of
        None \<Rightarrow> []
      | Some start \<Rightarrow> [\<lparr>rg_kind = CODE, rg_start = start, rg_end = last_end, rg_flags = {malformed_flag}\<rparr>])"
| "fence_spans last_end opened (l # ls) =
     (if \<not> starts_with (lstrip (ln_content l)) fence then fence_spans last_end opened ls
      else
        (case opened of
           None \<Rightarrow> fence_spans last_end (Some (ln_start l)) ls
         | Some start \<Rightarrow> \<lparr>rg_kind = CODE, rg_start = start, rg_end = ln_end l, rg_flags = {}\<rparr> # fence_spans last_end None ls))"

definition code_spans :: "doc_line list \<Rightarrow> dialect_profile \<Rightarrow> doc_region list" where
  "code_spans ls p = (if \<not> dp_fenced p then [] else fence_spans (if ls = [] then 0 else ln_end (last ls)) None ls)"

definition inside :: "nat \<Rightarrow> doc_region list \<Rightarrow> bool" where
  "inside offset spans = list_ex (\<lambda>s. rg_start s \<le> offset \<and> offset < rg_end s) spans"

text \<open>\<^verbatim>\<open>bisect_left\<close> and \<^verbatim>\<open>bisect_right\<close> on a sorted sequence.\<close>

definition bisect_left :: "nat list \<Rightarrow> nat \<Rightarrow> nat" where
  "bisect_left xs x = length (takeWhile (\<lambda>y. y < x) xs)"

definition bisect_right :: "nat list \<Rightarrow> nat \<Rightarrow> nat" where
  "bisect_right xs x = length (takeWhile (\<lambda>y. y \<le> x) xs)"

fun window_end :: "doc_line list \<Rightarrow> nat \<Rightarrow> nat \<Rightarrow> nat \<Rightarrow> nat" where
  "window_end ls first end 0 = 0"
| "window_end ls first end (Suc l) =
     (if first < Suc l \<and> end < ln_end (ls ! l) then window_end ls first end l else Suc l)"

definition line_window :: "doc_line list \<Rightarrow> nat list \<Rightarrow> nat \<Rightarrow> nat \<Rightarrow> nat \<times> nat" where
  "line_window ls starts start end =
     (let first = bisect_left starts start in (first, window_end ls first end (bisect_right starts end)))"

definition window_lines :: "doc_line list \<Rightarrow> nat list \<Rightarrow> nat \<Rightarrow> nat \<Rightarrow> doc_line list" where
  "window_lines ls starts start end = (case line_window ls starts start end of (first, stop) \<Rightarrow> drop first (take stop ls))"

section \<open>Headings and outline\<close>

record doc_heading =
  hd_level :: nat
  hd_start :: nat
  hd_title :: string
  hd_anchor :: "string option"

definition split_anchor :: "string \<Rightarrow> string \<times> string option" where
  "split_anchor s =
     (if s = [] \<or> last s \<noteq> CHR ''}'' then (s, None)
      else
        (case rfind_sub ''{#'' s of
           None \<Rightarrow> (s, None)
         | Some opening \<Rightarrow>
             let anchor = strip (drop (opening + 2) (butlast s)) in
             if anchor = [] then (s, None) else (strip (take opening s), Some anchor)))"

definition heading_of :: "dialect_profile \<Rightarrow> doc_region list \<Rightarrow> doc_line \<Rightarrow> doc_heading option" where
  "heading_of p spans l =
     (if inside (ln_start l) spans then None
      else
        let stripped = lstrip (ln_content l); level = length (takeWhile (\<lambda>c. c = CHR ''#'') stripped) in
        if level < 1 \<or> dp_depth p < int level then None
        else
          let remainder = drop level stripped in
          if \<not> starts_with remainder '' '' then None
          else
            (case split_anchor (strip remainder) of
               (title, anchor) \<Rightarrow>
                 if title = [] \<and> anchor = None then None
                 else Some \<lparr>hd_level = level, hd_start = ln_start l, hd_title = title, hd_anchor = anchor\<rparr>))"

definition headings :: "doc_line list \<Rightarrow> doc_region list \<Rightarrow> dialect_profile \<Rightarrow> doc_heading list" where
  "headings ls spans p = (if dp_syntax p \<noteq> Heading_ATX then [] else List.map_filter (heading_of p spans) ls)"

datatype outline = Outline (ol_level: nat) (ol_title: string) (ol_anchor: "string option") (ol_start: nat) (ol_end: nat) (ol_children: "outline list")

definition set_end :: "nat \<Rightarrow> outline \<Rightarrow> outline" where
  "set_end e ol = (case ol of Outline lv title anchor start _ cs \<Rightarrow> Outline lv title anchor start e cs)"

definition add_child :: "outline \<Rightarrow> outline \<Rightarrow> outline" where
  "add_child c ol = (case ol of Outline lv title anchor start e cs \<Rightarrow> Outline lv title anchor start e (cs @ [c]))"

text \<open>The stack of open sections, innermost first. The code appends a section to its parent when it is opened and goes on changing it; here
  it is appended when it is closed, in the same place, since a section that is open is the last one of its parent. The root has level 0 and
  headings at least 1, so that it stays on the stack.\<close>

fun close_sections :: "nat \<Rightarrow> nat \<Rightarrow> outline list \<Rightarrow> outline list" where
  "close_sections level e (ol # parent # stack) =
     (if level \<le> ol_level ol then close_sections level e (add_child (set_end e ol) parent # stack) else ol # parent # stack)"
| "close_sections level e stack = stack"

fun join_sections :: "outline list \<Rightarrow> outline" where
  "join_sections (ol # parent # stack) = join_sections (add_child ol parent # stack)"
| "join_sections [ol] = ol"
| "join_sections [] = Outline 0 [] None 0 0 []"

definition open_section :: "nat \<Rightarrow> doc_heading \<Rightarrow> outline list \<Rightarrow> outline list" where
  "open_section document_end h stack =
     Outline (hd_level h) (hd_title h) (hd_anchor h) (hd_start h) document_end [] # close_sections (hd_level h) (hd_start h) stack"

definition nest :: "doc_heading list \<Rightarrow> nat \<Rightarrow> outline" where
  "nest hs document_end = join_sections (fold (open_section document_end) hs [Outline 0 [] None 0 document_end []])"

section \<open>Path segments\<close>

fun slug_chars :: "bool \<Rightarrow> string \<Rightarrow> string" where
  "slug_chars dashed [] = []"
| "slug_chars dashed (c # cs) =
     (if is_alnum c then c # slug_chars False cs
      else if \<not> dashed then CHR ''-'' # slug_chars True cs
      else slug_chars dashed cs)"

definition strip_dashes :: "string \<Rightarrow> string" where
  "strip_dashes s = rev (dropWhile (\<lambda>c. c = CHR ''-'') (rev (dropWhile (\<lambda>c. c = CHR ''-'') s)))"

definition slugify :: "string \<Rightarrow> string" where
  "slugify title =
     (let slug = strip_dashes (slug_chars False (map lower_char title)) in if slug = [] then ''section'' else slug)"

datatype tree_child = Child_region doc_region | Child_section outline

fun child_start :: "tree_child \<Rightarrow> nat" where
  "child_start (Child_region r) = rg_start r"
| "child_start (Child_section ol) = ol_start ol"

fun propose_segments :: "(region_kind \<Rightarrow> nat) \<Rightarrow> tree_child list \<Rightarrow> string list" where
  "propose_segments counters [] = []"
| "propose_segments counters (Child_section ol # cs) =
     (case ol_anchor ol of None \<Rightarrow> slugify (ol_title ol) | Some a \<Rightarrow> if a = [] then slugify (ol_title ol) else a) # propose_segments counters cs"
| "propose_segments counters (Child_region r # cs) =
     (region_kind_value (rg_kind r) @ ''-'' @ show_int (int (counters (rg_kind r) + 1))) #
     propose_segments (counters(rg_kind r := counters (rg_kind r) + 1)) cs"

definition label :: "string \<Rightarrow> nat \<Rightarrow> string" where
  "label segment n = segment @ ''-'' @ show_int (int n)"

lemma label_inj [simp]: "label segment m = label segment n \<longleftrightarrow> m = n"
  by (simp add: label_def show_int_inj)

text \<open>The loop that bumps the counter of a segment until its label is free.\<close>

function bump :: "string list \<Rightarrow> string \<Rightarrow> nat \<Rightarrow> nat" where
  "bump taken segment n = (if label segment (n + 1) \<in> set taken then bump taken segment (n + 1) else n + 1)"
  by pat_completeness auto
termination
proof (relation "measure (\<lambda>(taken, segment, n). card {m. n < m \<and> label segment m \<in> set taken})")
  fix taken segment and n :: nat
  assume used: "label segment (n + 1) \<in> set taken"
  have "inj (label segment)" by (rule injI) simp
  then have "finite (label segment -` set taken)" by (intro finite_vimageI) simp_all
  then have "finite {m. n < m \<and> label segment m \<in> set taken}" by (rule finite_subset [rotated]) auto
  then have "card {m. n + 1 < m \<and> label segment m \<in> set taken} < card {m. n < m \<and> label segment m \<in> set taken}"
    by (rule psubset_card_mono) (use used in auto)
  then show "((taken, segment, n + 1), taken, segment, n) \<in> measure (\<lambda>(taken, segment, n). card {m. n < m \<and> label segment m \<in> set taken})"
    by simp
qed simp

declare bump.simps [simp del]

fun assign_segments :: "(string \<rightharpoonup> nat) \<Rightarrow> string list \<Rightarrow> string list \<Rightarrow> string list" where
  "assign_segments used taken [] = []"
| "assign_segments used taken (segment # rest) =
     (if segment \<notin> set taken
      then segment # assign_segments (if used segment = None then used(segment \<mapsto> 1) else used) (segment # taken) rest
      else
        let n = bump taken segment (case used segment of None \<Rightarrow> 1 | Some n \<Rightarrow> n); candidate = label segment n in
        candidate # assign_segments (used(segment \<mapsto> n)) (candidate # taken) rest)"

definition unique_segments :: "tree_child list \<Rightarrow> string list" where
  "unique_segments children = assign_segments Map.empty [] (propose_segments (\<lambda>_. 0) children)"

section \<open>Regions\<close>

definition is_list_item :: "string \<Rightarrow> bool" where
  "is_list_item stripped =
     (starts_with stripped ''- '' \<or> starts_with stripped ''* '' \<or> starts_with stripped ''+ '' \<or>
      (case find_sub ''. '' stripped of
         None \<Rightarrow> False
       | Some i \<Rightarrow> take i stripped \<noteq> [] \<and> list_all is_digit_char (take i stripped) \<and> strip (drop (i + 2) stripped) \<noteq> []))"

definition classify :: "string \<Rightarrow> dialect_profile \<Rightarrow> region_kind option" where
  "classify content p =
     (let stripped = strip content in
      if stripped = [] then None
      else if list_ex (starts_with stripped) (dp_emphasis p) then Some EMPHASIS
      else if list_ex (starts_with stripped) (dp_summary p) then Some SUMMARY
      else if list_ex (starts_with stripped) (dp_definitions p) then Some DEFINITION
      else if dp_tables p \<and> starts_with stripped ''|'' then Some TABLE
      else if list_ex (\<lambda>m. find_sub m stripped \<noteq> None) (dp_figures p) then Some FIGURE_REF
      else if dp_items p \<and> is_list_item stripped then Some ITEM
      else None)"

definition mergeable :: "region_kind \<Rightarrow> bool" where
  "mergeable k = (k \<in> set [TABLE, EMPHASIS, SUMMARY, DEFINITION])"

definition plain_region :: "region_kind \<Rightarrow> nat \<Rightarrow> nat \<Rightarrow> doc_region" where
  "plain_region k start e = \<lparr>rg_kind = k, rg_start = start, rg_end = e, rg_flags = {}\<rparr>"

definition close_region :: "(region_kind \<times> nat \<times> nat) option \<Rightarrow> doc_region list" where
  "close_region opened = (case opened of None \<Rightarrow> [] | Some (k, start, e) \<Rightarrow> [plain_region k start e])"

text \<open>The open merged region continues with its own kind and with lines that have no kind but are not blank.\<close>

definition continues :: "(region_kind \<times> nat \<times> nat) option \<Rightarrow> region_kind option \<Rightarrow> string \<Rightarrow> bool" where
  "continues opened kind content =
     (case opened of None \<Rightarrow> False | Some (k, _, _) \<Rightarrow> kind = Some k \<or> kind = None \<and> strip content \<noteq> [])"

fun region_scan :: "dialect_profile \<Rightarrow> doc_region list \<Rightarrow> (region_kind \<times> nat \<times> nat) option \<Rightarrow> doc_line list \<Rightarrow> doc_region list" where
  "region_scan p spans opened [] = close_region opened"
| "region_scan p spans opened (l # ls) =
     (if inside (ln_start l) spans then close_region opened @ region_scan p spans None ls
      else
        let kind = classify (ln_content l) p in
        if continues opened kind (ln_content l) then region_scan p spans (map_option (\<lambda>(k, start, _). (k, start, ln_end l)) opened) ls
        else
          close_region opened @
          (case kind of
             None \<Rightarrow> region_scan p spans None ls
           | Some k \<Rightarrow>
               if mergeable k then region_scan p spans (Some (k, ln_start l, ln_end l)) ls
               else plain_region k (ln_start l) (ln_end l) # region_scan p spans None ls))"

definition regions :: "nat \<Rightarrow> nat \<Rightarrow> doc_line list \<Rightarrow> nat list \<Rightarrow> doc_region list \<Rightarrow> dialect_profile \<Rightarrow> doc_region list" where
  "regions start e ls starts spans p =
     (if e \<le> start then []
      else
        sort_key rg_start
          (filter (\<lambda>s. start \<le> rg_start s \<and> rg_end s \<le> e) spans @ region_scan p spans None (window_lines ls starts start e)))"

definition markers_in :: "nat \<Rightarrow> nat \<Rightarrow> doc_line list \<Rightarrow> nat list \<Rightarrow> dialect_profile \<Rightarrow> string set" where
  "markers_in start e ls starts p =
     (if e \<le> start \<or> dp_uncertainty p = [] then {}
      else
        let content = concat (map ln_content (window_lines ls starts start e)) in
        set (filter (\<lambda>m. find_sub m content \<noteq> None) (dp_uncertainty p)))"

section \<open>The tree\<close>

definition tree_format_version :: string where "tree_format_version = ''document-tree-v1''"

record tree_source =
  ts_lines :: "doc_line list"
  ts_starts :: "nat list"
  ts_spans :: "doc_region list"
  ts_profile :: dialect_profile
  ts_substrate :: string

definition source_node_id :: "tree_source \<Rightarrow> string list \<Rightarrow> string result" where
  "source_node_id src path =
     node_id_for (ts_substrate src) tree_format_version (dp_name (ts_profile src)) (dp_version (ts_profile src)) path"

definition emit_region :: "tree_source \<Rightarrow> string \<Rightarrow> string list \<Rightarrow> doc_region \<Rightarrow> (string set \<times> tree_node list) result" where
  "emit_region src parent path r =
     (let flags = rg_flags r \<union> markers_in (rg_start r) (rg_end r) (ts_lines src) (ts_starts src) (ts_profile src) in
      res_bind (source_node_id src path) (\<lambda>nid.
      res_bind (mk_node \<lparr>tn_id = nid, tn_parent = Some parent, tn_path = path, tn_heading = [], tn_kind = rg_kind r,
          tn_span = (rg_start r, rg_end r), tn_flags = flags\<rparr>) (\<lambda>n. Inr (flags, [n]))))"

definition own_end :: "outline \<Rightarrow> nat" where
  "own_end ol = (case ol_children ol of [] \<Rightarrow> ol_end ol | c # _ \<Rightarrow> ol_start c)"

definition outline_children :: "tree_source \<Rightarrow> outline \<Rightarrow> tree_child list" where
  "outline_children src ol =
     sort_key child_start
       (map Child_region (regions (ol_start ol) (own_end ol) (ts_lines src) (ts_starts src) (ts_spans src) (ts_profile src)) @
        map Child_section (ol_children ol))"

lemma outline_children_smaller:
  "(segment, Child_section c) \<in> set (zip segments (outline_children src ol)) \<Longrightarrow> size c < size ol"
proof -
  assume "(segment, Child_section c) \<in> set (zip segments (outline_children src ol))"
  then have "c \<in> set (ol_children ol)" by (auto simp: outline_children_def dest: set_zip_rightD)
  then show ?thesis by (cases ol) (auto dest: size_list_estimation' [of c _ "size c" size])
qed

function emit :: "tree_source \<Rightarrow> string option \<Rightarrow> string list \<Rightarrow> outline \<Rightarrow> (string set \<times> tree_node list) result" where
  "emit src parent path ol =
     (let children = outline_children src ol in
      res_bind (source_node_id src path) (\<lambda>nid.
      let node = \<lparr>tn_id = nid, tn_parent = parent, tn_path = path, tn_heading = ol_title ol, tn_kind = BODY,
        tn_span = (ol_start ol, ol_end ol), tn_flags = {}\<rparr> in
      res_bind (mk_node node) (\<lambda>_.
      let own = markers_in (ol_start ol) (own_end ol) (ts_lines src) (ts_starts src) (ts_profile src) in
      res_bind (map_res (\<lambda>(segment, child).
          (case child of
             Child_section c \<Rightarrow> emit src (Some nid) (path @ [segment]) c
           | Child_region r \<Rightarrow> emit_region src nid (path @ [segment]) r)) (zip (unique_segments children) children)) (\<lambda>results.
      let flags = own \<union> \<Union> (set (map fst results)) in
      res_bind (mk_node (node\<lparr>tn_flags := flags\<rparr>)) (\<lambda>n. Inr (flags, n # concat (map snd results)))))))"
  by pat_completeness auto
termination by (relation "measure (\<lambda>(src, parent, path, ol). size ol)") (auto dest: outline_children_smaller)

declare emit.simps [simp del]

definition build_document_tree :: "string \<Rightarrow> dialect_profile \<Rightarrow> string \<Rightarrow> document_tree result" where
  "build_document_tree doc p substrate =
     (if doc = [] then Inl ValueError
      else
        let ls = scan_lines doc; starts = map ln_start ls; spans = code_spans ls p; hs = headings ls spans p; ol = nest hs (length doc) in
        res_bind (emit \<lparr>ts_lines = ls, ts_starts = starts, ts_spans = spans, ts_profile = p, ts_substrate = substrate\<rparr> None [] ol) (\<lambda>(_, nodes).
          mk_tree \<lparr>dt_substrate = substrate, dt_version = tree_format_version, dt_profile_name = dp_name p,
            dt_profile_version = dp_version p, dt_nodes = nodes\<rparr>))"

record admitted_tree =
  ad_tree :: document_tree
  ad_text :: string
  ad_profile :: dialect_profile

definition admit_tree :: "document_tree \<Rightarrow> string \<Rightarrow> dialect_profile \<Rightarrow> admitted_tree result" where
  "admit_tree t doc p =
     res_bind (substrate_id_for (utf8_encode doc)) (\<lambda>substrate.
       if dt_substrate t \<noteq> substrate then Inl ValueError
       else
         res_bind (build_document_tree doc p substrate) (\<lambda>rebuilt.
           if tree_json t \<noteq> tree_json rebuilt then Inl ValueError
           else Inr \<lparr>ad_tree = t, ad_text = doc, ad_profile = p\<rparr>))"

end
