(* ===== verification/Document_Sections.thy ===== *)
theory Document_Sections
  imports Document_Tree
begin

text \<open>
  Headings and their nesting: the stack of \<^verbatim>\<open>_nest\<close> computes the same outline as a recursive reference, whose sections are the headings with
  the next heading of at least their rank as end.
\<close>

section \<open>Nesting\<close>

text \<open>The reference: a section holds the headings that follow it up to the first one of the same or a higher rank, where it ends.\<close>

function section_forest :: "nat \<Rightarrow> doc_heading list \<Rightarrow> outline list" where
  "section_forest e [] = []"
| "section_forest e (h # hs) =
     (let inner = takeWhile (\<lambda>x. hd_level h < hd_level x) hs; rest = dropWhile (\<lambda>x. hd_level h < hd_level x) hs;
          stop = (if rest = [] then e else hd_start (hd rest)) in
      Outline (hd_level h) (hd_title h) (hd_anchor h) (hd_start h) stop (section_forest stop inner) # section_forest e rest)"
  by pat_completeness auto
termination
  by (relation "measure (\<lambda>(e, hs). length hs)")
    (auto simp: le_imp_less_Suc [OF length_takeWhile_le] le_imp_less_Suc [OF length_dropWhile_le])

fun outline_sections :: "outline \<Rightarrow> (nat \<times> string \<times> nat \<times> nat) list" where
  "outline_sections (Outline lv title anchor start e cs) = (lv, title, start, e) # concat (map outline_sections cs)"

fun heading_sections :: "nat \<Rightarrow> doc_heading list \<Rightarrow> (nat \<times> string \<times> nat \<times> nat) list" where
  "heading_sections e [] = []"
| "heading_sections e (h # hs) =
     (hd_level h, hd_title h, hd_start h, case find (\<lambda>x. hd_level x \<le> hd_level h) hs of None \<Rightarrow> e | Some x \<Rightarrow> hd_start x) #
     heading_sections e hs"

definition add_children :: "outline list \<Rightarrow> outline \<Rightarrow> outline" where
  "add_children cs ol = fold add_child cs ol"

lemma add_child_simps [simp]: "ol_level (add_child c ol) = ol_level ol" "ol_end (add_child c ol) = ol_end ol"
  by (simp_all add: add_child_def split: outline.split)

lemma add_children_Outline: "add_children cs (Outline lv title anchor s e ds) = Outline lv title anchor s e (ds @ cs)"
  by (induction cs arbitrary: ds) (auto simp: add_children_def add_child_def)

lemma add_children_simps [simp]:
  "add_children [] ol = ol" "add_children (c # cs) ol = add_children cs (add_child c ol)"
  "ol_level (add_children cs ol) = ol_level ol" "ol_end (add_children cs ol) = ol_end ol"
proof -
  show "ol_level (add_children cs ol) = ol_level ol" "ol_end (add_children cs ol) = ol_end ol"
    by (cases ol; simp add: add_children_Outline)+
qed (simp_all add: add_children_def)

text \<open>A context that closes sections of at least some rank at a given end treats the open stack of a list of headings as their forest.\<close>

lemma fold_open_forest:
  fixes F :: "outline list \<Rightarrow> outline list"
  assumes "\<And>X Y st. l \<le> ol_level X \<Longrightarrow> ol_end X = N \<Longrightarrow> F (X # Y # st) = F (add_child (set_end e X) Y # st)"
    and "\<forall>h \<in> set hs. ol_level ol < hd_level h \<and> l \<le> hd_level h"
  shows "F (fold (open_section N) hs (ol # st)) = F (add_children (section_forest e hs) ol # st)"
  using assms
proof (induction "length hs" arbitrary: hs ol st F l e rule: less_induct)
  case less
  note close = less.prems(1) and ranks = less.prems(2)
  show ?case
  proof (cases hs)
    case (Cons h hs')
    let ?inner = "takeWhile (\<lambda>x. hd_level h < hd_level x) hs'" and ?rest = "dropWhile (\<lambda>x. hd_level h < hd_level x) hs'"
    define H where "H = (\<lambda>e cs. Outline (hd_level h) (hd_title h) (hd_anchor h) (hd_start h) e cs)"
    have H [simp]: "ol_level (H e cs) = hd_level h" "ol_end (H e cs) = e" "set_end e' (H e cs) = H e' cs"
      "add_children ds (H e cs) = H e (cs @ ds)" for e e' cs ds
      by (simp_all add: H_def set_end_def add_children_Outline)
    have hs': "hs' = ?inner @ ?rest" by simp
    have stay: "close_sections l' e' (ol' # st) = ol' # st" if "ol_level ol' < l'" for l' e' ol' st
      using that by (cases st) auto
    have "open_section N h (ol # st) = H N [] # ol # st" using ranks Cons by (simp add: open_section_def H_def stay)
    then have start: "fold (open_section N) hs (ol # st) = fold (open_section N) ?rest (fold (open_section N) ?inner (H N [] # ol # st))"
      using Cons hs' by (metis fold_append fold_simps(2) comp_apply)
    have inner: "length ?inner < length hs" using Cons length_takeWhile_le [of _ hs'] by (simp add: le_imp_less_Suc)
    have inner_ranks: "\<forall>x \<in> set ?inner. ol_level (H N []) < hd_level x" by (auto dest: set_takeWhileD)
    show ?thesis
    proof (cases ?rest)
      case Nil
      have "F (fold (open_section N) ?inner (H N [] # ol # st)) = F (add_children (section_forest e ?inner) (H N []) # ol # st)"
      proof (rule less.hyps [where F = F and l = l, OF inner close])
        show "\<forall>x \<in> set ?inner. ol_level (H N []) < hd_level x \<and> l \<le> hd_level x" using inner_ranks ranks Cons by (auto dest: set_takeWhileD)
      qed
      also have "\<dots> = F (add_child (H e (section_forest e ?inner)) ol # st)" using close [of "H N (section_forest e ?inner)"] ranks Cons by simp
      finally show ?thesis using start Nil Cons by (simp add: Let_def H_def del: dropWhile_eq_Nil_conv)
    next
      case rest: (Cons r rs)
      let ?e = "hd_start r"
      have r: "hd_level r \<le> hd_level h" "ol_level ol < hd_level r" "l \<le> hd_level r"
      proof -
        have "r \<in> set hs'" using rest by (metis list.set_intros(1) set_dropWhileD)
        then show "hd_level r \<le> hd_level h" "ol_level ol < hd_level r" "l \<le> hd_level r"
          using hd_dropWhile [of "\<lambda>x. hd_level h < hd_level x" hs'] rest ranks Cons by auto
      qed
      let ?sub = "H ?e (section_forest ?e ?inner)"
      have "close_sections (hd_level r) ?e (fold (open_section N) ?inner (H N [] # ol # st))
          = close_sections (hd_level r) ?e (add_children (section_forest ?e ?inner) (H N []) # ol # st)"
      proof (rule less.hyps [where F = "close_sections (hd_level r) ?e" and l = "hd_level r", OF inner])
        show "\<forall>x \<in> set ?inner. ol_level (H N []) < hd_level x \<and> hd_level r \<le> hd_level x" using inner_ranks r by auto
      qed simp
      also have "\<dots> = add_child ?sub ol # st" using r by (simp add: stay)
      finally have "open_section N r (fold (open_section N) ?inner (H N [] # ol # st)) = open_section N r (add_child ?sub ol # st)"
        using r by (simp add: open_section_def stay)
      then have "F (fold (open_section N) hs (ol # st)) = F (fold (open_section N) ?rest (add_child ?sub ol # st))"
        using start rest by simp
      also have "\<dots> = F (add_children (section_forest e ?rest) (add_child ?sub ol) # st)"
      proof (rule less.hyps [where F = F and l = l, OF _ close])
        show "length ?rest < length hs" using Cons by (simp add: le_imp_less_Suc length_dropWhile_le)
        show "\<forall>x \<in> set ?rest. ol_level (add_child ?sub ol) < hd_level x \<and> l \<le> hd_level x" using ranks Cons by (auto dest: set_dropWhileD)
      qed
      finally show ?thesis using Cons rest by (simp add: Let_def H_def)
    qed
  qed simp
qed

lemma nest_forest:
  assumes "\<forall>h \<in> set hs. 0 < hd_level h"
  shows "nest hs N = Outline 0 [] None 0 N (section_forest N hs)"
proof -
  let ?root = "Outline 0 [] None 0 N []"
  have "[join_sections (fold (open_section N) hs [?root])] = [join_sections [add_children (section_forest N hs) ?root]]"
  proof (rule fold_open_forest [where F = "\<lambda>st. [join_sections st]" and l = 0])
    show "[join_sections (X # Y # st)] = [join_sections (add_child (set_end N X) Y # st)]" if "ol_end X = N" for X Y st
      using that by (cases X) (simp add: set_end_def)
  qed (use assms in simp)
  then show ?thesis by (simp add: nest_def add_children_Outline)
qed

lemma split_anchor_text: "split_anchor s = (t, Some a) \<Longrightarrow> is_text a"
  by (auto simp: split_anchor_def Let_def is_text_def strip_idem split: if_splits option.splits)

lemma heading_of_Some:
  assumes "heading_of p spans l = Some h"
  shows "0 < hd_level h" "hd_start h = ln_start l" "\<not> inside (ln_start l) spans" "hd_anchor h = Some a \<Longrightarrow> is_text a"
  using assms split_anchor_text by (auto simp: heading_of_def Let_def split: if_splits prod.splits)

lemma headings_in: "h \<in> set (headings ls spans p) \<Longrightarrow> \<exists>l \<in> set ls. heading_of p spans l = Some h"
  by (auto simp: headings_def List.map_filter_def split: if_splits)

lemma headings_levels: "h \<in> set (headings ls spans p) \<Longrightarrow> 0 < hd_level h"
  using headings_in heading_of_Some(1) by blast

text \<open>In preorder the sections of the forest are the headings, each with the next heading of at least its rank as its end.\<close>

lemma find_append: "find P (xs @ ys) = (case find P xs of None \<Rightarrow> find P ys | Some x \<Rightarrow> Some x)"
  by (induction xs) auto

lemma heading_sections_append:
  assumes "\<forall>h \<in> set xs. e = (case find (\<lambda>x. hd_level x \<le> hd_level h) ys of None \<Rightarrow> e' | Some x \<Rightarrow> hd_start x)"
  shows "heading_sections e' (xs @ ys) = heading_sections e xs @ heading_sections e' ys"
  using assms by (induction xs) (auto simp: find_append split: option.splits)

lemma forest_sections: "concat (map outline_sections (section_forest e hs)) = heading_sections e hs"
proof (induction e hs rule: section_forest.induct)
  case (2 e h hs)
  let ?inner = "takeWhile (\<lambda>x. hd_level h < hd_level x) hs" and ?rest = "dropWhile (\<lambda>x. hd_level h < hd_level x) hs"
  let ?stop = "if ?rest = [] then e else hd_start (hd ?rest)"
  have rest: "find (\<lambda>x. hd_level x \<le> k) ?rest = (if ?rest = [] then None else Some (hd ?rest))" if "hd_level h \<le> k" for k
    using that hd_dropWhile [of "\<lambda>x. hd_level h < hd_level x" hs] by (cases ?rest) (auto simp del: dropWhile_eq_Nil_conv)
  have "find (\<lambda>x. hd_level x \<le> hd_level h) ?inner = None" by (auto simp: find_None_iff dest: set_takeWhileD)
  then have "find (\<lambda>x. hd_level x \<le> hd_level h) hs = (if ?rest = [] then None else Some (hd ?rest))"
    using find_append [of _ ?inner ?rest] rest [of "hd_level h"] by (simp del: dropWhile_eq_Nil_conv)
  moreover have "\<forall>x \<in> set ?inner. ?stop = (case find (\<lambda>y. hd_level y \<le> hd_level x) ?rest of None \<Rightarrow> e | Some y \<Rightarrow> hd_start y)"
  proof
    fix x assume "x \<in> set ?inner"
    then have "hd_level h \<le> hd_level x" by (auto dest: set_takeWhileD)
    then show "?stop = (case find (\<lambda>y. hd_level y \<le> hd_level x) ?rest of None \<Rightarrow> e | Some y \<Rightarrow> hd_start y)"
      using rest by (simp del: dropWhile_eq_Nil_conv)
  qed
  moreover have "heading_sections e (?inner @ ?rest) = heading_sections ?stop ?inner @ heading_sections e ?rest"
    using calculation(2) by (rule heading_sections_append)
  ultimately show ?case using 2 by (simp add: Let_def del: dropWhile_eq_Nil_conv)
qed simp

end
