(* ===== verification/Document_Spans.thy ===== *)
theory Document_Spans
  imports Document_Tree
begin

text \<open>
  Lines tile the document, the window of a range between two line boundaries is the lines of that range, fenced code and the regions of a
  section are in order and do not overlap.
\<close>

section \<open>Intervals\<close>

text \<open>Intervals in order, inside a range and without overlap.\<close>

fun chain :: "nat \<Rightarrow> nat \<Rightarrow> (nat \<times> nat) list \<Rightarrow> bool" where
  "chain a b [] = (a \<le> b)"
| "chain a b ((s, e) # xs) = (a \<le> s \<and> s < e \<and> chain e b xs)"

lemma chain_le: "chain a b xs \<Longrightarrow> a \<le> b"
  by (induction a b xs rule: chain.induct) auto

lemma chain_append: "chain a b (xs @ ys) \<longleftrightarrow> (\<exists>m. chain a m xs \<and> chain m b ys)"
proof (induction a b xs rule: chain.induct)
  case (1 a b)
  have "chain a' b ys \<Longrightarrow> a \<le> a' \<Longrightarrow> chain a b ys" for a' by (cases ys) auto
  then show ?case by auto
qed auto

lemma chain_mono: "chain a b xs \<Longrightarrow> a' \<le> a \<Longrightarrow> b \<le> b' \<Longrightarrow> chain a' b' xs"
  by (induction a b xs arbitrary: a' rule: chain.induct) auto

lemma chain_in: "chain a b xs \<Longrightarrow> (s, e) \<in> set xs \<Longrightarrow> a \<le> s \<and> s < e \<and> e \<le> b"
  by (induction a b xs rule: chain.induct) (auto dest: chain_le)

lemma chain_sorted: "chain a b xs \<Longrightarrow> sorted (map fst xs)"
  by (induction a b xs rule: chain.induct) (auto dest: chain_in)

abbreviation overlap_free :: "nat \<times> nat \<Rightarrow> nat \<times> nat \<Rightarrow> bool" where
  "overlap_free x y \<equiv> snd x \<le> fst y \<or> snd y \<le> fst x"

lemma chain_overlap_free: "chain a b xs \<Longrightarrow> sorted_wrt overlap_free xs"
  by (induction a b xs rule: chain.induct) (auto dest: chain_in)

text \<open>Sorting intervals that do not overlap gives a chain.\<close>

lemma insort_overlap_free:
  "sorted_wrt (\<lambda>x y. overlap_free (f x) (f y)) (x # xs) \<Longrightarrow> sorted_wrt (\<lambda>x y. overlap_free (f x) (f y)) (insort_key g x xs)"
  by (induction xs) (auto simp: set_insort_key)

lemma sort_overlap_free:
  "sorted_wrt (\<lambda>x y. overlap_free (f x) (f y)) xs \<Longrightarrow> sorted_wrt (\<lambda>x y. overlap_free (f x) (f y)) (sort_key g xs)"
  by (induction xs) (auto intro!: insort_overlap_free)

lemma sorted_chain:
  "sorted (map fst xs) \<Longrightarrow> sorted_wrt overlap_free xs \<Longrightarrow> \<forall>(s, e) \<in> set xs. a \<le> s \<and> s < e \<and> e \<le> b \<Longrightarrow> a \<le> b \<Longrightarrow> chain a b xs"
proof (induction xs arbitrary: a)
  case (Cons x xs)
  obtain s e where x: "x = (s, e)" by (cases x)
  have "e \<le> s'" if "(s', e') \<in> set xs" for s' e'
  proof -
    have "s \<le> s'" "overlap_free (s, e) (s', e')" "s < e" "s' < e'" using Cons.prems that x by fastforce+
    then show ?thesis by auto
  qed
  moreover have "e \<le> b" "\<forall>(s, e) \<in> set xs. a \<le> s \<and> s < e \<and> e \<le> b" "sorted (map fst xs)" "sorted_wrt overlap_free xs"
    using Cons.prems x by auto
  ultimately have "chain e b xs" by (intro Cons.IH) auto
  then show ?case using Cons.prems(3) x by auto
qed simp

section \<open>Lines\<close>

text \<open>The lines of a document follow each other without a gap.\<close>

fun tiles :: "nat \<Rightarrow> nat \<Rightarrow> doc_line list \<Rightarrow> bool" where
  "tiles a b [] = (a = b)"
| "tiles a b (l # ls) = (ln_start l = a \<and> a < ln_end l \<and> tiles (ln_end l) b ls)"

lemma tiles_le: "tiles a b ls \<Longrightarrow> a \<le> b"
  by (induction a b ls rule: tiles.induct) auto

lemma tiles_in: "tiles a b ls \<Longrightarrow> l \<in> set ls \<Longrightarrow> a \<le> ln_start l \<and> ln_start l < ln_end l \<and> ln_end l \<le> b"
  by (induction a b ls rule: tiles.induct) (auto dest: tiles_le)

lemma tiles_append: "tiles a b (xs @ ys) \<longleftrightarrow> (\<exists>m. tiles a m xs \<and> tiles m b ys)"
  by (induction a b xs rule: tiles.induct) auto

lemma scan_tiles: "tiles start (start + length rest) (scan_from start rest)"
proof (induction start rest rule: scan_from.induct)
  case (1 start rest)
  let ?c = "takeWhile (\<lambda>c. c \<noteq> CHR 0x0A) rest"
  show ?case
  proof (cases "rest = [] \<or> length ?c = length rest")
    case False
    then have "length ?c < length rest" using length_takeWhile_le [of "\<lambda>c. c \<noteq> CHR 0x0A" rest] by linarith
    then show ?thesis using 1 False by (subst scan_from.simps) (simp add: Let_def)
  qed (subst scan_from.simps, auto simp: Let_def)
qed

lemma scan_slice:
  "l \<in> set (scan_from start rest) \<Longrightarrow> \<exists>k. ln_start l = start + k \<and>
     (let slice = take (ln_end l - ln_start l) (drop k rest) in slice = ln_content l @ [CHR 0x0A] \<or> slice = ln_content l) \<and> CHR 0x0A \<notin> set (ln_content l)"
proof (induction start rest rule: scan_from.induct)
  case (1 start rest)
  let ?c = "takeWhile (\<lambda>c. c \<noteq> CHR 0x0A) rest"
  have clean: "CHR 0x0A \<notin> set ?c" by (auto dest: set_takeWhileD)
  show ?case
  proof (cases "rest = [] \<or> length ?c = length rest")
    case True
    then have "l = \<lparr>ln_start = start, ln_end = start + length rest, ln_content = ?c\<rparr>" "rest \<noteq> []" "length ?c = length rest"
      using "1.prems" by (subst (asm) scan_from.simps, auto simp: Let_def split: if_splits)+
    moreover have "?c = rest" using calculation(3) by (metis takeWhile_eq_take take_all order_refl)
    moreover have "CHR 0x0A \<notin> set rest" using clean calculation(4) by simp
    ultimately show ?thesis by (intro exI [of _ 0]) (simp add: Let_def)
  next
    case False
    then have less: "length ?c < length rest" using length_takeWhile_le [of "\<lambda>c. c \<noteq> CHR 0x0A" rest] by linarith
    consider (here) "l = \<lparr>ln_start = start, ln_end = start + length ?c + 1, ln_content = ?c\<rparr>"
      | (later) "l \<in> set (scan_from (start + length ?c + 1) (drop (length ?c + 1) rest))"
      using "1.prems" False by (subst (asm) scan_from.simps) (auto simp: Let_def)
    then show ?thesis
    proof cases
      case here
      have "take (length ?c + 1) rest = ?c @ [rest ! length ?c]" using less by (simp add: take_Suc_conv_app_nth takeWhile_eq_take [symmetric])
      moreover have "rest ! length ?c = CHR 0x0A" using nth_length_takeWhile [OF less] by simp
      ultimately show ?thesis using here clean by (intro exI [of _ 0]) (simp add: Let_def)
    next
      case later
      then obtain k where "ln_start l = start + length ?c + 1 + k"
        "let slice = take (ln_end l - ln_start l) (drop k (drop (length ?c + 1) rest)) in slice = ln_content l @ [CHR 0x0A] \<or> slice = ln_content l"
        "CHR 0x0A \<notin> set (ln_content l)" using 1(1) False by (metis (no_types, lifting))
      then show ?thesis by (intro exI [of _ "length ?c + 1 + k"]) (simp add: Let_def add.commute)
    qed
  qed
qed

text \<open>Cutting at a line boundary.\<close>

definition boundary :: "nat \<Rightarrow> doc_line list \<Rightarrow> nat \<Rightarrow> bool" where
  "boundary n ls x = (x = n \<or> x \<in> set (map ln_start ls))"

lemma tiles_cut:
  "tiles a n ls \<Longrightarrow> boundary n ls x \<Longrightarrow> \<exists>xs ys. ls = xs @ ys \<and> tiles a x xs \<and> tiles x n ys"
proof (induction a n ls rule: tiles.induct)
  case (2 a b l ls)
  show ?case
  proof (cases "x = ln_start l")
    case True
    then show ?thesis using 2 by (intro exI [of _ "[]"] exI [of _ "l # ls"]) auto
  next
    case False
    then have "boundary b ls x" using 2 by (auto simp: boundary_def)
    then obtain xs ys where "ls = xs @ ys" "tiles (ln_end l) x xs" "tiles x b ys" using 2 by auto
    then show ?thesis using 2 by (intro exI [of _ "l # xs"] exI [of _ ys]) auto
  qed
qed (auto simp: boundary_def)

lemma takeWhile_lines:
  assumes "tiles a m xs" and "tiles m b ys" and "\<And>l. l \<in> set xs \<Longrightarrow> P (ln_start l)" and "ys \<noteq> [] \<Longrightarrow> \<not> P m"
  shows "length (takeWhile P (map ln_start (xs @ ys))) = length xs"
proof -
  have "takeWhile P (map ln_start xs) = map ln_start xs" using assms(3) by (auto simp: takeWhile_eq_all_conv)
  moreover have "takeWhile P (map ln_start ys) = []" using assms(2,4) by (cases ys) auto
  ultimately show ?thesis using assms(3) by (simp add: takeWhile_append)
qed

text \<open>The window of lines is the part between two boundaries.\<close>

lemma window_lines_part:
  assumes "tiles 0 a xs" and "tiles a e ys" and "tiles e n zs"
  shows "window_lines (xs @ ys @ zs) (map ln_start (xs @ ys @ zs)) a e = ys"
proof -
  let ?ls = "xs @ ys @ zs" and ?last = "length xs + length ys"
  have "tiles a n (ys @ zs)" using assms(2,3) tiles_append by blast
  then have left: "bisect_left (map ln_start ?ls) a = length xs"
    unfolding bisect_left_def using tiles_in [OF assms(1)] by (intro takeWhile_lines [OF assms(1)]) fastforce+
  have stay: "window_end ?ls (length xs) e ?last = ?last"
  proof (cases ?last)
    case (Suc k)
    have "\<not> e < ln_end (?ls ! k)" if "length xs < Suc k"
    proof -
      have "ys \<noteq> []" using that Suc by auto
      moreover have "k = length xs + (length ys - 1)" using Suc \<open>ys \<noteq> []\<close> by (cases ys) auto
      ultimately have "ys \<noteq> []" "?ls ! k = last ys" by (simp_all add: nth_append last_conv_nth)
      then show ?thesis using tiles_in [OF assms(2), of "last ys"] by simp
    qed
    then show ?thesis using Suc by auto
  qed simp
  have part: "tiles 0 e (xs @ ys)" using assms(1,2) tiles_append by blast
  have right: "window_end ?ls (length xs) e (bisect_right (map ln_start ?ls) e) = ?last"
  proof (cases zs)
    case Nil
    have "bisect_right (map ln_start ?ls) e = ?last"
      unfolding bisect_right_def Nil using tiles_in [OF part] takeWhile_lines [OF part, of e "[]" "\<lambda>y. y \<le> e"] by fastforce
    then show ?thesis using stay by simp
  next
    case (Cons z zs')
    then have z: "ln_start z = e" "e < ln_end z" "tiles (ln_end z) n zs'" using assms(3) by auto
    have "tiles 0 (ln_end z) (xs @ ys @ [z])" using part z(1,2) tiles_append [of 0 "ln_end z" "xs @ ys" "[z]"] by simp
    then have "bisect_right (map ln_start ?ls) e = Suc ?last"
      unfolding bisect_right_def using Cons tiles_in [OF part] z takeWhile_lines [of 0 "ln_end z" "xs @ ys @ [z]" n zs' "\<lambda>y. y \<le> e"] by fastforce
    moreover have "?ls ! ?last = z" using Cons by (simp add: nth_append)
    ultimately show ?thesis using stay z(2) by simp
  qed
  show ?thesis using left right by (simp add: window_lines_def line_window_def Let_def)
qed

section \<open>Spans\<close>

abbreviation region_span :: "doc_region \<Rightarrow> nat \<times> nat" where "region_span r \<equiv> (rg_start r, rg_end r)"
abbreviation outline_span :: "outline \<Rightarrow> nat \<times> nat" where "outline_span ol \<equiv> (ol_start ol, ol_end ol)"

fun child_span :: "tree_child \<Rightarrow> nat \<times> nat" where
  "child_span (Child_region r) = region_span r"
| "child_span (Child_section ol) = outline_span ol"

lemma window_boundaries:
  assumes "tiles 0 n ls" and "boundary n ls s" and "boundary n ls e" and "s < e"
  obtains xs ys zs where "ls = xs @ ys @ zs" "tiles 0 s xs" "tiles s e ys" "tiles e n zs"
proof -
  obtain xs r where cut: "ls = xs @ r" "tiles 0 s xs" "tiles s n r" using tiles_cut [OF assms(1,2)] by blast
  have "boundary n r e" using assms(3,4) cut tiles_in [OF cut(2)] by (fastforce simp: boundary_def)
  then obtain ys zs where "r = ys @ zs" "tiles s e ys" "tiles e n zs" using tiles_cut [OF cut(3)] by blast
  then show thesis using cut that by blast
qed

lemma tiles_same: "tiles a n ls \<Longrightarrow> l \<in> set ls \<Longrightarrow> l' \<in> set ls \<Longrightarrow> ln_start l \<le> ln_start l' \<Longrightarrow> ln_start l' < ln_end l \<Longrightarrow> l' = l"
  by (induction a n ls rule: tiles.induct) (auto dest: tiles_in)

text \<open>The fenced spans are in order and begin at lines.\<close>

lemma fence_spans_chain:
  "tiles a n ls \<Longrightarrow> (case opened of None \<Rightarrow> True | Some s \<Rightarrow> s < a) \<Longrightarrow>
     chain (case opened of None \<Rightarrow> a | Some s \<Rightarrow> s) n (map region_span (fence_spans n opened ls))"
proof (induction ls arbitrary: a opened)
  case (Cons l ls)
  show ?case
  proof (cases opened)
    case None
    have "chain (ln_start l) n (map region_span (fence_spans n None ls))"
      using Cons.IH [of "ln_end l" None] Cons.prems by (auto intro: chain_mono)
    then show ?thesis using None Cons.IH [of "ln_end l" "Some (ln_start l)"] Cons.prems by simp
  next
    case (Some s)
    then show ?thesis using Cons.IH [of "ln_end l" None] Cons.IH [of "ln_end l" "Some s"] Cons.prems by simp
  qed
qed (auto split: option.splits)

lemma fence_spans_starts:
  "r \<in> set (fence_spans n opened ls) \<Longrightarrow> (opened = Some (rg_start r) \<or> rg_start r \<in> ln_start ` set ls) \<and> rg_flags r \<subseteq> {malformed_flag}"
  by (induction ls arbitrary: opened) (fastforce split: if_splits option.splits)+

lemma tiles_last: "tiles a n ls \<Longrightarrow> n = (if ls = [] then a else ln_end (last ls))"
  by (induction a n ls rule: tiles.induct) auto

lemma code_spans_chain: "tiles 0 n ls \<Longrightarrow> chain 0 n (map region_span (code_spans ls p))"
  using fence_spans_chain [of 0 n ls None] tiles_last [of 0 n ls] tiles_le [of 0 n ls] by (auto simp: code_spans_def)

lemma code_spans_starts: "r \<in> set (code_spans ls p) \<Longrightarrow> rg_start r \<in> ln_start ` set ls \<and> rg_flags r \<subseteq> {malformed_flag}"
  using fence_spans_starts by (fastforce simp: code_spans_def split: if_splits)

section \<open>Regions\<close>

lemma region_scan_chain:
  "tiles a e ls \<Longrightarrow> (case opened of None \<Rightarrow> True | Some (k, s, e') \<Rightarrow> s < e' \<and> e' = a) \<Longrightarrow>
     chain (case opened of None \<Rightarrow> a | Some (k, s, e') \<Rightarrow> s) e (map region_span (region_scan p spans opened ls))"
proof (induction ls arbitrary: a opened)
  case Nil
  then show ?case by (auto simp: close_region_def plain_region_def split: option.splits)
next
  case (Cons l ls)
  have l: "ln_start l = a" "a < ln_end l" "tiles (ln_end l) e ls" using Cons.prems(1) by auto
  have none: "chain a e (map region_span (region_scan p spans None ls))"
    using Cons.IH [OF l(3), of None] l(2) by (auto intro: chain_mono)
  have some: "chain s e (map region_span (region_scan p spans (Some (k, s, ln_end l)) ls))" if "s < ln_end l" for k s
    using Cons.IH [OF l(3), of "Some (k, s, ln_end l)"] that by simp
  have one: "chain a e (region_span (plain_region k a (ln_end l)) # map region_span (region_scan p spans None ls))" for k
    using Cons.IH [OF l(3), of None] l(2) by (simp add: plain_region_def)
  show ?case
  proof (cases opened)
    case None
    then show ?thesis using none some [of a] one l(1,2) by (simp add: close_region_def continues_def Let_def split: option.splits)
  next
    case (Some x)
    then obtain k s where x: "opened = Some (k, s, a)" "s < a" using Cons.prems(2) by (cases x) auto
    have ahead: "chain s e (region_span (plain_region k s a) # map region_span rs)" if "chain a e (map region_span rs)" for rs
      using x(2) that by (simp add: plain_region_def)
    show ?thesis using x(1) ahead [OF none] ahead [OF some [of a]] ahead [of "plain_region k' a (ln_end l) # region_scan p spans None ls" for k'] one some [of s] l(1,2) x(2)
      by (auto simp: close_region_def Let_def split: option.splits)
  qed
qed

text \<open>A range is free when no line in it lies inside a span.\<close>

definition free :: "doc_region list \<Rightarrow> doc_line list \<Rightarrow> nat \<Rightarrow> nat \<Rightarrow> bool" where
  "free spans ls x y = (\<forall>l \<in> set ls. x \<le> ln_start l \<and> ln_start l < y \<longrightarrow> \<not> inside (ln_start l) spans)"

definition plain_part :: "doc_region list \<Rightarrow> doc_line list \<Rightarrow> nat \<Rightarrow> nat \<Rightarrow> bool" where
  "plain_part spans ls x y = (x \<in> ln_start ` set ls \<and> free spans ls x y)"

lemma region_scan_free:
  assumes "tiles 0 n all"
  shows "tiles a e ls \<Longrightarrow> set ls \<subseteq> set all \<Longrightarrow> (case opened of None \<Rightarrow> True | Some (k, s, e') \<Rightarrow> plain_part spans all s e' \<and> e' = a) \<Longrightarrow>
     r \<in> set (region_scan p spans opened ls) \<Longrightarrow> plain_part spans all (rg_start r) (rg_end r) \<and> rg_flags r = {}"
proof (induction ls arbitrary: a opened)
  case Nil
  then show ?case by (auto simp: close_region_def plain_region_def split: option.splits)
next
  case (Cons l ls)
  have l: "ln_start l = a" "a < ln_end l" "tiles (ln_end l) e ls" "set ls \<subseteq> set all" "l \<in> set all" using Cons.prems(1,2) by auto
  have same: "l' = l" if "l' \<in> set all" "a \<le> ln_start l'" "ln_start l' < ln_end l" for l'
    using tiles_same [OF assms l(5) that(1)] that l(1) by simp
  have longer: "plain_part spans all s (ln_end l)" if "plain_part spans all s a" "\<not> inside a spans" for s
    using that same l(1) unfolding plain_part_def free_def by (metis not_le_imp_less)
  have one: "plain_part spans all a (ln_end l)" if "\<not> inside a spans"
    using that same l(1,5) unfolding plain_part_def free_def by blast
  note none = Cons.IH [OF l(3,4), of None, simplified] and some = Cons.IH [OF l(3,4), of "Some (k, s, ln_end l)" for k s, simplified]
  show ?case
  proof (cases opened)
    case None
    then show ?thesis using none some one Cons.prems(4) l(1)
      by (auto simp: close_region_def continues_def plain_region_def Let_def split: if_splits option.splits)
  next
    case (Some x)
    then obtain k s where x: "opened = Some (k, s, a)" "plain_part spans all s a" using Cons.prems(3) by (cases x) auto
    show ?thesis using x none some one longer Cons.prems(4) l(1)
      by (auto simp: close_region_def plain_region_def Let_def split: if_splits option.splits)
  qed
qed

lemma plain_part_disjoint:
  assumes "plain_part spans ls x y" and "span \<in> set spans" and "rg_start span \<in> ln_start ` set ls" and "rg_start span < rg_end span" and "x < y"
  shows "overlap_free (region_span span) (x, y)"
proof (rule ccontr)
  assume "\<not> ?thesis"
  then have meet: "x < rg_end span" "rg_start span < y" by auto
  obtain l where l: "l \<in> set ls" "ln_start l = rg_start span" using assms(3) by auto
  obtain m where m: "m \<in> set ls" "ln_start m = x" using assms(1) by (auto simp: plain_part_def)
  show False
  proof (cases "x \<le> rg_start span")
    case True
    then have "\<not> inside (rg_start span) spans" using assms(1) l meet by (auto simp: plain_part_def free_def)
    then show False using assms(2,4) by (auto simp: inside_def list_ex_iff)
  next
    case False
    then have "\<not> inside x spans" using assms(1,5) m by (auto simp: plain_part_def free_def)
    then show False using assms(2) meet False by (auto simp: inside_def list_ex_iff)
  qed
qed

lemma regions_chain:
  assumes ls: "tiles 0 n ls" and "boundary n ls s" and "boundary n ls e" and "s \<le> e"
  shows "chain s e (map region_span (regions s e ls (map ln_start ls) (code_spans ls p) p))"
proof (cases "e \<le> s")
  case True
  then show ?thesis using assms(4) by (simp add: regions_def)
next
  case False
  then obtain xs ys zs where cut: "ls = xs @ ys @ zs" "tiles 0 s xs" "tiles s e ys" "tiles e n zs"
    using window_boundaries [OF assms(1-3)] by (metis not_le_imp_less)
  let ?spans = "code_spans ls p"
  let ?inner = "filter (\<lambda>x. s \<le> rg_start x \<and> rg_end x \<le> e) ?spans" and ?scan = "region_scan p ?spans None ys"
  have window: "window_lines ls (map ln_start ls) s e = ys" using window_lines_part [OF cut(2-4)] cut(1) by simp
  have spans: "chain 0 n (map region_span ?spans)" by (rule code_spans_chain [OF ls])
  have scan: "chain s e (map region_span ?scan)" using region_scan_chain [OF cut(3), of None] by simp
  have apart: "overlap_free (region_span x) (region_span y)" if "x \<in> set ?spans" "y \<in> set ?scan" for x y
  proof -
    have "plain_part ?spans ls (rg_start y) (rg_end y)" using region_scan_free [OF ls cut(3) _ _ that(2)] cut(1) by auto
    moreover have "rg_start y < rg_end y" using chain_in [OF scan, of "rg_start y" "rg_end y"] that(2) by simp
    moreover have "rg_start x < rg_end x" using chain_in [OF spans, of "rg_start x" "rg_end x"] that(1) by simp
    ultimately show ?thesis using plain_part_disjoint that(1) code_spans_starts [OF that(1)] by blast
  qed
  have "sorted_wrt (\<lambda>x y. overlap_free (region_span x) (region_span y)) (?inner @ ?scan)"
    unfolding sorted_wrt_append using chain_overlap_free [OF spans] chain_overlap_free [OF scan] apart
    by (auto simp: sorted_wrt_map intro: sorted_wrt_filter)
  then have "sorted_wrt overlap_free (map region_span (sort_key rg_start (?inner @ ?scan)))"
    unfolding sorted_wrt_map by (rule sort_overlap_free)
  moreover have "sorted (map fst (map region_span (sort_key rg_start (?inner @ ?scan))))" by (simp add: comp_def)
  moreover have "\<forall>(x, y) \<in> set (map region_span (sort_key rg_start (?inner @ ?scan))). s \<le> x \<and> x < y \<and> y \<le> e"
    using chain_in [OF spans] chain_in [OF scan] by (fastforce simp: image_iff)
  ultimately show ?thesis using False assms(4) by (simp only: regions_def window if_False) (rule sorted_chain)
qed

lemma regions_flags:
  assumes "r \<in> set (regions s e ls starts (code_spans ls p) p)" and "tiles 0 n ls" and "boundary n ls s" and "boundary n ls e" and "starts = map ln_start ls"
  shows "rg_flags r \<subseteq> {malformed_flag}"
proof -
  have less: "s < e" using assms(1) by (auto simp: regions_def split: if_splits)
  obtain xs ys zs where cut: "ls = xs @ ys @ zs" "tiles 0 s xs" "tiles s e ys" "tiles e n zs"
    using window_boundaries [OF assms(2-4) less] by metis
  have "window_lines ls starts s e = ys" using window_lines_part [OF cut(2-4)] cut(1) assms(5) by simp
  then consider "r \<in> set (code_spans ls p)" | "r \<in> set (region_scan p (code_spans ls p) None ys)" using assms(1) less by (auto simp: regions_def)
  then show ?thesis
  proof cases
    case 1
    then show ?thesis using code_spans_starts by blast
  next
    case 2
    have "set ys \<subseteq> set ls" using cut(1) by auto
    then show ?thesis using region_scan_free [OF assms(2) cut(3) _ _ 2] by simp
  qed
qed

end
