(* ===== verification/Document_Outline.thy ===== *)
theory Document_Outline
  imports Document_Sections Document_Spans
begin

text \<open>
  The outline of a document: sections begin and end at line boundaries and contain their children in order. The segments of the children of a
  section are different texts, and the children are in order inside the section.
\<close>

section \<open>Outlines of a document\<close>

fun wf_outline :: "nat \<Rightarrow> doc_line list \<Rightarrow> outline \<Rightarrow> bool" where
  "wf_outline n ls (Outline lv title anchor s e cs) =
     (boundary n ls s \<and> boundary n ls e \<and> s < e \<and> chain s e (map outline_span cs) \<and> (\<forall>x. anchor = Some x \<longrightarrow> is_text x) \<and> list_all (wf_outline n ls) cs)"

lemma forest_wf:
  "sorted_wrt (<) (map hd_start hs) \<Longrightarrow> \<forall>h \<in> set hs. a \<le> hd_start h \<and> hd_start h < e \<and> boundary n ls (hd_start h) \<and> (\<forall>x. hd_anchor h = Some x \<longrightarrow> is_text x) \<Longrightarrow>
   boundary n ls e \<Longrightarrow> a \<le> e \<Longrightarrow> chain a e (map outline_span (section_forest e hs)) \<and> list_all (wf_outline n ls) (section_forest e hs)"
proof (induction e hs arbitrary: a rule: section_forest.induct)
  case (2 e h hs)
  let ?inner = "takeWhile (\<lambda>x. hd_level h < hd_level x) hs" and ?rest = "dropWhile (\<lambda>x. hd_level h < hd_level x) hs"
  define stop where "stop = (if ?rest = [] then e else hd_start (hd ?rest))"
  have sorted: "sorted_wrt (<) (map hd_start (?inner @ ?rest))" "\<forall>x \<in> set (?inner @ ?rest). hd_start h < hd_start x" using 2(3) by auto
  have parts: "set ?inner \<subseteq> set hs" "set ?rest \<subseteq> set hs" by (auto dest: set_takeWhileD set_dropWhileD)
  have head: "?rest \<noteq> [] \<Longrightarrow> hd ?rest \<in> set ?rest" by (rule hd_in_set)
  have ends: "\<forall>x \<in> set (?inner @ ?rest). hd_start x < e" "hd_start h < e" using 2(4) parts by auto
  have cross: "\<forall>x \<in> set ?inner. \<forall>y \<in> set ?rest. hd_start x < hd_start y" "sorted_wrt (<) (map hd_start ?inner)" "sorted_wrt (<) (map hd_start ?rest)"
    using sorted(1) unfolding map_append sorted_wrt_append by (simp_all del: dropWhile_eq_Nil_conv takeWhile_dropWhile_id)
  have inner: "\<forall>x \<in> set ?inner. hd_start h \<le> hd_start x \<and> hd_start x < stop"
    using sorted(2) cross(1) head ends(1) unfolding stop_def set_append by (simp del: dropWhile_eq_Nil_conv add: ball_Un less_imp_le)
  have rest: "\<forall>x \<in> set ?rest. stop \<le> hd_start x"
    using cross(3) unfolding stop_def by (cases ?rest) (auto simp del: dropWhile_eq_Nil_conv)
  have stop: "boundary n ls stop \<and> hd_start h < stop \<and> stop \<le> e"
  proof (cases "?rest = []")
    case True
    then show ?thesis using 2(5) ends(2) by (simp only: stop_def if_True simp_thms order_refl)
  next
    case False
    then have "hd ?rest \<in> set hs" "hd ?rest \<in> set (?inner @ ?rest)" using head parts(2) unfolding set_append by blast+
    then show ?thesis using False 2(4) sorted(2) by (simp add: stop_def less_imp_le del: dropWhile_eq_Nil_conv)
  qed
  have ok: "hd_start x < e \<and> boundary n ls (hd_start x) \<and> (\<forall>y. hd_anchor x = Some y \<longrightarrow> is_text y)" if "x \<in> set ?inner \<union> set ?rest" for x
    using that 2(4) parts by (meson UnE list.set_intros(2) subsetD)
  have "chain (hd_start h) stop (map outline_span (section_forest stop ?inner)) \<and> list_all (wf_outline n ls) (section_forest stop ?inner)"
    using 2(1) [OF refl refl stop_def cross(2), of "hd_start h"] inner ok stop by (auto simp del: dropWhile_eq_Nil_conv)
  moreover have "chain stop e (map outline_span (section_forest e ?rest)) \<and> list_all (wf_outline n ls) (section_forest e ?rest)"
    using 2(2) [OF refl refl stop_def cross(3), of stop] rest ok 2(5) stop by (auto simp del: dropWhile_eq_Nil_conv)
  moreover have "section_forest e (h # hs) = Outline (hd_level h) (hd_title h) (hd_anchor h) (hd_start h) stop (section_forest stop ?inner) # section_forest e ?rest"
    by (simp add: stop_def Let_def del: dropWhile_eq_Nil_conv)
  ultimately show ?case using stop 2(4) by simp
qed simp

lemma headings_sorted:
  assumes "tiles a n ls"
  shows "sorted_wrt (<) (map hd_start (headings ls spans p))"
proof -
  have "sorted_wrt (\<lambda>x y. ln_start x < ln_start y) ls" using assms
    by (induction a n ls rule: tiles.induct) (auto dest: tiles_in)
  then have "sorted_wrt (<) (map hd_start (List.map_filter (heading_of p spans) ls))"
    by (induction ls) (auto simp: List.map_filter_def heading_of_Some(2))
  then show ?thesis by (simp add: headings_def)
qed

definition document_outline :: "string \<Rightarrow> dialect_profile \<Rightarrow> outline" where
  "document_outline doc p = (let ls = scan_lines doc in nest (headings ls (code_spans ls p) p) (length doc))"

lemma scan_lines_tiles: "tiles 0 (length doc) (scan_lines doc)"
  using scan_tiles [of 0 doc] by (simp add: scan_lines_def)

lemma document_outline_wf:
  assumes "doc \<noteq> []"
  shows "wf_outline (length doc) (scan_lines doc) (document_outline doc p)"
proof -
  let ?ls = "scan_lines doc" and ?n = "length doc"
  let ?hs = "headings ?ls (code_spans ?ls p) p"
  have ls: "tiles 0 ?n ?ls" by (rule scan_lines_tiles)
  have hs: "\<forall>h \<in> set ?hs. 0 \<le> hd_start h \<and> hd_start h < ?n \<and> boundary ?n ?ls (hd_start h) \<and> (\<forall>x. hd_anchor h = Some x \<longrightarrow> is_text x)"
  proof
    fix h assume "h \<in> set ?hs"
    then obtain l where l: "l \<in> set ?ls" "heading_of p (code_spans ?ls p) l = Some h" using headings_in by blast
    then show "0 \<le> hd_start h \<and> hd_start h < ?n \<and> boundary ?n ?ls (hd_start h) \<and> (\<forall>x. hd_anchor h = Some x \<longrightarrow> is_text x)"
      using heading_of_Some(2,4) [OF l(2)] tiles_in [OF ls l(1)] by (auto simp: boundary_def)
  qed
  have bounds: "boundary ?n ?ls 0" "boundary ?n ?ls ?n" using ls assms by (cases ?ls; auto simp: boundary_def)+
  have "document_outline doc p = Outline 0 [] None 0 ?n (section_forest ?n ?hs)"
    unfolding document_outline_def Let_def by (rule nest_forest) (use headings_levels in blast)
  then show ?thesis using forest_wf [OF headings_sorted [OF ls] hs bounds(2)] bounds assms by simp
qed

section \<open>Segments\<close>

lemma bump_free: "label segment (bump taken segment n) \<notin> set taken \<and> n < bump taken segment n"
proof (induction taken segment n rule: bump.induct)
  case (1 taken segment n)
  then show ?case by (subst (1 2) bump.simps) auto
qed

lemma assign_segments_step:
  obtains s used' where "assign_segments used taken (p # ps) = s # assign_segments used' (s # taken) ps" "s \<notin> set taken"
    "p \<notin> set taken \<Longrightarrow> s = p"
    "\<forall>x n. used x = Some n \<longrightarrow> 1 \<le> n \<Longrightarrow> (s = p \<or> (\<exists>n \<ge> 2. s = label p n)) \<and> (\<forall>x n. used' x = Some n \<longrightarrow> 1 \<le> n)"
proof (cases "p \<in> set taken")
  case False
  show thesis
    by (rule that [of p "if used p = None then used(p \<mapsto> 1) else used"]) (use False in auto)
next
  case True
  define m where "m = (case used p of None \<Rightarrow> 1 | Some n \<Rightarrow> n)"
  define n where "n = bump taken p m"
  have n: "label p n \<notin> set taken" "m < n" using bump_free [of p taken m] by (simp_all add: n_def)
  show thesis
  proof (rule that [of "label p n" "used(p \<mapsto> n)"])
    show "assign_segments used taken (p # ps) = label p n # assign_segments (used(p \<mapsto> n)) (label p n # taken) ps"
      using True by (simp add: Let_def n_def m_def)
    show "(label p n = p \<or> (\<exists>k \<ge> 2. label p n = label p k)) \<and> (\<forall>x k. (used(p \<mapsto> n)) x = Some k \<longrightarrow> 1 \<le> k)"
      if "\<forall>x k. used x = Some k \<longrightarrow> 1 \<le> k"
    proof -
      have "1 \<le> m" using that by (auto simp: m_def split: option.splits)
      then have "2 \<le> n" using n(2) by linarith
      then show ?thesis using that by auto
    qed
  qed (use n True in auto)
qed

lemma length_assign_segments [simp]: "length (assign_segments used taken ps) = length ps"
proof (induction ps arbitrary: used taken)
  case (Cons p ps)
  show ?case by (rule assign_segments_step [of used taken p ps]) (simp add: Cons)
qed simp

lemma length_propose_segments [simp]: "length (propose_segments counters cs) = length cs"
  by (induction counters cs rule: propose_segments.induct) (simp_all del: fun_upd_apply)

lemma length_unique_segments [simp]: "length (unique_segments cs) = length cs"
  by (simp add: unique_segments_def)

lemma assign_segments_distinct:
  "distinct (assign_segments used taken ps) \<and> set (assign_segments used taken ps) \<inter> set taken = {}"
proof (induction ps arbitrary: used taken)
  case (Cons p ps)
  obtain s used' where "assign_segments used taken (p # ps) = s # assign_segments used' (s # taken) ps" "s \<notin> set taken"
    by (rule assign_segments_step)
  then show ?case using Cons [of used' "s # taken"] by auto
qed simp

text \<open>A segment keeps its proposal or gets a number of at least two behind it; it keeps it when no earlier one has it.\<close>

lemma assign_segments_shape:
  "\<forall>x n. used x = Some n \<longrightarrow> 1 \<le> n \<Longrightarrow>
     list_all2 (\<lambda>p s. s = p \<or> (\<exists>n \<ge> 2. s = label p n)) ps (assign_segments used taken ps)"
proof (induction ps arbitrary: used taken)
  case (Cons p ps)
  obtain s used' where "assign_segments used taken (p # ps) = s # assign_segments used' (s # taken) ps"
    "(s = p \<or> (\<exists>n \<ge> 2. s = label p n)) \<and> (\<forall>x n. used' x = Some n \<longrightarrow> 1 \<le> n)"
    using Cons.prems by (rule_tac assign_segments_step [of used taken p ps]) blast
  then show ?case using Cons.IH [of used' "s # taken"] by simp
qed simp

lemma assign_segments_first:
  "i < length ps \<Longrightarrow> ps ! i \<notin> set taken \<union> set (take i (assign_segments used taken ps)) \<Longrightarrow> assign_segments used taken ps ! i = ps ! i"
proof (induction ps arbitrary: i used taken)
  case (Cons p ps)
  obtain s used' where "assign_segments used taken (p # ps) = s # assign_segments used' (s # taken) ps" "p \<notin> set taken \<Longrightarrow> s = p"
    by (rule assign_segments_step [of used taken p ps]) blast
  then show ?case using Cons.prems Cons.IH [of _ "s # taken" used'] by (cases i) auto
qed simp

lemma no_space_text: "s \<noteq> [] \<Longrightarrow> \<forall>c \<in> set s. \<not> is_space c \<Longrightarrow> is_text s"
  by (simp add: is_text_iff)

lemma alnum_no_space: "is_alnum c \<Longrightarrow> \<not> is_space c"
proof -
  have "list_all (\<lambda>c. \<not> is_alnum c) py_whitespace" by code_simp
  then have "\<forall>c \<in> set py_whitespace. \<not> is_alnum c" by (simp only: list_all_iff)
  then show "is_alnum c \<Longrightarrow> \<not> is_space c" by (auto simp: is_space_def)
qed

lemma dash_no_space: "\<not> is_space (CHR ''-'')"
  by (simp add: is_space_def py_whitespace_def)

lemma slug_chars_no_space: "c \<in> set (slug_chars dashed s) \<Longrightarrow> \<not> is_space c"
  by (induction dashed s rule: slug_chars.induct) (auto simp: alnum_no_space dash_no_space split: if_splits)

lemma slugify_text: "is_text (slugify title)"
proof (cases "strip_dashes (slug_chars False (map lower_char title)) = []")
  case True
  then show ?thesis by (simp add: slugify_def text_eval)
next
  case False
  have "set (strip_dashes s) \<subseteq> set s" for s by (auto simp: strip_dashes_def dest!: set_dropWhileD)
  then have "\<forall>c \<in> set (strip_dashes (slug_chars False (map lower_char title))). \<not> is_space c" using slug_chars_no_space by (meson subsetD)
  then show ?thesis using False by (simp add: slugify_def Let_def no_space_text)
qed

lemma show_count_text: "is_text (CHR ''-'' # show_int (int n))"
proof (rule no_space_text)
  have "\<not> is_space c" if "Json.is_digit c" for c using that by (auto simp: Json.is_digit_def is_space_def py_whitespace_def)
  then have "\<forall>c \<in> set (show_int (int n)). \<not> is_space c" using show_nat_digits [of n] by (simp add: show_int_def)
  then show "\<forall>c \<in> set (CHR ''-'' # show_int (int n)). \<not> is_space c" by (simp add: dash_no_space)
qed simp

lemma label_text: "is_text s \<Longrightarrow> is_text (label s n)"
  unfolding label_def using is_text_append [OF _ _ show_count_text, of s n] by (simp add: is_text_iff)

lemma region_label_text: "is_text (region_kind_value k @ ''-'' @ show_int (int n))"
proof -
  have "is_text (region_kind_value k)" by (cases k) (simp_all add: text_eval)
  then show ?thesis using label_text unfolding label_def by blast
qed

definition child_ok :: "tree_child \<Rightarrow> bool" where
  "child_ok c = (case c of Child_region r \<Rightarrow> True | Child_section ol \<Rightarrow> \<forall>a. ol_anchor ol = Some a \<longrightarrow> is_text a)"

lemma propose_segments_text: "list_all child_ok cs \<Longrightarrow> list_all is_text (propose_segments counters cs)"
proof (induction counters cs rule: propose_segments.induct)
  case (3 counters r cs)
  have "int (counters (rg_kind r)) + 1 = int (Suc (counters (rg_kind r)))" by simp
  then show ?case using 3 region_label_text [of _ "Suc (counters (rg_kind r))"] by (simp add: add.commute del: fun_upd_apply)
qed (auto simp: child_ok_def slugify_text split: option.splits)

lemma unique_segments_distinct: "distinct (unique_segments cs)"
  using assign_segments_distinct by (simp add: unique_segments_def)

lemma unique_segments_text: "list_all child_ok cs \<Longrightarrow> list_all is_text (unique_segments cs)"
proof -
  assume "list_all child_ok cs"
  then have "list_all is_text (propose_segments (\<lambda>_. 0) cs)" by (rule propose_segments_text)
  moreover have "list_all2 (\<lambda>p s. s = p \<or> (\<exists>n \<ge> 2. s = label p n)) (propose_segments (\<lambda>_. 0) cs) (unique_segments cs)"
    unfolding unique_segments_def by (rule assign_segments_shape) simp
  ultimately show ?thesis using label_text by (fastforce simp: list_all2_conv_all_nth list_all_length)
qed

section \<open>The children of a section\<close>

lemma outline_children_chain:
  assumes "tiles 0 n ls" and "wf_outline n ls ol"
    and "ts_lines src = ls" and "ts_starts src = map ln_start ls" and "ts_spans src = code_spans ls (ts_profile src)"
  shows "chain (ol_start ol) (ol_end ol) (map child_span (outline_children src ol))" (is ?chain)
    and "list_all child_ok (outline_children src ol)" (is ?ok)
    and "c \<in> set (outline_children src ol) \<Longrightarrow>
      (case c of Child_region r \<Rightarrow> rg_start r < rg_end r \<and> rg_flags r \<subseteq> {malformed_flag} | Child_section ol \<Rightarrow> wf_outline n ls ol)"
proof -
  obtain lv title anchor s e cs where ol: "ol = Outline lv title anchor s e cs" by (cases ol)
  have wf: "boundary n ls s" "boundary n ls e" "s < e" "chain s e (map outline_span cs)" "list_all (wf_outline n ls) cs"
    using assms(2) ol by auto
  let ?p = "ts_profile src"
  have own: "boundary n ls (own_end ol)" "s \<le> own_end ol" "chain (own_end ol) e (map outline_span cs)"
    using wf ol by (cases cs; cases "hd cs"; auto simp: own_end_def)+
  let ?rs = "regions s (own_end ol) ls (map ln_start ls) (code_spans ls ?p) ?p"
  have regions: "chain s (own_end ol) (map region_span ?rs)" by (rule regions_chain [OF assms(1) wf(1) own(1,2)])
  let ?cs = "map Child_region ?rs @ map Child_section cs"
  have spans: "map child_span ?cs = map region_span ?rs @ map outline_span cs" by (simp add: comp_def)
  have chain: "chain s e (map child_span ?cs)" unfolding spans chain_append using regions own(3) by blast
  have "child_start = fst \<circ> child_span"
  proof (rule ext)
    show "child_start c = (fst \<circ> child_span) c" for c by (cases c) simp_all
  qed
  then have "sorted (map child_start ?cs)" using chain_sorted [OF chain] by (metis map_map)
  then have eq: "outline_children src ol = ?cs" using ol assms(3-5) by (simp add: outline_children_def sorted_sort_id sort_key_id_if_sorted)
  show ?chain using chain eq ol by simp
  show ?ok unfolding eq list_all_append using wf(5) by (auto simp: list_all_iff child_ok_def elim!: wf_outline.elims)
  show "case c of Child_region r \<Rightarrow> rg_start r < rg_end r \<and> rg_flags r \<subseteq> {malformed_flag} | Child_section ol \<Rightarrow> wf_outline n ls ol"
    if "c \<in> set (outline_children src ol)"
  proof -
    have "rg_start r < rg_end r" if "r \<in> set ?rs" for r
      using chain_in [OF regions, of "rg_start r" "rg_end r"] that by simp
    moreover have "rg_flags r \<subseteq> {malformed_flag}" if "r \<in> set ?rs" for r
      by (rule regions_flags [OF that assms(1) wf(1) own(1) refl])
    ultimately show ?thesis using that wf(5) unfolding eq by (auto simp: list_all_iff)
  qed
qed

end
