(* ===== verification/Document_Nodes.thy ===== *)
theory Document_Nodes
  imports Document_Spans
begin

text \<open>
  Trees of nodes that stand under their parents, in order and without overlap, flattened in preorder: they pass the checks of \<^verbatim>\<open>DocumentTree\<close>
  when their identities do not collide.
\<close>

section \<open>Trees of nodes\<close>

datatype node_tree = Node_tree (nt_node: tree_node) (nt_subs: "node_tree list")

fun flatten :: "node_tree \<Rightarrow> tree_node list" where
  "flatten (Node_tree n ts) = n # concat (map flatten ts)"

text \<open>Nodes under their parents, in order and without overlap, with the identities \<^verbatim>\<open>ident\<close> gives to their paths and the flags of what they
  contain.\<close>

fun placed :: "(string list \<Rightarrow> string) \<Rightarrow> node_tree \<Rightarrow> bool" where
  "placed ident (Node_tree n ts) =
     (tn_id n = ident (tn_path n) \<and> chain (fst (tn_span n)) (snd (tn_span n)) (map (\<lambda>t. tn_span (nt_node t)) ts) \<and>
      distinct (map (\<lambda>t. tn_path (nt_node t)) ts) \<and>
      (\<forall>t \<in> set ts. tn_parent (nt_node t) = Some (tn_id n) \<and> (\<exists>segment. tn_path (nt_node t) = tn_path n @ [segment]) \<and>
         tn_flags (nt_node t) \<subseteq> tn_flags n \<and> placed ident t))"

lemma placed_sub:
  assumes "placed ident (Node_tree n ts)" and "t \<in> set ts"
  shows "tn_parent (nt_node t) = Some (tn_id n)" "\<exists>segment. tn_path (nt_node t) = tn_path n @ [segment]"
    "tn_flags (nt_node t) \<subseteq> tn_flags n" "placed ident t" "length (tn_path (nt_node t)) = Suc (length (tn_path n))"
  using assms by auto

lemma root_in_flatten [simp]: "nt_node t \<in> set (flatten t)"
  by (cases t) simp

lemma flatten_Cons: "flatten t = nt_node t # concat (map flatten (nt_subs t))"
  by (cases t) simp

lemma placed_below:
  "placed ident t \<Longrightarrow> m \<in> set (flatten t) \<Longrightarrow>
     prefix (tn_path (nt_node t)) (tn_path m) \<and> node_contains (nt_node t) m \<and> tn_flags m \<subseteq> tn_flags (nt_node t) \<and> tn_id m = ident (tn_path m)"
proof (induction t)
  case (Node_tree n ts)
  show ?case
  proof (cases "m = n")
    case True
    then show ?thesis using Node_tree.prems by (simp add: node_contains_def)
  next
    case False
    then obtain t where t: "t \<in> set ts" "m \<in> set (flatten t)" using Node_tree.prems(2) by auto
    have "(fst (tn_span (nt_node t)), snd (tn_span (nt_node t))) \<in> set (map (\<lambda>t. tn_span (nt_node t)) ts)" using t(1) by auto
    then have "node_contains n (nt_node t)" using chain_in Node_tree.prems(1) by (fastforce simp: node_contains_def)
    moreover have "prefix (tn_path n) (tn_path (nt_node t))" "tn_flags (nt_node t) \<subseteq> tn_flags n" "placed ident t" 
      using Node_tree.prems(1) t(1) by (auto simp: prefix_def)
    ultimately show ?thesis using Node_tree.IH [OF t(1) _ t(2)] by (auto simp: node_contains_def)
  qed
qed

lemma placed_apart:
  assumes "placed ident (Node_tree n ts)" and "t \<in> set ts" and "u \<in> set ts" and "x \<in> set (flatten t)" and "y \<in> set (flatten u)"
    and "prefix (tn_path x) (tn_path y)"
  shows "tn_path (nt_node t) = tn_path (nt_node u)"
proof -
  have "prefix (tn_path (nt_node t)) (tn_path y)" "prefix (tn_path (nt_node u)) (tn_path y)"
    using assms placed_below [of ident t x] placed_below [of ident u y] by (auto intro: prefix_order.trans)
  moreover have "length (tn_path (nt_node t)) = length (tn_path (nt_node u))" using placed_sub(5) [OF assms(1)] assms(2,3) by simp
  ultimately show ?thesis by (metis prefix_length_prefix prefix_order.antisym order_refl)
qed

lemma placed_distinct: "placed ident t \<Longrightarrow> distinct (map tn_path (flatten t))"
proof (induction t)
  case (Node_tree n ts)
  have longer: "tn_path m \<noteq> tn_path n" if "t \<in> set ts" "m \<in> set (flatten t)" for t m
  proof -
    have "length (tn_path n) < length (tn_path m)"
      using placed_below [OF placed_sub(4) [OF Node_tree.prems that(1)] that(2)] placed_sub(5) [OF Node_tree.prems that(1)]
      by (auto dest: prefix_length_le)
    then show ?thesis by auto
  qed
  have "distinct (map tn_path (concat (map flatten us)))" if "set us \<subseteq> set ts" "distinct (map (\<lambda>t. tn_path (nt_node t)) us)" for us
    using that
  proof (induction us)
    case (Cons u us)
    have "tn_path x \<noteq> tn_path y" if "x \<in> set (flatten u)" "v \<in> set us" "y \<in> set (flatten v)" for x v y
      using placed_apart [OF Node_tree.prems _ _ that(1,3)] Cons.prems that(2) by (fastforce simp: subset_iff)
    moreover have "distinct (map tn_path (flatten u))" using Node_tree Cons.prems(1) by auto
    ultimately show ?case using Cons by (fastforce simp: distinct_map)
  qed simp
  then have "distinct (map tn_path (concat (map flatten ts)))" using Node_tree.prems by simp
  then show ?case using longer by (fastforce simp: image_iff)
qed

lemma placed_nested:
  "placed ident t \<Longrightarrow> m \<in> set (flatten t) \<Longrightarrow> n \<in> set (flatten t) \<Longrightarrow> prefix (tn_path m) (tn_path n) \<Longrightarrow>
     node_contains m n \<and> tn_flags n \<subseteq> tn_flags m"
proof (induction t)
  case (Node_tree r ts)
  note below = placed_below [OF Node_tree.prems(1)]
  show ?case
  proof (cases "m = r")
    case True
    then show ?thesis using below [OF Node_tree.prems(3)] by simp
  next
    case False
    then obtain t where t: "t \<in> set ts" "m \<in> set (flatten t)" using Node_tree.prems(2) by auto
    have "length (tn_path r) < length (tn_path m)" 
      using placed_below [OF placed_sub(4) [OF Node_tree.prems(1) t(1)] t(2)] placed_sub(5) [OF Node_tree.prems(1) t(1)]
      by (auto dest: prefix_length_le)
    then have "n \<noteq> r" using Node_tree.prems(4) by (auto dest: prefix_length_le)
    then obtain u where u: "u \<in> set ts" "n \<in> set (flatten u)" using Node_tree.prems(3) by auto
    have "tn_path (nt_node t) = tn_path (nt_node u)" by (rule placed_apart [OF Node_tree.prems(1) t(1) u(1) t(2) u(2) Node_tree.prems(4)])
    then have "t = u" using Node_tree.prems(1) t(1) u(1) by (auto simp: distinct_map inj_on_def)
    then show ?thesis using Node_tree t u by simp
  qed
qed

lemma concat_split:
  "concat xss = pre @ n # post \<Longrightarrow> \<exists>as xs bs p q. xss = as @ xs # bs \<and> xs = p @ n # q \<and> pre = concat as @ p"
proof (induction xss arbitrary: pre)
  case (Cons xs xss)
  consider (here) q where "xs = pre @ n # q" | (later) p where "pre = xs @ p" "concat xss = p @ n # post"
    using Cons.prems by (auto simp: append_eq_append_conv2 append_eq_Cons_conv)
  then show ?case
  proof cases
    case here
    then show ?thesis by (intro exI [of _ "[]"] exI [of _ xs] exI [of _ xss] exI [of _ pre] exI [of _ q]) simp
  next
    case later
    then obtain as ys bs p' q where "xss = as @ ys # bs" "ys = p' @ n # q" "p = concat as @ p'" using Cons.IH by blast
    then show ?thesis using later(1) by (intro exI [of _ "xs # as"] exI [of _ ys] exI [of _ bs] exI [of _ p'] exI [of _ q]) auto
  qed
qed simp

text \<open>Every node but the first has its parent among the nodes before it.\<close>

lemma placed_parent:
  "placed ident t \<Longrightarrow> flatten t = pre @ n # post \<Longrightarrow> pre \<noteq> [] \<Longrightarrow>
     \<exists>m \<in> set pre. tn_parent n = Some (tn_id m) \<and> node_contains m n \<and> (\<exists>segment. tn_path n = tn_path m @ [segment])"
proof (induction t arbitrary: pre post)
  case (Node_tree r ts)
  then obtain pre' where pre: "pre = r # pre'" "concat (map flatten ts) = pre' @ n # post" by (cases pre) auto
  obtain as xs bs p q where split: "map flatten ts = as @ xs # bs" "xs = p @ n # q" "pre' = concat as @ p"
    using concat_split [OF pre(2)] by blast
  then have "xs \<in> set (map flatten ts)" by simp
  then obtain t where t: "t \<in> set ts" "flatten t = p @ n # q" using split(2) by auto
  show ?case
  proof (cases "p = []")
    case True
    then have "n = nt_node t" using t(2) flatten_Cons [of t] by simp
    then have "n \<in> set (flatten (Node_tree r ts))" using t(1) root_in_flatten [of t] by (auto simp del: root_in_flatten)
    then have "node_contains r n" using placed_below [OF Node_tree.prems(1)] by simp
    moreover have "r \<in> set pre" using pre(1) by simp
    ultimately show ?thesis using placed_sub(1,2) [OF Node_tree.prems(1) t(1)] \<open>n = nt_node t\<close> by blast
  next
    case False
    then have "\<exists>m \<in> set p. tn_parent n = Some (tn_id m) \<and> node_contains m n \<and> (\<exists>segment. tn_path n = tn_path m @ [segment])"
      by (rule Node_tree.IH [OF t(1) placed_sub(4) [OF Node_tree.prems(1) t(1)] t(2)])
    moreover have "set p \<subseteq> set pre" using pre(1) split(3) by auto
    ultimately show ?thesis by blast
  qed
qed

section \<open>Validation of the nodes\<close>

lemma chain_before: "chain a b xs \<Longrightarrow> sorted_wrt (\<lambda>x y. snd x \<le> fst y) xs"
  by (induction a b xs rule: chain.induct) (auto dest: chain_in)

lemma fold_nodes:
  "distinct (map tn_id xs) \<Longrightarrow> fold (\<lambda>n seen. seen(tn_id n \<mapsto> n)) xs Map.empty k = Some m \<longleftrightarrow> m \<in> set xs \<and> tn_id m = k"
proof (induction xs rule: rev_induct)
  case (snoc x xs)
  then show ?case by (cases "k = tn_id x") (auto simp: image_iff)
qed simp

lemma check_nodes_ok:
  "distinct (map tn_id (base @ ns)) \<Longrightarrow>
   (\<And>pre n post. ns = pre @ n # post \<Longrightarrow>
      \<exists>m \<in> set (base @ pre). tn_parent n = Some (tn_id m) \<and> node_contains m n \<and> (\<exists>segment. tn_path n = tn_path m @ [segment])) \<Longrightarrow>
   check_nodes (fold (\<lambda>n seen. seen(tn_id n \<mapsto> n)) base Map.empty) ns = Inr ()"
proof (induction ns arbitrary: base)
  case (Cons n ns)
  let ?seen = "fold (\<lambda>n seen. seen(tn_id n \<mapsto> n)) base Map.empty"
  have base: "distinct (map tn_id base)" using Cons.prems(1) by auto
  have "?seen (tn_id n) = None"
  proof (rule ccontr)
    assume "?seen (tn_id n) \<noteq> None"
    then obtain m where "?seen (tn_id n) = Some m" by blast
    then have "m \<in> set base" "tn_id m = tn_id n" using fold_nodes [OF base] by blast+
    then show False using Cons.prems(1) by (auto simp: image_iff)
  qed
  moreover obtain m segment where m: "m \<in> set base" "tn_parent n = Some (tn_id m)" "node_contains m n" "tn_path n = tn_path m @ [segment]"
    using Cons.prems(2) [of "[]" n ns] by auto
  moreover have "?seen (tn_id m) = Some m" using fold_nodes [OF base] m(1) by blast
  moreover have "check_nodes (fold (\<lambda>n seen. seen(tn_id n \<mapsto> n)) (base @ [n]) Map.empty) ns = Inr ()"
  proof (rule Cons.IH)
    show "distinct (map tn_id ((base @ [n]) @ ns))" using Cons.prems(1) by simp
    show "\<exists>m \<in> set ((base @ [n]) @ pre). tn_parent x = Some (tn_id m) \<and> node_contains m x \<and> (\<exists>segment. tn_path x = tn_path m @ [segment])"
      if "ns = pre @ x # post" for pre x post
      using Cons.prems(2) [of "n # pre" x post] that by simp
  qed
  ultimately show ?case by (simp del: fun_upd_apply)
qed simp

lemma check_siblings_ok:
  "sorted_wrt (\<lambda>x y. snd (tn_span x) \<le> fst (tn_span y) \<and> tn_path x \<noteq> tn_path y) ns \<Longrightarrow>
   \<forall>x \<in> set ns. previous_end \<le> int (fst (tn_span x)) \<and> previous_path \<noteq> Some (tn_path x) \<Longrightarrow>
   check_siblings previous_end previous_path ns = Inr ()"
  by (induction previous_end previous_path ns rule: check_siblings.induct) auto

lemma placed_parent_in:
  assumes "placed ident t" and "x \<in> set (flatten t)" and "x \<noteq> nt_node t"
  shows "\<exists>m \<in> set (flatten t). tn_parent x = Some (tn_id m)"
proof -
  obtain pre post where split: "flatten t = pre @ x # post" using split_list [OF assms(2)] by blast
  then have "pre \<noteq> []" using assms(3) flatten_Cons [of t] by (cases pre) auto
  then show ?thesis using placed_parent [OF assms(1) split] unfolding split by auto
qed

abbreviation in_order :: "tree_node \<Rightarrow> tree_node \<Rightarrow> bool" where
  "in_order x y \<equiv> tn_parent x = tn_parent y \<longrightarrow> snd (tn_span x) \<le> fst (tn_span y) \<and> tn_path x \<noteq> tn_path y"

lemma placed_in_order:
  "placed ident t \<Longrightarrow> distinct (map tn_id (flatten t)) \<Longrightarrow> \<forall>m \<in> set (flatten t). tn_parent (nt_node t) \<noteq> Some (tn_id m) \<Longrightarrow>
     sorted_wrt in_order (flatten t)"
proof (induction t)
  case (Node_tree r ts)
  have children: "sorted_wrt in_order (concat (map flatten us))"
    if "set us \<subseteq> set ts" "sorted_wrt (\<lambda>t u. snd (tn_span (nt_node t)) \<le> fst (tn_span (nt_node u))) us"
      "distinct (map (\<lambda>t. tn_path (nt_node t)) us)" "distinct (map tn_id (r # concat (map flatten us)))" for us
    using that
  proof (induction us)
    case (Cons u us)
    have sub: "tn_parent (nt_node t) = Some (tn_id r)" "placed ident t" if "t \<in> set (u # us)" for t
      using placed_sub(1,4) [OF Node_tree.prems(1)] Cons.prems(1) that by auto
    have fresh: "tn_id m \<noteq> tn_id r" if "m \<in> set (flatten t)" "t \<in> set (u # us)" for m t
      using Cons.prems(4) that by (force simp: image_iff)
    have apart: "tn_id m \<noteq> tn_id n" if "m \<in> set (flatten u)" "n \<in> set (flatten v)" "v \<in> set us" for m n v
      using Cons.prems(4) that by (force simp: image_iff)
    have "in_order x y" if x: "x \<in> set (flatten u)" and y: "y \<in> set (flatten v)" and v: "v \<in> set us" for x y v
    proof
      assume same: "tn_parent x = tn_parent y"
      have "x = nt_node u \<and> y = nt_node v"
        using placed_parent_in [OF sub(2) x] placed_parent_in [OF sub(2) y] sub(1) v same fresh [of _ u] fresh [of _ v] apart [OF _ _ v]
        by (metis list.set_intros option.inject)
      then show "snd (tn_span x) \<le> fst (tn_span y) \<and> tn_path x \<noteq> tn_path y" using Cons.prems(2,3) v by auto
    qed
    moreover have "sorted_wrt in_order (flatten u)"
    proof (rule Node_tree.IH)
      show "u \<in> set ts" using Cons.prems(1) by simp
      show "distinct (map tn_id (flatten u))" using Cons.prems(4) by simp
      show "\<forall>m \<in> set (flatten u). tn_parent (nt_node u) \<noteq> Some (tn_id m)" using sub(1) fresh by fastforce
    qed (use sub in simp)
    moreover have "sorted_wrt in_order (concat (map flatten us))" using Cons by auto
    ultimately show ?case unfolding list.map concat.simps sorted_wrt_append by auto
  qed simp
  have "sorted_wrt in_order (concat (map flatten ts))"
  proof (rule children)
    show "sorted_wrt (\<lambda>t u. snd (tn_span (nt_node t)) \<le> fst (tn_span (nt_node u))) ts"
      using chain_before [of _ _ "map (\<lambda>t. tn_span (nt_node t)) ts"] Node_tree.prems(1) by (auto simp: sorted_wrt_map)
  qed (use Node_tree.prems(1,2) in auto)
  moreover have "tn_parent r \<noteq> tn_parent x" if "x \<in> set (concat (map flatten ts))" for x
  proof -
    have "x \<noteq> r" using Node_tree.prems(2) that by (auto simp: image_iff)
    then have "\<exists>m \<in> set (flatten (Node_tree r ts)). tn_parent x = Some (tn_id m)" using placed_parent_in [OF Node_tree.prems(1), of x] that by simp
    then show ?thesis using Node_tree.prems(3) by auto
  qed
  ultimately show ?case by simp
qed

lemma placed_ids:
  assumes "placed ident t" and "inj_on ident (tn_path ` set (flatten t))"
  shows "distinct (map tn_id (flatten t))"
proof -
  have "map tn_id (flatten t) = map ident (map tn_path (flatten t))" using placed_below [OF assms(1)] by simp
  then show ?thesis using placed_distinct [OF assms(1)] assms(2) by (simp only: distinct_map [of ident] set_map)
qed

text \<open>Placed nodes whose identities do not collide pass the checks of a tree.\<close>

lemma placed_valid:
  assumes "placed ident t" and "tn_parent (nt_node t) = None" and "inj_on ident (tn_path ` set (flatten t))"
  shows "validate_structure (flatten t) = Inr ()"
proof -
  let ?rest = "concat (map flatten (nt_subs t))"
  have eq: "flatten t = nt_node t # ?rest" by (rule flatten_Cons)
  have ids: "distinct (map tn_id (flatten t))" by (rule placed_ids [OF assms(1,3)])
  have "check_nodes (fold (\<lambda>n seen. seen(tn_id n \<mapsto> n)) [nt_node t] Map.empty) ?rest = Inr ()"
  proof (rule check_nodes_ok)
    show "distinct (map tn_id ([nt_node t] @ ?rest))" using ids eq by simp
    show "\<exists>m \<in> set ([nt_node t] @ pre). tn_parent n = Some (tn_id m) \<and> node_contains m n \<and> (\<exists>segment. tn_path n = tn_path m @ [segment])"
      if "?rest = pre @ n # post" for pre n post
      using placed_parent [OF assms(1), of "nt_node t # pre" n post] eq that by simp
  qed
  moreover have "validate_sibling_order (flatten t) = Inr ()"
  proof -
    have order: "sorted_wrt in_order (flatten t)" by (rule placed_in_order [OF assms(1) ids]) (simp add: assms(2))
    have "check_siblings (- 1) None (filter (\<lambda>n. tn_parent n = parent) (flatten t)) = Inr ()" for parent
    proof (rule check_siblings_ok)
      show "sorted_wrt (\<lambda>x y. snd (tn_span x) \<le> fst (tn_span y) \<and> tn_path x \<noteq> tn_path y) (filter (\<lambda>n. tn_parent n = parent) (flatten t))"
        by (rule sorted_wrt_mono_rel [OF _ sorted_wrt_filter [OF order]]) simp
    qed simp
    then show ?thesis by (simp add: validate_sibling_order_def res_simps)
  qed
  ultimately show ?thesis using assms(2) eq by (simp add: validate_structure_def)
qed

end
