(* ===== verification/Document_Build.thy ===== *)
theory Document_Build
  imports Document_Outline Document_Nodes
begin

text \<open>
  What the builder emits: the nodes of the paths of the document, placed under their parents; the tree it returns and the JSON form that
  determines it.
\<close>

section \<open>Building\<close>

text \<open>The paths of the nodes a section and what it contains get.\<close>

function outline_paths :: "tree_source \<Rightarrow> string list \<Rightarrow> outline \<Rightarrow> string list list" where
  "outline_paths src path ol =
     path # concat (map (\<lambda>(segment, child).
         (case child of Child_section c \<Rightarrow> outline_paths src (path @ [segment]) c | Child_region r \<Rightarrow> [path @ [segment]]))
       (zip (unique_segments (outline_children src ol)) (outline_children src ol)))"
  by pat_completeness auto
termination by (relation "measure (\<lambda>(src, path, ol). size ol)") (auto dest: outline_children_smaller)

declare outline_paths.simps [simp del]

definition node_ident :: "tree_source \<Rightarrow> string list \<Rightarrow> string" where
  "node_ident src path = ''node:sha256:'' @ sha256_hex
     (node_payload (ts_substrate src) tree_format_version (dp_name (ts_profile src)) (dp_version (ts_profile src)) path)"

definition tree_source_ok :: "nat \<Rightarrow> tree_source \<Rightarrow> bool" where
  "tree_source_ok n src =
     (tiles 0 n (ts_lines src) \<and> ts_starts src = map ln_start (ts_lines src) \<and> ts_spans src = code_spans (ts_lines src) (ts_profile src) \<and>
      is_text (dp_name (ts_profile src)) \<and> is_text (dp_version (ts_profile src)) \<and> list_all is_text (dp_uncertainty (ts_profile src)))"

lemma node_ident_text: "is_text (node_ident src path)"
  unfolding node_ident_def by (rule is_text_append) (simp_all add: is_space_def py_whitespace_def sha256_hex_shape)

lemma map_require_text: "list_all is_text path \<Longrightarrow> map_res require_text path = Inr (map (\<lambda>_. ()) path)"
  by (intro map_res_all_Inr) (simp add: list_all_iff)

lemma source_node_id_ok:
  assumes "tree_source_ok n src" and "list_all is_text path"
  shows "source_node_id src path = Inr (node_ident src path)"
proof -
  have "is_text tree_format_version" by (simp add: tree_format_version_def text_eval)
  then show ?thesis using assms node_ident_text [of src path]
    by (simp add: source_node_id_def node_id_for_def tree_source_ok_def map_require_text node_ident_def)
qed

lemma markers_text: "tree_source_ok n src \<Longrightarrow> f \<in> markers_in s e ls starts (ts_profile src) \<Longrightarrow> is_text f"
  by (auto simp: markers_in_def tree_source_ok_def list_all_iff Let_def split: if_splits)

text \<open>What emitting a part of the document under a path gives: placed nodes for the span of the part.\<close>

definition emitted :: "tree_source \<Rightarrow> string option \<Rightarrow> string list \<Rightarrow> nat \<times> nat \<Rightarrow> string list list \<Rightarrow> (string set \<times> tree_node list) result \<Rightarrow> node_tree \<Rightarrow> bool" where
  "emitted src parent path span paths r t =
     (r = Inr (tn_flags (nt_node t), flatten t) \<and> placed (node_ident src) t \<and> tn_path (nt_node t) = path \<and> tn_span (nt_node t) = span \<and>
      tn_parent (nt_node t) = parent \<and> map tn_path (flatten t) = paths \<and> (\<forall>f \<in> tn_flags (nt_node t). is_text f))"

lemma emittedD:
  assumes "emitted src parent path span paths r t"
  shows "placed (node_ident src) t" "tn_path (nt_node t) = path" "tn_span (nt_node t) = span" "tn_parent (nt_node t) = parent"
    "map tn_path (flatten t) = paths" "\<forall>f \<in> tn_flags (nt_node t). is_text f" "r = Inr (tn_flags (nt_node t), flatten t)"
  using assms by (simp_all add: emitted_def)

lemma other_ident:
  assumes "inj_on (node_ident src) (insert (butlast path) A)" and "path \<in> A" and "path \<noteq> []"
  shows "node_ident src (butlast path) \<noteq> node_ident src path"
proof
  assume "node_ident src (butlast path) = node_ident src path"
  then have "butlast path = path" using assms(1,2) by (auto dest: inj_onD)
  moreover have "length (butlast path) < length path" using assms(3) by simp
  ultimately show False by simp
qed

lemma emit_region_ok:
  assumes "tree_source_ok n src" and "list_all is_text (path @ [segment])" and "rg_start r < rg_end r" and "rg_flags r \<subseteq> {malformed_flag}"
    and "inj_on (node_ident src) {path, path @ [segment]}"
  shows "\<exists>t. emitted src (Some (node_ident src path)) (path @ [segment]) (rg_start r, rg_end r) [path @ [segment]]
    (emit_region src (node_ident src path) (path @ [segment]) r) t"
proof -
  define flags where "flags = rg_flags r \<union> markers_in (rg_start r) (rg_end r) (ts_lines src) (ts_starts src) (ts_profile src)"
  define node where "node = \<lparr>tn_id = node_ident src (path @ [segment]), tn_parent = Some (node_ident src path), tn_path = path @ [segment],
    tn_heading = [], tn_kind = rg_kind r, tn_span = (rg_start r, rg_end r), tn_flags = flags\<rparr>"
  have "is_text malformed_flag" by (simp add: malformed_flag_def text_eval)
  then have flags: "\<forall>f \<in> flags. is_text f" using assms(4) markers_text [OF assms(1)] unfolding flags_def by blast
  have "node_ident src path \<noteq> node_ident src (path @ [segment])" using other_ident [of src "path @ [segment]" "{path @ [segment]}"] assms(5) by simp
  then have "mk_node node = Inr node" using assms(2,3) flags by (simp add: mk_node_def node_def)
  then have "emit_region src (node_ident src path) (path @ [segment]) r = Inr (flags, [node])"
    using source_node_id_ok [OF assms(1,2)] by (simp add: emit_region_def flags_def node_def Let_def)
  then show ?thesis using flags assms(3) by (intro exI [of _ "Node_tree node []"]) (simp add: emitted_def node_def)
qed

lemma emit_ok:
  assumes "tree_source_ok n src"
  shows "wf_outline n (ts_lines src) ol \<Longrightarrow> list_all is_text path \<Longrightarrow> parent = (if path = [] then None else Some (node_ident src (butlast path))) \<Longrightarrow>
    inj_on (node_ident src) (insert (butlast path) (set (outline_paths src path ol))) \<Longrightarrow>
    \<exists>t. emitted src parent path (outline_span ol) (outline_paths src path ol) (emit src parent path ol) t"
proof (induction "size ol" arbitrary: ol path parent rule: less_induct)
  case less
  note wf = less.prems(1) and texts = less.prems(2) and parent = less.prems(3) and inj = less.prems(4)
  let ?ls = "ts_lines src" and ?nid = "node_ident src path"
  define cs where "cs = outline_children src ol"
  define zs where "zs = zip (unique_segments cs) cs"
  let ?step = "\<lambda>(segment, child). (case child of
    Child_section c \<Rightarrow> emit src (Some ?nid) (path @ [segment]) c | Child_region r \<Rightarrow> emit_region src ?nid (path @ [segment]) r)"
  let ?paths = "\<lambda>(segment, child). (case child of
    Child_section c \<Rightarrow> outline_paths src (path @ [segment]) c | Child_region r \<Rightarrow> [path @ [segment]])"
  have src: "tiles 0 n ?ls" "ts_starts src = map ln_start ?ls" "ts_spans src = code_spans ?ls (ts_profile src)"
    using assms by (simp_all add: tree_source_ok_def)
  note children = outline_children_chain [OF src(1) wf refl src(2,3), folded cs_def]
  have paths: "outline_paths src path ol = path # concat (map ?paths zs)" by (subst outline_paths.simps) (simp add: zs_def cs_def)
  have ex: "\<exists>t. emitted src (Some ?nid) (path @ [fst z]) (child_span (snd z)) (?paths z) (?step z) t" if "z \<in> set zs" for z
  proof -
    obtain segment child where z: "z = (segment, child)" by (cases z)
    have child: "child \<in> set cs" "segment \<in> set (unique_segments cs)" using that z by (auto simp: zs_def dest: set_zip_leftD set_zip_rightD)
    have seg_text: "list_all is_text (path @ [segment])" using texts unique_segments_text [OF children(2)] child(2) by (simp add: list_all_iff)
    have part: "insert path (set (?paths z)) \<subseteq> insert (butlast path) (set (outline_paths src path ol))"
      unfolding paths using that by auto
    show ?thesis
    proof (cases child)
      case (Child_region r)
      then show ?thesis using emit_region_ok [OF assms seg_text] children(3) [OF child(1)] inj_on_subset [OF inj part] z by auto
    next
      case (Child_section c)
      have "size c < size ol" using outline_children_smaller [of segment c "unique_segments cs" src ol] that z Child_section by (simp add: zs_def cs_def)
      then show ?thesis
        using less.hyps [of c "path @ [segment]" "Some ?nid"] seg_text children(3) [OF child(1)] inj_on_subset [OF inj part] z Child_section by auto
    qed
  qed
  define T where "T = (\<lambda>z. SOME t. emitted src (Some ?nid) (path @ [fst z]) (child_span (snd z)) (?paths z) (?step z) t)"
  have T: "emitted src (Some ?nid) (path @ [fst z]) (child_span (snd z)) (?paths z) (?step z) (T z)" if "z \<in> set zs" for z
    unfolding T_def by (rule someI_ex) (rule ex [OF that])
  note T' = emittedD [OF T]
  have results: "map_res ?step zs = Inr (map (\<lambda>z. (tn_flags (nt_node (T z)), flatten (T z))) zs)"
  proof (rule map_res_all_Inr)
    show "?step z = Inr (tn_flags (nt_node (T z)), flatten (T z))" if "z \<in> set zs" for z
      by (rule T'(7) [OF that])
  qed
  define flags where "flags = markers_in (ol_start ol) (own_end ol) ?ls (ts_starts src) (ts_profile src) \<union> \<Union> ((\<lambda>z. tn_flags (nt_node (T z))) ` set zs)"
  define node where "node = (\<lambda>flags. \<lparr>tn_id = ?nid, tn_parent = parent, tn_path = path, tn_heading = ol_title ol, tn_kind = BODY,
    tn_span = (ol_start ol, ol_end ol), tn_flags = flags\<rparr>)"
  define t where "t = Node_tree (node flags) (map T zs)"
  have flags: "\<forall>f \<in> flags. is_text f" using T'(6) markers_text [OF assms] by (auto simp: flags_def)
  have "parent \<noteq> Some ?nid" using other_ident [OF inj] parent paths by auto
  moreover have "ol_start ol < ol_end ol" using wf by (cases ol) simp
  ultimately have mk: "mk_node (node F) = Inr (node F)" if "\<forall>f \<in> F. is_text f" for F
    using that texts parent by (simp add: mk_node_def node_def split: if_splits)
  have "emit src parent path ol = Inr (flags, flatten t)"
    using mk [of "{}"] mk [OF flags] results
    by (subst emit.simps) (simp add: source_node_id_ok [OF assms texts] Let_def t_def flags_def node_def comp_def image_image flip: cs_def zs_def)
  moreover have "placed (node_ident src) t"
  proof -
    have "map (\<lambda>x. tn_span (nt_node x)) (map T zs) = map child_span (map snd zs)" using T'(3) by simp
    moreover have "map snd zs = cs" by (simp add: zs_def)
    moreover have "map (\<lambda>x. tn_path (nt_node x)) (map T zs) = map (\<lambda>s. path @ [s]) (map fst zs)" using T'(2) by simp
    moreover have "map fst zs = unique_segments cs" by (simp add: zs_def)
    moreover have "distinct (map (\<lambda>s. path @ [s]) (unique_segments cs))" using unique_segments_distinct by (auto simp: distinct_map inj_on_def)
    moreover have "tn_flags (nt_node (T z)) \<subseteq> flags" if "z \<in> set zs" for z using that by (auto simp: flags_def)
    ultimately show ?thesis using T'(1,2,4) children(1) by (simp add: t_def node_def)
  qed
  moreover have "map tn_path (flatten t) = outline_paths src path ol"
    unfolding paths t_def using T'(5) by (simp add: node_def map_concat comp_def cong: map_cong)
  ultimately show ?case using flags by (intro exI [of _ t]) (simp add: emitted_def t_def node_def)
qed

lemma outline_paths_text:
  assumes "tree_source_ok n src"
  shows "wf_outline n (ts_lines src) ol \<Longrightarrow> list_all is_text path \<Longrightarrow> x \<in> set (outline_paths src path ol) \<Longrightarrow> list_all is_text x"
proof (induction "size ol" arbitrary: ol path rule: less_induct)
  case less
  let ?cs = "outline_children src ol"
  have src: "tiles 0 n (ts_lines src)" "ts_starts src = map ln_start (ts_lines src)" "ts_spans src = code_spans (ts_lines src) (ts_profile src)"
    using assms by (simp_all add: tree_source_ok_def)
  note children = outline_children_chain [OF src(1) less.prems(1) refl src(2,3)]
  have segments: "is_text s" if "s \<in> set (unique_segments ?cs)" for s
    using unique_segments_text [OF children(2)] that by (simp add: list_all_iff)
  consider (here) "x = path" | (below) segment child where "(segment, child) \<in> set (zip (unique_segments ?cs) ?cs)"
      "x \<in> set (case child of Child_section c \<Rightarrow> outline_paths src (path @ [segment]) c | Child_region r \<Rightarrow> [path @ [segment]])"
    using less.prems(3) unfolding outline_paths.simps [of src path ol] by auto
  then show ?case
  proof cases
    case below
    have seg: "list_all is_text (path @ [segment])" using less.prems(2) segments set_zip_leftD [OF below(1)] by simp
    show ?thesis
    proof (cases child)
      case (Child_section c)
      have "wf_outline n (ts_lines src) c" using children(3) [OF set_zip_rightD [OF below(1)]] Child_section by simp
      moreover have "size c < size ol" using outline_children_smaller [of segment c] below(1) Child_section by simp
      ultimately show ?thesis using less.hyps [of c "path @ [segment]"] seg below(2) Child_section by simp
    qed (use seg below(2) in simp)
  qed (use less.prems(2) in simp)
qed

section \<open>The tree of a document\<close>

definition document_source :: "string \<Rightarrow> dialect_profile \<Rightarrow> string \<Rightarrow> tree_source" where
  "document_source doc p substrate =
     (let ls = scan_lines doc in
      \<lparr>ts_lines = ls, ts_starts = map ln_start ls, ts_spans = code_spans ls p, ts_profile = p, ts_substrate = substrate\<rparr>)"

definition tree_paths :: "string \<Rightarrow> dialect_profile \<Rightarrow> string \<Rightarrow> string list list" where
  "tree_paths doc p substrate = outline_paths (document_source doc p substrate) [] (document_outline doc p)"

lemma marker_tuple_text: "marker_tuple ms = Inr ns \<Longrightarrow> list_all is_text ms"
proof -
  assume "marker_tuple ms = Inr ns"
  then obtain entries where "map_res (\<lambda>m. res_bind (require_text m) (\<lambda>_. Inr m)) ms = Inr entries" by (auto simp: marker_tuple_def res_simps)
  then have "list_all2 (\<lambda>m e. is_text m \<and> m = e) ms entries" by (simp add: map_res_Inr_iff res_simps)
  then show ?thesis by (induction ms entries rule: list_all2_induct) auto
qed

lemma document_tree_source_ok:
  assumes "mk_profile p = Inr p"
  shows "tree_source_ok (length doc) (document_source doc p substrate)"
proof -
  have "is_text (dp_name p)" "is_text (dp_version p)" "list_all is_text (dp_uncertainty p)"
    using assms marker_tuple_text by (auto simp: mk_profile_def res_simps split: if_splits)
  then show ?thesis using scan_lines_tiles [of doc] by (simp add: tree_source_ok_def document_source_def Let_def)
qed

lemma build_document_tree_eq:
  "doc \<noteq> [] \<Longrightarrow> build_document_tree doc p substrate =
     res_bind (emit (document_source doc p substrate) None [] (document_outline doc p)) (\<lambda>(_, nodes).
       mk_tree \<lparr>dt_substrate = substrate, dt_version = tree_format_version, dt_profile_name = dp_name p,
         dt_profile_version = dp_version p, dt_nodes = nodes\<rparr>)"
  by (simp add: build_document_tree_def document_source_def document_outline_def Let_def)

lemma tree_paths_text:
  assumes "mk_profile p = Inr p" and "doc \<noteq> []" and "x \<in> set (tree_paths doc p substrate)"
  shows "list_all is_text x"
  using outline_paths_text [OF document_tree_source_ok [OF assms(1)], of doc substrate "document_outline doc p" "[]" x] document_outline_wf [OF assms(2)] assms(3)
  by (simp add: tree_paths_def document_source_def Let_def)

text \<open>The identity of the substrate does not change the paths.\<close>

lemma outline_paths_substrate: "outline_paths (src\<lparr>ts_substrate := s\<rparr>) path ol = outline_paths src path ol"
proof (induction "size ol" arbitrary: ol path rule: less_induct)
  case less
  have same: "outline_children (src\<lparr>ts_substrate := s\<rparr>) ol = outline_children src ol" by (simp add: outline_children_def)
  show ?case
    unfolding outline_paths.simps [of _ path ol] same
    by (rule arg_cong [where f = "\<lambda>x. path # concat x"], rule map_cong [OF refl])
      (auto split: tree_child.splits intro!: less.hyps outline_children_smaller)
qed

lemma tree_paths_substrate: "tree_paths doc p s = tree_paths doc p s'"
proof -
  have "document_source doc p s = (document_source doc p s')\<lparr>ts_substrate := s\<rparr>" by (simp add: document_source_def Let_def)
  then show ?thesis by (simp add: tree_paths_def outline_paths_substrate)
qed

text \<open>When the paths of the tree have different identities the tree is built, and it consists of placed nodes.\<close>

lemma build_placed:
  assumes "mk_profile p = Inr p" and "doc \<noteq> []"
    and "inj_on (node_ident (document_source doc p substrate)) (set (tree_paths doc p substrate))"
  obtains t nt where "build_document_tree doc p substrate = Inr t" "dt_nodes t = flatten nt"
    "placed (node_ident (document_source doc p substrate)) nt" "tn_span (nt_node nt) = (0, length doc)" "tn_parent (nt_node nt) = None"
    "map tn_path (flatten nt) = tree_paths doc p substrate"
proof -
  let ?src = "document_source doc p substrate" and ?ol = "document_outline doc p"
  have ok: "tree_source_ok (length doc) ?src" by (rule document_tree_source_ok [OF assms(1)])
  have wf: "wf_outline (length doc) (ts_lines ?src) ?ol" using document_outline_wf [OF assms(2)] by (simp add: document_source_def Let_def)
  have "[] \<in> set (tree_paths doc p substrate)" unfolding tree_paths_def by (subst outline_paths.simps) simp
  then have "inj_on (node_ident ?src) (insert (butlast []) (set (outline_paths ?src [] ?ol)))"
    using assms(3) by (simp add: tree_paths_def insert_absorb)
  then obtain nt where nt: "emitted ?src None [] (outline_span ?ol) (tree_paths doc p substrate) (emit ?src None [] ?ol) nt"
    using emit_ok [OF ok wf, of "[]" None] by (auto simp: tree_paths_def)
  note e = emittedD [OF nt]
  have "map tn_path (flatten nt) = tree_paths doc p substrate" by (rule e(5))
  then have paths: "tn_path ` set (flatten nt) = set (tree_paths doc p substrate)" by (metis set_map)
  have valid: "validate_structure (flatten nt) = Inr ()" by (rule placed_valid [OF e(1,4)]) (use assms(3) paths in simp)
  have texts: "is_text (dp_name p)" "is_text (dp_version p)" "is_text tree_format_version"
    using ok by (simp_all add: tree_source_ok_def document_source_def Let_def tree_format_version_def text_eval)
  let ?t = "\<lparr>dt_substrate = substrate, dt_version = tree_format_version, dt_profile_name = dp_name p, dt_profile_version = dp_version p,
    dt_nodes = flatten nt\<rparr>"
  have "mk_tree ?t = Inr ?t" using texts valid by (simp add: mk_tree_def)
  then have "build_document_tree doc p substrate = Inr ?t" using e(7) by (simp add: build_document_tree_eq [OF assms(2)])
  moreover have "outline_span ?ol = (0, length doc)"
    by (simp add: document_outline_def Let_def nest_forest headings_levels)
  ultimately show thesis using that [of ?t nt] e by simp
qed

text \<open>The flags of built nodes are finite sets.\<close>

lemma region_scan_flags: "r \<in> set (region_scan p spans opened ls) \<Longrightarrow> rg_flags r = {}"
  by (induction p spans opened ls rule: region_scan.induct)
    (auto simp: close_region_def plain_region_def Let_def split: if_splits option.splits)

lemma mk_node_Inr: "mk_node n = Inr m \<Longrightarrow> m = n"
  by (simp add: mk_node_def split: if_splits)

lemma emit_finite:
  assumes "\<forall>r \<in> set (ts_spans src). finite (rg_flags r)"
  shows "emit src parent path ol = Inr (flags, nodes) \<Longrightarrow> finite flags \<and> (\<forall>n \<in> set nodes. finite (tn_flags n))"
proof (induction "size ol" arbitrary: ol path parent flags nodes rule: less_induct)
  case less
  define cs where "cs = outline_children src ol"
  define zs where "zs = zip (unique_segments cs) cs"
  let ?own = "markers_in (ol_start ol) (own_end ol) (ts_lines src) (ts_starts src) (ts_profile src)"
  let ?step = "\<lambda>nid (segment, child). (case child of
    Child_section c \<Rightarrow> emit src (Some nid) (path @ [segment]) c | Child_region r \<Rightarrow> emit_region src nid (path @ [segment]) r)"
  have own: "finite (markers_in s e ls starts p)" for s e ls starts p by (auto simp: markers_in_def Let_def)
  obtain nid results node where r: "map_res (?step nid) zs = Inr results" "flags = ?own \<union> \<Union> (set (map fst results))"
    "nodes = node # concat (map snd results)" "tn_flags node = flags"
    using less.prems [unfolded emit.simps [of src parent path ol] Let_def, folded cs_def, folded zs_def]
    by (auto simp: res_simps dest!: mk_node_Inr)
  have "finite (fst x) \<and> (\<forall>n \<in> set (snd x). finite (tn_flags n))" if x: "x \<in> set results" for x
  proof -
    have all: "list_all2 (\<lambda>z y. ?step nid z = Inr y) zs results" using r(1) by (simp only: map_res_Inr_iff)
    obtain i where i: "i < length results" "results ! i = x" using x by (auto simp: in_set_conv_nth)
    have step: "?step nid (zs ! i) = Inr x" using list_all2_nthD2 [OF all i(1)] i(2) by simp
    obtain segment child where zi: "zs ! i = (segment, child)" by (cases "zs ! i")
    have "i < length zs" using list_all2_lengthD [OF all] i(1) by simp
    then have z: "(segment, child) \<in> set zs" "?step nid (segment, child) = Inr x" using step zi nth_mem [of i zs] by simp_all
    show ?thesis
    proof (cases child)
      case (Child_region r)
      have "child \<in> set cs" using z(1) by (auto simp: zs_def dest: set_zip_rightD)
      then have "finite (rg_flags r)" using assms region_scan_flags Child_region
        by (fastforce simp: cs_def outline_children_def regions_def split: if_splits)
      then show ?thesis using z(2) Child_region own by (auto simp: emit_region_def Let_def res_simps dest!: mk_node_Inr)
    next
      case (Child_section c)
      have "size c < size ol" using outline_children_smaller [of segment c "unique_segments cs" src ol] z(1) Child_section by (simp add: zs_def cs_def)
      then show ?thesis using less.hyps [of c "Some nid" "path @ [segment]" "fst x" "snd x"] z(2) Child_section by simp
    qed
  qed
  then show ?case using r(2-4) own by auto
qed

lemma build_finite:
  assumes "build_document_tree doc p substrate = Inr t" and "n \<in> set (dt_nodes t)"
  shows "finite (tn_flags n)"
proof -
  have doc: "doc \<noteq> []" using assms(1) by (auto simp: build_document_tree_def)
  let ?src = "document_source doc p substrate"
  obtain flags where e: "emit ?src None [] (document_outline doc p) = Inr (flags, dt_nodes t)"
    using assms(1) by (auto simp: build_document_tree_eq [OF doc] res_simps mk_tree_def)
  have "finite (rg_flags r)" if "r \<in> set (ts_spans ?src)" for r
    using code_spans_starts [of r "scan_lines doc" p] that by (auto simp: document_source_def Let_def intro: finite_subset)
  then show ?thesis using emit_finite [OF _ e] assms(2) by auto
qed

lemma build_substrate: "build_document_tree doc p substrate = Inr t \<Longrightarrow> dt_substrate t = substrate"
  by (auto simp: build_document_tree_def Let_def res_simps mk_tree_def split: if_splits)

text \<open>The JSON form of a tree determines the tree.\<close>

lemma region_kind_value_inj: "region_kind_value k = region_kind_value l \<longleftrightarrow> k = l"
  by (cases k; cases l) simp_all

lemma text_items_inj: "text_items xs = text_items ys \<longleftrightarrow> xs = ys"
  by (auto simp: text_items_def inj_map_eq_map inj_def)

lemma node_json_inj:
  assumes "node_json m = node_json n" and "finite (tn_flags m)" and "finite (tn_flags n)"
  shows "m = n"
proof -
  have "sorted_list_of_set (tn_flags m) = sorted_list_of_set (tn_flags n)" using assms(1) by (simp add: node_json_def text_items_inj)
  then have "tn_flags m = tn_flags n" using assms(2,3) by (metis set_sorted_list_of_set)
  then show ?thesis using assms(1)
    by (cases m; cases n) (auto simp: node_json_def text_items_inj region_kind_value_inj prod_eq_iff split: option.splits)
qed

lemma tree_json_inj:
  assumes "tree_json t = tree_json u" and "\<forall>n \<in> set (dt_nodes t) \<union> set (dt_nodes u). finite (tn_flags n)"
  shows "t = u"
proof -
  have "map node_json (dt_nodes t) = map node_json (dt_nodes u)" using assms(1) by (simp add: tree_json_def)
  then have "dt_nodes t = dt_nodes u" using assms(2) node_json_inj by (auto simp: list_eq_iff_nth_eq)
  then show ?thesis using assms(1) by (cases t; cases u) (simp add: tree_json_def)
qed

end
