(* ===== verification/Document_Properties.thy ===== *)
theory Document_Properties
  imports Document_Build
begin

text \<open>
  The properties of the document tree: it can be built, admission accepts exactly it, its sections are those of the reference and the
  segments of its paths are different.
\<close>

section \<open>Properties\<close>

definition plain_dialect :: dialect_profile where
  "plain_dialect = \<lparr>dp_name = ''plain'', dp_version = ''1'', dp_syntax = Heading_ATX, dp_depth = 6, dp_fenced = True, dp_tables = True,
     dp_items = True, dp_figures = [], dp_emphasis = [], dp_summary = [], dp_uncertainty = [], dp_definitions = []\<rparr>"

lemma plain_dialect_ok: "mk_profile plain_dialect = Inr plain_dialect"
  by (simp add: mk_profile_def plain_dialect_def marker_tuple_def text_eval)

lemma plain_paths: "tree_paths ''a'' plain_dialect ''s'' = [[]]"
  by code_simp

text \<open>C36. Building the tree of a document succeeds for every non-empty text and every valid profile, unless two different paths of this
  document get the same node id: the nodes are those of the paths of the document, their ids are all different, a node contains every node
  below its path and carries its flags, siblings follow each other without overlap, and the first node is the whole document.\<close>

theorem document_tree_builds:
  assumes "mk_profile p = Inr p" and "doc \<noteq> []"
  shows "(\<exists>path \<in> set (tree_paths doc p substrate). \<exists>path' \<in> set (tree_paths doc p substrate). path \<noteq> path' \<and>
      node_id_for substrate tree_format_version (dp_name p) (dp_version p) path =
      node_id_for substrate tree_format_version (dp_name p) (dp_version p) path') \<or>
    (\<exists>t. build_document_tree doc p substrate = Inr t \<and> map tn_path (dt_nodes t) = tree_paths doc p substrate \<and>
      distinct (map tn_id (dt_nodes t)) \<and> tn_span (hd (dt_nodes t)) = (0, length doc) \<and>
      (\<forall>m \<in> set (dt_nodes t). \<forall>n \<in> set (dt_nodes t). prefix (tn_path m) (tn_path n) \<longrightarrow> node_contains m n \<and> tn_flags n \<subseteq> tn_flags m) \<and>
      sorted_wrt (\<lambda>m n. tn_parent m = tn_parent n \<longrightarrow> snd (tn_span m) \<le> fst (tn_span n)) (dt_nodes t))"
proof (cases "inj_on (node_ident (document_source doc p substrate)) (set (tree_paths doc p substrate))")
  case True
  obtain t nt where t: "build_document_tree doc p substrate = Inr t" "dt_nodes t = flatten nt"
    "placed (node_ident (document_source doc p substrate)) nt" "tn_span (nt_node nt) = (0, length doc)" "tn_parent (nt_node nt) = None"
    "map tn_path (flatten nt) = tree_paths doc p substrate"
    by (rule build_placed [OF assms True])
  have ids: "distinct (map tn_id (flatten nt))" using placed_ids [OF t(3)] True t(6) by (metis set_map)
  have "sorted_wrt in_order (flatten nt)" by (rule placed_in_order [OF t(3) ids]) (simp add: t(5))
  then have "sorted_wrt (\<lambda>m n. tn_parent m = tn_parent n \<longrightarrow> snd (tn_span m) \<le> fst (tn_span n)) (flatten nt)"
    by (rule sorted_wrt_mono_rel [rotated]) blast
  moreover have "hd (flatten nt) = nt_node nt" by (simp add: flatten_Cons [of nt])
  ultimately show ?thesis using t ids placed_nested [OF t(3)] by auto
next
  case False
  then obtain path path' where two: "path \<in> set (tree_paths doc p substrate)" "path' \<in> set (tree_paths doc p substrate)" "path \<noteq> path'"
    "node_ident (document_source doc p substrate) path = node_ident (document_source doc p substrate) path'"
    by (auto simp: inj_on_def)
  have "list_all is_text x" if "x \<in> set (tree_paths doc p substrate)" for x
    by (rule tree_paths_text [OF assms that])
  then have "source_node_id (document_source doc p substrate) path = source_node_id (document_source doc p substrate) path'"
    using two source_node_id_ok [OF document_tree_source_ok [OF assms(1)]] by metis
  then show ?thesis using two unfolding source_node_id_def document_source_def Let_def by auto
qed

theorem document_tree_builds_witness:
  "\<exists>t. build_document_tree ''a'' plain_dialect ''s'' = Inr t \<and> map tn_path (dt_nodes t) = [[]] \<and> tn_span (hd (dt_nodes t)) = (0, 1)"
proof -
  have "\<exists>t. build_document_tree ''a'' plain_dialect ''s'' = Inr t \<and> map tn_path (dt_nodes t) = [[]] \<and> tn_span (hd (dt_nodes t)) = (0, length ''a'')"
    using document_tree_builds [OF plain_dialect_ok, of "''a''" "''s''"] unfolding plain_paths by auto
  then show ?thesis by simp
qed

text \<open>C37. Admission trusts exactly the tree the builder makes of the canonical text: nothing else is accepted, and the tree of the builder
  always is.\<close>

theorem admission_exact:
  assumes "\<forall>n \<in> set (dt_nodes t). finite (tn_flags n)"
  shows "admit_tree t doc p = Inr a \<longleftrightarrow>
    a = \<lparr>ad_tree = t, ad_text = doc, ad_profile = p\<rparr> \<and>
    (\<exists>substrate. substrate_id_for (utf8_encode doc) = Inr substrate \<and> build_document_tree doc p substrate = Inr t)"
proof
  assume "admit_tree t doc p = Inr a"
  then obtain substrate rebuilt where r: "substrate_id_for (utf8_encode doc) = Inr substrate" "build_document_tree doc p substrate = Inr rebuilt"
    "tree_json t = tree_json rebuilt" "a = \<lparr>ad_tree = t, ad_text = doc, ad_profile = p\<rparr>"
    by (auto simp: admit_tree_def res_simps split: if_splits)
  have "t = rebuilt" by (rule tree_json_inj [OF r(3)]) (use assms build_finite [OF r(2)] in blast)
  then show "a = \<lparr>ad_tree = t, ad_text = doc, ad_profile = p\<rparr> \<and>
    (\<exists>substrate. substrate_id_for (utf8_encode doc) = Inr substrate \<and> build_document_tree doc p substrate = Inr t)" using r by blast
next
  assume "a = \<lparr>ad_tree = t, ad_text = doc, ad_profile = p\<rparr> \<and>
    (\<exists>substrate. substrate_id_for (utf8_encode doc) = Inr substrate \<and> build_document_tree doc p substrate = Inr t)"
  then obtain substrate where r: "substrate_id_for (utf8_encode doc) = Inr substrate" "build_document_tree doc p substrate = Inr t"
    "a = \<lparr>ad_tree = t, ad_text = doc, ad_profile = p\<rparr>" by blast
  then show "admit_tree t doc p = Inr a" using build_substrate [OF r(2)] by (simp add: admit_tree_def)
qed

theorem admission_exact_witness:
  "\<exists>t substrate. build_document_tree ''a'' plain_dialect substrate = Inr t \<and> 
     admit_tree t ''a'' plain_dialect = Inr \<lparr>ad_tree = t, ad_text = ''a'', ad_profile = plain_dialect\<rparr>"
proof -
  have "utf8_encode ''a'' \<noteq> [] \<and> utf8_decode (utf8_encode ''a'') = Some ''a''" by code_simp
  then obtain substrate where s: "substrate_id_for (utf8_encode ''a'') = Inr substrate"
    using is_text_append [of "''substrate:sha256:''"] by (auto simp: substrate_id_for_def is_space_def py_whitespace_def sha256_hex_shape)
  have "tree_paths ''a'' plain_dialect substrate = [[]]" unfolding tree_paths_substrate [of "''a''" plain_dialect substrate "''s''"] by (rule plain_paths)
  then obtain t where t: "build_document_tree ''a'' plain_dialect substrate = Inr t"
    using build_placed [OF plain_dialect_ok, of "''a''" substrate] by auto
  have "\<forall>n \<in> set (dt_nodes t). finite (tn_flags n)" using build_finite [OF t] by blast
  then show ?thesis using admission_exact [of t "''a''" plain_dialect] s t by blast
qed

text \<open>C38. Nesting the headings gives the outline of the reference: every heading opens a section that holds the headings behind it up to the
  next one of its level or a higher one, and ends there or with the document.\<close>

theorem sections_match_reference:
  "nest (headings ls spans p) n = Outline 0 [] None 0 n (section_forest n (headings ls spans p)) \<and>
   outline_sections (nest (headings ls spans p) n) = (0, [], 0, n) # heading_sections n (headings ls spans p)"
  using nest_forest [of "headings ls spans p" n] headings_levels forest_sections by auto

text \<open>C39. The path segments of the children of a node are all different; each is the proposed one, kept whenever no earlier child has it, or
  the proposed one with a number from two on.\<close>

theorem segments_unique:
  "length (unique_segments cs) = length cs \<and> distinct (unique_segments cs) \<and>
   (\<forall>i < length cs. let proposed = propose_segments (\<lambda>_. 0) cs ! i in
      (unique_segments cs ! i = proposed \<or> (\<exists>n \<ge> 2. unique_segments cs ! i = label proposed n)) \<and>
      (proposed \<notin> set (take i (unique_segments cs)) \<longrightarrow> unique_segments cs ! i = proposed))"
proof -
  have "list_all2 (\<lambda>p s. s = p \<or> (\<exists>n \<ge> 2. s = label p n)) (propose_segments (\<lambda>_. 0) cs) (unique_segments cs)"
    unfolding unique_segments_def by (rule assign_segments_shape) simp
  moreover have "unique_segments cs ! i = propose_segments (\<lambda>_. 0) cs ! i"
    if "i < length cs" "propose_segments (\<lambda>_. 0) cs ! i \<notin> set (take i (unique_segments cs))" for i
    using assign_segments_first [of i "propose_segments (\<lambda>_. 0) cs" "[]" Map.empty] that by (simp add: unique_segments_def)
  ultimately show ?thesis using unique_segments_distinct [of cs] by (auto simp: Let_def list_all2_conv_all_nth)
qed

definition sample_sections :: "tree_child list" where
  "sample_sections = map (\<lambda>s. Child_section (Outline 1 s None 0 1 [])) [''Intro 2'', ''Intro'', ''Intro'']"

theorem segments_unique_witness:
  "unique_segments sample_sections = [''intro-2'', ''intro'', ''intro-3''] \<and> distinct (unique_segments sample_sections) \<and>
   unique_segments sample_sections ! 1 = propose_segments (\<lambda>_. 0) sample_sections ! 1"
proof -
  have "unique_segments sample_sections = [''intro-2'', ''intro'', ''intro-3'']" by code_simp
  moreover have "propose_segments (\<lambda>_. 0) sample_sections ! 1 = ''intro''" by code_simp
  ultimately show ?thesis using segments_unique [of sample_sections] by (simp add: sample_sections_def Let_def)
qed

end
