(* ===== verification/Spec2Isabelle.thy ===== *)
theory Spec2Isabelle
  imports Study_Properties Document_Properties
begin

text \<open>
  A verification library for the event-sourced core of the study-agent harness. All paths below are
  under \<^verbatim>\<open>src/src/study_agent/\<close>.

  \<^bold>\<open>The program.\<close> Everything a course remembers is a stream of immutable domain events, numbered from one
  without gaps and kept in SQLite. A registry maps each event schema to a decoder and a reducer; folding the
  reducers over a stream gives the projection of the course, a JSON object that is stored beside the stream
  and can always be rebuilt from it. Services append events through optimistic concurrency (they state the
  sequence they have read), readers decode the projection. The families of events modelled here are courses,
  study sessions and the study context; \<^verbatim>\<open>cli/repository.py\<close> registers them in one registry.

  \<^bold>\<open>Theories and sources.\<close>
  \<^item> \<^verbatim>\<open>Base\<close>: errors as values of one datatype (\<^verbatim>\<open>error\<close>, one constructor per exception class), results
    \<^verbatim>\<open>error + 'a\<close> with their bind, map and fold, the texts and identifiers of \<^verbatim>\<open>domain/_validation.py\<close> and
    \<^verbatim>\<open>domain/identifiers.py\<close>, dictionaries as association lists.
  \<^item> \<^verbatim>\<open>Json\<close>: JSON values, the canonical writer and the parser of \<^verbatim>\<open>state/serialization.py\<close>; writer and parser
    are inverse on canonical values, and the parser has enough fuel on every input.
  \<^item> \<^verbatim>\<open>Sha256\<close>: the digest, on 32-bit words, which the identities of commands use.
  \<^item> \<^verbatim>\<open>Timestamps\<close>: aware datetimes, their conversion to UTC, \<^verbatim>\<open>isoformat\<close> and \<^verbatim>\<open>fromisoformat\<close>.
  \<^item> \<^verbatim>\<open>Events\<close>: \<^verbatim>\<open>domain/events.py\<close>, \<^verbatim>\<open>domain/context.py\<close> and the event envelope of \<^verbatim>\<open>state/serialization.py\<close>
    with its round trip.
  \<^item> \<^verbatim>\<open>Registry\<close>: \<^verbatim>\<open>state/registry.py\<close> and \<^verbatim>\<open>state/projection.py\<close>. The locale \<^verbatim>\<open>projection_contract\<close> states what
    the event store relies on: reducers keep the invariant of the state, and do not distinguish an event
    from the one read back from its bytes, nor a state from one with its keys in another order.
  \<^item> \<^verbatim>\<open>Codec\<close>: the field readers the strict decoders share and the locale \<^verbatim>\<open>strict_codec\<close> of a decoder that
    accepts exactly the encodings of valid values.
  \<^item> \<^verbatim>\<open>Event_Store\<close>: \<^verbatim>\<open>adapters/sqlite/event_store.py\<close>, the two tables with their constraints and each
    operation as one transaction; \<^verbatim>\<open>store_step\<close> and \<^verbatim>\<open>reachable\<close> are its step relation and its reachable
    databases, and inside \<^verbatim>\<open>projection_contract\<close> every reachable database has projections that are the
    replay of the stored streams.
  \<^item> \<^verbatim>\<open>Courses\<close>: \<^verbatim>\<open>domain/course.py\<close> and \<^verbatim>\<open>courses/\<close>: profiles, codec, reducer, reader, catalogue and the
    creation command, which is modelled with arbitrary use of the store by others between its accesses; the
    locale \<^verbatim>\<open>course_registry\<close> says what it needs of the registry.
  \<^item> \<^verbatim>\<open>Study_Context\<close>: \<^verbatim>\<open>domain/study_context.py\<close> and \<^verbatim>\<open>study_context/{events,projection,view}.py\<close>: statements
    about the learner, retractions, conflict resolutions and the snapshot reader. \<^verbatim>\<open>Study_Lifecycle\<close> gives the
    abstract specification (finite maps of statements with a status) and the refinement of each reducer.
  \<^item> \<^verbatim>\<open>Grounding\<close>: \<^verbatim>\<open>domain/{source,provenance,grounding}.py\<close> and the answer codec of \<^verbatim>\<open>sessions/events.py\<close>.
  \<^item> \<^verbatim>\<open>Session_Events\<close>: \<^verbatim>\<open>domain/session.py\<close> and \<^verbatim>\<open>sessions/events.py\<close>. \<^verbatim>\<open>Session_Summary\<close>:
    \<^verbatim>\<open>sessions/summary.py\<close>. \<^verbatim>\<open>Sessions\<close>: the eight reducers of \<^verbatim>\<open>sessions/projection.py\<close>, and
    \<^verbatim>\<open>Session_Contract\<close> that they keep the projection contract.
  \<^item> \<^verbatim>\<open>Repository\<close>: the registry of all families; it interprets \<^verbatim>\<open>projection_contract\<close> and
    \<^verbatim>\<open>course_registry\<close>, and \<^verbatim>\<open>repository_step\<close> says what one reduction does. \<^verbatim>\<open>Session_Lifecycle\<close>: the abstract
    session, refined by every reduction of the repository.
  This theory holds the properties of the whole repository: the store with its registry, and the course
  command on it.

  \<^bold>\<open>What the lemmas show.\<close> The store: replay equals state in every reachable database, appends are atomic,
  gapless and exclusive, the event table is append-only, lost or damaged projections are restored. Codecs:
  canonical bytes decide equality of JSON objects, events survive storage, decoders accept exactly the
  encodings of valid values. Courses: creation is linearizable, idempotent, live and immutable. Study
  context: the reducers refine the abstract statements, keep the invariant the reader needs, and statements
  never come back once superseded or retracted. Sessions: accepted answers are grounded, summaries stay in
  budget, histories only grow and follow the lifecycle.

  \<^bold>\<open>Bounds and fuel.\<close> The parser runs on fuel \<^verbatim>\<open>2 * length + 1\<close>; a theorem shows that this suffices for every input. No
  other definition has fuel. Integers are Python's unbounded ones, except in SHA-256, where they are words.

  \<^bold>\<open>Limits of the model.\<close> Characters are the 256 of HOL, so texts are Latin-1 and the ellipsis is represented
  by one of them; the codec escapes and encodes every character of that range as the source does. JSON numbers are integers; the
  source refuses non-finite floats and its values have no others in the modelled families.
  \<^verbatim>\<open>fromisoformat\<close> is modelled on the spellings \<^verbatim>\<open>isoformat\<close> writes. Every transaction is atomic and
  serializable, as the adapter opens it (\<^verbatim>\<open>BEGIN IMMEDIATE\<close>); concurrency is the interleaving of
  transactions. Exceptions keep their class and not their message. Checks of Python types that the types of the
  model already guarantee are left out, and so are the checks of identities that cannot fail.

  \<^bold>\<open>Not modelled.\<close> Operating-system calls (files, locks, network, processes), the command line, prompts,
  demonstrations, and the families whose events are not registered here: artifacts, assessments, exams,
  feedback, flashcards, knowledge, ingestion, retrieval, playbooks and workers.
\<close>

section \<open>Properties\<close>











text \<open>C16. A course profile is immutable: once a course exists, no further use of the store changes or removes it.\<close>

theorem course_immutable:
  assumes "reachable repository_registry db" and "(store_step repository_registry)\<^sup>*\<^sup>* db db'"
    and "has_course repository_registry db c p"
  shows "course_view_get repository_registry c db' = (Inr p, db')"
proof -
  have ok: "store_ok repository_registry db" by (rule repo.reachable_store_ok [OF assms(1)])
  have "has_course repository_registry db' c p" by (rule repo_courses.has_course_kept [OF ok assms(2,3)])
  then show ?thesis using repo_courses.view_get_iff [OF repo.store_ok_steps [OF assms(2) ok]] by blast
qed

theorem course_immutable_witness:
  "\<exists>db. course_view_get repository_registry ''bio'' db = (Inr sample_profile, db)"
  using sample_database course_immutable [OF _ rtranclp.rtrancl_refl] by blast

text \<open>Untrusted or misdirected requests are refused before the store is touched.\<close>

theorem course_create_refuses:
  assumes "ctx_course ctx \<noteq> cp_id p \<or> ctx_session ctx \<noteq> None \<or> ctx_kind ctx = MODEL"
  shows "course_create reg env now p ctx expected db = (Inl CourseCommandError, db)"
  using assms by (auto simp: course_create_def trusted_kind_def)

theorem course_create_refuses_witness:
  "course_create repository_registry (\<lambda>_ db. db) example_time sample_profile (sample_context\<lparr>ctx_kind := MODEL\<rparr>) None empty_database =
    (Inl CourseCommandError, empty_database)"
  by (rule course_create_refuses) simp

end
